(* ===== verification/Prelude.thy ===== *)
theory Prelude
  imports Main "HOL-Library.Word"
begin

text \<open>
  Shared vocabulary of the development: the machine types of the C code on the LP64
  platforms nginx is built for, the status codes, byte strings and the generic lemmas that
  the component theories use.

  \<^item> \<open>byte\<close> is \<^verbatim>\<open>u_char\<close>, \<open>u32\<close> is \<^verbatim>\<open>uint32_t\<close>, \<open>ngx_uint\<close> and \<open>ngx_int\<close> are the 64-bit
    \<^verbatim>\<open>ngx_uint_t\<close> and \<^verbatim>\<open>ngx_int_t\<close> (also \<^verbatim>\<open>size_t\<close>, \<^verbatim>\<open>ssize_t\<close>, \<^verbatim>\<open>off_t\<close>, \<^verbatim>\<open>time_t\<close>). A signed
    value is the same word read with \<open>sint\<close>.
  \<^item> A pair of a data pointer and a length is a \<open>byte list\<close>. An \<^verbatim>\<open>ngx_str_t\<close> whose data
    pointer may be \<^verbatim>\<open>NULL\<close> is a \<open>byte list option\<close>, \<open>None\<close> being \<^verbatim>\<open>ngx_null_string\<close>.
  \<^item> Functions that return a status return \<open>ngx_rc\<close>; functions that return a number or
    \<^verbatim>\<open>NGX_ERROR\<close> return the word, with \<open>NGX_ERROR_VAL\<close> for \<^verbatim>\<open>NGX_ERROR\<close>.
\<close>

unbundle bit_operations_syntax

section \<open>Machine types\<close>

type_synonym byte = "8 word"
type_synonym u32 = "32 word"
type_synonym ngx_uint = "64 word"
type_synonym ngx_int = "64 word"
type_synonym bytes = "byte list"
type_synonym ngx_str = "bytes option"

abbreviation (input) bs :: "string \<Rightarrow> bytes" where
  "bs s \<equiv> map of_char s"

abbreviation (input) cb :: "char \<Rightarrow> byte" where
  "cb c \<equiv> of_char c"

abbreviation CR :: byte where "CR \<equiv> 13"
abbreviation LF :: byte where "LF \<equiv> 10"

text \<open>The status codes of \<^verbatim>\<open>ngx_core.h\<close> and the HTTP status codes a handler may return.\<close>

datatype ngx_rc =
    NGX_OK
  | NGX_ERROR
  | NGX_AGAIN
  | NGX_BUSY
  | NGX_DONE
  | NGX_DECLINED
  | NGX_ABORT
  | NGX_HTTP nat

definition NGX_ERROR_VAL :: ngx_int where
  "NGX_ERROR_VAL = - 1"

text \<open>
  A configuration command returns \<open>None\<close> for \<^verbatim>\<open>NGX_CONF_OK\<close> and \<open>Some\<close> with the message otherwise,
  \<^verbatim>\<open>NGX_CONF_ERROR\<close> being the empty message.
\<close>

type_synonym conf_result = "string option"

definition str_len :: "ngx_str \<Rightarrow> nat" where
  "str_len s = (case s of None \<Rightarrow> 0 | Some d \<Rightarrow> length d)"

definition str_bytes :: "ngx_str \<Rightarrow> bytes" where
  "str_bytes s = (case s of None \<Rightarrow> [] | Some d \<Rightarrow> d)"

lemma str_len_simps [simp]: "str_len None = 0" "str_len (Some d) = length d"
  by (simp_all add: str_len_def)

lemma str_bytes_simps [simp]: "str_bytes None = []" "str_bytes (Some d) = d"
  by (simp_all add: str_bytes_def)

lemma length_str_bytes [simp]: "length (str_bytes s) = str_len s"
  by (cases s) simp_all

section \<open>Lemma collections\<close>

named_theorems byte_simps \<open>facts about single bytes\<close>
named_theorems step_simps \<open>unfolding of single parser or engine steps\<close>

section \<open>Words\<close>

lemma unat_byte_less [simp]: "unat (b :: byte) < 256"
proof -
  have "unat b < 2 ^ LENGTH(8)" by (rule unsigned_less)
  then show ?thesis by simp
qed

lemma unat_u64_less: "unat (w :: 64 word) < 2 ^ 64"
proof -
  have "unat w < 2 ^ LENGTH(64)" by (rule unsigned_less)
  then show ?thesis by simp
qed

lemma byte_of_nat_cases:
  assumes "\<And>n. n < 256 \<Longrightarrow> P (of_nat n :: byte)"
  shows "P b"
proof -
  from assms [OF unat_byte_less] have "P (of_nat (unat b))" .
  then show ?thesis by simp
qed

text \<open>A 64-bit value is negative as a signed integer exactly when its top bit is set.\<close>

lemma sint64_neg_iff: "sint (w :: 64 word) < 0 \<longleftrightarrow> 2 ^ 63 \<le> unat w"
proof -
  have "sint w < 0 \<longleftrightarrow> bit w 63"
    using bit_last_iff [of w] by simp
  also have "\<dots> \<longleftrightarrow> odd (unat w div 2 ^ 63)"
    by (metis bit_iff_odd bit_unsigned_iff possible_bit_nat)
  also have "\<dots> \<longleftrightarrow> 2 ^ 63 \<le> unat w"
  proof (cases "unat w < 2 ^ 63")
    case False
    with unat_u64_less [of w] have "unat w div 2 ^ 63 = 1" by (intro div_nat_eqI) simp_all
    with False show ?thesis by simp
  qed simp
  finally show ?thesis .
qed

lemma sint_small: "unat w < 2 ^ 63 \<Longrightarrow> sint w = int (unat w)" for w :: "64 word"
proof -
  assume w: "unat w < 2 ^ 63"
  then have "\<not> sint w < 0" by (simp add: sint64_neg_iff)
  then have "\<not> bit w 63" using bit_last_iff [of w] by simp
  moreover have "uint w < 2 ^ 63" using w by (simp add: uint_nat del: int_nat_eq of_nat_unat)
  ultimately have "sint w = uint w"
    by (simp add: sint_uint signed_take_bit_eq_if_positive bit_uint_iff take_bit_int_eq_self)
  then show ?thesis by simp
qed

lemma unat_of_nat64: "n < 2 ^ 64 \<Longrightarrow> unat (of_nat n :: 64 word) = n"
  by (simp add: unat_of_nat)

lemma ucast_of_byte: "(ucast (b :: byte) :: 64 word) = of_nat (unat b)"
  by (simp add: unsigned_of_nat unsigned_ucast_eq word_eq_iff_unsigned unat_of_nat take_bit_eq_mod
      order_less_trans [OF unat_byte_less])

text \<open>Bytes bit by bit: equality and a bound below \<open>64\<close> reduce to single bits.\<close>

lemma byte_eq_bits:
  "(x :: byte) = y \<longleftrightarrow>
     bit x 0 = bit y 0 \<and> bit x 1 = bit y 1 \<and> bit x 2 = bit y 2 \<and> bit x 3 = bit y 3 \<and>
     bit x 4 = bit y 4 \<and> bit x 5 = bit y 5 \<and> bit x 6 = bit y 6 \<and> bit x 7 = bit y 7"
  (is "_ \<longleftrightarrow> ?bits")
proof
  assume b: ?bits
  show "x = y"
  proof (rule bit_word_eqI)
    fix n assume "n < LENGTH(8)"
    then have "n \<in> {0, 1, 2, 3, 4, 5, 6, 7}" by auto
    with b show "bit x n = bit y n" by auto
  qed
qed simp

lemma not_bit_byte [simp]: "8 \<le> n \<Longrightarrow> \<not> bit (x :: byte) n"
  using bit_imp_le_length [of x n] by auto

lemma byte_below_64:
  assumes "\<not> bit (x :: byte) 6" and "\<not> bit x 7"
  shows "unat x < 64"
proof -
  have "take_bit 6 x = x" using assms by (simp add: byte_eq_bits bit_take_bit_iff)
  then have "unat x = take_bit 6 (unat x)" by (metis unsigned_take_bit_eq)
  also have "\<dots> < 2 ^ 6" by (rule take_bit_nat_less_exp)
  finally show ?thesis by simp
qed

section \<open>Suffixes\<close>

lemma drop_one: "i < length s \<Longrightarrow> drop i s = s ! i # drop (Suc i) s"
  by (simp add: Cons_nth_drop_Suc)

lemma drop_takeWhile: "drop (i + length (takeWhile P (drop i s))) s = dropWhile P (drop i s)"
  by (metis drop_drop add.commute dropWhile_eq_drop)

section \<open>Lists of rows of one length\<close>

lemma concat_nth_rows:
  "\<lbrakk>\<forall>r \<in> set rows. length r = step; i < length rows; j < step\<rbrakk> \<Longrightarrow> concat rows ! (i * step + j) = rows ! i ! j"
proof (induction rows arbitrary: i)
  case (Cons r rows)
  then show ?case by (cases i) (auto simp: nth_append)
qed simp

lemma length_concat_rows: "\<forall>r \<in> set rows. length r = step \<Longrightarrow> length (concat rows) = length rows * step"
  by (induction rows) auto

section \<open>Fields between delimiters\<close>

fun split_fields :: "'a \<Rightarrow> 'a list \<Rightarrow> 'a list list" where
  "split_fields d [] = [[]]"
| "split_fields d (c # cs) =
     (if c = d then [] # split_fields d cs else (c # hd (split_fields d cs)) # tl (split_fields d cs))"

lemma split_fields_not_Nil [simp]: "split_fields d cs \<noteq> []"
  by (induction cs) simp_all

lemma split_fields_append [simp]: "d \<notin> set a \<Longrightarrow> split_fields d (a @ d # b) = a # split_fields d b"
  by (induction a) auto

lemma split_fields_single [simp]: "d \<notin> set a \<Longrightarrow> split_fields d a = [a]"
  by (induction a) auto

end
