(* ===== verification/Ngx_Number.thy ===== *)
theory Ngx_Number
  imports Prelude
begin

text \<open>
  The number readers and printers of \<^verbatim>\<open>src/core/ngx_string.c\<close> and \<^verbatim>\<open>src/core/ngx_parse.c\<close>:
  \<^verbatim>\<open>ngx_atoi\<close> and its variants for \<^verbatim>\<open>ssize_t\<close>, \<^verbatim>\<open>off_t\<close> and \<^verbatim>\<open>time_t\<close>, \<^verbatim>\<open>ngx_hextoi\<close>,
  \<^verbatim>\<open>ngx_hex_dump\<close>, \<^verbatim>\<open>ngx_parse_size\<close>, \<^verbatim>\<open>ngx_parse_offset\<close> and \<^verbatim>\<open>ngx_parse_time\<close>. All arithmetic is
  on 64-bit words, so that the overflow of a long digit string is visible: the readers test
  only the sign of the final value.
\<close>

section \<open>Decimal readers\<close>

text \<open>The loop shared by the four decimal readers; \<open>None\<close> is the early \<^verbatim>\<open>return NGX_ERROR\<close>.\<close>

fun ngx_ato_loop :: "ngx_int \<Rightarrow> bytes \<Rightarrow> ngx_int option" where
  "ngx_ato_loop value [] = Some value"
| "ngx_ato_loop value (c # line) =
     (if c < cb (CHR ''0'') \<or> c > cb (CHR ''9'') then None
      else ngx_ato_loop (value * 10 + ucast (c - cb (CHR ''0''))) line)"

definition ngx_atoi :: "bytes \<Rightarrow> ngx_int" where
  "ngx_atoi line =
     (if line = [] then NGX_ERROR_VAL
      else case ngx_ato_loop 0 line of
             None \<Rightarrow> NGX_ERROR_VAL
           | Some value \<Rightarrow> if value <s 0 then NGX_ERROR_VAL else value)"

definition ngx_atosz :: "bytes \<Rightarrow> ngx_int" where
  "ngx_atosz line =
     (if line = [] then NGX_ERROR_VAL
      else case ngx_ato_loop 0 line of
             None \<Rightarrow> NGX_ERROR_VAL
           | Some value \<Rightarrow> if value <s 0 then NGX_ERROR_VAL else value)"

definition ngx_atoof :: "bytes \<Rightarrow> ngx_int" where
  "ngx_atoof line =
     (if line = [] then NGX_ERROR_VAL
      else case ngx_ato_loop 0 line of
             None \<Rightarrow> NGX_ERROR_VAL
           | Some value \<Rightarrow> if value <s 0 then NGX_ERROR_VAL else value)"

definition ngx_atotm :: "bytes \<Rightarrow> ngx_int" where
  "ngx_atotm line =
     (if line = [] then NGX_ERROR_VAL
      else case ngx_ato_loop 0 line of
             None \<Rightarrow> NGX_ERROR_VAL
           | Some value \<Rightarrow> if value <s 0 then NGX_ERROR_VAL else value)"

section \<open>Hexadecimal reader and printer\<close>

text \<open>One hexadecimal digit as \<^verbatim>\<open>ngx_hextoi\<close> and \<^verbatim>\<open>ngx_unescape_uri\<close> test it.\<close>

definition hex_digit :: "byte \<Rightarrow> byte option" where
  "hex_digit ch =
     (if ch \<ge> cb (CHR ''0'') \<and> ch \<le> cb (CHR ''9'') then Some (ch - cb (CHR ''0''))
      else let c = ch OR 0x20 in
        if c \<ge> cb (CHR ''a'') \<and> c \<le> cb (CHR ''f'') then Some (c - cb (CHR ''a'') + 10)
        else None)"

fun ngx_hextoi_loop :: "ngx_int \<Rightarrow> bytes \<Rightarrow> ngx_int option" where
  "ngx_hextoi_loop value [] = Some value"
| "ngx_hextoi_loop value (ch # line) =
     (case hex_digit ch of
        None \<Rightarrow> None
      | Some d \<Rightarrow> ngx_hextoi_loop (value * 16 + ucast d) line)"

definition ngx_hextoi :: "bytes \<Rightarrow> ngx_int" where
  "ngx_hextoi line =
     (if line = [] then NGX_ERROR_VAL
      else case ngx_hextoi_loop 0 line of
             None \<Rightarrow> NGX_ERROR_VAL
           | Some value \<Rightarrow> if value <s 0 then NGX_ERROR_VAL else value)"

definition hex :: bytes where
  "hex = bs ''0123456789abcdef''"

fun ngx_hex_dump :: "bytes \<Rightarrow> bytes" where
  "ngx_hex_dump [] = []"
| "ngx_hex_dump (c # src) =
     hex ! unat (drop_bit 4 c) # hex ! unat (c AND 0xf) # ngx_hex_dump src"

section \<open>Sizes and offsets with a unit\<close>

text \<open>
  The last byte selects the scale, and the product may wrap. The result is \<open>None\<close> where the C
  code reads the byte before an empty buffer (\<^verbatim>\<open>line->data[len - 1]\<close> with \<^verbatim>\<open>len = 0\<close>).
\<close>

definition ngx_parse_size :: "bytes \<Rightarrow> ngx_int option" where
  "ngx_parse_size line =
     (if line = [] then None
      else
        let unit = last line;
            (len, scale) =
              (if unit = cb (CHR ''K'') \<or> unit = cb (CHR ''k'') then (length line - 1, 1024)
               else if unit = cb (CHR ''M'') \<or> unit = cb (CHR ''m'')
                 then (length line - 1, 1024 * 1024)
               else (length line, 1));
            size = ngx_atosz (take len line)
        in Some (if size = NGX_ERROR_VAL then NGX_ERROR_VAL else size * scale))"

definition ngx_parse_offset :: "bytes \<Rightarrow> ngx_int option" where
  "ngx_parse_offset line =
     (if line = [] then None
      else
        let unit = last line;
            (len, scale) =
              (if unit = cb (CHR ''K'') \<or> unit = cb (CHR ''k'') then (length line - 1, 1024)
               else if unit = cb (CHR ''M'') \<or> unit = cb (CHR ''m'')
                 then (length line - 1, 1024 * 1024)
               else if unit = cb (CHR ''G'') \<or> unit = cb (CHR ''g'')
                 then (length line - 1, 1024 * 1024 * 1024)
               else (length line, 1));
            offset = ngx_atoof (take len line)
        in Some (if offset = NGX_ERROR_VAL then NGX_ERROR_VAL else offset * scale))"

section \<open>Times with units\<close>

text \<open>The \<^verbatim>\<open>step\<close> enumeration of \<^verbatim>\<open>ngx_parse_time\<close>, compared with \<^verbatim>\<open>>\<close> in the code.\<close>

abbreviation (input) st_start :: nat where "st_start \<equiv> 0"
abbreviation (input) st_year :: nat where "st_year \<equiv> 1"
abbreviation (input) st_month :: nat where "st_month \<equiv> 2"
abbreviation (input) st_week :: nat where "st_week \<equiv> 3"
abbreviation (input) st_day :: nat where "st_day \<equiv> 4"
abbreviation (input) st_hour :: nat where "st_hour \<equiv> 5"
abbreviation (input) st_min :: nat where "st_min \<equiv> 6"
abbreviation (input) st_sec :: nat where "st_sec \<equiv> 7"
abbreviation (input) st_msec :: nat where "st_msec \<equiv> 8"
abbreviation (input) st_last :: nat where "st_last \<equiv> 9"

text \<open>
  The \<^verbatim>\<open>switch (*p++)\<close>: the new step, the maximum and the scale of the unit, and the rest of
  the line; \<open>None\<close> is \<^verbatim>\<open>return NGX_ERROR\<close>. After \<^verbatim>\<open>m\<close> the code looks at \<^verbatim>\<open>*p\<close> even at the end
  of the line, where it reads the byte \<open>nxt\<close> that follows the buffer.
\<close>

definition parse_time_unit ::
  "byte \<Rightarrow> bool \<Rightarrow> nat \<Rightarrow> byte \<Rightarrow> bytes \<Rightarrow> (nat \<times> ngx_uint \<times> ngx_int \<times> bytes) option" where
  "parse_time_unit nxt sec step c p =
     (if c = cb (CHR ''y'') then
        if step > st_start then None else Some (st_year, 68, 60 * 60 * 24 * 365, p)
      else if c = cb (CHR ''M'') then
        if step > st_year then None else Some (st_month, 828, 60 * 60 * 24 * 30, p)
      else if c = cb (CHR ''w'') then
        if step > st_month then None else Some (st_week, 3550, 60 * 60 * 24 * 7, p)
      else if c = cb (CHR ''d'') then
        if step > st_week then None else Some (st_day, 24855, 60 * 60 * 24, p)
      else if c = cb (CHR ''h'') then
        if step > st_day then None else Some (st_hour, 596523, 60 * 60, p)
      else if c = cb (CHR ''m'') then
        if (case p of [] \<Rightarrow> nxt | d # _ \<Rightarrow> d) = cb (CHR ''s'') then
          if sec \<or> step > st_sec then None else Some (st_msec, 2147483647, 1, tl p)
        else if step > st_hour then None else Some (st_min, 35791394, 60, p)
      else if c = cb (CHR ''s'') then
        if step > st_min then None else Some (st_sec, 2147483647, 1, p)
      else if c = cb (CHR '' '') then
        if step > st_min then None else Some (st_last, 2147483647, 1, p)
      else None)"

lemma parse_time_unit_shorter:
  "parse_time_unit nxt sec step c p = Some (st, mx, sc, p') \<Longrightarrow> length p' \<le> length p"
  by (auto simp: parse_time_unit_def split: if_splits)

lemma length_dropWhile_rest: "length (dropWhile P p) < Suc (length p')" if "length p \<le> length p'"
  using that length_dropWhile_le [of P p] by linarith

function ngx_parse_time_loop ::
  "byte \<Rightarrow> bool \<Rightarrow> bool \<Rightarrow> ngx_int \<Rightarrow> ngx_int \<Rightarrow> nat \<Rightarrow> ngx_int \<Rightarrow> bytes \<Rightarrow> ngx_int" where
  "ngx_parse_time_loop nxt sec valid value tot step scale [] =
     (if valid then tot + value * scale else NGX_ERROR_VAL)"
| "ngx_parse_time_loop nxt sec valid value tot step scale (c # p) =
     (if c \<ge> cb (CHR ''0'') \<and> c \<le> cb (CHR ''9'') then
        ngx_parse_time_loop nxt sec True (value * 10 + ucast (c - cb (CHR ''0''))) tot step scale p
      else
        case parse_time_unit nxt sec step c p of
          None \<Rightarrow> NGX_ERROR_VAL
        | Some (step', mx, scale', p') \<Rightarrow>
            let (scale', mx) =
                  (if step' \<noteq> st_msec \<and> \<not> sec then (scale' * 1000, mx div 1000) else (scale', mx))
            in if value > mx then NGX_ERROR_VAL
               else let tot = tot + value * scale'
                 in if tot > 2147483647 then NGX_ERROR_VAL
                    else ngx_parse_time_loop nxt sec valid 0 tot step'
                           (if sec then 1 else 1000)
                           (dropWhile (\<lambda>d. d = cb (CHR '' '')) p'))"
  by pat_completeness auto
termination
  by (relation "measure (\<lambda>(nxt, sec, valid, value, tot, step, scale, p). length p)")
    (auto dest!: parse_time_unit_shorter intro: length_dropWhile_rest)

definition ngx_parse_time :: "byte \<Rightarrow> bytes \<Rightarrow> bool \<Rightarrow> ngx_int" where
  "ngx_parse_time nxt line sec =
     ngx_parse_time_loop nxt sec False 0 0 (if sec then st_start else st_month)
       (if sec then 1 else 1000) line"

section \<open>Decimal readers: what they compute\<close>

definition is_dec :: "byte \<Rightarrow> bool" where
  "is_dec c \<longleftrightarrow> 48 \<le> c \<and> c \<le> 57"

primrec dec_from :: "nat \<Rightarrow> bytes \<Rightarrow> nat" where
  "dec_from v [] = v"
| "dec_from v (c # cs) = dec_from (v * 10 + (unat c - 48)) cs"

abbreviation dec_val :: "bytes \<Rightarrow> nat" where
  "dec_val \<equiv> dec_from 0"

lemma ucast_digit: "48 \<le> c \<Longrightarrow> (ucast (c - 48 :: byte) :: 64 word) = of_nat (unat c - 48)"
  by (simp add: ucast_of_byte unat_sub del: of_nat_diff)

lemma not_is_dec: "\<not> is_dec c \<longleftrightarrow> c < 48 \<or> c > 57"
  by (auto simp: is_dec_def not_le)

lemma ato_loop_eq:
  "ngx_ato_loop (of_nat v) s =
     (if list_all is_dec s then Some (of_nat (dec_from v s)) else None)"
proof (induction s arbitrary: v)
  case (Cons c s)
  show ?case
  proof (cases "is_dec c")
    case True
    then have "of_nat v * 10 + ucast (c - 48) = (of_nat (v * 10 + (unat c - 48)) :: 64 word)"
      by (simp add: is_dec_def ucast_digit del: of_nat_diff)
    with True Cons.IH [of "v * 10 + (unat c - 48)"] show ?thesis
      by (auto simp: is_dec_def)
  next
    case False
    then show ?thesis by (auto simp: not_is_dec)
  qed
qed simp

lemma ato_loop_0: "ngx_ato_loop 0 s = (if list_all is_dec s then Some (of_nat (dec_val s)) else None)"
  using ato_loop_eq [of 0 s] by simp

lemma sless_0_iff: "(w :: 64 word) <s 0 \<longleftrightarrow> 2 ^ 63 \<le> unat w"
  by (simp add: word_sless_alt sint64_neg_iff)

lemma atosz_eq_atoi: "ngx_atosz = ngx_atoi"
  by (rule ext) (simp add: ngx_atosz_def ngx_atoi_def)

lemma atoof_eq_atoi: "ngx_atoof = ngx_atoi"
  by (rule ext) (simp add: ngx_atoof_def ngx_atoi_def)

lemma atotm_eq_atoi: "ngx_atotm = ngx_atoi"
  by (rule ext) (simp add: ngx_atotm_def ngx_atoi_def)

lemmas atoi_variants = atosz_eq_atoi atoof_eq_atoi atotm_eq_atoi

lemma atoi_digits:
  assumes "s \<noteq> []" and "list_all is_dec s" and "dec_val s < 2 ^ 63"
  shows "ngx_atoi s = of_nat (dec_val s)"
proof -
  have "unat (of_nat (dec_val s) :: 64 word) = dec_val s"
    using assms(3) by (intro unat_of_nat64) simp
  with assms show ?thesis by (simp add: ngx_atoi_def ato_loop_0 sless_0_iff)
qed

text \<open>
  \<^verbatim>\<open>ngx_atoi\<close> accepts exactly the non-empty strings of decimal digits whose value, reduced
  modulo \<open>2 ^ 64\<close>, has its top bit clear, and returns that reduced value; every other input
  gives \<^verbatim>\<open>NGX_ERROR\<close>. So the value is right whenever the number fits a signed 64-bit integer,
  and a number of \<open>2 ^ 64\<close> or more is accepted with a wrapped value.
\<close>

theorem ngx_atoi_spec:
  "ngx_atoi line =
     (if line \<noteq> [] \<and> list_all is_dec line \<and> dec_val line mod 2 ^ 64 < 2 ^ 63
      then of_nat (dec_val line) else NGX_ERROR_VAL)"
  by (auto simp: ngx_atoi_def ato_loop_0 sless_0_iff unat_of_nat not_le)

lemma ngx_atoi_wraps: "ngx_atoi (bs ''18446744073709551617'') = 1"
  by (simp add: ngx_atoi_def word_sless_alt)

section \<open>Hexadecimal reader and printer: round trip\<close>

primrec be_from :: "nat \<Rightarrow> bytes \<Rightarrow> nat" where
  "be_from v [] = v"
| "be_from v (c # cs) = be_from (v * 256 + unat c) cs"

abbreviation be_val :: "bytes \<Rightarrow> nat" where
  "be_val \<equiv> be_from 0"

lemma length_ngx_hex_dump [simp]: "length (ngx_hex_dump s) = 2 * length s"
  by (induction s) auto

lemma hex_digit_hex: "n < 16 \<Longrightarrow> hex_digit (hex ! n) = Some (of_nat n)"
proof -
  have "list_all (\<lambda>n. hex_digit (hex ! n) = Some (of_nat n)) [0..<16]"
    by (simp add: hex_def hex_digit_def Let_def upt_rec)
  then show "n < 16 \<Longrightarrow> hex_digit (hex ! n) = Some (of_nat n)"
    by (simp add: list_all_iff)
qed

lemma unat_hi_nibble: "unat (drop_bit 4 (c :: byte)) = unat c div 16"
  by (simp add: drop_bit_eq_div unat_div)

lemma unat_lo_nibble: "unat ((c :: byte) AND 0xf) = unat c mod 16"
proof -
  have "c AND 0xf = take_bit 4 c" by (simp add: take_bit_eq_mask mask_eq_exp_minus_1)
  then show ?thesis by (simp add: take_bit_eq_mod unat_mod)
qed

lemma hextoi_loop_dump:
  "ngx_hextoi_loop (of_nat v) (ngx_hex_dump s) = Some (of_nat (be_from v s))"
proof (induction s arbitrary: v)
  case (Cons c s)
  have hi: "unat c div 16 < 16" using unat_byte_less [of c] by (simp add: less_mult_imp_div_less)
  have small: "n < 16 \<Longrightarrow> (ucast (of_nat n :: byte) :: 64 word) = of_nat n" for n
    by (simp add: ucast_of_byte unat_of_nat)
  have acc: "(of_nat v * 16 + of_nat (unat c div 16)) * 16 + of_nat (unat c mod 16)
      = (of_nat (v * 256 + unat c) :: 64 word)"
  proof -
    have "(v * 16 + unat c div 16) * 16 + unat c mod 16 = v * 256 + unat c"
      by (simp add: algebra_simps)
    then have "(of_nat ((v * 16 + unat c div 16) * 16 + unat c mod 16) :: 64 word)
        = of_nat (v * 256 + unat c)" by simp
    then show ?thesis by (simp only: of_nat_add of_nat_mult of_nat_numeral)
  qed
  have "ngx_hextoi_loop (of_nat v) (ngx_hex_dump (c # s)) =
      ngx_hextoi_loop ((of_nat v * 16 + of_nat (unat c div 16)) * 16 + of_nat (unat c mod 16))
        (ngx_hex_dump s)"
    using hi by (simp add: hex_digit_hex unat_hi_nibble unat_lo_nibble small del: of_nat_unat)
  also have "\<dots> = Some (of_nat (be_from v (c # s)))"
    by (simp only: acc Cons.IH be_from.simps)
  finally show ?case .
qed simp

text \<open>
  \<^verbatim>\<open>ngx_hextoi\<close> reads back what \<^verbatim>\<open>ngx_hex_dump\<close> writes: two digits per byte, and the value is
  the bytes read as a big-endian number, whenever that number is below \<open>2 ^ 63\<close>.
\<close>

theorem hextoi_hex_dump:
  assumes "s \<noteq> []" and "be_val s < 2 ^ 63"
  shows "length (ngx_hex_dump s) = 2 * length s \<and> unat (ngx_hextoi (ngx_hex_dump s)) = be_val s"
proof -
  have l: "ngx_hextoi_loop 0 (ngx_hex_dump s) = Some (of_nat (be_val s))"
    using hextoi_loop_dump [of 0 s] by simp
  have u: "unat (of_nat (be_val s) :: 64 word) = be_val s"
    using assms(2) by (intro unat_of_nat64) simp
  have "ngx_hex_dump s \<noteq> []" using assms(1) by (cases s) auto
  with l u assms show ?thesis by (simp add: ngx_hextoi_def sless_0_iff)
qed

theorem hextoi_hex_dump_witness:
  "length (ngx_hex_dump [0xca, 0xfe, 0x01]) = 6 \<and>
   unat (ngx_hextoi (ngx_hex_dump [0xca, 0xfe, 0x01])) = 13303297"
  using hextoi_hex_dump [of "[0xca, 0xfe, 0x01]"] by simp

section \<open>Sizes and times\<close>

definition size_units :: "(bytes \<times> nat) list" where
  "size_units = [([], 1), (bs ''k'', 1024), (bs ''K'', 1024), (bs ''m'', 1048576), (bs ''M'', 1048576)]"

lemma last_digit_no_unit: "is_dec c \<Longrightarrow> c \<noteq> 75 \<and> c \<noteq> 107 \<and> c \<noteq> 77 \<and> c \<noteq> 109"
  by (auto simp: is_dec_def)

lemma of_nat63_not_error: "n < 2 ^ 63 \<Longrightarrow> (of_nat n :: 64 word) \<noteq> NGX_ERROR_VAL"
proof
  assume n: "n < 2 ^ 63" and e: "(of_nat n :: 64 word) = NGX_ERROR_VAL"
  from n have "unat (of_nat n :: 64 word) = n" by (intro unat_of_nat64) simp
  with e n show False
    by (simp add: NGX_ERROR_VAL_def unsigned_minus_1_eq_mask mask_eq_exp_minus_1)
qed

text \<open>
  \<^verbatim>\<open>ngx_parse_size\<close> on a digit string followed by no unit or one of \<^verbatim>\<open>k\<close>, \<^verbatim>\<open>K\<close>, \<^verbatim>\<open>m\<close>, \<^verbatim>\<open>M\<close> gives the
  number times the unit's scale, as a 64-bit product.
\<close>

theorem ngx_parse_size_units:
  assumes "d \<noteq> []" and "list_all is_dec d" and "dec_val d < 2 ^ 63"
    and "(u, scale) \<in> set size_units"
  shows "ngx_parse_size (d @ u) = Some (of_nat (dec_val d * scale))"
proof -
  have "is_dec (last d)" using assms(1,2) by (simp add: list_all_iff)
  note nu = last_digit_no_unit [OF this]
  note v = atoi_digits [OF assms(1-3)] of_nat63_not_error [OF assms(3)]
  from assms(4) consider "u = [] \<and> scale = 1" | "u \<in> {[107], [75]} \<and> scale = 1024"
    | "u \<in> {[109], [77]} \<and> scale = 1048576"
    by (auto simp: size_units_def)
  then show ?thesis
    using assms(1) nu v by cases (auto simp: ngx_parse_size_def atoi_variants)
qed

theorem ngx_parse_size_units_witness:
  "ngx_parse_size (bs ''64'' @ bs ''k'') = Some 65536"
  using ngx_parse_size_units [of "bs ''64''" "bs ''k''" 1024]
  by (simp add: size_units_def is_dec_def)

lemma ngx_parse_size_wraps: "ngx_parse_size (bs ''17592186044417m'') = Some 1048576"
  by (simp add: ngx_parse_size_def ngx_atosz_def word_sless_alt NGX_ERROR_VAL_def)

text \<open>The units of \<^verbatim>\<open>ngx_parse_time\<close> in seconds: order, largest count and scale.\<close>

definition time_units :: "(byte \<times> nat \<times> nat \<times> nat) list" where
  "time_units =
     [(cb (CHR ''y''), 1, 68, 31536000), (cb (CHR ''M''), 2, 828, 2592000),
      (cb (CHR ''w''), 3, 3550, 604800), (cb (CHR ''d''), 4, 24855, 86400),
      (cb (CHR ''h''), 5, 596523, 3600), (cb (CHR ''m''), 6, 35791394, 60),
      (cb (CHR ''s''), 7, 2147483647, 1)]"

primrec time_parts_ok :: "nat \<Rightarrow> nat \<Rightarrow> (bytes \<times> byte) list \<Rightarrow> bool" where
  "time_parts_ok step tot [] = True"
| "time_parts_ok step tot (q # ps) =
     (case map_of time_units (snd q) of
        None \<Rightarrow> False
      | Some (r, mx, scale) \<Rightarrow>
          step < r \<and> fst q \<noteq> [] \<and> list_all is_dec (fst q) \<and> dec_val (fst q) \<le> mx \<and>
          tot + dec_val (fst q) * scale \<le> 2147483647 \<and>
          time_parts_ok r (tot + dec_val (fst q) * scale) ps)"

primrec time_sum :: "(bytes \<times> byte) list \<Rightarrow> nat" where
  "time_sum [] = 0"
| "time_sum (q # ps) =
     dec_val (fst q) * (case map_of time_units (snd q) of None \<Rightarrow> 0 | Some (r, mx, scale) \<Rightarrow> scale)
     + time_sum ps"

abbreviation print_parts :: "(bytes \<times> byte) list \<Rightarrow> bytes" where
  "print_parts ps \<equiv> concat (map (\<lambda>q. fst q @ [snd q]) ps)"

lemma parse_time_digits:
  "list_all is_dec d \<Longrightarrow>
   ngx_parse_time_loop nxt sec valid (of_nat v) tot step scale (d @ p) =
   ngx_parse_time_loop nxt sec (valid \<or> d \<noteq> []) (of_nat (dec_from v d)) tot step scale p"
proof (induction d arbitrary: v valid)
  case (Cons c d)
  then have "of_nat v * 10 + ucast (c - 48) = (of_nat (v * 10 + (unat c - 48)) :: 64 word)"
    by (simp add: is_dec_def ucast_digit del: of_nat_diff)
  with Cons show ?case by (simp add: is_dec_def del: of_nat_add of_nat_mult of_nat_diff)
qed simp

lemma parse_time_unit_known:
  assumes "map_of time_units u = Some (r, mx, scale)" and "step < r"
    and "(case p of [] \<Rightarrow> nxt | d # _ \<Rightarrow> d) \<noteq> 115"
  shows "parse_time_unit nxt True step u p = Some (r, of_nat mx, of_nat scale, p)
    \<and> \<not> is_dec u \<and> mx \<le> 2147483647"
  using assms
  by (auto simp: time_units_def parse_time_unit_def is_dec_def split: if_splits)

lemma parse_time_parts:
  assumes "time_parts_ok step tot ps" and "nxt \<noteq> 115" and "tot \<le> 2147483647"
  shows "ngx_parse_time_loop nxt True (valid \<or> ps \<noteq> []) 0 (of_nat tot) step 1 (print_parts ps) =
    (if valid \<or> ps \<noteq> [] then of_nat (tot + time_sum ps) else NGX_ERROR_VAL)"
  using assms
proof (induction ps arbitrary: step tot valid)
  case (Cons q ps)
  obtain d u where q: "q = (d, u)" by (cases q)
  from Cons.prems q obtain r mx scale where m: "map_of time_units u = Some (r, mx, scale)"
    and ok: "step < r" "d \<noteq> []" "list_all is_dec d" "dec_val d \<le> mx"
      "tot + dec_val d * scale \<le> 2147483647" "time_parts_ok r (tot + dec_val d * scale) ps"
    by (auto split: option.splits)
  let ?p = "print_parts ps"
  have nx: "(case ?p of [] \<Rightarrow> nxt | d # _ \<Rightarrow> d) \<noteq> 115 \<and>
      dropWhile (\<lambda>d. d = cb (CHR '' '')) ?p = ?p"
  proof (cases ps)
    case Nil with Cons.prems show ?thesis by simp
  next
    case (Cons q' ps')
    with ok(6) have "fst q' \<noteq> [] \<and> list_all is_dec (fst q')" by (auto split: option.splits)
    with Cons show ?thesis by (cases "fst q'") (auto simp: is_dec_def)
  qed
  from parse_time_unit_known [OF m ok(1), where p = ?p and nxt = nxt] nx
  have un: "parse_time_unit nxt True step u ?p = Some (r, of_nat mx, of_nat scale, ?p)"
    "\<not> is_dec u" "mx \<le> 2147483647" by auto
  have le: "\<not> (of_nat (dec_val d) :: 64 word) > of_nat mx"
    using ok(4) un(3) by (simp add: word_less_nat_alt unat_of_nat64 not_less)
  have tot: "(of_nat tot + of_nat (dec_val d) * of_nat scale :: 64 word) = of_nat (tot + dec_val d * scale)"
    by simp
  have le2: "\<not> (of_nat (tot + dec_val d * scale) :: 64 word) > 2147483647"
    using ok(5) by (simp add: word_less_nat_alt unat_of_nat64 not_less del: of_nat_add of_nat_mult)
  have "ngx_parse_time_loop nxt True True 0 (of_nat tot) step 1 (d @ u # ?p) =
      ngx_parse_time_loop nxt True True (of_nat (dec_val d)) (of_nat tot) step 1 (u # ?p)"
    using parse_time_digits [OF ok(3), of nxt True True 0] by simp
  also have "\<dots> = ngx_parse_time_loop nxt True True 0 (of_nat (tot + dec_val d * scale)) r 1 ?p"
    using un le le2 nx
    by (simp add: is_dec_def tot del: of_nat_add of_nat_mult) auto
  also have "\<dots> = of_nat (tot + dec_val d * scale + time_sum ps)"
    using Cons.IH [OF ok(6) Cons.prems(2) ok(5), of True] by simp
  finally show ?case using q m by (simp add: algebra_simps)
qed simp

text \<open>
  \<^verbatim>\<open>ngx_parse_time\<close> in seconds on parts such as \<^verbatim>\<open>1h30m\<close>, with units in strictly descending
  order and every count and running total within the limits of the code, returns the total
  number of seconds, for every byte that may follow the buffer except \<^verbatim>\<open>s\<close>.
\<close>

theorem ngx_parse_time_parts:
  assumes "ps \<noteq> []" and "time_parts_ok 0 0 ps" and "nxt \<noteq> cb (CHR ''s'')"
  shows "unat (ngx_parse_time nxt (print_parts ps) True) = time_sum ps"
proof -
  have bound: "time_parts_ok step tot ps \<Longrightarrow> tot \<le> 2147483647 \<Longrightarrow> tot + time_sum ps \<le> 2147483647"
    for step tot and ps :: "(bytes \<times> byte) list"
    by (induction ps arbitrary: step tot) (fastforce split: option.splits simp: add.assoc)+
  obtain q ps' where ps: "ps = q # ps'" using assms(1) by (cases ps) auto
  with assms(2) have d: "fst q \<noteq> []" "list_all is_dec (fst q)" by (auto split: option.splits)
  have "ngx_parse_time nxt (print_parts ps) True =
      ngx_parse_time_loop nxt True True 0 0 0 1 (print_parts ps)"
    using parse_time_digits [OF d(2), of nxt True False 0]
      parse_time_digits [OF d(2), of nxt True True 0] d(1)
    by (simp add: ngx_parse_time_def ps)
  also have "\<dots> = of_nat (time_sum ps)"
    using parse_time_parts [OF assms(2), of nxt True] assms(1,3) by simp
  finally show ?thesis using bound [OF assms(2)] by (simp add: unat_of_nat64)
qed

theorem ngx_parse_time_parts_witness:
  "unat (ngx_parse_time 0 (print_parts [(bs ''1'', cb (CHR ''h'')), (bs ''30'', cb (CHR ''m''))]) True) = 5400"
  using ngx_parse_time_parts [of "[(bs ''1'', cb (CHR ''h'')), (bs ''30'', cb (CHR ''m''))]" 0]
  by (simp add: time_units_def is_dec_def)

section \<open>Decimal printing\<close>

text \<open>The decimal digits of a number, as \<^verbatim>\<open>sprintf\<close> writes an integer that is not negative.\<close>

fun dec_print :: "nat \<Rightarrow> bytes" where
  "dec_print n = (if n < 10 then [of_nat (48 + n)] else dec_print (n div 10) @ [of_nat (48 + n mod 10)])"

declare dec_print.simps [simp del]

lemma dec_from_append: "dec_from v (s @ t) = dec_from (dec_from v s) t"
  by (induction s arbitrary: v) simp_all

lemma unat_digit: "d < 10 \<Longrightarrow> unat (of_nat (48 + d) :: byte) = 48 + d"
  by (simp only: unat_of_nat take_bit_eq_mod) simp

lemma dec_print_digit: "d < 10 \<Longrightarrow> is_dec (of_nat (48 + d))"
  unfolding is_dec_def by (simp only: word_le_nat_alt unat_digit) simp

lemma dec_print_ok: "dec_print n \<noteq> [] \<and> list_all is_dec (dec_print n) \<and> dec_val (dec_print n) = n"
proof (induction n rule: dec_print.induct)
  case (1 n)
  show ?case
  proof (cases "n < 10")
    case True
    then show ?thesis
      by (subst (1 2 3) dec_print.simps) (simp add: dec_print_digit unat_digit del: of_nat_add of_nat_numeral)
  next
    case False
    then show ?thesis using 1 [OF False]
      by (subst (1 2 3) dec_print.simps)
        (simp add: dec_print_digit unat_digit dec_from_append del: of_nat_add of_nat_numeral)
  qed
qed

lemma dec_print_length: "0 < k \<Longrightarrow> n < 10 ^ k \<Longrightarrow> length (dec_print n) \<le> k"
proof (induction n arbitrary: k rule: dec_print.induct)
  case (1 n)
  show ?case
  proof (cases "n < 10")
    case True
    then show ?thesis using 1 by (subst dec_print.simps) simp
  next
    case False
    then obtain k' where k: "k = Suc k'" "0 < k'" using 1 by (cases k; cases "k - 1") auto
    then have "n div 10 < 10 ^ k'" using 1 by (simp add: less_mult_imp_div_less mult.commute)
    then show ?thesis using 1(1) [OF False, of k'] k False by (subst dec_print.simps) simp
  qed
qed

lemma atoi_dec_print: "n < 2 ^ 63 \<Longrightarrow> ngx_atoi (dec_print n) = of_nat n"
  using atoi_digits [of "dec_print n"] dec_print_ok [of n] by simp

end
