(* ===== verification/Ngx_Codec.thy ===== *)
theory Ngx_Codec
  imports Ngx_Number
begin

text \<open>
  The encoders and decoders of \<^verbatim>\<open>src/core/ngx_string.c\<close>: base64, URI escaping and unescaping,
  HTML escaping and the UTF-8 reader. A call that fills a destination buffer is a function
  that returns the bytes written; the sizing calls (\<^verbatim>\<open>dst == NULL\<close>) are functions of their own.
\<close>

section \<open>Base64\<close>

definition basis64_enc :: bytes where
  "basis64_enc = bs ''ABCDEFGHIJKLMNOPQRSTUVWXYZabcdefghijklmnopqrstuvwxyz0123456789+/''"

fun ngx_encode_base64 :: "bytes \<Rightarrow> bytes" where
  "ngx_encode_base64 (s0 # s1 # s2 # s) =
     basis64_enc ! unat (drop_bit 2 s0 AND 0x3f)
     # basis64_enc ! unat (push_bit 4 (s0 AND 3) OR drop_bit 4 s1)
     # basis64_enc ! unat (push_bit 2 (s1 AND 0x0f) OR drop_bit 6 s2)
     # basis64_enc ! unat (s2 AND 0x3f)
     # ngx_encode_base64 s"
| "ngx_encode_base64 [s0, s1] =
     [basis64_enc ! unat (drop_bit 2 s0 AND 0x3f),
      basis64_enc ! unat (push_bit 4 (s0 AND 3) OR drop_bit 4 s1),
      basis64_enc ! unat (push_bit 2 (s1 AND 0x0f)),
      cb (CHR ''='')]"
| "ngx_encode_base64 [s0] =
     [basis64_enc ! unat (drop_bit 2 s0 AND 0x3f),
      basis64_enc ! unat (push_bit 4 (s0 AND 3)),
      cb (CHR ''=''), cb (CHR ''='')]"
| "ngx_encode_base64 [] = []"

definition basis64_dec :: bytes where
  "basis64_dec =
    [77, 77, 77, 77, 77, 77, 77, 77, 77, 77, 77, 77, 77, 77, 77, 77,
     77, 77, 77, 77, 77, 77, 77, 77, 77, 77, 77, 77, 77, 77, 77, 77,
     77, 77, 77, 77, 77, 77, 77, 77, 77, 77, 77, 62, 77, 77, 77, 63,
     52, 53, 54, 55, 56, 57, 58, 59, 60, 61, 77, 77, 77, 77, 77, 77,
     77,  0,  1,  2,  3,  4,  5,  6,  7,  8,  9, 10, 11, 12, 13, 14,
     15, 16, 17, 18, 19, 20, 21, 22, 23, 24, 25, 77, 77, 77, 77, 77,
     77, 26, 27, 28, 29, 30, 31, 32, 33, 34, 35, 36, 37, 38, 39, 40,
     41, 42, 43, 44, 45, 46, 47, 48, 49, 50, 51, 77, 77, 77, 77, 77]
    @ replicate 128 77"

text \<open>The scan that finds the length up to the padding; \<open>None\<close> is \<^verbatim>\<open>return NGX_ERROR\<close>.\<close>

fun base64_scan :: "bytes \<Rightarrow> nat option" where
  "base64_scan [] = Some 0"
| "base64_scan (c # s) =
     (if c = cb (CHR ''='') then Some 0
      else if basis64_dec ! unat c = 77 then None
      else map_option Suc (base64_scan s))"

fun base64_quads :: "bytes \<Rightarrow> bytes" where
  "base64_quads (s0 # s1 # s2 # s3 # s) =
     (push_bit 2 (basis64_dec ! unat s0) OR drop_bit 4 (basis64_dec ! unat s1))
     # (push_bit 4 (basis64_dec ! unat s1) OR drop_bit 2 (basis64_dec ! unat s2))
     # (push_bit 6 (basis64_dec ! unat s2) OR basis64_dec ! unat s3)
     # base64_quads s"
| "base64_quads [s0, s1, s2] =
     [push_bit 2 (basis64_dec ! unat s0) OR drop_bit 4 (basis64_dec ! unat s1),
      push_bit 4 (basis64_dec ! unat s1) OR drop_bit 2 (basis64_dec ! unat s2)]"
| "base64_quads [s0, s1] =
     [push_bit 2 (basis64_dec ! unat s0) OR drop_bit 4 (basis64_dec ! unat s1)]"
| "base64_quads s = []"

definition ngx_decode_base64 :: "bytes \<Rightarrow> bytes option" where
  "ngx_decode_base64 src =
     (case base64_scan src of
        None \<Rightarrow> None
      | Some len \<Rightarrow> if len mod 4 = 1 then None else Some (base64_quads (take len src)))"

section \<open>URI escaping\<close>

text \<open>The \<^verbatim>\<open>NGX_ESCAPE_*\<close> types, in the order of the array \<^verbatim>\<open>map\<close> of the code.\<close>

datatype escape_type =
    NGX_ESCAPE_URI
  | NGX_ESCAPE_ARGS
  | NGX_ESCAPE_HTML
  | NGX_ESCAPE_REFRESH
  | NGX_ESCAPE_MEMCACHED
  | NGX_ESCAPE_MAIL_AUTH

definition escape_uri_tab :: "u32 list" where
  "escape_uri_tab =
     [0xffffffff, 0x80000029, 0x00000000, 0x80000000,
      0xffffffff, 0xffffffff, 0xffffffff, 0xffffffff]"

definition escape_args_tab :: "u32 list" where
  "escape_args_tab =
     [0xffffffff, 0x80000829, 0x00000000, 0x80000000,
      0xffffffff, 0xffffffff, 0xffffffff, 0xffffffff]"

definition escape_html_tab :: "u32 list" where
  "escape_html_tab =
     [0xffffffff, 0x000000ad, 0x00000000, 0x80000000,
      0xffffffff, 0xffffffff, 0xffffffff, 0xffffffff]"

definition escape_refresh_tab :: "u32 list" where
  "escape_refresh_tab =
     [0xffffffff, 0x00000085, 0x00000000, 0x80000000,
      0xffffffff, 0xffffffff, 0xffffffff, 0xffffffff]"

definition escape_memcached_tab :: "u32 list" where
  "escape_memcached_tab =
     [0xffffffff, 0x00000021, 0x00000000, 0x00000000,
      0x00000000, 0x00000000, 0x00000000, 0x00000000]"

fun escape_map :: "escape_type \<Rightarrow> u32 list" where
  "escape_map NGX_ESCAPE_URI = escape_uri_tab"
| "escape_map NGX_ESCAPE_ARGS = escape_args_tab"
| "escape_map NGX_ESCAPE_HTML = escape_html_tab"
| "escape_map NGX_ESCAPE_REFRESH = escape_refresh_tab"
| "escape_map NGX_ESCAPE_MEMCACHED = escape_memcached_tab"
| "escape_map NGX_ESCAPE_MAIL_AUTH = escape_memcached_tab"

definition must_escape :: "escape_type \<Rightarrow> byte \<Rightarrow> bool" where
  "must_escape type c \<longleftrightarrow>
     (escape_map type ! unat (drop_bit 5 c)) AND push_bit (unat (c AND 0x1f)) 1 \<noteq> 0"

primrec ngx_escape_uri_count :: "escape_type \<Rightarrow> bytes \<Rightarrow> nat" where
  "ngx_escape_uri_count type [] = 0"
| "ngx_escape_uri_count type (c # src) =
     (if must_escape type c then 1 else 0) + ngx_escape_uri_count type src"

primrec ngx_escape_uri :: "escape_type \<Rightarrow> bytes \<Rightarrow> bytes" where
  "ngx_escape_uri type [] = []"
| "ngx_escape_uri type (c # src) =
     (if must_escape type c
      then [cb (CHR ''%''), hex ! unat (drop_bit 4 c), hex ! unat (c AND 0xf)]
      else [c]) @ ngx_escape_uri type src"

section \<open>URI unescaping\<close>

datatype unescape_state = sw_usual | sw_quoted | sw_quoted_second

text \<open>
  The loop over the source: \<open>uri\<close> and \<open>redirect\<close> are the two bits of \<^verbatim>\<open>type\<close>, \<open>decoded\<close> the first
  digit and \<open>prev\<close> the byte \<^verbatim>\<open>*(s - 2)\<close>. The result is the bytes written and the rest of the
  source, non-empty only after \<^verbatim>\<open>goto done\<close>.
\<close>

fun ngx_unescape_uri_loop ::
  "bool \<Rightarrow> bool \<Rightarrow> unescape_state \<Rightarrow> byte \<Rightarrow> byte \<Rightarrow> bytes \<Rightarrow> bytes \<times> bytes" where
  "ngx_unescape_uri_loop uri redirect state decoded prev [] = ([], [])"
| "ngx_unescape_uri_loop uri redirect sw_usual decoded prev (ch # s) =
     (if ch = cb (CHR ''?'') \<and> (uri \<or> redirect) then ([ch], s)
      else if ch = cb (CHR ''%'') then ngx_unescape_uri_loop uri redirect sw_quoted decoded ch s
      else apfst ((@) [ch]) (ngx_unescape_uri_loop uri redirect sw_usual decoded ch s))"
| "ngx_unescape_uri_loop uri redirect sw_quoted decoded prev (ch # s) =
     (case hex_digit ch of
        Some d \<Rightarrow> ngx_unescape_uri_loop uri redirect sw_quoted_second d ch s
      | None \<Rightarrow> apfst ((@) [ch]) (ngx_unescape_uri_loop uri redirect sw_usual decoded ch s))"
| "ngx_unescape_uri_loop uri redirect sw_quoted_second decoded prev (ch # s) =
     (if ch \<ge> cb (CHR ''0'') \<and> ch \<le> cb (CHR ''9'') then
        let c = push_bit 4 decoded + ch - cb (CHR ''0'');
            out = (if redirect then
                     if c > cb (CHR ''%'') \<and> c < 0x7f then [c] else [cb (CHR ''%''), prev, ch]
                   else [c])
        in apfst ((@) out) (ngx_unescape_uri_loop uri redirect sw_usual decoded ch s)
      else
        let c = ch OR 0x20 in
        if c \<ge> cb (CHR ''a'') \<and> c \<le> cb (CHR ''f'') then
          let c = push_bit 4 decoded + c - cb (CHR ''a'') + 10 in
          if uri then
            if c = cb (CHR ''?'') then ([c], s)
            else apfst ((@) [c]) (ngx_unescape_uri_loop uri redirect sw_usual decoded ch s)
          else if redirect then
            if c = cb (CHR ''?'') then ([c], s)
            else apfst ((@) (if c > cb (CHR ''%'') \<and> c < 0x7f then [c] else [cb (CHR ''%''), prev, ch]))
                   (ngx_unescape_uri_loop uri redirect sw_usual decoded ch s)
          else apfst ((@) [c]) (ngx_unescape_uri_loop uri redirect sw_usual decoded ch s)
        else ngx_unescape_uri_loop uri redirect sw_usual decoded ch s)"

definition ngx_unescape_uri :: "bool \<Rightarrow> bool \<Rightarrow> bytes \<Rightarrow> bytes \<times> bytes" where
  "ngx_unescape_uri uri redirect src = ngx_unescape_uri_loop uri redirect sw_usual 0 0 src"

section \<open>HTML escaping\<close>

primrec ngx_escape_html_len :: "bytes \<Rightarrow> nat" where
  "ngx_escape_html_len [] = 0"
| "ngx_escape_html_len (c # src) =
     (if c = cb (CHR ''<'') then 5 - 2
      else if c = cb (CHR ''>'') then 5 - 2
      else if c = cb (CHR ''&'') then 6 - 2
      else 0) + ngx_escape_html_len src"

primrec ngx_escape_html :: "bytes \<Rightarrow> bytes" where
  "ngx_escape_html [] = []"
| "ngx_escape_html (c # src) =
     (if c = cb (CHR ''<'') then bs ''&lt;''
      else if c = cb (CHR ''>'') then bs ''&gt;''
      else if c = cb (CHR ''&'') then bs ''&amp;''
      else [c]) @ ngx_escape_html src"

section \<open>UTF-8\<close>

text \<open>
  The continuation loop: \<open>len\<close> more bytes; an early error leaves the pointer after the byte
  that is below \<open>0x80\<close>. The caller has checked that \<open>len\<close> bytes are there.
\<close>

fun ngx_utf_cont :: "u32 \<Rightarrow> nat \<Rightarrow> u32 \<Rightarrow> bytes \<Rightarrow> u32 \<times> bytes" where
  "ngx_utf_cont valid (Suc len) u (i # p) =
     (if i < 0x80 then (0xffffffff, p)
      else ngx_utf_cont valid len (push_bit 6 u OR (ucast i AND 0x3f)) p)"
| "ngx_utf_cont valid len u p = (if u > valid then (u, p) else (0xffffffff, p))"

text \<open>\<open>None\<close> where the code reads the first byte of an empty buffer.\<close>

definition ngx_utf_decode :: "bytes \<Rightarrow> (u32 \<times> bytes) option" where
  "ngx_utf_decode p =
     (case p of
        [] \<Rightarrow> None
      | b # rest \<Rightarrow>
          let u = ucast b :: u32;
              start = (if u > 0xf0 then Some (u AND 0x07, 0xffff, 3)
                       else if u > 0xe0 then Some (u AND 0x0f, 0x7ff, 2)
                       else if u > 0xc0 then Some (u AND 0x1f, 0x7f, 1)
                       else None)
          in case start of
               None \<Rightarrow> Some (0xffffffff, rest)
             | Some (u, valid, len) \<Rightarrow>
                 if length p - 1 < len then Some (0xfffffffe, p)
                 else Some (ngx_utf_cont valid len u rest))"

section \<open>Base64: round trip and buffer sizes\<close>

lemma basis64_enc_dec:
  assumes "n < 64"
  shows "basis64_dec ! unat (basis64_enc ! n) = of_nat n" and "basis64_enc ! n \<noteq> 61"
    and "basis64_dec ! unat (basis64_enc ! n) \<noteq> 77"
proof -
  have "\<forall>n \<in> set [0..<64]. basis64_dec ! unat (basis64_enc ! n) = of_nat n \<and> basis64_enc ! n \<noteq> 61
      \<and> basis64_dec ! unat (basis64_enc ! n) \<noteq> 77"
    by (simp add: basis64_enc_def basis64_dec_def upt_rec nth_append del: set_upt)
  moreover have "n \<in> set [0..<64]" using assms by simp
  ultimately show "basis64_dec ! unat (basis64_enc ! n) = of_nat n" and "basis64_enc ! n \<noteq> 61"
    and "basis64_dec ! unat (basis64_enc ! n) \<noteq> 77" by blast+
qed

text \<open>The four sextets of three bytes, and that shifting them together gives the bytes back.\<close>

lemma and_masks:
  "(x :: byte) AND 3 = take_bit 2 x" "x AND 0x0f = take_bit 4 x" "x AND 0x3f = take_bit 6 x"
  "x AND 0x1f = take_bit 5 x"
  by (simp_all add: take_bit_eq_mask mask_eq_exp_minus_1)

definition sx0 :: "byte \<Rightarrow> byte" where "sx0 a = drop_bit 2 a AND 0x3f"
definition sx1 :: "byte \<Rightarrow> byte \<Rightarrow> byte" where "sx1 a b = push_bit 4 (a AND 3) OR drop_bit 4 b"
definition sx2 :: "byte \<Rightarrow> byte \<Rightarrow> byte" where "sx2 b c = push_bit 2 (b AND 0x0f) OR drop_bit 6 c"
definition sx3 :: "byte \<Rightarrow> byte" where "sx3 c = c AND 0x3f"

lemmas sx_defs = sx0_def sx1_def sx2_def sx3_def and_masks

lemma sextets_join:
  "push_bit 2 (sx0 a) OR drop_bit 4 (sx1 a b) = a"
  "push_bit 4 (sx1 a b) OR drop_bit 2 (sx2 b c) = b"
  "push_bit 6 (sx2 b c) OR sx3 c = c"
  by (simp_all add: byte_eq_bits sx_defs bit_simps)

lemma sextet_bound: "unat (sx0 a) < 64" "unat (sx1 a b) < 64" "unat (sx2 b c) < 64" "unat (sx3 c) < 64"
  by (rule byte_below_64; simp add: sx_defs bit_simps)+

lemma sextet_ne_77: "sx0 a \<noteq> 77" "sx1 a b \<noteq> 77" "sx2 b c \<noteq> 77" "sx3 c \<noteq> 77"
proof -
  have ne: "unat x < 64 \<Longrightarrow> x \<noteq> 77" for x :: byte by auto
  show "sx0 a \<noteq> 77" "sx1 a b \<noteq> 77" "sx2 b c \<noteq> 77" "sx3 c \<noteq> 77"
    by (rule ne, rule sextet_bound)+
qed

lemma sextet_zero: "sx1 a 0 = push_bit 4 (a AND 3)" "sx2 b 0 = push_bit 2 (b AND 0x0f)"
  by (simp_all add: sx1_def sx2_def)

lemma encode_base64_sextets:
  "ngx_encode_base64 (a # b # c # s) =
     basis64_enc ! unat (sx0 a) # basis64_enc ! unat (sx1 a b) # basis64_enc ! unat (sx2 b c)
     # basis64_enc ! unat (sx3 c) # ngx_encode_base64 s"
  "ngx_encode_base64 [a, b] =
     [basis64_enc ! unat (sx0 a), basis64_enc ! unat (sx1 a b), basis64_enc ! unat (sx2 b 0), 61]"
  "ngx_encode_base64 [a] =
     [basis64_enc ! unat (sx0 a), basis64_enc ! unat (sx1 a 0), 61, 61]"
  by (simp_all add: sx0_def sx1_def sx2_def sx3_def)

lemma base64_scan_encode:
  "\<exists>len. base64_scan (ngx_encode_base64 s) = Some len \<and> len mod 4 \<noteq> 1 \<and>
     base64_quads (take len (ngx_encode_base64 s)) = s"
proof (induction s rule: ngx_encode_base64.induct)
  case (1 a b c s)
  then obtain len where "base64_scan (ngx_encode_base64 s) = Some len" "len mod 4 \<noteq> 1"
    "base64_quads (take len (ngx_encode_base64 s)) = s" by blast
  then show ?case
    by (intro exI [of _ "Suc (Suc (Suc (Suc len)))"])
      (simp add: encode_base64_sextets basis64_enc_dec sextet_bound sextet_ne_77 sextets_join mod_Suc
        del: ngx_encode_base64.simps)
next
  case (2 a b)
  show ?case
    by (intro exI [of _ "Suc (Suc (Suc 0))"])
      (simp add: encode_base64_sextets basis64_enc_dec sextet_bound sextet_ne_77 sextets_join
        del: ngx_encode_base64.simps)
next
  case (3 a)
  show ?case
    by (intro exI [of _ "Suc (Suc 0)"])
      (simp add: encode_base64_sextets basis64_enc_dec sextet_bound sextet_ne_77 sextets_join
        del: ngx_encode_base64.simps)
next
  case 4
  show ?case by simp
qed

text \<open>
  C32. Decoding what \<^verbatim>\<open>ngx_encode_base64\<close> wrote gives back the source bytes, for every byte
  string and whatever its length modulo three.
\<close>

theorem base64_roundtrip: "ngx_decode_base64 (ngx_encode_base64 s) = Some s"
  using base64_scan_encode [of s] by (auto simp: ngx_decode_base64_def)

text \<open>
  The sizes of the macros \<^verbatim>\<open>ngx_base64_encoded_length\<close> and \<^verbatim>\<open>ngx_base64_decoded_length\<close> are
  enough for the buffers: encoding writes exactly \<open>(n + 2) div 3 * 4\<close> bytes and a successful
  decoding writes at most \<open>(n + 3) div 4 * 3\<close>.
\<close>

theorem base64_buffer_sizes:
  "length (ngx_encode_base64 s) = (length s + 2) div 3 * 4 \<and>
   (\<forall>d. ngx_decode_base64 s = Some d \<longrightarrow> length d \<le> (length s + 3) div 4 * 3)"
proof
  show "length (ngx_encode_base64 s) = (length s + 2) div 3 * 4"
  proof (induction s rule: ngx_encode_base64.induct)
    case (1 a b c s)
    have "(5 + n) div 3 = Suc (Suc (Suc n) div 3)" for n :: nat by presburger
    with 1 show ?case by simp
  qed auto
  have q: "length (base64_quads s) \<le> (length s + 3) div 4 * 3" for s
  proof (induction s rule: base64_quads.induct)
    case (1 a b c d s)
    have "(7 + n) div 4 = Suc ((n + 3) div 4)" for n :: nat by presburger
    with 1 show ?case by simp
  qed auto
  have mono: "(length (take n s) + 3) div 4 * 3 \<le> (length s + 3) div 4 * 3" for n and s :: bytes
    by (simp add: div_le_mono)
  show "\<forall>d. ngx_decode_base64 s = Some d \<longrightarrow> length d \<le> (length s + 3) div 4 * 3"
    using order_trans [OF q mono]
    by (auto simp: ngx_decode_base64_def split: option.splits if_splits)
qed

theorem base64_buffer_sizes_witness:
  "length (ngx_encode_base64 (bs ''ngx'')) = 4 \<and>
   ngx_decode_base64 (bs ''bmd4'') = Some (bs ''ngx'') \<and>
   (\<exists>d. ngx_decode_base64 (bs ''bmd4'') = Some d \<and> length d \<le> 3)"
  using base64_buffer_sizes [of "bs ''ngx''"] base64_buffer_sizes [of "bs ''bmd4''"]
  by (simp add: ngx_decode_base64_def basis64_dec_def)

section \<open>URI escaping: round trip, sizes, and what is left unescaped\<close>

lemma must_escape_bit:
  "must_escape type c \<longleftrightarrow> bit (escape_map type ! (unat c div 32)) (unat c mod 32)"
proof -
  have "unat (drop_bit 5 c) = unat c div 32" by (simp add: drop_bit_eq_div unat_div)
  moreover have "unat (c AND 0x1f) = unat c mod 32"
    by (simp only: and_masks) (simp add: take_bit_eq_mod unat_mod)
  ultimately show ?thesis
    by (simp add: must_escape_def push_bit_eq_mult and_exp_eq_0_iff_not_bit)
qed

lemma percent_escaped: "type \<noteq> NGX_ESCAPE_REFRESH \<Longrightarrow> must_escape type 37"
  by (cases type)
    (simp_all add: must_escape_def escape_uri_tab_def escape_args_tab_def escape_html_tab_def
      escape_memcached_tab_def)

lemma length_ngx_escape_uri:
  "length (ngx_escape_uri type s) = length s + 2 * ngx_escape_uri_count type s"
  by (induction s) auto

lemma escape_uri_append: "ngx_escape_uri type (s @ r) = ngx_escape_uri type s @ ngx_escape_uri type r"
  by (induction s) auto

lemma nibbles_join: "push_bit 4 (of_nat (unat c div 16)) + of_nat (unat c mod 16) = (c :: byte)"
proof -
  have "push_bit 4 (of_nat (unat c div 16)) + of_nat (unat c mod 16) =
      (of_nat (16 * (unat c div 16) + unat c mod 16) :: byte)"
    by (simp only: push_bit_eq_mult of_nat_add of_nat_mult mult.commute) simp
  also have "\<dots> = c" by (simp only: mult_div_mod_eq) simp
  finally show ?thesis .
qed

lemma hex_digits:
  "n < 10 \<Longrightarrow> hex ! n - 48 = of_nat n \<and> hex ! n \<le> 57 \<and> 48 \<le> hex ! n"
  "10 \<le> n \<Longrightarrow> n < 16 \<Longrightarrow>
     (hex ! n OR 0x20) - 87 = of_nat n \<and> \<not> hex ! n \<le> 57 \<and>
     97 \<le> hex ! n OR 0x20 \<and> hex ! n OR 0x20 \<le> 102"
proof -
  have d: "\<forall>n \<in> set [0..<10]. hex ! n - 48 = of_nat n \<and> hex ! n \<le> 57 \<and> 48 \<le> hex ! n"
    by (simp add: hex_def upt_rec del: set_upt)
  have l: "\<forall>n \<in> set [10..<16]. (hex ! n OR 0x20) - 87 = of_nat n \<and> \<not> hex ! n \<le> 57 \<and>
     97 \<le> hex ! n OR 0x20 \<and> hex ! n OR 0x20 \<le> 102"
    by (simp add: hex_def upt_rec del: set_upt)
  show "n < 10 \<Longrightarrow> hex ! n - 48 = of_nat n \<and> hex ! n \<le> 57 \<and> 48 \<le> hex ! n"
    using d by simp
  show "10 \<le> n \<Longrightarrow> n < 16 \<Longrightarrow> (hex ! n OR 0x20) - 87 = of_nat n \<and> \<not> hex ! n \<le> 57 \<and>
     97 \<le> hex ! n OR 0x20 \<and> hex ! n OR 0x20 \<le> 102"
    by (rule bspec [OF l]) auto
qed

text \<open>With \<^verbatim>\<open>NGX_UNESCAPE_URI\<close> the loop ends at a question mark; every other byte is decoded as with type 0.\<close>

lemma unescape_second_digit:
  assumes "n < 16" and "uri \<Longrightarrow> push_bit 4 d + of_nat n \<noteq> cb (CHR ''?'')"
  shows "ngx_unescape_uri_loop uri False sw_quoted_second d prev (hex ! n # s) =
    apfst ((@) [push_bit 4 d + of_nat n])
      (ngx_unescape_uri_loop uri False sw_usual d (hex ! n) s)"
proof (cases "n < 10")
  case True
  with hex_digits(1) [OF True] show ?thesis by (simp add: Let_def add_diff_eq [symmetric])
next
  case False
  with hex_digits(2) [of n] assms show ?thesis
    by (simp add: Let_def add_diff_eq [symmetric])
qed

lemma unescape_escaped:
  assumes "uri \<Longrightarrow> c \<noteq> cb (CHR ''?'')"
  shows "ngx_unescape_uri_loop uri False sw_usual d prev
     (37 # hex ! unat (drop_bit 4 c) # hex ! unat (c AND 0xf) # s) =
   apfst ((@) [c]) (ngx_unescape_uri_loop uri False sw_usual (drop_bit 4 c) (hex ! unat (c AND 0xf)) s)"
proof -
  have hi: "unat c div 16 < 16" using unat_byte_less [of c] by (simp add: less_mult_imp_div_less)
  have "of_nat (unat c div 16) = drop_bit 4 c" by (simp flip: unat_hi_nibble)
  with hi nibbles_join [of c] assms show ?thesis
    by (simp add: unat_hi_nibble unat_lo_nibble hex_digit_hex unescape_second_digit
        del: ngx_unescape_uri_loop.simps(4))
qed

lemma unescape_escape_loop:
  assumes "type \<noteq> NGX_ESCAPE_REFRESH"
  shows "(uri \<Longrightarrow> cb (CHR ''?'') \<notin> set s) \<Longrightarrow> ngx_unescape_uri_loop uri False sw_usual d prev (ngx_escape_uri type s) = (s, [])"
proof (induction s arbitrary: d prev)
  case (Cons c s)
  show ?case
  proof (cases "must_escape type c")
    case True
    with Cons show ?thesis using unescape_escaped [of uri c d prev] by auto
  next
    case False
    with percent_escaped [OF assms] have "c \<noteq> 37" by auto
    with False Cons show ?thesis by auto
  qed
qed simp

text \<open>
  C33. \<^verbatim>\<open>ngx_unescape_uri\<close> with the type \<^verbatim>\<open>NGX_UNESCAPE_URI\<close>, which the SSI filter uses, undoes \<^verbatim>\<open>ngx_escape_uri\<close> on strings without a question
  mark, and with type 0, which no caller of the repository uses, on all strings. The source is read to its end. This holds for every escaping type except
  \<^verbatim>\<open>NGX_ESCAPE_REFRESH\<close>, whose table does not escape the percent sign. Nothing is said about the type \<^verbatim>\<open>NGX_UNESCAPE_REDIRECT\<close>, which leaves some quoted bytes as they are.
\<close>

theorem unescape_escape_uri:
  assumes "type \<noteq> NGX_ESCAPE_REFRESH" and "uri \<Longrightarrow> cb (CHR ''?'') \<notin> set s"
  shows "ngx_unescape_uri uri False (ngx_escape_uri type s) = (s, [])"
  using assms by (simp add: ngx_unescape_uri_def unescape_escape_loop)

theorem unescape_escape_uri_witness:
  "ngx_unescape_uri True False (ngx_escape_uri NGX_ESCAPE_ARGS (bs ''a b+%'')) = (bs ''a b+%'', [])"
  using unescape_escape_uri [of NGX_ESCAPE_ARGS True "bs ''a b+%''"] by simp

text \<open>A question mark ends the call with \<^verbatim>\<open>NGX_UNESCAPE_URI\<close>, quoted or not.\<close>

lemma unescape_uri_stops: "ngx_unescape_uri True False (bs ''a%3fb?c'') = (bs ''a?'', bs ''b?c'')"
  by code_simp

text \<open>The comment of the refresh table lists the percent sign; the table leaves it as it is.\<close>

lemma refresh_leaves_percent:
  "ngx_escape_uri NGX_ESCAPE_REFRESH (bs ''%41'') = bs ''%41'' \<and>
   ngx_unescape_uri False False (bs ''%41'') = (bs ''A'', [])"
  by (simp add: must_escape_def escape_refresh_tab_def ngx_unescape_uri_def hex_digit_def Let_def)

lemma must_escape_memcached_low:
  assumes "c \<le> 0x20"
  shows "must_escape NGX_ESCAPE_MEMCACHED c"
proof (cases "unat c = 32")
  case True
  then have "c = 0x20" by (simp add: word_unat_eq_iff)
  then show ?thesis by (simp add: must_escape_def escape_memcached_tab_def)
next
  case False
  with assms have u: "unat c < 32" by (simp add: word_le_nat_alt)
  have "(0xffffffff :: u32) = mask 32" by (simp add: mask_eq_exp_minus_1)
  with u have "bit (0xffffffff :: u32) (unat c)" by (simp only: bit_mask_iff) simp
  with u show ?thesis by (simp add: must_escape_bit escape_memcached_tab_def)
qed

lemma hex_above_space: "n < 16 \<Longrightarrow> hex ! n > 0x20"
proof -
  have "\<forall>n \<in> set [0..<16]. hex ! n > 0x20" by (simp add: hex_def upt_rec del: set_upt)
  then show "n < 16 \<Longrightarrow> hex ! n > 0x20" by simp
qed

lemma escape_memcached_above_space: "c \<in> set (ngx_escape_uri NGX_ESCAPE_MEMCACHED s) \<Longrightarrow> c > 0x20"
proof (induction s)
  case (Cons b s)
  have hi: "unat b div 16 < 16" using unat_byte_less [of b] by (simp add: less_mult_imp_div_less)
  have "\<not> must_escape NGX_ESCAPE_MEMCACHED b \<Longrightarrow> b > 0x20"
    using must_escape_memcached_low [of b] by (auto simp: linorder_not_le [symmetric])
  with Cons hi show ?case
    by (auto simp: unat_hi_nibble unat_lo_nibble hex_above_space split: if_splits)
qed simp

section \<open>HTML escaping: size, safety and injectivity\<close>

lemma escape_html_length: "length (ngx_escape_html s) = length s + ngx_escape_html_len s"
  by (induction s) auto

lemma escape_html_safe: "60 \<notin> set (ngx_escape_html s)" "62 \<notin> set (ngx_escape_html s)"
  by (induction s) auto

lemma escape_html_cases:
  "ngx_escape_html (c # s) =
     (if c = 60 then [38, 108, 116, 59] else if c = 62 then [38, 103, 116, 59]
      else if c = 38 then [38, 97, 109, 112, 59] else [c]) @ ngx_escape_html s"
  by simp

lemma escape_html_inj: "ngx_escape_html s = ngx_escape_html t \<Longrightarrow> s = t"
proof (induction s arbitrary: t)
  case Nil
  then show ?case by (cases t) (auto simp del: ngx_escape_html.simps(2) simp: escape_html_cases split: if_splits)
next
  case (Cons c s)
  then show ?case
    by (cases t) (auto simp del: ngx_escape_html.simps(2) simp: escape_html_cases split: if_splits)
qed

text \<open>
  \<^verbatim>\<open>ngx_escape_html\<close> writes the source size plus the number the sizing call returned, no
  angle bracket is left in what it writes, and two different sources are never escaped to the
  same bytes.
\<close>

theorem escape_html_correct:
  "length (ngx_escape_html s) = length s + ngx_escape_html_len s \<and>
   cb (CHR ''<'') \<notin> set (ngx_escape_html s) \<and> cb (CHR ''>'') \<notin> set (ngx_escape_html s) \<and>
   (ngx_escape_html s = ngx_escape_html t \<longleftrightarrow> s = t)"
  using escape_html_inj [of s t] by (auto simp: escape_html_length escape_html_safe)

section \<open>UTF-8: the characters the reader accepts\<close>

text \<open>The UTF-8 form of a code point, as the reference.\<close>

definition utf8_encode :: "nat \<Rightarrow> bytes" where
  "utf8_encode u =
     (if u < 0x800 then [of_nat (0xc0 + u div 64), of_nat (0x80 + u mod 64)]
      else if u < 0x10000 then
        [of_nat (0xe0 + u div 4096), of_nat (0x80 + u div 64 mod 64), of_nat (0x80 + u mod 64)]
      else [of_nat (0xf0 + u div 262144), of_nat (0x80 + u div 4096 mod 64),
            of_nat (0x80 + u div 64 mod 64), of_nat (0x80 + u mod 64)])"

lemma shift_or: "b < 64 \<Longrightarrow> push_bit 6 (of_nat k :: u32) OR of_nat b = of_nat (64 * k + b)"
proof -
  assume "b < 64"
  then have b: "take_bit 6 b = b" by (simp add: take_bit_eq_mod)
  have "push_bit 6 k AND b = 0"
    by (subst b [symmetric]) (auto simp: bit_eq_iff bit_simps)
  then have "push_bit 6 k OR b = push_bit 6 k + b" by (simp add: disjunctive_add_eq_or)
  then have "of_nat (push_bit 6 k OR b) = (of_nat (64 * k + b) :: u32)"
    by (simp add: push_bit_eq_mult)
  then show ?thesis by (simp add: of_nat_or_eq push_bit_of_nat)
qed

lemma unat_of_nat8: "n < 256 \<Longrightarrow> unat (of_nat n :: byte) = n"
  by (simp add: unat_of_nat)

lemma ucast_of_nat8: "n < 256 \<Longrightarrow> (ucast (of_nat n :: byte) :: u32) = of_nat n"
  by (metis unat_of_nat8 of_nat_unat)

lemma of_nat_and_mask32: "of_nat n AND (mask k :: u32) = of_nat (n mod 2 ^ k)"
proof -
  have "of_nat n AND (mask k :: u32) = of_nat (take_bit k n)"
    by (simp only: take_bit_eq_mask [symmetric] take_bit_of_nat)
  then show ?thesis by (simp only: take_bit_eq_mod)
qed

lemma masks32: "(0x3f :: u32) = mask 6" "(0x1f :: u32) = mask 5" "(0x0f :: u32) = mask 4" "(0x07 :: u32) = mask 3"
  by (simp_all add: mask_eq_exp_minus_1)

lemma less_of_nat32:
  "k < 2 ^ 32 \<Longrightarrow> m < 2 ^ 32 \<Longrightarrow> ((of_nat k :: u32) < of_nat m) = (k < m)"
  by (simp add: word_less_nat_alt unat_of_nat)

lemma utf_cont_step:
  assumes "b < 64"
  shows "ngx_utf_cont valid (Suc len) (of_nat k) (of_nat (0x80 + b) # p) =
    ngx_utf_cont valid len (of_nat (64 * k + b)) p"
proof -
  have "\<not> (of_nat (0x80 + b) :: byte) < 0x80"
    using assms by (simp add: word_less_nat_alt unat_of_nat8 del: of_nat_add)
  moreover have "(ucast (of_nat (0x80 + b) :: byte) :: u32) AND 0x3f = of_nat b"
  proof -
    have "(ucast (of_nat (0x80 + b) :: byte) :: u32) AND 0x3f = of_nat ((0x80 + b) mod 2 ^ 6)"
      using assms by (simp only: masks32 ucast_of_nat8 of_nat_and_mask32)
    moreover have "(0x80 + b) mod 2 ^ 6 = b" using assms mod_mult_self3 [of 2 64 b] by simp
    ultimately show ?thesis by simp
  qed
  ultimately show ?thesis using shift_or [OF assms, of k] by (simp only: ngx_utf_cont.simps if_False)
qed

lemma utf_cont_numerals:
  "ngx_utf_cont v 3 = ngx_utf_cont v (Suc (Suc (Suc 0)))" "ngx_utf_cont v 2 = ngx_utf_cont v (Suc (Suc 0))"
  by (simp_all add: numeral_3_eq_3 numeral_2_eq_2)

lemma utf_decode_lead:
  assumes "n < 256"
  shows "ngx_utf_decode (of_nat n # rest) =
    (if 0xf0 < n then
       if length rest < 3 then Some (0xfffffffe, of_nat n # rest)
       else Some (ngx_utf_cont 0xffff 3 (of_nat (n mod 8)) rest)
     else if 0xe0 < n then
       if length rest < 2 then Some (0xfffffffe, of_nat n # rest)
       else Some (ngx_utf_cont 0x7ff 2 (of_nat (n mod 16)) rest)
     else if 0xc0 < n then
       if length rest < 1 then Some (0xfffffffe, of_nat n # rest)
       else Some (ngx_utf_cont 0x7f 1 (of_nat (n mod 32)) rest)
     else Some (0xffffffff, rest))"
proof -
  have g: "(of_nat n :: u32) > 0xf0 \<longleftrightarrow> 0xf0 < n" "(of_nat n :: u32) > 0xe0 \<longleftrightarrow> 0xe0 < n"
    "(of_nat n :: u32) > 0xc0 \<longleftrightarrow> 0xc0 < n"
    using assms less_of_nat32 [of "0xf0" n] less_of_nat32 [of "0xe0" n] less_of_nat32 [of "0xc0" n] by simp_all
  show ?thesis
    using assms of_nat_and_mask32 [where n = n and k = 3] of_nat_and_mask32 [where n = n and k = 4]
      of_nat_and_mask32 [where n = n and k = 5]
    by (simp add: ngx_utf_decode_def Let_def ucast_of_nat8 g mask_eq_exp_minus_1)
qed

lemma utf_cont_done: "k < 2 ^ 32 \<Longrightarrow> v < k \<Longrightarrow> ngx_utf_cont (of_nat v) 0 (of_nat k) p = (of_nat k, p)"
  using less_of_nat32 [of v k] by simp

lemma utf_decode_2:
  assumes "1 < a" "a < 32" "b < 64"
  shows "ngx_utf_decode (of_nat (0xc0 + a) # of_nat (0x80 + b) # rest) = Some (of_nat (64 * a + b), rest)"
proof -
  have "(0xc0 + a) mod 32 = a" using assms mod_mult_self3 [of 6 32 a] by simp
  then show ?thesis using assms utf_cont_done [of "64 * a + b" "0x7f"]
    by (simp add: utf_decode_lead utf_cont_numerals utf_cont_step del: of_nat_add ngx_utf_cont.simps)
qed

lemma utf_decode_3:
  assumes "0 < a" "a < 16" "b < 64" "c < 64"
  shows "ngx_utf_decode (of_nat (0xe0 + a) # of_nat (0x80 + b) # of_nat (0x80 + c) # rest) =
    Some (of_nat (64 * (64 * a + b) + c), rest)"
proof -
  have "(0xe0 + a) mod 16 = a" using assms mod_mult_self3 [of 14 16 a] by simp
  then show ?thesis using assms utf_cont_done [of "64 * (64 * a + b) + c" "0x7ff"]
    by (simp add: utf_decode_lead utf_cont_numerals utf_cont_step del: of_nat_add ngx_utf_cont.simps)
qed

lemma utf_decode_4:
  assumes "0 < a" "a < 8" "b < 64" "c < 64" "d < 64"
  shows "ngx_utf_decode (of_nat (0xf0 + a) # of_nat (0x80 + b) # of_nat (0x80 + c) # of_nat (0x80 + d) # rest) =
    Some (of_nat (64 * (64 * (64 * a + b) + c) + d), rest)"
proof -
  have "(0xf0 + a) mod 8 = a" using assms mod_mult_self3 [of 30 8 a] by simp
  then show ?thesis using assms utf_cont_done [of "64 * (64 * (64 * a + b) + c) + d" "0xffff"]
    by (simp add: utf_decode_lead utf_cont_numerals utf_cont_step del: of_nat_add ngx_utf_cont.simps)
qed

text \<open>
  \<^verbatim>\<open>ngx_utf_decode\<close> reads back the UTF-8 form of every code point of two to four bytes and
  leaves the pointer after it, except for the code points whose lead byte is exactly
  \<open>0xe0\<close> or \<open>0xf0\<close>: the code compares the lead byte with \<open>>\<close> there.
\<close>

theorem utf_decode_encode:
  assumes "0x80 \<le> u" and "u \<le> 0x10ffff"
    and "\<not> (0x800 \<le> u \<and> u < 0x1000)" and "\<not> (0x10000 \<le> u \<and> u < 0x40000)"
  shows "ngx_utf_decode (utf8_encode u @ rest) = Some (of_nat u, rest)"
proof -
  consider "u < 0x800" | "0x1000 \<le> u" "u < 0x10000" | "0x40000 \<le> u" using assms by linarith
  then show ?thesis
  proof cases
    case 1
    with assms have "1 < u div 64" "u div 64 < 32" by (auto simp: less_mult_imp_div_less less_eq_div_iff_mult_less_eq Suc_le_eq [symmetric])
    with 1 utf_decode_2 [of "u div 64" "u mod 64" rest] show ?thesis
      by (simp add: utf8_encode_def del: of_nat_add)
  next
    case 2
    have "64 * (64 * (u div 64 div 64) + u div 64 mod 64) + u mod 64 = u" by simp
    moreover have "u div 64 div 64 = u div 4096" by (simp flip: div_mult2_eq)
    moreover have "0 < u div 4096" "u div 4096 < 16"
      using 2 by (auto simp: less_mult_imp_div_less div_greater_zero_iff)
    ultimately show ?thesis
      using 2 utf_decode_3 [of "u div 4096" "u div 64 mod 64" "u mod 64" rest]
      by (simp only: utf8_encode_def) (simp del: of_nat_add)
  next
    case 3
    have "64 * (64 * (64 * (u div 64 div 64 div 64) + u div 64 div 64 mod 64) + u div 64 mod 64) + u mod 64 = u"
      by simp
    moreover have "u div 64 div 64 div 64 = u div 262144" "u div 64 div 64 = u div 4096"
      by (simp_all flip: div_mult2_eq)
    moreover have "0 < u div 262144" "u div 262144 < 8"
      using 3 assms by (auto simp: less_mult_imp_div_less div_greater_zero_iff)
    ultimately show ?thesis
      using 3 utf_decode_4 [of "u div 262144" "u div 4096 mod 64" "u div 64 mod 64" "u mod 64" rest]
      by (simp only: utf8_encode_def) (simp del: of_nat_add)
  qed
qed

theorem utf_decode_encode_witness:
  "ngx_utf_decode (utf8_encode 0x20ac @ bs ''x'') = Some (0x20ac, bs ''x'') \<and>
   utf8_encode 0x20ac = [0xe2, 0x82, 0xac]"
  using utf_decode_encode [of "0x20ac" "bs ''x''"] by (simp add: utf8_encode_def)

text \<open>A valid three-byte character with lead byte \<open>0xe0\<close> is not read back.\<close>

lemma utf_decode_e0:
  "utf8_encode 0x905 = [0xe0, 0xa4, 0x85] \<and>
   ngx_utf_decode [0xe0, 0xa4, 0x85] = Some (0xffffffff, [0x85])"
  by (simp add: utf8_encode_def ngx_utf_decode_def Let_def)
end
