(* ===== verification/Ngx_Util.thy ===== *)
theory Ngx_Util
  imports Ngx_Codec
begin

text \<open>
  The helper functions of \<^verbatim>\<open>src/c/ngx_util/ngx_util.h\<close> that the modules share: bounded appends,
  splitting a string into an array, joining an array into a string, the URI unescaping macro
  and the HTML encoder.

  A cursor into a buffer is the list of the bytes written before it, and the buffer's end is
  its capacity. \<open>None\<close> is the \<^verbatim>\<open>NULL\<close> an append returns, and for the joins also an access the C
  standard leaves undefined: an index outside the array, a remainder by zero, a write through
  \<^verbatim>\<open>NULL\<close>. \<open>pa n\<close> says whether \<^verbatim>\<open>ngx_palloc\<close> of \<open>n\<close> bytes succeeds. A \<^verbatim>\<open>ngx_str_t *\<close> argument is an
  \<open>ngx_str option\<close>, \<open>None\<close> being the null pointer.
\<close>

section \<open>Tokens, names and appends\<close>

text \<open>\<^verbatim>\<open>next_tok\<close>: the index of the next delimiter from \<open>c\<close> on, or the length.\<close>

function next_tok :: "bytes \<Rightarrow> byte \<Rightarrow> nat \<Rightarrow> nat" where
  "next_tok d del c = (if c < length d \<and> d ! c \<noteq> del then next_tok d del (Suc c) else c)"
  by pat_completeness auto
termination by (relation "measure (\<lambda>(d, _, c). length d - c)") auto

text \<open>\<^verbatim>\<open>next_tok_esc\<close>: the same with an escape character; the index returned is at most the length.\<close>

function next_tok_esc_loop :: "bytes \<Rightarrow> byte \<Rightarrow> byte \<Rightarrow> nat \<Rightarrow> nat" where
  "next_tok_esc_loop d del esc c =
     (if c < length d \<and> d ! c \<noteq> del
      then next_tok_esc_loop d del esc (if d ! c = esc then c + 2 else c + 1)
      else c)"
  by pat_completeness auto
termination by (relation "measure (\<lambda>(d, _, _, c). length d - c)") auto

definition next_tok_esc :: "bytes \<Rightarrow> byte \<Rightarrow> byte \<Rightarrow> nat" where
  "next_tok_esc d del esc = min (next_tok_esc_loop d del esc 0) (length d)"

declare next_tok.simps [simp del] next_tok_esc_loop.simps [simp del]

text \<open>\<^verbatim>\<open>ngx_http_get_var_name_str\<close>: \<open>Inl\<close> is the error message, \<open>Inr\<close> the name without the dollar sign.\<close>

definition ngx_http_get_var_name_str :: "bytes \<Rightarrow> string + bytes" where
  "ngx_http_get_var_name_str v =
     (if v = [] \<or> hd v \<noteq> cb (CHR ''$'') then Inl ''found invalid variable name'' else Inr (tl v))"

definition append_str :: "nat \<Rightarrow> bytes \<Rightarrow> ngx_str option \<Rightarrow> bytes option" where
  "append_str e c s =
     (case s of
        None \<Rightarrow> Some c
      | Some s \<Rightarrow> if e \<ge> length c + str_len s then Some (c @ str_bytes s) else None)"

definition append_vv :: "nat \<Rightarrow> bytes \<Rightarrow> bytes option \<Rightarrow> bytes option" where
  "append_vv e c vv =
     (case vv of
        None \<Rightarrow> Some c
      | Some d \<Rightarrow> if int e - int (length c) \<ge> int (length d) then Some (c @ d) else None)"

text \<open>A buffer is the bytes before \<^verbatim>\<open>last\<close> and its capacity.\<close>

record ngx_buf =
  buf_data :: bytes
  buf_cap :: nat

definition ngx_buf_append_str :: "ngx_buf \<Rightarrow> ngx_str option \<Rightarrow> ngx_rc \<times> ngx_buf" where
  "ngx_buf_append_str buf s =
     (case append_str (buf_cap buf) (buf_data buf) s of
        None \<Rightarrow> (NGX_ERROR, buf)
      | Some nb \<Rightarrow> (NGX_OK, buf\<lparr>buf_data := nb\<rparr>))"

section \<open>Splitting a string\<close>

text \<open>
  \<^verbatim>\<open>str_to_array_0\<close>: an element is the offset of its data pointer and its length, the pointer
  difference \<^verbatim>\<open>e - s\<close> at the width of \<^verbatim>\<open>size_t\<close>. \<open>cap\<close> is the number of \<^verbatim>\<open>ngx_array_push\<close> calls the
  pool can serve before one returns \<^verbatim>\<open>NULL\<close>.
\<close>

fun str_to_array_loop ::
  "nat \<Rightarrow> bytes \<Rightarrow> byte \<Rightarrow> nat \<Rightarrow> nat \<Rightarrow> (nat \<times> ngx_uint) list \<Rightarrow> ngx_rc \<times> (nat \<times> ngx_uint) list" where
  "str_to_array_loop cap data del i s arr =
     (if i < length data then
        let i = next_tok data del i in
        case cap of
          0 \<Rightarrow> (NGX_ERROR, arr)
        | Suc cap \<Rightarrow> str_to_array_loop cap data del i (i + 1) (arr @ [(s, of_nat i - of_nat s)])
      else (NGX_OK, arr))"

declare str_to_array_loop.simps [simp del]

definition str_to_array_0 ::
  "nat \<Rightarrow> bytes \<Rightarrow> byte \<Rightarrow> (nat \<times> ngx_uint) list option \<Rightarrow> ngx_rc \<times> (nat \<times> ngx_uint) list" where
  "str_to_array_0 cap data del arr =
     (case arr of None \<Rightarrow> (NGX_ERROR, []) | Some a \<Rightarrow> str_to_array_loop cap data del 0 0 a)"

text \<open>\<^verbatim>\<open>str_to_array\<close> creates the array first; \<open>created\<close> says whether that succeeds.\<close>

definition str_to_array :: "bool \<Rightarrow> nat \<Rightarrow> bytes \<Rightarrow> byte \<Rightarrow> ngx_rc \<times> (nat \<times> ngx_uint) list" where
  "str_to_array created cap data del = str_to_array_0 cap data del (if created then Some [] else None)"

definition item_bytes :: "bytes \<Rightarrow> nat \<times> ngx_uint \<Rightarrow> bytes" where
  "item_bytes data x = take (unat (snd x)) (drop (fst x) data)"

section \<open>Joining an array\<close>

definition sp_len :: "ngx_str option \<Rightarrow> nat" where
  "sp_len s = (case s of None \<Rightarrow> 0 | Some s \<Rightarrow> str_len s)"

definition arr_at :: "'a list \<Rightarrow> nat \<Rightarrow> 'a option" where
  "arr_at xs i = (if i < length xs then Some (xs ! i) else None)"

text \<open>\<^verbatim>\<open>array_join\<close>: the pass that sizes the buffer, the loop over all but the last item, the last item.\<close>

definition array_join_len ::
  "ngx_str list \<Rightarrow> ngx_str option \<Rightarrow> ngx_str option \<Rightarrow> ngx_str option \<Rightarrow> ngx_str option \<Rightarrow>
   ngx_str option \<Rightarrow> nat" where
  "array_join_len arr head tail pre suf del =
     (let n = length arr in
      sum_list (map str_len arr) + sp_len head + sp_len tail + sp_len pre * n + sp_len suf * n
      + sp_len del * (if n > 1 then n - 1 else 0))"

primrec array_join_loop ::
  "nat \<Rightarrow> ngx_str option \<Rightarrow> ngx_str option \<Rightarrow> ngx_str option \<Rightarrow> ngx_str list \<Rightarrow> bytes \<Rightarrow>
   bytes option" where
  "array_join_loop e pre suf del [] c = Some c"
| "array_join_loop e pre suf del (item # items) c =
     Option.bind (append_str e c pre) (\<lambda>c.
     Option.bind (append_str e c (Some item)) (\<lambda>c.
     Option.bind (append_str e c suf) (\<lambda>c.
     Option.bind (append_str e c del) (\<lambda>c. array_join_loop e pre suf del items c))))"

definition array_join ::
  "(nat \<Rightarrow> bool) \<Rightarrow> ngx_str list \<Rightarrow> ngx_str option \<Rightarrow> ngx_str option \<Rightarrow> ngx_str option \<Rightarrow>
   ngx_str option \<Rightarrow> ngx_str option \<Rightarrow> (ngx_rc \<times> bytes) option" where
  "array_join pa arr head tail pre suf del =
     (let n = length arr; len = array_join_len arr head tail pre suf del in
      if len \<le> 0 then Some (NGX_OK, [])
      else if \<not> pa (len + 1) then Some (NGX_ERROR, [])
      else
        Option.bind (append_str len [] head) (\<lambda>c.
        Option.bind (array_join_loop len pre suf del (take (n - 1) arr) c) (\<lambda>c.
        Option.bind (arr_at arr (n - 1)) (\<lambda>item.
        Option.bind (append_str len c pre) (\<lambda>c.
        Option.bind (append_str len c (Some item)) (\<lambda>c.
        Option.bind (append_str len c suf) (\<lambda>c.
        map_option (\<lambda>c. (NGX_OK, c)) (append_str len c tail))))))))"

text \<open>
  \<^verbatim>\<open>array_join_x\<close>: rows of \<open>step\<close> items; the loops run over their index lists. The sum of the lengths, an \<^verbatim>\<open>ngx_int_t\<close> in the
  source, is a natural number: the texts lie in memory beside each other, so their lengths add up to less than \<^verbatim>\<open>2^63\<close>.
\<close>

definition array_join_x_len ::
  "ngx_str list \<Rightarrow> nat \<Rightarrow> ngx_str option \<Rightarrow> ngx_str option \<Rightarrow> ngx_str option \<Rightarrow> ngx_str option \<Rightarrow>
   ngx_str option \<Rightarrow> ngx_str list option \<Rightarrow> nat" where
  "array_join_x_len arr step head tail lhead ltail ldel dels =
     (let n = length arr in
      sum_list (map str_len arr) + sp_len head + sp_len tail
      + sp_len lhead * (n div step + 1) + sp_len ltail * (n div step + 1)
      + sp_len ldel * (n div step + 1)
      + (case dels of
           None \<Rightarrow> 0
         | Some del \<Rightarrow>
             sum_list (map (\<lambda>i. str_len (del ! (i mod length del)) * (n div step + 1)) [0..<step])))"

primrec ajx_items ::
  "nat \<Rightarrow> ngx_str list \<Rightarrow> nat \<Rightarrow> ngx_str list option \<Rightarrow> nat \<Rightarrow> nat list \<Rightarrow> bytes \<Rightarrow> bytes option" where
  "ajx_items e arr step dels i [] c = Some c"
| "ajx_items e arr step dels i (j # js) c =
     Option.bind (arr_at arr (i * step + j)) (\<lambda>item.
     Option.bind (append_str e c (Some item)) (\<lambda>c.
     Option.bind
       (case dels of
          None \<Rightarrow> Some c
        | Some del \<Rightarrow>
            if step - 1 \<noteq> j then append_str e c (Some (del ! (j mod length del))) else Some c) (\<lambda>c.
     ajx_items e arr step dels i js c)))"

primrec ajx_rows ::
  "nat \<Rightarrow> ngx_str list \<Rightarrow> nat \<Rightarrow> ngx_str option \<Rightarrow> ngx_str option \<Rightarrow> ngx_str option \<Rightarrow>
   ngx_str list option \<Rightarrow> nat \<Rightarrow> nat list \<Rightarrow> bytes \<Rightarrow> bytes option" where
  "ajx_rows e arr step lhead ltail ldel dels ln [] c = Some c"
| "ajx_rows e arr step lhead ltail ldel dels ln (i # is) c =
     Option.bind (arr_at arr (i * step)) (\<lambda>item.
     if item = None then ajx_rows e arr step lhead ltail ldel dels ln is c
     else
       Option.bind (append_str e c lhead) (\<lambda>c.
       Option.bind (ajx_items e arr step dels i [0..<step] c) (\<lambda>c.
       Option.bind (append_str e c ltail) (\<lambda>c.
       Option.bind (if ln - 1 \<noteq> i then append_str e c ldel else Some c) (\<lambda>c.
       ajx_rows e arr step lhead ltail ldel dels ln is c)))))"

definition array_join_x ::
  "(nat \<Rightarrow> bool) \<Rightarrow> ngx_str list \<Rightarrow> int \<Rightarrow> ngx_str option \<Rightarrow> ngx_str option \<Rightarrow> ngx_str option \<Rightarrow>
   ngx_str option \<Rightarrow> ngx_str option \<Rightarrow> ngx_str list option \<Rightarrow> (ngx_rc \<times> bytes) option" where
  "array_join_x pa arr step head tail lhead ltail ldel dels =
     (let n = 0 :: nat; step = (if 0 \<ge> step then 1 else nat step) in
      if n mod step \<noteq> 0 then Some (NGX_ERROR, [])
      else if dels = Some [] then None
      else
        let n = length arr; len = array_join_x_len arr step head tail lhead ltail ldel dels in
        if \<not> pa (len + 1) then Some (NGX_ERROR, [])
        else if n = 0 then None
        else
          let ln = (n - 1) div step + 1;
              ln = (if arr ! ((ln - 1) * step) = None then ln - 1 else ln)
          in
          Option.bind (append_str len [] head) (\<lambda>c.
          Option.bind (ajx_rows len arr step lhead ltail ldel dels ln [0..<ln] c) (\<lambda>c.
          map_option (\<lambda>c. (NGX_OK, c)) (append_str len c tail))))"

section \<open>URI unescaping and HTML encoding\<close>

definition is_num :: "byte \<Rightarrow> bool" where
  "is_num c \<longleftrightarrow> c \<ge> cb (CHR ''0'') \<and> c \<le> cb (CHR ''9'')"

definition is_af :: "byte \<Rightarrow> bool" where
  "is_af c \<longleftrightarrow> (c \<ge> cb (CHR ''a'') \<and> c \<le> cb (CHR ''f'')) \<or> (c \<ge> cb (CHR ''A'') \<and> c \<le> cb (CHR ''F''))"

definition is_x :: "byte \<Rightarrow> bool" where
  "is_x c \<longleftrightarrow> is_num c \<or> is_af c"

definition to_lower :: "byte \<Rightarrow> byte" where
  "to_lower c = c OR 0x20"

definition x_to_c :: "byte \<Rightarrow> byte" where
  "x_to_c c = (if is_af c then to_lower c - cb (CHR ''a'') + 10 else c - cb (CHR ''0''))"

text \<open>
  \<^verbatim>\<open>uri_unescape\<close> over the whole buffer \<open>from\<close> from index \<open>i\<close>. The guard \<^verbatim>\<open>i < (len) - 2\<close> is unsigned:
  below two bytes the bound wraps and the two bytes after the percent sign are read beyond the
  source, which is \<open>None\<close>.
\<close>

function uri_unescape_loop :: "bytes \<Rightarrow> nat \<Rightarrow> bytes \<Rightarrow> bytes option" where
  "uri_unescape_loop src i out =
     (if i < length src then
        if src ! i = cb (CHR ''+'') then uri_unescape_loop src (i + 1) (out @ [cb (CHR '' '')])
        else if src ! i = cb (CHR ''%'') \<and> (length src < 2 \<or> i < length src - 2) then
          if length src \<le> i + 1 then None
          else if is_x (src ! (i + 1)) \<and> is_x (src ! (i + 2)) then
            uri_unescape_loop src (i + 3)
              (out @ [push_bit 4 (x_to_c (src ! (i + 1))) OR x_to_c (src ! (i + 2))])
          else uri_unescape_loop src (i + 1) (out @ [of_nat i])
        else uri_unescape_loop src (i + 1) (out @ [src ! i])
      else Some out)"
  by pat_completeness auto
termination by (relation "measure (\<lambda>(src, i, _). length src - i)") auto

declare uri_unescape_loop.simps [simp del]

definition uri_unescape :: "bytes \<Rightarrow> bytes option" where
  "uri_unescape src = uri_unescape_loop src 0 []"

definition uri_unescape_p :: "(nat \<Rightarrow> bool) \<Rightarrow> bytes \<Rightarrow> ngx_str option" where
  "uri_unescape_p pa src =
     (if \<not> pa (length src) then Some None else map_option Some (uri_unescape src))"

text \<open>
  \<^verbatim>\<open>ngx_htmlencoding\<close>: the counter is never initialised, so its first value \<open>n0\<close> is arbitrary; a
  write beyond the block of \<^verbatim>\<open>len\<close> bytes is \<open>None\<close>.
\<close>

primrec htmlencode :: "bytes \<Rightarrow> bytes" where
  "htmlencode [] = []"
| "htmlencode (c # s) =
     (if c = cb (CHR ''<'') then bs ''&lt;''
      else if c = cb (CHR ''>'') then bs ''&gt;''
      else [c]) @ htmlencode s"

definition ngx_htmlencoding :: "ngx_uint \<Rightarrow> (nat \<Rightarrow> bool) \<Rightarrow> bytes \<Rightarrow> (ngx_rc \<times> bytes) option" where
  "ngx_htmlencoding n0 pa s =
     (let n = n0 + of_nat (length (filter (\<lambda>c. c = cb (CHR ''<'') \<or> c = cb (CHR ''>'')) s));
          len = of_nat (length s) + n * 3;
          out = htmlencode s
      in if \<not> pa (unat len) then Some (NGX_ERROR, s)
         else if length out \<le> unat len then Some (NGX_OK, out)
         else None)"

section \<open>Splitting: what the loop does\<close>

lemma next_tok_bounds: "c \<le> length d \<Longrightarrow> c \<le> next_tok d del c \<and> next_tok d del c \<le> length d"
  by (induction d del c rule: next_tok.induct) (subst (1 2) next_tok.simps, auto)

lemma next_tok_found: "next_tok d del c < length d \<Longrightarrow> d ! next_tok d del c = del"
  by (induction d del c rule: next_tok.induct) (metis next_tok.simps)

lemma next_tok_skips: "c \<le> k \<Longrightarrow> k < next_tok d del c \<Longrightarrow> d ! k \<noteq> del"
proof (induction d del c rule: next_tok.induct)
  case (1 d del c)
  then show ?case by (subst (asm) next_tok.simps) (cases "k = c"; auto split: if_splits)
qed

lemma next_tok_none:
  assumes "del \<notin> set d"
  shows "next_tok d del 0 = length d"
  using next_tok_bounds [of 0 d del] next_tok_found [of d del 0] assms nth_mem [of "next_tok d del 0" d]
  by fastforce

text \<open>Once the index stands on a delimiter it never moves: every further round pushes an element.\<close>

lemma str_to_array_stuck:
  "i < length data \<Longrightarrow> data ! i = del \<Longrightarrow>
     fst (str_to_array_loop cap data del i s arr) = NGX_ERROR \<and>
     length (snd (str_to_array_loop cap data del i s arr)) = length arr + cap"
proof (induction cap arbitrary: s arr)
  case 0
  then show ?case by (simp add: str_to_array_loop.simps [of 0])
next
  case (Suc cap)
  then have "next_tok data del i = i" by (simp add: next_tok.simps)
  with Suc show ?case by (simp add: str_to_array_loop.simps [of "Suc cap"] Let_def)
qed

lemma str_to_array_absent:
  "del \<notin> set data \<Longrightarrow> str_to_array True (Suc cap) data del =
     (NGX_OK, if data = [] then [] else [(0, of_nat (length data))])"
  by (simp add: str_to_array_def str_to_array_0_def str_to_array_loop.simps Let_def next_tok_none)

lemma str_to_array_present:
  assumes "del \<in> set data"
  shows "fst (str_to_array True (Suc cap) data del) = NGX_ERROR \<and>
    length (snd (str_to_array True (Suc cap) data del)) = Suc cap"
proof -
  define i where "i = next_tok data del 0"
  have i: "i < length data"
  proof (rule ccontr)
    assume n: "\<not> i < length data"
    from assms obtain k where "k < length data" "data ! k = del" by (auto simp: in_set_conv_nth)
    with n next_tok_skips [of 0 k data del] show False by (simp add: i_def)
  qed
  moreover have "data ! i = del" using i next_tok_found [of data del 0] by (simp add: i_def)
  moreover have "str_to_array True (Suc cap) data del =
      str_to_array_loop cap data del i (i + 1) [(0, of_nat i)]"
    using i by (auto simp: str_to_array_def str_to_array_0_def str_to_array_loop.simps [of "Suc cap"] Let_def i_def)
  ultimately show ?thesis using str_to_array_stuck [of i data del cap "i + 1"] by simp
qed

text \<open>
  \<^verbatim>\<open>str_to_array\<close> on a string without the delimiter returns the string as the only element
  (none for an empty string). On a string that contains the delimiter it never returns
  \<^verbatim>\<open>NGX_OK\<close>: it pushes elements until the pool can serve no more, whatever the pool's capacity.
\<close>

theorem str_to_array_outcome:
  "(del \<notin> set data \<longrightarrow>
      str_to_array True (Suc cap) data del =
        (NGX_OK, if data = [] then [] else [(0, of_nat (length data))])) \<and>
   (del \<in> set data \<longrightarrow>
      fst (str_to_array True (Suc cap) data del) = NGX_ERROR \<and>
      length (snd (str_to_array True (Suc cap) data del)) = Suc cap)"
  using str_to_array_absent str_to_array_present by blast

theorem str_to_array_outcome_witness:
  "str_to_array True (Suc 2) (bs ''ab'') (cb (CHR '':'')) = (NGX_OK, [(0, 2)]) \<and>
   fst (str_to_array True (Suc 2) (bs ''a:b'') (cb (CHR '':''))) = NGX_ERROR"
  using str_to_array_outcome [of "cb (CHR '':'')" "bs ''ab''" 2]
    str_to_array_outcome [of "cb (CHR '':'')" "bs ''a:b''" 2] by simp

section \<open>Joining: the text, and that it fits the buffer\<close>

definition sp_bytes :: "ngx_str option \<Rightarrow> bytes" where
  "sp_bytes s = (case s of None \<Rightarrow> [] | Some s \<Rightarrow> str_bytes s)"

lemma length_sp_bytes [simp]: "length (sp_bytes s) = sp_len s"
  by (simp add: sp_bytes_def sp_len_def split: option.split)

lemma sp_simps [simp]:
  "sp_bytes None = []" "sp_bytes (Some s) = str_bytes s" "sp_len None = 0" "sp_len (Some s) = str_len s"
  by (simp_all add: sp_bytes_def sp_len_def)

lemma bytes_Nil_iff: "sp_bytes s = [] \<longleftrightarrow> sp_len s = 0" "str_bytes x = [] \<longleftrightarrow> str_len x = 0"
  by (metis length_0_conv length_sp_bytes, metis length_0_conv length_str_bytes)

lemma append_str_fits: "length c + sp_len s \<le> e \<Longrightarrow> append_str e c s = Some (c @ sp_bytes s)"
  by (auto simp: append_str_def split: option.split)

lemma arr_at_some [simp]: "i < length xs \<Longrightarrow> arr_at xs i = Some (xs ! i)"
  by (simp add: arr_at_def)

text \<open>The reference: the items with a separator between them.\<close>

fun intercalate :: "'a list \<Rightarrow> 'a list list \<Rightarrow> 'a list" where
  "intercalate sep [] = []"
| "intercalate sep [x] = x"
| "intercalate sep (x # y # xs) = x @ sep @ intercalate sep (y # xs)"

lemma intercalate_snoc:
  "intercalate sep (xs @ [x]) = concat (map (\<lambda>y. y @ sep) xs) @ x"
  by (induction xs rule: induct_list012) auto

lemma array_join_loop_fits:
  "length c + length (concat (map (\<lambda>x. sp_bytes pre @ str_bytes x @ sp_bytes suf @ sp_bytes del) items)) \<le> e \<Longrightarrow>
   array_join_loop e pre suf del items c =
     Some (c @ concat (map (\<lambda>x. sp_bytes pre @ str_bytes x @ sp_bytes suf @ sp_bytes del) items))"
  by (induction items arbitrary: c) (auto simp: append_str_fits)

lemma length_join_items:
  "length (concat (map (\<lambda>x. sp_bytes pre @ str_bytes x @ sp_bytes suf @ sp_bytes del) xs)) =
     sum_list (map str_len xs) + sp_len pre * length xs + sp_len suf * length xs + sp_len del * length xs"
  by (induction xs) (auto simp: algebra_simps)

text \<open>
  \<^verbatim>\<open>array_join\<close> on a non-empty array, when the allocation succeeds, returns exactly the head,
  the items each between prefix and suffix with the delimiter between consecutive ones, and the
  tail: every append fits the buffer the first pass sized.
\<close>

theorem array_join_text:
  assumes "arr \<noteq> []" and "\<And>n. pa n"
  shows "array_join pa arr head tail pre suf del =
    Some (NGX_OK, sp_bytes head
      @ intercalate (sp_bytes del) (map (\<lambda>x. sp_bytes pre @ str_bytes x @ sp_bytes suf) arr)
      @ sp_bytes tail)"
proof -
  from assms(1) obtain xs x where arr: "arr = xs @ [x]" by (meson rev_exhaust)
  let ?body = "concat (map (\<lambda>x. sp_bytes pre @ str_bytes x @ sp_bytes suf @ sp_bytes del) xs)"
  let ?len = "array_join_len arr head tail pre suf del"
  have len: "?len = sp_len head + length ?body + sp_len pre + str_len x + sp_len suf + sp_len tail"
    by (simp add: array_join_len_def arr length_join_items Let_def algebra_simps)
  have whole: "intercalate (sp_bytes del) (map (\<lambda>x. sp_bytes pre @ str_bytes x @ sp_bytes suf) arr) =
      ?body @ sp_bytes pre @ str_bytes x @ sp_bytes suf"
    by (simp add: arr intercalate_snoc map_concat [symmetric] o_def)
  show ?thesis
  proof (cases "?len = 0")
    case True
    then show ?thesis using len whole by (simp add: array_join_def Let_def bytes_Nil_iff)
  next
    case False
    have "array_join_loop ?len pre suf del xs (sp_bytes head) = Some (sp_bytes head @ ?body)"
      using len by (intro array_join_loop_fits) simp
    with False len whole assms(2) show ?thesis
      by (simp add: array_join_def Let_def append_str_fits arr nth_append bytes_Nil_iff)
  qed
qed

theorem array_join_text_witness:
  "array_join (\<lambda>_. True) [Some (bs ''a''), None, Some (bs ''b'')] (Some (Some (bs ''[''))) (Some (Some (bs '']'')))
     None None (Some (Some (bs '',''))) = Some (NGX_OK, bs ''[a,,b]'')"
  using array_join_text [of "[Some (bs ''a''), None, Some (bs ''b'')]" "\<lambda>_. True"] by simp

text \<open>Rows of \<open>step\<close> items: the text the inner and the outer loop write.\<close>

definition ajx_sep :: "nat \<Rightarrow> ngx_str list option \<Rightarrow> nat \<Rightarrow> bytes" where
  "ajx_sep step dels j =
     (case dels of None \<Rightarrow> [] | Some del \<Rightarrow> if step - 1 \<noteq> j then str_bytes (del ! (j mod length del)) else [])"

definition ajx_row :: "ngx_str list \<Rightarrow> nat \<Rightarrow> ngx_str list option \<Rightarrow> nat \<Rightarrow> nat list \<Rightarrow> bytes" where
  "ajx_row arr step dels i js =
     concat (map (\<lambda>j. str_bytes (arr ! (i * step + j)) @ ajx_sep step dels j) js)"

lemma ajx_items_fits:
  "\<lbrakk>\<And>j. j \<in> set js \<Longrightarrow> i * step + j < length arr; length c + length (ajx_row arr step dels i js) \<le> e\<rbrakk> \<Longrightarrow>
   ajx_items e arr step dels i js c = Some (c @ ajx_row arr step dels i js)"
proof (induction js arbitrary: c)
  case (Cons j js)
  have "(case dels of None \<Rightarrow> Some c' | Some del \<Rightarrow>
       if step - 1 \<noteq> j then append_str e c' (Some (del ! (j mod length del))) else Some c') =
     Some (c' @ ajx_sep step dels j)" if "length c' + length (ajx_sep step dels j) \<le> e" for c'
    using that by (cases dels) (auto simp: ajx_sep_def append_str_fits split: if_splits)
  with Cons show ?case by (simp add: ajx_row_def append_str_fits)
qed (simp add: ajx_row_def)

definition ajx_text ::
  "ngx_str list \<Rightarrow> nat \<Rightarrow> ngx_str option \<Rightarrow> ngx_str option \<Rightarrow> ngx_str option \<Rightarrow>
   ngx_str list option \<Rightarrow> nat \<Rightarrow> nat list \<Rightarrow> bytes" where
  "ajx_text arr step lhead ltail ldel dels ln is =
     concat (map (\<lambda>i. sp_bytes lhead @ ajx_row arr step dels i [0..<step] @ sp_bytes ltail
       @ (if ln - 1 \<noteq> i then sp_bytes ldel else [])) is)"

lemma ajx_rows_fits:
  assumes "None \<notin> set arr" and "0 < step"
  shows "\<lbrakk>\<And>i. i \<in> set is \<Longrightarrow> Suc i * step \<le> length arr;
     length c + length (ajx_text arr step lhead ltail ldel dels ln is) \<le> e\<rbrakk> \<Longrightarrow>
   ajx_rows e arr step lhead ltail ldel dels ln is c =
     Some (c @ ajx_text arr step lhead ltail ldel dels ln is)"
proof (induction "is" arbitrary: c)
  case (Cons i "is")
  have row: "i * step + j < length arr" if "j < step" for j
    using Cons.prems(1) [of i] that by simp
  from assms nth_mem [OF row [of 0]] obtain y where y: "arr ! (i * step) = Some y"
    by (metis add_0_right not_None_eq)
  have del: "(if ln - 1 \<noteq> i then append_str e c' ldel else Some c') =
      Some (c' @ (if ln - 1 \<noteq> i then sp_bytes ldel else []))"
    if "length c' + length (if ln - 1 \<noteq> i then sp_bytes ldel else []) \<le> e" for c'
    using that by (auto simp: append_str_fits split: if_splits)
  have "ajx_items e arr step dels i [0..<step] (c @ sp_bytes lhead) =
      Some ((c @ sp_bytes lhead) @ ajx_row arr step dels i [0..<step])"
    using row Cons.prems(2) by (intro ajx_items_fits) (auto simp: ajx_text_def)
  with Cons row [of 0] y assms(2) show ?case
    by (simp add: ajx_text_def append_str_fits del del: One_nat_def)
qed (simp add: ajx_text_def)

text \<open>The reference for one row: the items with the separators between them, cyclically.\<close>

fun join_row :: "(nat \<Rightarrow> bytes) \<Rightarrow> nat \<Rightarrow> bytes list \<Rightarrow> bytes" where
  "join_row d j [] = []"
| "join_row d j [x] = x"
| "join_row d j (x # y # r) = x @ d j @ join_row d (Suc j) (y # r)"

definition dels_at :: "ngx_str list option \<Rightarrow> nat \<Rightarrow> bytes" where
  "dels_at dels j = (case dels of None \<Rightarrow> [] | Some del \<Rightarrow> str_bytes (del ! (j mod length del)))"

lemma ajx_sep_inner: "Suc j < step \<Longrightarrow> ajx_sep step dels j = dels_at dels j"
  "ajx_sep (Suc j) dels j = []"
  by (auto simp: ajx_sep_def dels_at_def split: option.split)

lemma join_row_concat:
  "r \<noteq> [] \<Longrightarrow> join_row d j r =
     concat (map (\<lambda>k. r ! k @ (if Suc k < length r then d (j + k) else [])) [0..<length r])"
proof (induction d j r rule: join_row.induct)
  case (3 d j x y r)
  have "[0..<length (x # y # r)] = 0 # map Suc [0..<length (y # r)]"
    by (simp add: map_Suc_upt upt_conv_Cons del: upt_Suc)
  then show ?case using 3 by (simp only: join_row.simps) (simp add: o_def cong: if_cong del: upt_Suc)
qed simp_all

lemma ajx_row_join:
  assumes "\<forall>r \<in> set rows. length r = step" and "0 < step" and "i < length rows"
  shows "ajx_row (map Some (concat rows)) step dels i [0..<step] = join_row (dels_at dels) 0 (rows ! i)"
proof -
  let ?r = "rows ! i"
  have r: "length ?r = step" "?r \<noteq> []" using assms nth_mem by fastforce+
  have "i * step + j < length (concat rows)" if "j < step" for j
  proof -
    have "i * step + j < Suc i * step" using that by simp
    also have "\<dots> \<le> length rows * step" using assms by (intro mult_le_mono1) simp
    finally show ?thesis using assms by (simp only: length_concat_rows)
  qed
  moreover have "ajx_sep step dels j = (if Suc j < step then dels_at dels j else [])" if "j < step" for j
    using that ajx_sep_inner(1) [of j step dels] ajx_sep_inner(2) [of j dels]
    by (cases "Suc j = step") auto
  ultimately show ?thesis
    unfolding ajx_row_def join_row_concat [OF r(2)] r(1)
    by (intro arg_cong [of _ _ concat] map_cong) (auto simp: concat_nth_rows [OF assms(1) assms(3)])
qed

lemma ajx_text_intercalate:
  assumes "\<forall>r \<in> set rows. length r = step" and "0 < step" and "rows \<noteq> []"
  shows "ajx_text (map Some (concat rows)) step lhead ltail ldel dels (length rows) [0..<length rows] =
    intercalate (sp_bytes ldel)
      (map (\<lambda>r. sp_bytes lhead @ join_row (dels_at dels) 0 r @ sp_bytes ltail) rows)"
proof -
  let ?f = "\<lambda>r. sp_bytes lhead @ join_row (dels_at dels) 0 r @ sp_bytes ltail"
  define m where "m = length rows - 1"
  have m: "length rows = Suc m" using assms(3) by (simp add: m_def)
  have "ajx_text (map Some (concat rows)) step lhead ltail ldel dels (length rows) [0..<length rows] =
      concat (map (\<lambda>i. ?f (rows ! i) @ (if m \<noteq> i then sp_bytes ldel else [])) [0..<Suc m])"
    unfolding ajx_text_def m
    by (intro arg_cong [of _ _ concat] map_cong) (auto simp: ajx_row_join [OF assms(1,2)] m)
  also have "\<dots> = concat (map (\<lambda>i. ?f (rows ! i) @ sp_bytes ldel) [0..<m]) @ ?f (rows ! m)"
    by (auto intro!: arg_cong [of _ _ concat])
  also have "\<dots> = intercalate (sp_bytes ldel) (map ?f (map (\<lambda>i. rows ! i) [0..<m] @ [rows ! m]))"
    by (simp add: intercalate_snoc o_def)
  also have "map (\<lambda>i. rows ! i) [0..<m] @ [rows ! m] = rows"
    using map_nth [of rows] m by simp
  finally show ?thesis .
qed

lemma join_row_length:
  "length (join_row d j r) \<le> sum_list (map length r) + sum_list (map (\<lambda>k. length (d (j + k))) [0..<length r])"
proof (induction d j r rule: join_row.induct)
  case (3 d j x y r)
  have "[0..<length (x # y # r)] = 0 # map Suc [0..<length (y # r)]"
    by (simp add: map_Suc_upt upt_conv_Cons del: upt_Suc)
  then show ?case using 3 by (simp only: join_row.simps) (simp add: o_def del: upt_Suc)
qed simp_all

lemma intercalate_length:
  "length (intercalate sep xs) \<le> sum_list (map length xs) + length sep * length xs"
  by (induction sep xs rule: intercalate.induct) auto

lemma rows_length:
  assumes "\<forall>r \<in> set rows. length r = step"
  shows "sum_list (map length (map (\<lambda>r. a @ join_row d 0 r @ b) rows)) \<le>
    sum_list (map length (concat rows)) + length a * length rows + length b * length rows +
    sum_list (map (\<lambda>k. length (d k)) [0..<step]) * length rows"
  using assms
proof (induction rows)
  case (Cons r rows)
  then show ?case using join_row_length [of d 0 r] by (simp add: algebra_simps)
qed simp

lemma array_join_x_rows:
  assumes "\<forall>r \<in> set rows. length r = step" and "0 < step" and "rows \<noteq> []"
    and "dels \<noteq> Some []" and "\<And>n. pa n"
  shows "array_join_x pa (map Some (concat rows)) (int step) head tail lhead ltail ldel dels =
    Some (NGX_OK, sp_bytes head
      @ intercalate (sp_bytes ldel)
          (map (\<lambda>r. sp_bytes lhead @ join_row (dels_at dels) 0 r @ sp_bytes ltail) rows)
      @ sp_bytes tail)"
proof -
  let ?arr = "map Some (concat rows)"
  let ?len = "array_join_x_len ?arr step head tail lhead ltail ldel dels"
  let ?ln = "length rows"
  let ?body = "ajx_text ?arr step lhead ltail ldel dels ?ln [0..<?ln]"
  note body = ajx_text_intercalate [OF assms(1-3)]
  note n = length_concat_rows [OF assms(1)]
  have "0 < ?ln" using assms(3) by simp
  then obtain m where m: "?ln = Suc m" by (cases ?ln) simp_all
  have "(step + m * step - 1) div step = m"
    using assms(2) by (intro div_nat_eqI) (simp_all add: mult.commute)
  then have ln: "(length ?arr - 1) div step + 1 = ?ln" by (simp add: n m)
  have "length ?body \<le> sum_list (map length (concat rows)) + sp_len lhead * ?ln + sp_len ltail * ?ln +
      sum_list (map (\<lambda>k. length (dels_at dels k)) [0..<step]) * ?ln + sp_len ldel * ?ln"
    unfolding body
    using rows_length [OF assms(1), of "sp_bytes lhead" "dels_at dels" "sp_bytes ltail"]
    by (intro order_trans [OF intercalate_length]) simp
  also have "\<dots> + sp_len head + sp_len tail \<le> ?len"
  proof -
    have "length ?arr div step = ?ln" using assms(2) by (simp add: n)
    moreover have "(\<Sum>x\<leftarrow>concat rows. str_len (Some x)) = sum_list (map length (concat rows))" by simp
    moreover have "sum_list (map (\<lambda>k. length (dels_at dels k)) [0..<step]) * ?ln \<le>
        (case dels of None \<Rightarrow> 0 | Some del \<Rightarrow>
           sum_list (map (\<lambda>i. str_len (del ! (i mod length del)) * (?ln + 1)) [0..<step]))"
      by (cases dels) (simp_all add: dels_at_def sum_list_addf sum_list_mult_const)
    ultimately show ?thesis by (simp add: array_join_x_len_def Let_def o_def del: str_len_simps cong: option.case_cong)
  qed
  finally have fits: "sp_len head + length ?body + sp_len tail \<le> ?len" by simp
  have rows: "ajx_rows ?len ?arr step lhead ltail ldel dels ?ln [0..<?ln] (sp_bytes head) =
      Some (sp_bytes head @ ?body)"
  proof (rule ajx_rows_fits [OF _ assms(2)])
    fix i assume "i \<in> set [0..<?ln]"
    then have "Suc i * step \<le> ?ln * step" by (intro mult_le_mono1) simp
    then show "Suc i * step \<le> length ?arr" by (simp add: n)
  qed (use fits in auto)
  have last: "?arr ! ((?ln - 1) * step) \<noteq> None"
    using n m assms(2) by (subst nth_map) simp_all
  show ?thesis
    using assms(2,4,5) ln n m rows last fits body
    by (simp add: array_join_x_def Let_def append_str_fits)
qed

text \<open>
  C31. \<^verbatim>\<open>array_join_x\<close> on an array of whole rows of \<open>step\<close> items (\<open>step > 0\<close>, at least one row, data
  pointers not \<^verbatim>\<open>NULL\<close>), with a non-empty separator array or none and a successful allocation,
  returns the head, the rows (each \<^verbatim>\<open>lhead\<close>, the items with the separators cyclically between them,
  \<^verbatim>\<open>ltail\<close>) with \<^verbatim>\<open>ldel\<close> between rows, and the tail, and never writes beyond the block it allocated.
\<close>

theorem array_join_x_text:
  assumes "\<forall>r \<in> set rows. length r = step" and "0 < step" and "rows \<noteq> []"
    and "dels \<noteq> Some []" and "\<And>n. pa n"
  shows "array_join_x pa (map Some (concat rows)) (int step) head tail lhead ltail ldel dels =
    Some (NGX_OK, sp_bytes head
      @ intercalate (sp_bytes ldel)
          (map (\<lambda>r. sp_bytes lhead @ join_row (dels_at dels) 0 r @ sp_bytes ltail) rows)
      @ sp_bytes tail)"
  using assms by (rule array_join_x_rows)

theorem array_join_x_text_witness:
  "array_join_x (\<lambda>_. True) (map Some (concat [[bs ''a'', bs ''b''], [bs ''c'', bs ''d'']])) (int 2)
     (Some (Some (bs ''{''))) (Some (Some (bs ''}''))) None None (Some (Some (bs '',''))) (Some [Some (bs '':'')]) =
   Some (NGX_OK, bs ''{a:b,c:d}'')"
  using array_join_x_text [of "[[bs ''a'', bs ''b''], [bs ''c'', bs ''d'']]" 2 "Some [Some (bs '':'')]" "\<lambda>_. True"
      "Some (Some (bs ''{''))" "Some (Some (bs ''}''))" None None "Some (Some (bs '',''))"]
  by (simp add: dels_at_def)

text \<open>A separator array without elements ends in a remainder by zero.\<close>

lemma array_join_x_no_dels: "array_join_x pa arr step head tail lhead ltail ldel (Some []) = None"
  by (simp add: array_join_x_def Let_def)

section \<open>Unescaping\<close>

lemma hex_x:
  assumes "n < 16"
  shows "is_x (hex ! n)" and "x_to_c (hex ! n) = of_nat n"
proof -
  have "\<forall>n \<in> set [0..<16]. is_x (hex ! n) \<and> x_to_c (hex ! n) = of_nat n"
    by (simp add: hex_def is_x_def is_num_def is_af_def x_to_c_def to_lower_def upt_rec del: set_upt)
  moreover have "n \<in> set [0..<16]" using assms by simp
  ultimately show "is_x (hex ! n)" and "x_to_c (hex ! n) = of_nat n" by blast+
qed

lemma nibble_bounds: "unat (drop_bit 4 c) < 16" "unat (c AND 0xf :: byte) < 16"
  using unat_byte_less [of c] by (simp_all add: unat_hi_nibble unat_lo_nibble less_mult_imp_div_less)

lemma nibbles_or: "push_bit 4 (drop_bit 4 c) OR (c AND 0xf) = (c :: byte)"
  by (simp only: and_masks) (simp add: byte_eq_bits bit_simps)

lemma plus_percent_escaped: "must_escape NGX_ESCAPE_ARGS 37" "must_escape NGX_ESCAPE_ARGS 43"
  by (simp_all add: must_escape_def escape_args_tab_def)

lemma uri_unescape_quoted:
  "uri_unescape_loop (pre @ 37 # hex ! unat (drop_bit 4 c) # hex ! unat (c AND 0xf) # rest) (length pre) out =
   uri_unescape_loop (pre @ 37 # hex ! unat (drop_bit 4 c) # hex ! unat (c AND 0xf) # rest) (Suc (Suc (Suc (length pre)))) (out @ [c])"
  using nibble_bounds [of c] nibbles_or [of c]
  by (subst uri_unescape_loop.simps) (simp add: nth_append hex_x numeral_3_eq_3)

lemma uri_unescape_escaped:
  "uri_unescape_loop (pre @ ngx_escape_uri NGX_ESCAPE_ARGS s) (length pre) out = Some (out @ s)"
proof (induction s arbitrary: pre out)
  case Nil
  then show ?case by (simp add: uri_unescape_loop.simps)
next
  case (Cons c s)
  show ?case
  proof (cases "must_escape NGX_ESCAPE_ARGS c")
    case True
    with Cons.IH [of "pre @ [37, hex ! unat (drop_bit 4 c), hex ! unat (c AND 0xf)]" "out @ [c]"]
    show ?thesis by (simp add: uri_unescape_quoted)
  next
    case False
    with plus_percent_escaped have "c \<noteq> 37" "c \<noteq> 43" by auto
    with False Cons.IH [of "pre @ [c]" "out @ [c]"] show ?thesis
      by (simp add: uri_unescape_loop.simps [of _ "length pre"] nth_append)
  qed
qed

text \<open>
  The macro \<^verbatim>\<open>uri_unescape\<close> gives back every byte string that nginx escaped for use in
  query arguments (\<^verbatim>\<open>ngx_escape_uri\<close> with \<^verbatim>\<open>NGX_ESCAPE_ARGS\<close>), without reading outside the source.
\<close>

theorem uri_unescape_roundtrip: "uri_unescape (ngx_escape_uri NGX_ESCAPE_ARGS s) = Some s"
  using uri_unescape_escaped [of "[]" s "[]"] by (simp add: uri_unescape_def)

text \<open>A percent sign that no two hexadecimal digits follow is replaced by its own index.\<close>

lemma uri_unescape_bad_percent: "uri_unescape (bs ''a%zz'') = Some [97, 1, 122, 122]"
  by (simp add: uri_unescape_def uri_unescape_loop.simps is_x_def is_num_def is_af_def)

end
