(* ===== verification/Simulation.thy ===== *)
theory Simulation
  imports Main
begin

text \<open>
  The refinement interface the stateful components share: an implementation whose steps may be
  undefined (\<open>None\<close>), an abstract machine, an abstraction function and an invariant under which
  every operation of a set is defined and simulated. Sequences of operations are run one by one.
\<close>

fun run_steps :: "('op \<Rightarrow> 's \<Rightarrow> ('out \<times> 's) option) \<Rightarrow> 'op list \<Rightarrow> 's \<Rightarrow> ('out list \<times> 's) option" where
  "run_steps step [] s = Some ([], s)"
| "run_steps step (op # ops) s =
     Option.bind (step op s) (\<lambda>(out, s').
     map_option (apfst (Cons out)) (run_steps step ops s'))"

fun run_spec :: "('op \<Rightarrow> 'a \<Rightarrow> 'out \<times> 'a) \<Rightarrow> 'op list \<Rightarrow> 'a \<Rightarrow> 'out list \<times> 'a" where
  "run_spec spec [] a = ([], a)"
| "run_spec spec (op # ops) a = (let (out, a') = spec op a in apfst (Cons out) (run_spec spec ops a'))"

text \<open>An abstract machine that leaves some results open is a relation.\<close>

fun run_rel :: "('op \<Rightarrow> 'a \<Rightarrow> 'out \<Rightarrow> 'a \<Rightarrow> bool) \<Rightarrow> 'op list \<Rightarrow> 'a \<Rightarrow> 'out list \<Rightarrow> 'a \<Rightarrow> bool" where
  "run_rel rel [] a [] a' \<longleftrightarrow> a' = a"
| "run_rel rel (op # ops) a (out # outs) a' \<longleftrightarrow> (\<exists>b. rel op a out b \<and> run_rel rel ops b outs a')"
| "run_rel rel _ a _ a' \<longleftrightarrow> False"

locale simulation =
  fixes step :: "'op \<Rightarrow> 's \<Rightarrow> ('out \<times> 's) option"
    and rel :: "'op \<Rightarrow> 'a \<Rightarrow> 'out \<Rightarrow> 'a \<Rightarrow> bool"
    and abs :: "'s \<Rightarrow> 'a"
    and inv :: "'s \<Rightarrow> bool"
    and ops_ok :: "'op \<Rightarrow> bool"
  assumes step_simulates: "inv s \<Longrightarrow> ops_ok op \<Longrightarrow>
    \<exists>out s'. step op s = Some (out, s') \<and> inv s' \<and> rel op (abs s) out (abs s')"
begin

lemma run_simulates:
  "inv s \<Longrightarrow> list_all ops_ok ops \<Longrightarrow>
   \<exists>outs s'. run_steps step ops s = Some (outs, s') \<and> inv s' \<and> run_rel rel ops (abs s) outs (abs s')"
proof (induction ops arbitrary: s)
  case (Cons op ops)
  then obtain out s' where s': "step op s = Some (out, s')" "inv s'" "rel op (abs s) out (abs s')"
    using step_simulates by fastforce
  with Cons obtain outs s'' where "run_steps step ops s' = Some (outs, s'')" "inv s''" "run_rel rel ops (abs s') outs (abs s'')" by fastforce
  with s' show ?case by auto
qed simp

end

locale refinement =
  fixes step :: "'op \<Rightarrow> 's \<Rightarrow> ('out \<times> 's) option"
    and spec :: "'op \<Rightarrow> 'a \<Rightarrow> 'out \<times> 'a"
    and abs :: "'s \<Rightarrow> 'a"
    and inv :: "'s \<Rightarrow> bool"
    and ops_ok :: "'op \<Rightarrow> bool"
  assumes simulates: "inv s \<Longrightarrow> ops_ok op \<Longrightarrow>
    \<exists>out s'. step op s = Some (out, s') \<and> inv s' \<and> spec op (abs s) = (out, abs s')"
begin

lemma run_rel_spec: "run_rel (\<lambda>op a out a'. spec op a = (out, a')) ops a outs a' \<longleftrightarrow> run_spec spec ops a = (outs, a')"
proof (induction ops arbitrary: a outs)
  case Nil
  then show ?case by (cases outs) auto
next
  case (Cons op ops)
  then show ?case by (cases outs; cases "spec op a"; cases "run_spec spec ops (snd (spec op a))") auto
qed

end

sublocale refinement \<subseteq> sim: simulation step "\<lambda>op a out a'. spec op a = (out, a')" abs inv ops_ok
  using simulates by unfold_locales

context refinement
begin

lemma run_refines:
  "inv s \<Longrightarrow> list_all ops_ok ops \<Longrightarrow>
   \<exists>outs s'. run_steps step ops s = Some (outs, s') \<and> inv s' \<and> run_spec spec ops (abs s) = (outs, abs s')"
  using sim.run_simulates unfolding run_rel_spec .

lemma run_defined: "inv s \<Longrightarrow> list_all ops_ok ops \<Longrightarrow> run_steps step ops s \<noteq> None"
  using run_refines by fastforce

lemma run_invariant:
  "inv s \<Longrightarrow> list_all ops_ok ops \<Longrightarrow> run_steps step ops s = Some (outs, s') \<Longrightarrow> inv s'"
  using run_refines by fastforce

end

end
