(* ===== verification/Arrayv.thy ===== *)
theory Arrayv
  imports Ngx_Util Simulation
begin

text \<open>
  The array variables of \<^verbatim>\<open>src/c/ngx_http_arrayv_module\<close>. An array variable is a pair of arrays,
  \<^verbatim>\<open>pop\<close> and \<^verbatim>\<open>sft\<close>, each with a window \<^verbatim>\<open>start\<close> to \<^verbatim>\<open>end\<close> and a size; the get handler implements
  \<^verbatim>\<open>pop_array\<close>, \<^verbatim>\<open>shift_array\<close> and \<^verbatim>\<open>print_array\<close>, the set handler \<^verbatim>\<open>push_array\<close>, \<^verbatim>\<open>unshift_array\<close> and
  \<^verbatim>\<open>str_to_array\<close>.

  The elements of an \<^verbatim>\<open>ngx_array_t\<close> are a list whose length is \<^verbatim>\<open>nelts\<close>; the signed fields are
  integers. \<open>None\<close> is an access outside the elements or a write through a null pointer. What the
  pool does is the record \<open>av_pool\<close>: whether an allocation of a size and a push onto an array of
  a length succeed, what \<^verbatim>\<open>str_to_array\<close> gets from it, and whether the blocks of a fixed size that a
  handler takes (the context, its two arrays, the copy of a value and of its data) can be had:
  no handler checks these, so a failure is a use of a null pointer.
\<close>

section \<open>State\<close>

record av_pool =
  pl_alloc :: "nat \<Rightarrow> bool"
  pl_push :: "nat \<Rightarrow> bool"
  pl_created :: bool
  pl_cap :: nat
  pl_fresh :: bool

text \<open>A stored element: the fields of the variable value that the module sets.\<close>

record av_val =
  av_data :: bytes
  av_valid :: bool

record av_elt =
  e_arr :: "av_val list"
  e_size :: int
  e_start :: int
  e_end :: int

record av_vctx =
  pop :: av_elt
  sft :: av_elt

text \<open>The value a handler reads or fills, a cell of the script engine's stack.\<close>

record vvt =
  v_data :: bytes
  v_valid :: bool
  v_not_found :: bool

definition ngx_http_variable_null_value :: vvt where
  "ngx_http_variable_null_value = \<lparr>v_data = [], v_valid = True, v_not_found = False\<rparr>"

text \<open>A slot of \<^verbatim>\<open>r->variables\<close>; the data pointer of an array variable points to its context.\<close>

datatype slot_data = SNull | SBytes bytes | SCtx av_vctx

record av_slot =
  s_len :: nat
  s_data :: slot_data
  s_valid :: bool
  s_not_found :: bool

datatype av_opflag = OP_NONE | OP_HEAD | OP_TAIL | OP_LIST | OP_STR

record av_joinx =
  jx_step :: int
  jx_head :: ngx_str
  jx_tail :: ngx_str
  jx_lhead :: ngx_str
  jx_ltail :: ngx_str
  jx_ldel :: ngx_str
  jx_dels :: "ngx_str list"

record av_op =
  op_flag :: av_opflag
  op_index :: nat
  op_joinx :: "av_joinx option"
  op_del :: byte

section \<open>Creating a context\<close>

definition av_elt_empty :: av_elt where
  "av_elt_empty = \<lparr>e_arr = [], e_size = 0, e_start = -1, e_end = -1\<rparr>"

definition av_ctx_empty :: av_vctx where
  "av_ctx_empty = \<lparr>pop = av_elt_empty, sft = av_elt_empty\<rparr>"

definition av_slot_init :: "av_slot \<Rightarrow> av_slot" where
  "av_slot_init vv =
     (if s_len vv = 0 \<and> s_data vv = SNull \<and> \<not> s_valid vv \<and> \<not> s_not_found vv
      then \<lparr>s_len = 16, s_data = SCtx av_ctx_empty, s_valid = True, s_not_found = False\<rparr>
      else vv)"

definition slot_ctx :: "av_slot \<Rightarrow> av_vctx option" where
  "slot_ctx vv = (case s_data vv of SCtx c \<Rightarrow> Some c | _ \<Rightarrow> None)"

definition slot_set_ctx :: "av_vctx \<Rightarrow> av_slot \<Rightarrow> av_slot" where
  "slot_set_ctx c vv = vv\<lparr>s_data := SCtx c\<rparr>"

definition elt_at :: "av_elt \<Rightarrow> int \<Rightarrow> av_val option" where
  "elt_at e i = (if 0 \<le> i \<and> nat i < length (e_arr e) then Some (e_arr e ! nat i) else None)"

definition ngx_http_av_copy_vvt :: "vvt \<Rightarrow> av_val \<Rightarrow> vvt" where
  "ngx_http_av_copy_vvt to x = to\<lparr>v_data := av_data x, v_valid := av_valid x\<rparr>"

definition av_vcopy :: "vvt \<Rightarrow> av_val" where
  "av_vcopy v = \<lparr>av_data = v_data v, av_valid = v_valid v\<rparr>"

section \<open>The get handler\<close>

text \<open>
  Taking from the start of the other array: the last element drops the slot, an element before
  it leaves the slot in the array.
\<close>

definition av_take_start :: "av_elt \<Rightarrow> (av_val \<times> av_elt) option" where
  "av_take_start e =
     map_option (\<lambda>x.
       (x, if e_size e = 1
           then e\<lparr>e_start := e_start e - 1, e_end := e_end e - 1, e_size := 0, e_arr := butlast (e_arr e)\<rparr>
           else e\<lparr>e_start := e_start e + 1, e_size := e_size e - 1\<rparr>))
     (elt_at e (e_start e))"

definition av_take_end :: "av_elt \<Rightarrow> (av_val \<times> av_elt) option" where
  "av_take_end e =
     map_option (\<lambda>x.
       (x, (if e_size e = 1 then e\<lparr>e_start := e_start e - 1, e_end := e_end e - 1\<rparr>
            else e\<lparr>e_end := e_end e - 1\<rparr>)
           \<lparr>e_size := e_size e - 1, e_arr := butlast (e_arr e)\<rparr>))
     (elt_at e (e_end e))"

definition av_pop :: "av_vctx \<Rightarrow> vvt \<Rightarrow> (ngx_rc \<times> av_vctx \<times> vvt) option" where
  "av_pop ctx v =
     (if e_size (pop ctx) = 0 then
        if e_size (sft ctx) = 0 then Some (NGX_OK, ctx, ngx_http_variable_null_value)
        else if e_size (sft ctx) \<ge> 1 then
          map_option (\<lambda>(x, e). (NGX_OK, ctx\<lparr>sft := e\<rparr>, ngx_http_av_copy_vvt v x)) (av_take_start (sft ctx))
        else Some (NGX_ERROR, ctx, v)
      else if e_size (pop ctx) > 0 then
        map_option (\<lambda>(x, e). (NGX_OK, ctx\<lparr>pop := e\<rparr>, ngx_http_av_copy_vvt v x)) (av_take_end (pop ctx))
      else Some (NGX_ERROR, ctx, v))"

definition av_shift :: "av_vctx \<Rightarrow> vvt \<Rightarrow> (ngx_rc \<times> av_vctx \<times> vvt) option" where
  "av_shift ctx v =
     (if e_size (sft ctx) = 0 then
        if e_size (pop ctx) = 0 then Some (NGX_OK, ctx, ngx_http_variable_null_value)
        else if e_size (pop ctx) \<ge> 1 then
          map_option (\<lambda>(x, e). (NGX_OK, ctx\<lparr>pop := e\<rparr>, ngx_http_av_copy_vvt v x)) (av_take_start (pop ctx))
        else Some (NGX_ERROR, ctx, v)
      else if e_size (sft ctx) > 0 then
        map_option (\<lambda>(x, e). (NGX_OK, ctx\<lparr>sft := e\<rparr>, ngx_http_av_copy_vvt v x)) (av_take_end (sft ctx))
      else Some (NGX_ERROR, ctx, v))"

text \<open>The copy loops of \<^verbatim>\<open>OP_LIST\<close>: \<open>n\<close> elements from index \<open>cur\<close>, going by \<open>dir\<close>.\<close>

primrec av_collect :: "av_elt \<Rightarrow> int \<Rightarrow> int \<Rightarrow> nat \<Rightarrow> bytes list option" where
  "av_collect e cur dir 0 = Some []"
| "av_collect e cur dir (Suc n) =
     Option.bind (elt_at e cur) (\<lambda>x. map_option (Cons (av_data x)) (av_collect e (cur + dir) dir n))"

definition av_list :: "av_pool \<Rightarrow> av_joinx option \<Rightarrow> av_vctx \<Rightarrow> vvt \<Rightarrow> (ngx_rc \<times> vvt) option" where
  "av_list pl joinx ctx v =
     (if e_size (sft ctx) + e_size (pop ctx) = 0 then Some (NGX_ERROR, v)
      else
        Option.bind (av_collect (sft ctx) (e_end (sft ctx)) (-1) (nat (e_size (sft ctx)))) (\<lambda>xs.
        Option.bind (av_collect (pop ctx) (e_start (pop ctx)) 1 (nat (e_size (pop ctx)))) (\<lambda>ys.
        Option.bind joinx (\<lambda>jx.
        if jx_step jx \<le> 0 then None
        else
          let temparr = xs @ ys;
              temparr = take (length temparr - length temparr mod nat (jx_step jx)) temparr
          in
          map_option (\<lambda>(rc, out).
            if rc \<noteq> NGX_OK then (rc, ngx_http_variable_null_value)
            else (NGX_OK, v\<lparr>v_data := out, v_valid := True\<rparr>))
          (array_join_x (pl_alloc pl) (map Some temparr) (jx_step jx)
             (Some (jx_head jx)) (Some (jx_tail jx)) (Some (jx_lhead jx)) (Some (jx_ltail jx))
             (Some (jx_ldel jx)) (Some (jx_dels jx)))))))"

definition ngx_http_av_get_handler ::
  "av_pool \<Rightarrow> av_slot list \<Rightarrow> vvt \<Rightarrow> av_op \<Rightarrow> (ngx_rc \<times> av_slot list \<times> vvt) option" where
  "ngx_http_av_get_handler pl vars v opindex =
     (if op_index opindex \<ge> length vars \<or> \<not> pl_fresh pl then None
      else
        let i = op_index opindex; vv = av_slot_init (vars ! i) in
        Option.bind (slot_ctx vv) (\<lambda>ctx.
        case op_flag opindex of
          OP_HEAD \<Rightarrow>
            map_option (\<lambda>(rc, ctx, v). (rc, vars[i := slot_set_ctx ctx vv], v)) (av_pop ctx v)
        | OP_TAIL \<Rightarrow>
            map_option (\<lambda>(rc, ctx, v). (rc, vars[i := slot_set_ctx ctx vv], v)) (av_shift ctx v)
        | OP_LIST \<Rightarrow>
            map_option (\<lambda>(rc, v). (rc, vars[i := vv], v)) (av_list pl (op_joinx opindex) ctx v)
        | _ \<Rightarrow> Some (NGX_OK, vars[i := vv], v)))"

section \<open>The set handler\<close>

text \<open>An element is pushed onto an array: the window grows by it, or starts at it.\<close>

definition av_append :: "av_elt \<Rightarrow> av_val \<Rightarrow> av_elt option" where
  "av_append e x =
     (let e = e\<lparr>e_arr := e_arr e @ [x]\<rparr>;
          e = (if e_size e = 0 then e\<lparr>e_start := e_start e + 1, e_end := e_end e + 1, e_size := 1\<rparr>
               else if e_size e > 0 then e\<lparr>e_end := e_end e + 1, e_size := e_size e + 1\<rparr>
               else e)
      in map_option (\<lambda>_. e) (elt_at e (e_end e)))"

text \<open>The branch of \<^verbatim>\<open>OP_HEAD\<close> and \<^verbatim>\<open>OP_STR\<close> that reuses a freed slot writes into \<^verbatim>\<open>pop\<close> and counts in \<^verbatim>\<open>sft\<close>.\<close>

definition av_push :: "av_pool \<Rightarrow> av_vctx \<Rightarrow> av_val \<Rightarrow> av_vctx option" where
  "av_push pl ctx x =
     (if e_size (pop ctx) = 0 \<and> e_size (sft ctx) > 0 \<and> e_start (sft ctx) > 0 then
        let i = e_start (pop ctx) - 1 in
        if 0 \<le> i \<and> nat i < length (e_arr (pop ctx)) then
          Some (ctx\<lparr>pop := (pop ctx)\<lparr>e_start := i, e_arr := (e_arr (pop ctx))[nat i := x]\<rparr>,
                    sft := (sft ctx)\<lparr>e_size := e_size (sft ctx) + 1\<rparr>\<rparr>)
        else None
      else if \<not> pl_push pl (length (e_arr (pop ctx))) then None
      else map_option (\<lambda>e. ctx\<lparr>pop := e\<rparr>) (av_append (pop ctx) x))"

definition av_unshift :: "av_pool \<Rightarrow> av_vctx \<Rightarrow> av_val \<Rightarrow> av_vctx option" where
  "av_unshift pl ctx x =
     (if e_size (sft ctx) = 0 \<and> e_size (pop ctx) > 0 \<and> e_start (pop ctx) > 0 then
        let i = e_start (pop ctx) - 1 in
        if 0 \<le> i \<and> nat i < length (e_arr (pop ctx)) then
          Some (ctx\<lparr>pop := (pop ctx)\<lparr>e_start := i, e_arr := (e_arr (pop ctx))[nat i := x],
                                      e_size := e_size (pop ctx) + 1\<rparr>\<rparr>)
        else None
      else if \<not> pl_push pl (length (e_arr (sft ctx))) then Some ctx
      else map_option (\<lambda>e. ctx\<lparr>sft := e\<rparr>) (av_append (sft ctx) x))"

primrec av_push_all :: "av_pool \<Rightarrow> av_vctx \<Rightarrow> bytes list \<Rightarrow> av_vctx option" where
  "av_push_all pl ctx [] = Some ctx"
| "av_push_all pl ctx (d # ds) =
     Option.bind (av_push pl ctx \<lparr>av_data = d, av_valid = True\<rparr>) (\<lambda>ctx. av_push_all pl ctx ds)"

definition ngx_http_av_set_handler ::
  "av_pool \<Rightarrow> av_slot list \<Rightarrow> vvt \<Rightarrow> av_op \<Rightarrow> av_slot list option" where
  "ngx_http_av_set_handler pl vars v opindex =
     (if op_index opindex \<ge> length vars \<or> \<not> pl_fresh pl then None
      else
        let i = op_index opindex; vv = av_slot_init (vars ! i); vcopy = av_vcopy v in
        Option.bind (slot_ctx vv) (\<lambda>ctx.
        map_option (\<lambda>ctx. vars[i := slot_set_ctx ctx vv])
          (case op_flag opindex of
             OP_HEAD \<Rightarrow> av_push pl ctx vcopy
           | OP_TAIL \<Rightarrow> av_unshift pl ctx vcopy
           | OP_STR \<Rightarrow>
               (case str_to_array (pl_created pl) (pl_cap pl) (v_data v) (op_del opindex) of
                  (rc, items) \<Rightarrow>
                    if rc \<noteq> NGX_OK then Some ctx
                    else av_push_all pl ctx (map (item_bytes (v_data v)) items))
           | _ \<Rightarrow> Some ctx)))"

section \<open>Invariant and abstraction\<close>

text \<open>
  The window of an array ends at its last element; an empty window has its start there too. The
  elements are the ones from \<^verbatim>\<open>start\<close> on, and the deque is the \<^verbatim>\<open>sft\<close> elements backwards followed by
  the \<^verbatim>\<open>pop\<close> elements, the order in which \<^verbatim>\<open>OP_LIST\<close> prints them.
\<close>

definition elt_wf :: "av_elt \<Rightarrow> bool" where
  "elt_wf e \<longleftrightarrow>
     e_end e = int (length (e_arr e)) - 1 \<and> 0 \<le> e_size e \<and> e_size e \<le> int (length (e_arr e)) \<and>
     e_start e = (if e_size e = 0 then e_end e else int (length (e_arr e)) - e_size e)"

definition elt_list :: "av_elt \<Rightarrow> av_val list" where
  "elt_list e = drop (length (e_arr e) - nat (e_size e)) (e_arr e)"

definition ctx_wf :: "av_vctx \<Rightarrow> bool" where
  "ctx_wf c \<longleftrightarrow> elt_wf (pop c) \<and> elt_wf (sft c)"

definition ctx_list :: "av_vctx \<Rightarrow> av_val list" where
  "ctx_list c = rev (elt_list (sft c)) @ elt_list (pop c)"

text \<open>The well-formed arrays by their freed prefix and their elements; each operation on that form.\<close>

definition elt_rep :: "av_val list \<Rightarrow> av_val list \<Rightarrow> av_elt" where
  "elt_rep f xs =
     \<lparr>e_arr = f @ xs, e_size = int (length xs),
      e_start = (if xs = [] then int (length f) - 1 else int (length f)),
      e_end = int (length f + length xs) - 1\<rparr>"

lemma elt_rep_sel [simp]:
  "e_size (elt_rep f xs) = int (length xs)" "elt_list (elt_rep f xs) = xs" "elt_wf (elt_rep f xs)"
  "e_arr (elt_rep f xs) = f @ xs" "xs \<noteq> [] \<Longrightarrow> e_start (elt_rep f xs) = int (length f)"
  by (auto simp: elt_rep_def elt_list_def elt_wf_def)

lemma elt_wf_rep:
  assumes "elt_wf e"
  obtains f xs where "e = elt_rep f xs"
proof -
  let ?k = "length (e_arr e) - nat (e_size e)"
  have "int ?k = int (length (e_arr e)) - e_size e" using assms by (auto simp: elt_wf_def)
  then have "e = elt_rep (take ?k (e_arr e)) (drop ?k (e_arr e))"
    using assms by (cases e) (auto simp: elt_wf_def elt_rep_def)
  with that show thesis by blast
qed

lemma elt_empty_rep: "av_elt_empty = elt_rep [] []"
  by (simp add: av_elt_empty_def elt_rep_def)

lemma take_end_rep: "av_take_end (elt_rep f (xs @ [x])) = Some (x, elt_rep f xs)"
  by (auto simp: av_take_end_def elt_at_def elt_rep_def nth_append butlast_append nat_add_distrib)

lemma take_start_rep:
  "av_take_start (elt_rep f (x # xs)) = Some (x, if xs = [] then elt_rep f [] else elt_rep (f @ [x]) xs)"
  by (auto simp: av_take_start_def elt_at_def elt_rep_def nth_append butlast_append)

lemma append_rep: "av_append (elt_rep f xs) x = Some (elt_rep f (xs @ [x]))"
  by (auto simp: av_append_def elt_at_def elt_rep_def Let_def nat_add_distrib)

lemma prepend_rep:
  "xs \<noteq> [] \<Longrightarrow>
   (elt_rep (f @ [y]) xs)\<lparr>e_start := int (length f), e_arr := (f @ y # xs)[length f := x],
      e_size := int (length xs) + 1\<rparr> = elt_rep f (x # xs)"
  by (simp add: elt_rep_def)

lemmas rep_simps = take_end_rep take_start_rep append_rep prepend_rep

section \<open>Each operation on the deque\<close>

lemma ctx_cases:
  assumes "ctx_wf c"
  obtains f xs g ys where "c = \<lparr>pop = elt_rep f xs, sft = elt_rep g ys\<rparr>"
  using assms by (cases c) (auto simp: ctx_wf_def elim!: elt_wf_rep)

text \<open>No slot of \<^verbatim>\<open>sft\<close> has been freed at its start.\<close>

definition sft_full :: "av_vctx \<Rightarrow> bool" where
  "sft_full c \<longleftrightarrow> e_size (sft c) = int (length (e_arr (sft c)))"

lemma av_pop_refines:
  assumes "ctx_wf c"
  shows "\<exists>c'. av_pop c v =
      Some (NGX_OK, c', if ctx_list c = [] then ngx_http_variable_null_value
                        else ngx_http_av_copy_vvt v (last (ctx_list c))) \<and>
    ctx_wf c' \<and> ctx_list c' = butlast (ctx_list c) \<and> (e_size (sft c) = 0 \<longrightarrow> sft c' = sft c)"
proof -
  obtain f xs g ys where c: "c = \<lparr>pop = elt_rep f xs, sft = elt_rep g ys\<rparr>" using ctx_cases assms .
  show ?thesis
  proof (cases xs rule: rev_cases)
    case Nil
    with c show ?thesis
      by (cases ys) (auto simp: av_pop_def ctx_list_def ctx_wf_def rep_simps butlast_append)
  next
    case (snoc zs z)
    with c show ?thesis
      by (simp add: av_pop_def ctx_list_def ctx_wf_def rep_simps butlast_append)
  qed
qed

lemma av_shift_refines:
  assumes "ctx_wf c"
  shows "\<exists>c'. av_shift c v =
      Some (NGX_OK, c', if ctx_list c = [] then ngx_http_variable_null_value
                        else ngx_http_av_copy_vvt v (hd (ctx_list c))) \<and>
    ctx_wf c' \<and> ctx_list c' = tl (ctx_list c) \<and> (e_size (sft c) = 0 \<longrightarrow> sft c' = sft c) \<and>
    (sft_full c \<longrightarrow> sft_full c')"
proof -
  obtain f xs g ys where c: "c = \<lparr>pop = elt_rep f xs, sft = elt_rep g ys\<rparr>" using ctx_cases assms .
  show ?thesis
  proof (cases ys rule: rev_cases)
    case Nil
    with c show ?thesis
      by (cases xs) (auto simp: av_shift_def ctx_list_def ctx_wf_def sft_full_def rep_simps)
  next
    case (snoc zs z)
    with c show ?thesis by (simp add: av_shift_def ctx_list_def ctx_wf_def sft_full_def rep_simps)
  qed
qed

text \<open>A push is right unless it meets the branch that reuses a freed slot of \<^verbatim>\<open>sft\<close>.\<close>

definition push_reuses :: "av_vctx \<Rightarrow> bool" where
  "push_reuses c \<longleftrightarrow> e_size (pop c) = 0 \<and> e_size (sft c) > 0 \<and> e_start (sft c) > 0"

lemma av_push_refines:
  assumes "ctx_wf c" and "\<And>n. pl_push pl n" and "\<not> push_reuses c"
  shows "\<exists>c'. av_push pl c x = Some c' \<and> ctx_wf c' \<and> ctx_list c' = ctx_list c @ [x] \<and> sft c' = sft c"
proof -
  obtain f xs g ys where "c = \<lparr>pop = elt_rep f xs, sft = elt_rep g ys\<rparr>" using ctx_cases assms(1) .
  with assms(2,3) show ?thesis
    by (auto simp: av_push_def push_reuses_def ctx_list_def ctx_wf_def rep_simps)
qed

lemma av_unshift_refines:
  assumes "ctx_wf c" and "\<And>n. pl_push pl n"
  shows "\<exists>c'. av_unshift pl c x = Some c' \<and> ctx_wf c' \<and> ctx_list c' = x # ctx_list c \<and>
    (sft_full c \<longrightarrow> sft_full c')"
proof -
  obtain f xs g ys where c: "c = \<lparr>pop = elt_rep f xs, sft = elt_rep g ys\<rparr>" using ctx_cases assms(1) .
  show ?thesis
  proof (cases "ys = [] \<and> xs \<noteq> [] \<and> f \<noteq> []")
    case True
    then obtain h y where "f = h @ [y]" by (meson rev_exhaust)
    with c True show ?thesis
      using prepend_rep [of xs h y x]
      by (simp add: av_unshift_def ctx_list_def ctx_wf_def sft_full_def Let_def)
  next
    case False
    with c assms(2) show ?thesis
      by (auto simp: av_unshift_def ctx_list_def ctx_wf_def sft_full_def rep_simps)
  qed
qed

section \<open>Commands through the handlers\<close>

text \<open>
  The commands that run against one variable slot, with the value the script engine passes, and
  the list machine they should implement. A \<open>Split\<close> is \<^verbatim>\<open>str_to_array\<close>, which should append each
  piece between two delimiters (none for the empty string).
\<close>

datatype av_cmd = Push vvt | Unshift vvt | Pop vvt | Shift vvt | Split vvt byte

definition av_opindex :: "av_opflag \<Rightarrow> nat \<Rightarrow> byte \<Rightarrow> av_op" where
  "av_opindex f i d = \<lparr>op_flag = f, op_index = i, op_joinx = None, op_del = d\<rparr>"

primrec av_exec ::
  "av_pool \<Rightarrow> nat \<Rightarrow> av_cmd \<Rightarrow> av_slot list \<Rightarrow> ((ngx_rc \<times> vvt) option \<times> av_slot list) option" where
  "av_exec pl i (Push v) vars =
     map_option (Pair None) (ngx_http_av_set_handler pl vars v (av_opindex OP_HEAD i 0))"
| "av_exec pl i (Unshift v) vars =
     map_option (Pair None) (ngx_http_av_set_handler pl vars v (av_opindex OP_TAIL i 0))"
| "av_exec pl i (Split v d) vars =
     map_option (Pair None) (ngx_http_av_set_handler pl vars v (av_opindex OP_STR i d))"
| "av_exec pl i (Pop v) vars =
     map_option (\<lambda>(rc, vars, v). (Some (rc, v), vars))
       (ngx_http_av_get_handler pl vars v (av_opindex OP_HEAD i 0))"
| "av_exec pl i (Shift v) vars =
     map_option (\<lambda>(rc, vars, v). (Some (rc, v), vars))
       (ngx_http_av_get_handler pl vars v (av_opindex OP_TAIL i 0))"

definition deque_get :: "vvt \<Rightarrow> (av_val list \<Rightarrow> av_val) \<Rightarrow> av_val list \<Rightarrow> vvt" where
  "deque_get v pick l =
     (if l = [] then ngx_http_variable_null_value else ngx_http_av_copy_vvt v (pick l))"

primrec deque_spec :: "av_cmd \<Rightarrow> av_val list \<Rightarrow> (ngx_rc \<times> vvt) option \<times> av_val list" where
  "deque_spec (Push v) l = (None, l @ [av_vcopy v])"
| "deque_spec (Unshift v) l = (None, av_vcopy v # l)"
| "deque_spec (Split v d) l =
     (None, if v_data v = [] then l
            else l @ map (\<lambda>p. \<lparr>av_data = p, av_valid = True\<rparr>) (split_fields d (v_data v)))"
| "deque_spec (Pop v) l = (Some (NGX_OK, deque_get v last l), butlast l)"
| "deque_spec (Shift v) l = (Some (NGX_OK, deque_get v hd l), tl l)"

definition slot_inv :: "(av_vctx \<Rightarrow> bool) \<Rightarrow> av_slot \<Rightarrow> bool" where
  "slot_inv P vv =
     (case s_data vv of
        SNull \<Rightarrow> s_len vv = 0 \<and> \<not> s_valid vv \<and> \<not> s_not_found vv
      | SBytes _ \<Rightarrow> False
      | SCtx c \<Rightarrow> P c)"

definition slot_list :: "av_slot \<Rightarrow> av_val list" where
  "slot_list vv = (case s_data vv of SCtx c \<Rightarrow> ctx_list c | _ \<Rightarrow> [])"

lemma ctx_empty [simp]: "ctx_wf av_ctx_empty" "ctx_list av_ctx_empty = []" "sft_full av_ctx_empty"
  "e_size (sft av_ctx_empty) = 0"
  by (simp_all add: av_ctx_empty_def ctx_wf_def ctx_list_def elt_empty_rep sft_full_def)

lemma slot_init_ctx:
  assumes "slot_inv P vv" and "P av_ctx_empty"
  obtains c where "slot_ctx (av_slot_init vv) = Some c" "P c" "ctx_list c = slot_list vv"
  using assms by (auto simp: slot_inv_def slot_ctx_def av_slot_init_def slot_list_def split: slot_data.splits)

lemma slot_set_ctx [simp]:
  "slot_inv P (slot_set_ctx c vv) = P c" "slot_list (slot_set_ctx c vv) = ctx_list c"
  by (simp_all add: slot_inv_def slot_set_ctx_def slot_list_def)

text \<open>The state predicates of the two disciplines under which no push meets a freed slot.\<close>

definition av_pool_ok :: "av_pool \<Rightarrow> bool" where
  "av_pool_ok pl \<longleftrightarrow> (\<forall>n. pl_push pl n) \<and> pl_created pl \<and> 0 < pl_cap pl \<and> pl_fresh pl"

definition queue_ctx :: "av_vctx \<Rightarrow> bool" where "queue_ctx c \<longleftrightarrow> ctx_wf c \<and> sft_full c"
definition stack_ctx :: "av_vctx \<Rightarrow> bool" where "stack_ctx c \<longleftrightarrow> ctx_wf c \<and> e_size (sft c) = 0"

definition av_inv :: "(av_vctx \<Rightarrow> bool) \<Rightarrow> av_pool \<Rightarrow> nat \<Rightarrow> av_slot list \<Rightarrow> bool" where
  "av_inv P pl i vars \<longleftrightarrow> av_pool_ok pl \<and> i < length vars \<and> slot_inv P (vars ! i)"

text \<open>
  The strings that \<^verbatim>\<open>str_to_array\<close> can split: the loop does not get past a delimiter
  (\<open>str_to_array_outcome\<close>), so there must be none. The length of a variable value is a field of 28 bits.
\<close>

definition cmd_ok :: "av_cmd \<Rightarrow> bool" where
  "cmd_ok c \<longleftrightarrow> (case c of Split v d \<Rightarrow> d \<notin> set (v_data v) \<and> length (v_data v) < 2 ^ 28 | _ \<Rightarrow> True)"

definition not_pop :: "av_cmd \<Rightarrow> bool" where
  "not_pop c \<longleftrightarrow> cmd_ok c \<and> (case c of Pop _ \<Rightarrow> False | _ \<Rightarrow> True)"

definition not_unshift :: "av_cmd \<Rightarrow> bool" where
  "not_unshift c \<longleftrightarrow> cmd_ok c \<and> (case c of Unshift _ \<Rightarrow> False | _ \<Rightarrow> True)"

lemma no_reuse: "queue_ctx c \<Longrightarrow> \<not> push_reuses c" "stack_ctx c \<Longrightarrow> \<not> push_reuses c"
  by (auto simp: queue_ctx_def stack_ctx_def push_reuses_def sft_full_def ctx_wf_def elt_wf_def)

lemma av_split_items:
  assumes "av_pool_ok pl" and "length d < 2 ^ 28"
  shows "(case str_to_array (pl_created pl) (pl_cap pl) d del of
            (rc, items) \<Rightarrow> if rc \<noteq> NGX_OK then Some ctx else av_push_all pl ctx (map (item_bytes d) items)) =
     (if del \<in> set d \<or> d = [] then Some ctx else av_push pl ctx \<lparr>av_data = d, av_valid = True\<rparr>)"
proof -
  obtain cap where cap: "pl_cap pl = Suc cap" "pl_created pl"
    using assms by (auto simp: av_pool_ok_def gr0_conv_Suc)
  have "item_bytes d (0, of_nat (length d)) = d"
    using assms(2) by (simp add: item_bytes_def unat_of_nat64)
  then show ?thesis
    using cap str_to_array_absent [of del d cap] str_to_array_present [of del d cap]
    by (auto simp: split_beta)
qed

text \<open>What a handler does to the slot of its array and to no other slot.\<close>

definition only_slot :: "nat \<Rightarrow> av_slot list \<Rightarrow> av_slot list \<Rightarrow> bool" where
  "only_slot i vars vars' \<longleftrightarrow> length vars' = length vars \<and> (\<forall>j. j \<noteq> i \<longrightarrow> vars' ! j = vars ! j)"

lemma set_handler_step:
  assumes "av_inv P pl i vars" and "P av_ctx_empty" and "length (v_data v) < 2 ^ 28 \<or> f \<noteq> OP_STR"
    and "\<And>c. P c \<Longrightarrow> \<exists>c'. (case f of OP_HEAD \<Rightarrow> av_push pl c (av_vcopy v) | OP_TAIL \<Rightarrow> av_unshift pl c (av_vcopy v)
           | OP_STR \<Rightarrow> if d \<in> set (v_data v) \<or> v_data v = [] then Some c
                      else av_push pl c \<lparr>av_data = v_data v, av_valid = True\<rparr>
           | _ \<Rightarrow> Some c) = Some c' \<and> R c' \<and> ctx_list c' = g (ctx_list c)"
  shows "\<exists>vars'. ngx_http_av_set_handler pl vars v (av_opindex f i d) = Some vars' \<and>
     av_inv R pl i vars' \<and> only_slot i vars vars' \<and> slot_list (vars' ! i) = g (slot_list (vars ! i))"
proof -
  from assms(1) have i: "i < length vars" "slot_inv P (vars ! i)" "av_pool_ok pl" by (auto simp: av_inv_def)
  obtain c where c: "slot_ctx (av_slot_init (vars ! i)) = Some c" "P c" "ctx_list c = slot_list (vars ! i)"
    using slot_init_ctx [OF i(2) assms(2)] .
  from assms(4) [OF c(2)] obtain c' where
    "(case f of OP_HEAD \<Rightarrow> av_push pl c (av_vcopy v) | OP_TAIL \<Rightarrow> av_unshift pl c (av_vcopy v)
           | OP_STR \<Rightarrow> if d \<in> set (v_data v) \<or> v_data v = [] then Some c
                      else av_push pl c \<lparr>av_data = v_data v, av_valid = True\<rparr>
           | _ \<Rightarrow> Some c) = Some c'" "R c'" "ctx_list c' = g (ctx_list c)" by blast
  with i c assms(3) av_split_items [OF i(3), of "v_data v" c d] show ?thesis
    by (cases f) (auto simp: ngx_http_av_set_handler_def av_opindex_def Let_def av_inv_def av_pool_ok_def only_slot_def)
qed

lemma get_handler_step:
  assumes "av_inv P pl i vars" and "P av_ctx_empty" and "f = OP_HEAD \<or> f = OP_TAIL"
    and "\<And>c. P c \<Longrightarrow> \<exists>c'. (if f = OP_HEAD then av_pop c v else av_shift c v) =
           Some (NGX_OK, c', deque_get v pick (ctx_list c)) \<and> R c' \<and> ctx_list c' = g (ctx_list c)"
  shows "\<exists>vars'. ngx_http_av_get_handler pl vars v (av_opindex f i d) =
       Some (NGX_OK, vars', deque_get v pick (slot_list (vars ! i))) \<and>
     av_inv R pl i vars' \<and> only_slot i vars vars' \<and> slot_list (vars' ! i) = g (slot_list (vars ! i))"
proof -
  from assms(1) have i: "i < length vars" "slot_inv P (vars ! i)" "av_pool_ok pl" by (auto simp: av_inv_def)
  obtain c where c: "slot_ctx (av_slot_init (vars ! i)) = Some c" "P c" "ctx_list c = slot_list (vars ! i)"
    using slot_init_ctx [OF i(2) assms(2)] .
  from assms(4) [OF c(2)] obtain c' where
    "(if f = OP_HEAD then av_pop c v else av_shift c v) = Some (NGX_OK, c', deque_get v pick (ctx_list c))"
    "R c'" "ctx_list c' = g (ctx_list c)" by blast
  with i c assms(3) show ?thesis
    by (auto simp: ngx_http_av_get_handler_def av_opindex_def Let_def av_inv_def av_pool_ok_def only_slot_def)
qed

lemma push_step:
  assumes "queue_ctx c \<and> Q = queue_ctx \<or> stack_ctx c \<and> Q = stack_ctx" and "av_pool_ok pl"
  shows "\<exists>c'. av_push pl c x = Some c' \<and> Q c' \<and> ctx_list c' = ctx_list c @ [x]"
  using assms no_reuse av_push_refines [of c pl x]
  by (fastforce simp: queue_ctx_def stack_ctx_def sft_full_def av_pool_ok_def)

lemma exec_refines:
  assumes inv: "av_inv Q pl i vars"
    and Q: "Q = queue_ctx \<and> not_pop cmd \<or> Q = stack_ctx \<and> not_unshift cmd"
  shows "\<exists>out vars'. av_exec pl i cmd vars = Some (out, vars') \<and> av_inv Q pl i vars' \<and>
    deque_spec cmd (slot_list (vars ! i)) = (out, slot_list (vars' ! i))"
proof -
  have e: "Q av_ctx_empty" using Q by (auto simp: queue_ctx_def stack_ctx_def)
  have pl: "av_pool_ok pl" using inv by (simp add: av_inv_def)
  have p: "\<exists>c'. av_push pl c x = Some c' \<and> Q c' \<and> ctx_list c' = ctx_list c @ [x]" if "Q c" for c x
    using push_step [of c Q] pl that Q by blast
  have g: "\<exists>c'. (if OP_TAIL = OP_HEAD then a c else av_shift c v) =
        Some (NGX_OK, c', deque_get v hd (ctx_list c)) \<and> Q c' \<and> ctx_list c' = tl (ctx_list c)"
    if "Q c" for c v a
    using Q that av_shift_refines [of c v]
    by (fastforce simp: queue_ctx_def stack_ctx_def deque_get_def)
  show ?thesis
  proof (cases cmd)
    case (Push v)
    have "\<exists>vars'. ngx_http_av_set_handler pl vars v (av_opindex OP_HEAD i 0) = Some vars' \<and>
      av_inv Q pl i vars' \<and> only_slot i vars vars' \<and> slot_list (vars' ! i) = slot_list (vars ! i) @ [av_vcopy v]"
      using p by (intro set_handler_step [OF inv e]) auto
    with Push show ?thesis by auto
  next
    case (Unshift v)
    then have "Q = queue_ctx" using Q by (auto simp: not_unshift_def)
    then have "\<exists>vars'. ngx_http_av_set_handler pl vars v (av_opindex OP_TAIL i 0) = Some vars' \<and>
      av_inv Q pl i vars' \<and> only_slot i vars vars' \<and> slot_list (vars' ! i) = av_vcopy v # slot_list (vars ! i)"
      using av_unshift_refines [of _ pl "av_vcopy v"] pl
      by (intro set_handler_step [OF inv e]) (fastforce simp: queue_ctx_def av_pool_ok_def)+
    with Unshift show ?thesis by auto
  next
    case (Split v d)
    then have "length (v_data v) < 2 ^ 28" "d \<notin> set (v_data v)" using Q by (auto simp: not_pop_def not_unshift_def cmd_ok_def)
    then have "\<exists>vars'. ngx_http_av_set_handler pl vars v (av_opindex OP_STR i d) = Some vars' \<and>
      av_inv Q pl i vars' \<and> only_slot i vars vars' \<and> slot_list (vars' ! i) = snd (deque_spec (Split v d) (slot_list (vars ! i)))"
      using p by (intro set_handler_step [OF inv e]) auto
    with Split show ?thesis by auto
  next
    case (Pop v)
    then have "Q = stack_ctx" using Q by (auto simp: not_pop_def)
    then have "\<exists>vars'. ngx_http_av_get_handler pl vars v (av_opindex OP_HEAD i 0) =
        Some (NGX_OK, vars', deque_get v last (slot_list (vars ! i))) \<and>
      av_inv Q pl i vars' \<and> only_slot i vars vars' \<and> slot_list (vars' ! i) = butlast (slot_list (vars ! i))"
      using av_pop_refines [of _ v]
      by (intro get_handler_step [OF inv e]) (fastforce simp: stack_ctx_def deque_get_def)+
    with Pop show ?thesis by auto
  next
    case (Shift v)
    have "\<exists>vars'. ngx_http_av_get_handler pl vars v (av_opindex OP_TAIL i 0) =
        Some (NGX_OK, vars', deque_get v hd (slot_list (vars ! i))) \<and>
      av_inv Q pl i vars' \<and> only_slot i vars vars' \<and> slot_list (vars' ! i) = tl (slot_list (vars ! i))"
      using g by (intro get_handler_step [OF inv e]) auto
    with Shift show ?thesis by auto
  qed
qed

interpretation av_queue: refinement "av_exec pl i" deque_spec "\<lambda>vars. slot_list (vars ! i)"
  "av_inv queue_ctx pl i" not_pop for pl i
  by unfold_locales (rule exec_refines; simp)

interpretation av_stack: refinement "av_exec pl i" deque_spec "\<lambda>vars. slot_list (vars ! i)"
  "av_inv stack_ctx pl i" not_unshift for pl i
  by unfold_locales (rule exec_refines; simp)

text \<open>
  C1. Any sequence of \<^verbatim>\<open>push_array\<close>, \<^verbatim>\<open>unshift_array\<close> and \<^verbatim>\<open>shift_array\<close> commands, and of \<^verbatim>\<open>str_to_array\<close>
  commands on strings without the delimiter, on an array variable that starts unset (no
  \<^verbatim>\<open>pop_array\<close>) runs without an access outside the arrays and returns what a plain list returns,
  each handler's status and value included, as long as the pool serves its allocations. A string
  with the delimiter is left out because the loop of \<^verbatim>\<open>str_to_array\<close> never gets past one, against
  the documentation (\<open>str_to_array_outcome\<close>).
\<close>

theorem arrayv_queue_refines:
  assumes "av_pool_ok pl" and "i < length vars"
    and "vars ! i = \<lparr>s_len = 0, s_data = SNull, s_valid = False, s_not_found = False\<rparr>"
    and "list_all not_pop cmds"
  shows "\<exists>outs vars'. run_steps (av_exec pl i) cmds vars = Some (outs, vars') \<and>
    run_spec deque_spec cmds [] = (outs, slot_list (vars' ! i))"
proof -
  have "av_inv queue_ctx pl i vars" "slot_list (vars ! i) = []"
    using assms by (simp_all add: av_inv_def slot_inv_def slot_list_def)
  with av_queue.run_refines [OF _ assms(4), of pl i vars] show ?thesis by fastforce
qed

definition vv :: "string \<Rightarrow> vvt" where
  "vv s = \<lparr>v_data = bs s, v_valid = True, v_not_found = False\<rparr>"

definition pool_unlimited :: av_pool where
  "pool_unlimited = \<lparr>pl_alloc = \<lambda>_. True, pl_push = \<lambda>_. True, pl_created = True, pl_cap = 100, pl_fresh = True\<rparr>"

definition slot_unset :: av_slot where
  "slot_unset = \<lparr>s_len = 0, s_data = SNull, s_valid = False, s_not_found = False\<rparr>"

theorem arrayv_queue_refines_witness:
  "\<exists>vars'. run_steps (av_exec pool_unlimited 0)
      [Split (vv ''a'') 58, Push (vv ''b''), Unshift (vv ''c''), Shift (vv ''''), Shift (vv '''')] [slot_unset] =
    Some ([None, None, None, Some (NGX_OK, vv ''c''), Some (NGX_OK, vv ''a'')], vars')"
  using arrayv_queue_refines [of pool_unlimited 0 "[slot_unset]"
      "[Split (vv ''a'') 58, Push (vv ''b''), Unshift (vv ''c''), Shift (vv ''''), Shift (vv '''')]"]
  by (auto simp: av_pool_ok_def pool_unlimited_def slot_unset_def not_pop_def cmd_ok_def deque_get_def
      av_vcopy_def ngx_http_av_copy_vvt_def vv_def)

text \<open>
  C6. The same for every sequence of \<^verbatim>\<open>push_array\<close>, \<^verbatim>\<open>pop_array\<close> and \<^verbatim>\<open>shift_array\<close> commands and of
  \<^verbatim>\<open>str_to_array\<close> commands on strings without the delimiter (no \<^verbatim>\<open>unshift_array\<close>).
\<close>

theorem arrayv_stack_refines:
  assumes "av_pool_ok pl" and "i < length vars"
    and "vars ! i = \<lparr>s_len = 0, s_data = SNull, s_valid = False, s_not_found = False\<rparr>"
    and "list_all not_unshift cmds"
  shows "\<exists>outs vars'. run_steps (av_exec pl i) cmds vars = Some (outs, vars') \<and>
    run_spec deque_spec cmds [] = (outs, slot_list (vars' ! i))"
proof -
  have "av_inv stack_ctx pl i vars" "slot_list (vars ! i) = []"
    using assms by (simp_all add: av_inv_def slot_inv_def slot_list_def)
  with av_stack.run_refines [OF _ assms(4), of pl i vars] show ?thesis by fastforce
qed

theorem arrayv_stack_refines_witness:
  "\<exists>vars'. run_steps (av_exec pool_unlimited 0)
      [Push (vv ''a''), Push (vv ''b''), Push (vv ''c''), Pop (vv ''''), Shift (vv '''')] [slot_unset] =
    Some ([None, None, None, Some (NGX_OK, vv ''c''), Some (NGX_OK, vv ''a'')], vars')"
  using arrayv_stack_refines [of pool_unlimited 0 "[slot_unset]"
      "[Push (vv ''a''), Push (vv ''b''), Push (vv ''c''), Pop (vv ''''), Shift (vv '''')]"]
  by (auto simp: av_pool_ok_def pool_unlimited_def slot_unset_def not_unshift_def cmd_ok_def deque_get_def
      av_vcopy_def ngx_http_av_copy_vvt_def vv_def)

text \<open>
  C28. In every well-formed state \<^verbatim>\<open>pop_array\<close> takes the last element and \<^verbatim>\<open>shift_array\<close> the first (the
  null value when the array is empty), \<^verbatim>\<open>unshift_array\<close> adds a first element, \<^verbatim>\<open>push_array\<close> adds a
  last element unless it meets the branch that reuses a freed slot, and the state stays
  well-formed.
\<close>

theorem arrayv_operations:
  assumes "ctx_wf c" and "\<And>n. pl_push pl n"
  shows "\<exists>c1 c2 c3.
    av_pop c v = Some (NGX_OK, c1, deque_get v last (ctx_list c)) \<and> ctx_wf c1 \<and>
      ctx_list c1 = butlast (ctx_list c) \<and>
    av_shift c v = Some (NGX_OK, c2, deque_get v hd (ctx_list c)) \<and> ctx_wf c2 \<and>
      ctx_list c2 = tl (ctx_list c) \<and>
    av_unshift pl c x = Some c3 \<and> ctx_wf c3 \<and> ctx_list c3 = x # ctx_list c \<and>
    (\<not> push_reuses c \<longrightarrow> (\<exists>c4. av_push pl c x = Some c4 \<and> ctx_wf c4 \<and> ctx_list c4 = ctx_list c @ [x]))"
  using av_pop_refines [OF assms(1), of v] av_shift_refines [OF assms(1), of v]
    av_unshift_refines [OF assms, of x] av_push_refines [OF assms, of x]
  unfolding deque_get_def by fast

theorem arrayv_operations_witness:
  "\<exists>c1. av_pop av_ctx_empty (vv ''x'') = Some (NGX_OK, c1, ngx_http_variable_null_value) \<and> ctx_list c1 = []"
  using arrayv_operations [of av_ctx_empty pool_unlimited "vv ''x''"]
  by (auto simp: pool_unlimited_def deque_get_def)

text \<open>
  The branch that \<open>push_reuses\<close> describes, reached from an unset variable: after two unshifts and
  a pop, a push writes before the first element of \<^verbatim>\<open>pop\<close>.
\<close>

lemma arrayv_push_after_pop:
  "run_steps (av_exec pool_unlimited 0)
     [Unshift (vv ''a''), Unshift (vv ''b''), Pop (vv ''''), Push (vv ''c'')] [slot_unset] = None"
  by (simp add: pool_unlimited_def slot_unset_def ngx_http_av_set_handler_def ngx_http_av_get_handler_def
      av_opindex_def Let_def av_slot_init_def slot_ctx_def av_ctx_empty_def av_elt_empty_def av_unshift_def
      av_append_def elt_at_def slot_set_ctx_def av_pop_def av_take_start_def av_push_def)

section \<open>Printing an array\<close>

lemma collect_up:
  "e_arr e = f @ xs @ zs \<Longrightarrow> av_collect e (int (length f)) 1 (length xs) = Some (map av_data xs)"
proof (induction xs arbitrary: f)
  case (Cons x xs)
  then have "av_collect e (int (length (f @ [x]))) 1 (length xs) = Some (map av_data xs)"
    by (intro Cons.IH) simp
  with Cons.prems show ?case by (simp add: elt_at_def nth_append add.commute)
qed simp

lemma collect_down:
  "e_arr e = f @ xs @ zs \<Longrightarrow>
   av_collect e (int (length f + length xs) - 1) (- 1) (length xs) = Some (map av_data (rev xs))"
proof (induction xs arbitrary: zs rule: rev_induct)
  case (snoc x xs)
  then have "av_collect e (int (length f + length xs) - 1) (- 1) (length xs) = Some (map av_data (rev xs))"
    by (intro snoc.IH [of "x # zs"]) simp
  with snoc.prems show ?case by (simp add: elt_at_def nth_append nat_add_distrib)
qed simp

lemma collect_ctx:
  assumes "ctx_wf c"
  obtains xs ys where "av_collect (sft c) (e_end (sft c)) (- 1) (nat (e_size (sft c))) = Some xs"
    "av_collect (pop c) (e_start (pop c)) 1 (nat (e_size (pop c))) = Some ys"
    "xs @ ys = map av_data (ctx_list c)"
    "e_size (sft c) + e_size (pop c) = int (length (map av_data (ctx_list c)))"
proof -
  obtain f xs g ys where c: "c = \<lparr>pop = elt_rep f xs, sft = elt_rep g ys\<rparr>" using ctx_cases assms .
  have ends: "e_end (elt_rep g ys) = int (length g + length ys) - 1"
    "xs \<noteq> [] \<Longrightarrow> e_start (elt_rep f xs) = int (length f)" by (simp_all add: elt_rep_def)
  have "av_collect (elt_rep g ys) (e_end (elt_rep g ys)) (- 1) (length ys) = Some (map av_data (rev ys))"
    using collect_down [of "elt_rep g ys" g ys "[]"] by (simp add: ends)
  moreover have "av_collect (elt_rep f xs) (e_start (elt_rep f xs)) 1 (length xs) = Some (map av_data xs)"
    using collect_up [of "elt_rep f xs" f xs "[]"] by (cases "xs = []") (simp_all add: ends)
  ultimately show thesis using that by (simp add: c ctx_list_def)
qed

text \<open>The whole rows of a list; what is left over at its end is cut.\<close>

function chunks :: "nat \<Rightarrow> 'a list \<Rightarrow> 'a list list" where
  "chunks k xs = (if k = 0 \<or> length xs < k then [] else take k xs # chunks k (drop k xs))"
  by pat_completeness auto
termination by (relation "measure (\<lambda>(k, xs). length xs)") auto

declare chunks.simps [simp del]

lemma chunks_props:
  "0 < k \<Longrightarrow> concat (chunks k xs) = take (length xs - length xs mod k) xs \<and>
     (\<forall>r \<in> set (chunks k xs). length r = k)"
proof (induction k xs rule: chunks.induct)
  case (1 k xs)
  show ?case
  proof (cases "length xs < k")
    case True
    then show ?thesis using 1 by (simp add: chunks.simps)
  next
    case False
    define m where "m = length (drop k xs) - length (drop k xs) mod k"
    have "length xs mod k = (length xs - k) mod k" using False by (simp add: le_mod_geq)
    moreover have "(length xs - k) mod k \<le> length xs - k" by simp
    ultimately have m: "length xs - length xs mod k = k + m" using False unfolding m_def length_drop by linarith
    have c: "chunks k xs = take k xs # chunks k (drop k xs)"
      using False 1(2) by (simp add: chunks.simps [of k xs])
    have ih: "concat (chunks k (drop k xs)) = take m (drop k xs)" "\<forall>r \<in> set (chunks k (drop k xs)). length r = k"
      using 1(1) [OF _ 1(2)] 1(2) False unfolding m_def [symmetric] by blast+
    have "length (take k xs) = k" using False by simp
    with ih(2) have "\<forall>r \<in> set (chunks k xs). length r = k" unfolding c by (metis set_ConsD)
    moreover have "concat (chunks k xs) = take k xs @ take m (drop k xs)"
      unfolding c by (simp only: concat.simps ih(1))
    ultimately show ?thesis unfolding m take_add by blast
  qed
qed

lemma chunks_Nil_iff: "0 < k \<Longrightarrow> chunks k xs = [] \<longleftrightarrow> length xs < k"
  by (subst chunks.simps) simp

text \<open>
  C29. \<^verbatim>\<open>print_array\<close> on a well-formed array with at least one whole row, a step above zero and a
  non-empty separator array prints the head, the whole rows of the list in order (each between
  \<^verbatim>\<open>lhead\<close> and \<^verbatim>\<open>ltail\<close>, its items separated cyclically), \<^verbatim>\<open>ldel\<close> between rows, and the tail; the
  elements that do not fill a row are cut.
\<close>

theorem arrayv_print:
  assumes "ctx_wf c" and "0 < jx_step jx" and "jx_dels jx \<noteq> []" and "\<And>n. pl_alloc pl n"
    and "nat (jx_step jx) \<le> length (ctx_list c)"
  shows "av_list pl (Some jx) c v =
    Some (NGX_OK, v\<lparr>v_data := str_bytes (jx_head jx)
      @ intercalate (str_bytes (jx_ldel jx))
          (map (\<lambda>r. str_bytes (jx_lhead jx) @ join_row (dels_at (Some (jx_dels jx))) 0 r @ str_bytes (jx_ltail jx))
            (chunks (nat (jx_step jx)) (map av_data (ctx_list c))))
      @ str_bytes (jx_tail jx), v_valid := True\<rparr>)"
proof -
  let ?step = "nat (jx_step jx)" and ?l = "map av_data (ctx_list c)"
  obtain xs ys where col: "av_collect (sft c) (e_end (sft c)) (- 1) (nat (e_size (sft c))) = Some xs"
    "av_collect (pop c) (e_start (pop c)) 1 (nat (e_size (pop c))) = Some ys" "xs @ ys = ?l"
    "e_size (sft c) + e_size (pop c) = int (length ?l)" using collect_ctx [OF assms(1)] .
  have step: "0 < ?step" "int ?step = jx_step jx" using assms(2) by simp_all
  have "0 < length ?l" using less_le_trans [OF step(1) assms(5)] by simp
  then have ne: "e_size (sft c) + e_size (pop c) \<noteq> 0" using col(4) by linarith
  note rows = chunks_props [OF step(1), of ?l]
  have "chunks ?step ?l \<noteq> []" using chunks_Nil_iff [OF step(1), of ?l] assms(5) by simp
  then have "array_join_x (pl_alloc pl) (map Some (concat (chunks ?step ?l))) (int ?step) (Some (jx_head jx))
      (Some (jx_tail jx)) (Some (jx_lhead jx)) (Some (jx_ltail jx)) (Some (jx_ldel jx)) (Some (jx_dels jx)) =
    Some (NGX_OK, sp_bytes (Some (jx_head jx))
      @ intercalate (sp_bytes (Some (jx_ldel jx)))
          (map (\<lambda>r. sp_bytes (Some (jx_lhead jx)) @ join_row (dels_at (Some (jx_dels jx))) 0 r
            @ sp_bytes (Some (jx_ltail jx))) (chunks ?step ?l))
      @ sp_bytes (Some (jx_tail jx)))"
    using rows step(1) assms(3,4) by (intro array_join_x_rows) simp_all
  with rows step ne col(1,2) assms(2) show ?thesis
    unfolding av_list_def col(1,2) Option.bind.simps Let_def col(3) by simp
qed

theorem arrayv_print_witness:
  "av_list pool_unlimited
     (Some \<lparr>jx_step = 2, jx_head = Some (bs ''{''), jx_tail = Some (bs ''}''), jx_lhead = None, jx_ltail = None,
            jx_ldel = Some (bs '',''), jx_dels = [Some (bs '':'')]\<rparr>)
     \<lparr>pop = elt_rep [] [av_vcopy (vv ''b''), av_vcopy (vv ''c'')], sft = elt_rep [] [av_vcopy (vv ''a'')]\<rparr> (vv '''') =
   Some (NGX_OK, vv ''{a:b}'')"
proof -
  let ?jx = "\<lparr>jx_step = 2, jx_head = Some (bs ''{''), jx_tail = Some (bs ''}''), jx_lhead = None, jx_ltail = None,
            jx_ldel = Some (bs '',''), jx_dels = [Some (bs '':'')]\<rparr>"
  let ?c = "\<lparr>pop = elt_rep [] [av_vcopy (vv ''b''), av_vcopy (vv ''c'')], sft = elt_rep [] [av_vcopy (vv ''a'')]\<rparr>"
  show ?thesis
    using arrayv_print [of ?c ?jx pool_unlimited "vv ''''"]
    by (simp add: ctx_wf_def ctx_list_def pool_unlimited_def chunks.simps dels_at_def vv_def av_vcopy_def)
qed

section \<open>The format string of \<^verbatim>\<open>print_array\<close>\<close>

text \<open>
  \<^verbatim>\<open>ngx_http_av_readstr\<close> reads \<^verbatim>\<open>head{(lhead$del$...$ltail)ldel?}tail\<close>, a backslash quoting the next
  byte. A configuration token is followed by one NUL byte; a read beyond that is \<open>None\<close>, and so
  is the loop over the separators when the token ends before the closing parenthesis, which
  never returns. \<open>Some None\<close> is the returned \<^verbatim>\<open>NULL\<close>.
\<close>

definition rd :: "bytes \<Rightarrow> nat \<Rightarrow> byte option" where
  "rd s i = (if i < length s then Some (s ! i) else if i = length s then Some 0 else None)"

text \<open>The body of the scanning loops: the index of the byte copied, and the byte.\<close>

definition av_read_char :: "bytes \<Rightarrow> nat \<Rightarrow> (nat \<times> byte) option" where
  "av_read_char s i =
     Option.bind (rd s i) (\<lambda>tok.
     if tok = cb (CHR 0x5C) then map_option (Pair (i + 1)) (rd s (i + 1)) else Some (i, tok))"

function av_scan :: "bytes \<Rightarrow> (byte \<Rightarrow> bool) \<Rightarrow> bool \<Rightarrow> nat \<Rightarrow> bytes \<Rightarrow> (nat \<times> byte \<times> bytes) option" where
  "av_scan s stop bounded i acc =
     Option.bind (rd s i) (\<lambda>tok.
     if stop tok \<or> (bounded \<and> \<not> i < length s) then Some (i, tok, acc)
     else Option.bind (av_read_char s i) (\<lambda>(j, c). av_scan s stop bounded (j + 1) (acc @ [c])))"
  by pat_completeness auto
termination
  by (relation "measure (\<lambda>(s, _, _, i, _). length s + 1 - i)")
    (auto simp: rd_def av_read_char_def split: if_splits)

declare av_scan.simps [simp del]

definition av_do_scan :: "bytes \<Rightarrow> (byte \<Rightarrow> bool) \<Rightarrow> nat \<Rightarrow> (nat \<times> byte \<times> bytes) option" where
  "av_do_scan s stop i =
     Option.bind (av_read_char s i) (\<lambda>(j, c). av_scan s stop True (j + 1) [c])"

definition null_empty :: "bytes \<Rightarrow> ngx_str" where
  "null_empty d = (if length d = 0 then None else Some d)"

lemma av_scan_advances: "av_scan s stop b i acc = Some (j, tok, d) \<Longrightarrow> i \<le> j"
proof (induction s stop b i acc rule: av_scan.induct)
  case (1 s stop b i acc)
  from 1(2) consider "j = i" | k c t where "rd s i = Some t" "\<not> (stop t \<or> (b \<and> \<not> i < length s))"
      "av_read_char s i = Some (k, c)" "av_scan s stop b (k + 1) (acc @ [c]) = Some (j, tok, d)"
    by (subst (asm) av_scan.simps) (fastforce simp: bind_eq_Some_conv split: if_splits)
  then show ?case
  proof cases
    case 2
    then have "i \<le> k" by (auto simp: av_read_char_def split: if_splits)
    with 1(1) [OF 2(1,2,3) refl 2(4)] show ?thesis by simp
  qed simp
qed

function av_dels ::
  "bytes \<Rightarrow> nat \<Rightarrow> ngx_str list \<Rightarrow> nat \<Rightarrow> (nat \<times> ngx_str \<times> ngx_str list \<times> nat) option" where
  "av_dels s i dels nelts =
     Option.bind (rd s i) (\<lambda>tok.
     if tok = cb (CHR '')'') then Some (i, None, dels, nelts)
     else
       (case av_scan s (\<lambda>t. t = cb (CHR ''$'') \<or> t = cb (CHR '')'')) True i [] of
          None \<Rightarrow> None
        | Some (j, tok, d) \<Rightarrow>
            if tok = cb (CHR ''$'') then av_dels s (j + 1) (dels @ [null_empty d]) (nelts + 1)
            else if tok = cb (CHR '')'') then Some (j, null_empty d, dels, nelts)
            else None))"
  by pat_completeness auto
termination
  by (relation "measure (\<lambda>(s, i, _). length s + 1 - i)")
    (auto simp: rd_def split: if_splits dest!: av_scan_advances)

declare av_dels.simps [simp del]

definition ngx_http_av_readstr :: "bytes \<Rightarrow> av_joinx option option" where
  "ngx_http_av_readstr s =
     Option.bind (rd s 0) (\<lambda>tok.
     Option.bind
       (if tok = cb (CHR ''{'') then Some (0, [])
        else map_option (\<lambda>(i, _, d). (i, d)) (av_do_scan s (\<lambda>t. t = cb (CHR ''{'')) 0)) (\<lambda>(i, head).
     Option.bind (rd s (i + 1)) (\<lambda>tok.
     if tok \<noteq> cb (CHR ''('') then Some None
     else
     Option.bind (rd s (i + 2)) (\<lambda>tok.
     Option.bind
       (if tok = cb (CHR ''$'') then Some (i + 2, None)
        else map_option (\<lambda>(i, _, d). (i, Some d)) (av_do_scan s (\<lambda>t. t = cb (CHR ''$'')) (i + 2))) (\<lambda>(i, lhead).
     Option.bind (rd s (i + 1)) (\<lambda>tok.
     Option.bind
       (if tok = cb (CHR '')'') then Some (i + 1, None, [None], 1) else av_dels s (i + 1) [] 1)
       (\<lambda>(i, ltail, dels, nelts).
     Option.bind (av_scan s (\<lambda>t. t = cb (CHR ''?'')) True (i + 1) []) (\<lambda>(i, _, ldel).
     Option.bind (rd s (i + 1)) (\<lambda>tok.
     if tok \<noteq> cb (CHR ''}'') then Some None
     else
     Option.bind (rd s (i + 2)) (\<lambda>tok.
     map_option (\<lambda>tail. Some
         \<lparr>jx_step = int nelts, jx_head = Some head, jx_tail = tail, jx_lhead = lhead, jx_ltail = ltail,
          jx_ldel = Some ldel, jx_dels = dels\<rparr>)
       (if tok = 0 then Some None
        else map_option (\<lambda>(_, _, d). Some d) (av_scan s (\<lambda>t. t = 0) False (i + 2) []))))))))))))"

text \<open>
  The reference printer: the bytes with a meaning in the format (and NUL, which ends the tail) are
  quoted.
\<close>

definition fmt_special :: "byte \<Rightarrow> bool" where
  "fmt_special c \<longleftrightarrow> c \<in> {92, 123, 36, 41, 63, 0}"

definition fmt_quote :: "bytes \<Rightarrow> bytes" where
  "fmt_quote d = concat (map (\<lambda>c. if fmt_special c then [92, c] else [c]) d)"

definition fmt_print :: "bytes \<Rightarrow> bytes \<Rightarrow> bytes list \<Rightarrow> bytes \<Rightarrow> bytes \<Rightarrow> bytes \<Rightarrow> bytes" where
  "fmt_print head lhead dels ltail ldel tail =
     fmt_quote head @ bs ''{('' @ fmt_quote lhead @ bs ''$''
     @ concat (map (\<lambda>d. fmt_quote d @ bs ''$'') dels) @ fmt_quote ltail @ bs '')''
     @ fmt_quote ldel @ bs ''?}'' @ fmt_quote tail"

lemma rd_drop: "drop i s = x # r \<Longrightarrow> rd s i = Some x \<and> drop (Suc i) s = r \<and> i < length s"
  by (metis drop_Suc drop_eq_Nil2 linorder_not_le list.sel(3) list.distinct(1) nth_via_drop rd_def tl_drop)

lemma rd_end: "drop i s = [] \<Longrightarrow> i \<le> length s \<Longrightarrow> rd s i = Some 0"
  by (simp add: rd_def)

lemma scan_char:
  assumes "drop i s = (if fmt_special c then [92, c] else [c]) @ r" and "\<And>t. stop t \<Longrightarrow> fmt_special t \<and> t \<noteq> 92"
  shows "\<exists>j. av_scan s stop b i acc = av_scan s stop b j (acc @ [c]) \<and> drop j s = r \<and> j \<le> length s"
proof (cases "fmt_special c")
  case True
  then have d: "drop i s = 92 # c # r" using assms(1) by simp
  note r1 = rd_drop [OF d]
  then have d': "drop (Suc i) s = c # r" by simp
  note r2 = rd_drop [OF d']
  have "\<not> stop 92" using assms(2) [of 92] by auto
  then show ?thesis
    using r1 r2 by (intro exI [of _ "Suc (Suc i)"], subst av_scan.simps) (simp add: av_read_char_def)
next
  case False
  then have d: "drop i s = c # r" using assms(1) by simp
  note r1 = rd_drop [OF d]
  have "\<not> stop c" "c \<noteq> 92" using assms(2) [of c] False by (auto simp: fmt_special_def)
  then show ?thesis
    using r1 by (intro exI [of _ "Suc i"], subst av_scan.simps) (simp add: av_read_char_def)
qed

lemma scan_quoted:
  assumes "\<And>t. stop t \<Longrightarrow> fmt_special t \<and> t \<noteq> 92"
  shows "drop i s = fmt_quote d @ r \<Longrightarrow> i \<le> length s \<Longrightarrow>
    \<exists>j. av_scan s stop b i acc = av_scan s stop b j (acc @ d) \<and> drop j s = r \<and> j \<le> length s"
proof (induction d arbitrary: i acc)
  case (Cons c d)
  then have "drop i s = (if fmt_special c then [92, c] else [c]) @ fmt_quote d @ r"
    by (simp add: fmt_quote_def)
  from scan_char [where stop = stop and b = b and acc = acc, OF this assms] obtain j where
    "av_scan s stop b i acc = av_scan s stop b j (acc @ [c])" "drop j s = fmt_quote d @ r" "j \<le> length s" by blast
  with Cons.IH [of j "acc @ [c]"] show ?case by auto
qed (auto simp: fmt_quote_def)

lemma scan_until:
  assumes "\<And>t. stop t \<Longrightarrow> fmt_special t \<and> t \<noteq> 92" and "stop t" and "drop i s = fmt_quote d @ t # r"
  shows "\<exists>j. av_scan s stop b i [] = Some (j, t, d) \<and> drop j s = t # r \<and> j < length s"
proof -
  have "i \<le> length s" using assms(3) by (cases "i \<le> length s") simp_all
  from scan_quoted [where stop = stop and b = b and acc = "[]", OF assms(1) assms(3) this] obtain j where
    j: "av_scan s stop b i [] = av_scan s stop b j d" "drop j s = t # r" by auto
  with rd_drop [OF j(2)] assms(2) have "av_scan s stop b j d = Some (j, t, d)"
    by (subst av_scan.simps) simp
  with j rd_drop [OF j(2)] show ?thesis by auto
qed

lemma scan_to_end:
  assumes "drop i s = fmt_quote d" and "i \<le> length s"
  shows "\<exists>j. av_scan s (\<lambda>t. t = 0) False i [] = Some (j, 0, d)"
proof -
  from scan_quoted [where stop = "\<lambda>t. t = 0" and b = False and acc = "[]" and r = "[]", of i s d] assms
  obtain j where
    j: "av_scan s (\<lambda>t. t = 0) False i [] = av_scan s (\<lambda>t. t = 0) False j d" "drop j s = []" "j \<le> length s" by (auto simp: fmt_special_def)
  with rd_end [OF j(2,3)] have "av_scan s (\<lambda>t. t = 0) False j d = Some (j, 0, d)"
    by (subst av_scan.simps) simp
  with j show ?thesis by auto
qed

lemma quote_head:
  assumes "d \<noteq> []"
  obtains c r where "fmt_quote d = c # r" "c = 92 \<or> \<not> fmt_special c"
proof (cases d)
  case (Cons a d')
  with that [of a] that [of 92] show thesis by (cases "fmt_special a") (simp_all add: fmt_quote_def)
qed (use assms in simp)

text \<open>The loops with the test at their end read the same when the first byte does not end them.\<close>

lemma do_scan_eq:
  "rd s i = Some tok \<Longrightarrow> i < length s \<Longrightarrow> \<not> stop tok \<Longrightarrow> av_do_scan s stop i = av_scan s stop True i []"
  by (subst av_scan.simps) (simp add: av_do_scan_def)

lemma first_byte:
  assumes "drop i s = fmt_quote d @ t # r" and "fmt_special t" and "t \<noteq> 92"
  shows "\<exists>tok. rd s i = Some tok \<and> i < length s \<and> (d = [] \<longrightarrow> tok = t) \<and>
    (\<forall>u. fmt_special u \<longrightarrow> u \<noteq> 92 \<longrightarrow> d \<noteq> [] \<longrightarrow> tok \<noteq> u)"
proof (cases "d = []")
  case True
  then have "drop i s = t # r" using assms(1) by (simp add: fmt_quote_def)
  from rd_drop [OF this] True show ?thesis by auto
next
  case False
  then obtain c q where q: "fmt_quote d = c # q" "c = 92 \<or> \<not> fmt_special c" by (elim quote_head)
  then have "drop i s = c # q @ t # r" using assms(1) by simp
  from rd_drop [OF this] False q(2) show ?thesis by auto
qed

text \<open>A segment that ends at \<open>t\<close>, read by the test for an empty segment and the scanning loop.\<close>

lemma read_segment:
  assumes "drop i s = fmt_quote d @ t # r" and "fmt_special t" and "t \<noteq> 92"
  shows "\<exists>tok j. rd s i = Some tok \<and> (tok = t \<longleftrightarrow> d = []) \<and> drop j s = t # r \<and>
    (if d = [] then j = i else av_do_scan s (\<lambda>x. x = t) i = Some (j, t, d))"
proof -
  obtain tok where tok: "rd s i = Some tok" "i < length s" "d = [] \<Longrightarrow> tok = t"
    "\<And>u. fmt_special u \<Longrightarrow> u \<noteq> 92 \<Longrightarrow> d \<noteq> [] \<Longrightarrow> tok \<noteq> u" using first_byte [OF assms] by blast
  show ?thesis
  proof (cases "d = []")
    case True
    with tok assms(1) show ?thesis by (auto simp: fmt_quote_def)
  next
    case False
    with tok(4) [OF assms(2,3)] have "tok \<noteq> t" by simp
    with do_scan_eq [OF tok(1,2), of "\<lambda>x. x = t"] scan_until [of "\<lambda>x. x = t" t i s d r True] assms tok(1) False
    show ?thesis by auto
  qed
qed

lemma dels_stop: "t = 36 \<or> t = 41 \<Longrightarrow> fmt_special t \<and> t \<noteq> (92 :: byte)"
  by (auto simp: fmt_special_def)

lemma read_dels:
  "drop i s = concat (map (\<lambda>d. fmt_quote d @ [36]) ds) @ fmt_quote ltail @ 41 # r \<Longrightarrow>
   \<exists>j. av_dels s i dels n = Some (j, null_empty ltail, dels @ map null_empty ds, n + length ds) \<and>
     drop j s = 41 # r"
proof (induction ds arbitrary: i dels n)
  case Nil
  have sp: "fmt_special 41" "(41 :: byte) \<noteq> 92" by (simp_all add: fmt_special_def)
  have d: "drop i s = fmt_quote ltail @ 41 # r" using Nil by simp
  obtain tok where tok: "rd s i = Some tok" "i < length s" "ltail = [] \<Longrightarrow> tok = 41"
    "\<And>u. fmt_special u \<Longrightarrow> u \<noteq> 92 \<Longrightarrow> ltail \<noteq> [] \<Longrightarrow> tok \<noteq> u" using first_byte [OF d sp] by blast
  show ?case
  proof (cases "ltail = []")
    case True
    with tok d show ?thesis by (subst av_dels.simps) (simp add: null_empty_def fmt_quote_def)
  next
    case False
    from scan_until [of "\<lambda>t. t = 36 \<or> t = 41" 41 i s ltail r True, OF dels_stop] d obtain j where
      "av_scan s (\<lambda>t. t = 36 \<or> t = 41) True i [] = Some (j, 41, ltail)" "drop j s = 41 # r" by auto
    with tok(1) tok(4) [OF sp False] show ?thesis by (subst av_dels.simps) simp
  qed
next
  case (Cons d ds)
  have sp: "fmt_special 36" "fmt_special 41" "(36 :: byte) \<noteq> 92" "(41 :: byte) \<noteq> 92"
    by (simp_all add: fmt_special_def)
  let ?r = "concat (map (\<lambda>d. fmt_quote d @ [36]) ds) @ fmt_quote ltail @ 41 # r"
  have d: "drop i s = fmt_quote d @ 36 # ?r" using Cons by simp
  obtain tok where tok: "rd s i = Some tok" "i < length s" "d = [] \<Longrightarrow> tok = 36"
    "\<And>u. fmt_special u \<Longrightarrow> u \<noteq> 92 \<Longrightarrow> d \<noteq> [] \<Longrightarrow> tok \<noteq> u" using first_byte [OF d sp(1,3)] by blast
  have ne: "tok \<noteq> 41" using tok(3) tok(4) [OF sp(2,4)] by (cases "d = []") auto
  from scan_until [of "\<lambda>t. t = 36 \<or> t = 41" 36 i s d ?r True, OF dels_stop] d obtain j where
    j: "av_scan s (\<lambda>t. t = 36 \<or> t = 41) True i [] = Some (j, 36, d)" "drop j s = 36 # ?r" by auto
  have "drop (Suc j) s = ?r" using rd_drop [OF j(2)] by simp
  from Cons.IH [OF this, of "dels @ [null_empty d]" "n + 1"] j(1) tok(1) ne show ?case
    by (subst av_dels.simps) simp
qed

lemma read_dels_stage:
  assumes "drop i s = concat (map (\<lambda>d. fmt_quote d @ [36]) dels) @ fmt_quote ltail @ 41 # r"
  shows "\<exists>tok j. rd s i = Some tok \<and> drop j s = 41 # r \<and>
    (if tok = 41 then Some (i, None, [None], 1) else av_dels s i [] 1) =
      Some (j, null_empty ltail, if dels = [] \<and> ltail = [] then [None] else map null_empty dels, 1 + length dels)"
proof (cases "dels = [] \<and> ltail = []")
  case True
  then have "drop i s = 41 # r" using assms by (simp add: fmt_quote_def)
  with rd_drop [OF this] True show ?thesis by (auto simp: null_empty_def)
next
  case False
  have sp: "fmt_special 36" "fmt_special 41" "(36 :: byte) \<noteq> 92" "(41 :: byte) \<noteq> 92"
    by (simp_all add: fmt_special_def)
  have "\<exists>tok. rd s i = Some tok \<and> tok \<noteq> 41"
  proof (cases dels)
    case Nil
    then show ?thesis using first_byte [of i s ltail 41 r] assms sp False by auto
  next
    case (Cons d ds)
    then have "drop i s = fmt_quote d @ 36 # concat (map (\<lambda>d. fmt_quote d @ [36]) ds) @ fmt_quote ltail @ 41 # r"
      using assms by simp
    from first_byte [OF this sp(1,3)] obtain tok where "rd s i = Some tok" "d = [] \<longrightarrow> tok = 36"
      "\<forall>u. fmt_special u \<longrightarrow> u \<noteq> 92 \<longrightarrow> d \<noteq> [] \<longrightarrow> tok \<noteq> u" by blast
    then show ?thesis using sp by (cases "d = []") auto
  qed
  with read_dels [OF assms, of "[]" 1] False show ?thesis by auto
qed

lemma read_tail:
  assumes "drop i s = fmt_quote d" and "i \<le> length s"
  shows "\<exists>tok. rd s i = Some tok \<and>
    (if tok = 0 then Some None else map_option (\<lambda>(_, _, d). Some d) (av_scan s (\<lambda>t. t = 0) False i [])) =
      Some (null_empty d)"
proof (cases "d = []")
  case True
  then show ?thesis using assms rd_end by (simp add: fmt_quote_def null_empty_def)
next
  case False
  then obtain c q where "fmt_quote d = c # q" "c = 92 \<or> \<not> fmt_special c" by (elim quote_head)
  then have "rd s i = Some c" "c \<noteq> 0" using assms(1) rd_drop by (auto simp: fmt_special_def)
  with scan_to_end [OF assms] False show ?thesis by (auto simp: null_empty_def)
qed

lemma readstr_print:
  "ngx_http_av_readstr (fmt_print head lhead dels ltail ldel tail) =
     Some (Some \<lparr>jx_step = 1 + int (length dels), jx_head = Some head, jx_tail = null_empty tail,
       jx_lhead = null_empty lhead, jx_ltail = null_empty ltail, jx_ldel = Some ldel,
       jx_dels = (if dels = [] \<and> ltail = [] then [None] else map null_empty dels)\<rparr>)"
proof -
  let ?s = "fmt_print head lhead dels ltail ldel tail"
  let ?r6 = "fmt_quote tail"
  let ?r5 = "fmt_quote ldel @ 63 # 125 # ?r6"
  let ?r4 = "concat (map (\<lambda>d. fmt_quote d @ [36]) dels) @ fmt_quote ltail @ 41 # ?r5"
  have sp: "fmt_special 123" "fmt_special 36" "fmt_special 63" "(123 :: byte) \<noteq> 92" "(36 :: byte) \<noteq> 92"
    by (simp_all add: fmt_special_def)
  have "drop 0 ?s = fmt_quote head @ 123 # 40 # fmt_quote lhead @ 36 # ?r4" by (simp add: fmt_print_def)
  from read_segment [OF this sp(1,4)] obtain tok0 i0 where
    s0: "rd ?s 0 = Some tok0" "tok0 = 123 \<longleftrightarrow> head = []" "drop i0 ?s = 123 # 40 # fmt_quote lhead @ 36 # ?r4"
      "if head = [] then i0 = 0 else av_do_scan ?s (\<lambda>x. x = 123) 0 = Some (i0, 123, head)" by blast
  have d1: "drop (Suc i0) ?s = 40 # fmt_quote lhead @ 36 # ?r4" using rd_drop [OF s0(3)] by simp
  have d2: "drop (Suc (Suc i0)) ?s = fmt_quote lhead @ 36 # ?r4" using rd_drop [OF d1] by simp
  from read_segment [OF d2 sp(2,5)] obtain tok2 i2 where
    s2: "rd ?s (Suc (Suc i0)) = Some tok2" "tok2 = 36 \<longleftrightarrow> lhead = []" "drop i2 ?s = 36 # ?r4"
      "if lhead = [] then i2 = Suc (Suc i0) else av_do_scan ?s (\<lambda>x. x = 36) (Suc (Suc i0)) = Some (i2, 36, lhead)"
    by blast
  have d3: "drop (Suc i2) ?s = ?r4" using rd_drop [OF s2(3)] by simp
  from read_dels_stage [OF d3] obtain tok3 i3 where
    s3: "rd ?s (Suc i2) = Some tok3" "drop i3 ?s = 41 # ?r5"
      "(if tok3 = 41 then Some (Suc i2, None, [None], 1) else av_dels ?s (Suc i2) [] 1) =
        Some (i3, null_empty ltail, if dels = [] \<and> ltail = [] then [None] else map null_empty dels, 1 + length dels)"
    by blast
  have d4: "drop (Suc i3) ?s = ?r5" using rd_drop [OF s3(2)] by simp
  from scan_until [of "\<lambda>t. t = 63" 63, OF _ _ d4, of True] obtain i4 where
    s4: "av_scan ?s (\<lambda>t. t = 63) True (Suc i3) [] = Some (i4, 63, ldel)" "drop i4 ?s = 63 # 125 # ?r6"
    using sp(3) by auto
  have d5: "drop (Suc i4) ?s = 125 # ?r6" using rd_drop [OF s4(2)] by simp
  have d6: "drop (Suc (Suc i4)) ?s = ?r6" "Suc (Suc i4) \<le> length ?s" using rd_drop [OF d5] by simp_all
  from read_tail [OF d6] obtain tok6 where
    s6: "rd ?s (Suc (Suc i4)) = Some tok6"
      "(if tok6 = 0 then Some None
        else map_option (\<lambda>(_, _, d). Some d) (av_scan ?s (\<lambda>t. t = 0) False (Suc (Suc i4)) [])) = Some (null_empty tail)"
    by blast
  have h: "(if tok0 = 123 then Some (0, []) else map_option (\<lambda>(i, _, d). (i, d)) (av_do_scan ?s (\<lambda>t. t = 123) 0)) =
      Some (i0, head)" using s0 by auto
  have lh: "(if tok2 = 36 then Some (Suc (Suc i0), None)
      else map_option (\<lambda>(i, _, d). (i, Some d)) (av_do_scan ?s (\<lambda>t. t = 36) (Suc (Suc i0)))) =
      Some (i2, null_empty lhead)" using s2 by (auto simp: null_empty_def)
  have chars: "cb (CHR ''{'') = 123" "cb (CHR ''('') = 40" "cb (CHR ''$'') = 36" "cb (CHR '')'') = 41"
    "cb (CHR ''?'') = 63" "cb (CHR ''}'') = 125" by simp_all
  have "rd ?s (Suc i0) = Some 40" "rd ?s (Suc i4) = Some 125" using rd_drop [OF d1] rd_drop [OF d5] by simp_all
  then show ?thesis
    unfolding ngx_http_av_readstr_def chars Suc_eq_plus1 [symmetric] add_2_eq_Suc'
    by (simp only: s0(1) h s2(1) lh s3(1,3) s4(1) s6 Option.bind.simps prod.case option.map not_True_eq_False
        if_False simp_thms of_nat_add of_nat_1)
qed

text \<open>
  C30. The format reader of \<^verbatim>\<open>print_array\<close> returns every part of a format string as it was written,
  with the number of dollar signs as the step, for all head, separator and tail strings, the
  special bytes quoted with a backslash. A format with one dollar sign and no text before the
  closing parenthesis gets one empty separator; with text there it gets none.
\<close>

theorem av_readstr_format:
  "ngx_http_av_readstr (fmt_print head lhead dels ltail ldel tail) =
     Some (Some \<lparr>jx_step = 1 + int (length dels), jx_head = Some head, jx_tail = null_empty tail,
       jx_lhead = null_empty lhead, jx_ltail = null_empty ltail, jx_ldel = Some ldel,
       jx_dels = (if dels = [] \<and> ltail = [] then [None] else map null_empty dels)\<rparr>)"
  by (rule readstr_print)

text \<open>
  A format with one dollar sign and text before the closing parenthesis has no separator, and
  printing any non-empty array with it ends in a remainder by zero.
\<close>

lemma arrayv_print_no_separator:
  assumes "ctx_wf c" and "ctx_list c \<noteq> []" and "ltail \<noteq> []"
  shows "\<exists>jx. ngx_http_av_readstr (fmt_print head lhead [] ltail ldel tail) = Some (Some jx) \<and>
    av_list pl (Some jx) c v = None"
proof -
  obtain xs ys where col: "av_collect (sft c) (e_end (sft c)) (- 1) (nat (e_size (sft c))) = Some xs"
    "av_collect (pop c) (e_start (pop c)) 1 (nat (e_size (pop c))) = Some ys"
    "e_size (sft c) + e_size (pop c) = int (length (map av_data (ctx_list c)))" using collect_ctx [OF assms(1)] .
  have "e_size (sft c) + e_size (pop c) \<noteq> 0" using col(3) assms(2) by simp
  then have "av_list pl (Some jx) c v = None" if "jx_dels jx = []" for jx
    using that col(1,2) by (simp add: av_list_def Let_def array_join_x_no_dels)
  with readstr_print [of head lhead "[]" ltail ldel tail] assms(3) show ?thesis by simp
qed

end
