(* ===== verification/Variables.thy ===== *)
theory Variables
  imports Ngx_Util
begin

text \<open>
  The variables of \<^verbatim>\<open>src/http/ngx_http_variables.c\<close> that every module of this repository uses:
  declaring a variable at configuration time, giving it an index, and reading it at run time;
  and the case-insensitive comparisons of \<^verbatim>\<open>src/core/ngx_string.c\<close> they rest on.

  A pointer to an \<^verbatim>\<open>ngx_http_variable_t\<close> is its position in the list of declared variables. \<open>ok\<close>
  arguments say whether the pool allocations of the call succeed. The handler of a variable is
  of the type \<open>'h\<close> the modules choose. What a get handler does is a function of the index and of the old
  value of the variable to a status and the new value: a handler that writes other variables of the
  request is outside the model.
\<close>

section \<open>Comparison without case\<close>

definition ngx_tolower :: "byte \<Rightarrow> byte" where
  "ngx_tolower c = (if c \<ge> cb (CHR ''A'') \<and> c \<le> cb (CHR ''Z'') then c OR 0x20 else c)"

text \<open>\<^verbatim>\<open>ngx_strcasecmp\<close> on NUL-terminated strings, given without the terminator.\<close>

fun ngx_strcasecmp :: "bytes \<Rightarrow> bytes \<Rightarrow> int" where
  "ngx_strcasecmp s1 s2 =
     (let c1 = (case s1 of [] \<Rightarrow> 0 | c # _ \<Rightarrow> ngx_tolower c);
          c2 = (case s2 of [] \<Rightarrow> 0 | c # _ \<Rightarrow> ngx_tolower c)
      in if c1 = c2 then
           (case (s1, s2) of
              (_ # s, _ # t) \<Rightarrow> if c1 \<noteq> 0 then ngx_strcasecmp s t else 0
            | _ \<Rightarrow> 0)
         else uint c1 - uint c2)"

declare ngx_strcasecmp.simps [simp del]

text \<open>\<^verbatim>\<open>ngx_strncasecmp\<close> on two buffers of at least \<open>n\<close> bytes.\<close>

fun ngx_strncasecmp :: "bytes \<Rightarrow> bytes \<Rightarrow> nat \<Rightarrow> int" where
  "ngx_strncasecmp (a # s1) (b # s2) (Suc n) =
     (let c1 = ngx_tolower a; c2 = ngx_tolower b in
      if c1 = c2 then if c1 \<noteq> 0 then ngx_strncasecmp s1 s2 n else 0
      else uint c1 - uint c2)"
| "ngx_strncasecmp _ _ _ = 0"

lemma tolower_0: "ngx_tolower c = 0 \<longleftrightarrow> c = 0"
proof -
  have "c OR 0x20 \<noteq> (0 :: byte)" by (simp add: byte_eq_bits bit_simps)
  then show ?thesis by (auto simp: ngx_tolower_def)
qed

lemma uint_diff_0: "uint (a :: byte) - uint b = 0 \<longleftrightarrow> a = b"
  by (simp add: word_uint_eq_iff)

lemma strncasecmp_eq_0:
  "length a = length b \<Longrightarrow> 0 \<notin> set a \<Longrightarrow> ngx_strncasecmp a b (length a) = 0 \<longleftrightarrow> map ngx_tolower a = map ngx_tolower b"
proof (induction a b rule: list_induct2)
  case (Cons x a y b)
  then show ?case using tolower_0 [of x] uint_diff_0 [of "ngx_tolower x" "ngx_tolower y"] by (auto simp: Let_def)
qed simp

lemma strcasecmp_Cons:
  "ngx_strcasecmp (x # a) (y # b) =
     (if ngx_tolower x = ngx_tolower y then if ngx_tolower x \<noteq> 0 then ngx_strcasecmp a b else 0
      else uint (ngx_tolower x) - uint (ngx_tolower y))"
  "ngx_strcasecmp [] [] = 0"
  "ngx_strcasecmp (x # a) [] = uint (ngx_tolower x)" "ngx_strcasecmp [] (y # b) = - uint (ngx_tolower y)"
  by (simp_all add: ngx_strcasecmp.simps [of "_ # _"] ngx_strcasecmp.simps [of "[]"] Let_def)

lemma strcasecmp_eq_0:
  "0 \<notin> set a \<Longrightarrow> 0 \<notin> set b \<Longrightarrow> ngx_strcasecmp a b = 0 \<longleftrightarrow> map ngx_tolower a = map ngx_tolower b"
proof (induction a arbitrary: b)
  case Nil
  then show ?case using uint_diff_0 [of 0] by (cases b) (auto simp: strcasecmp_Cons tolower_0)
next
  case (Cons x a)
  show ?case
  proof (cases b)
    case Nil
    with Cons.prems show ?thesis using uint_diff_0 [of _ 0] by (auto simp: strcasecmp_Cons tolower_0)
  next
    case (Cons y b')
    with Cons.prems Cons.IH [of b'] show ?thesis
      using uint_diff_0 [of "ngx_tolower x" "ngx_tolower y"] by (auto simp: strcasecmp_Cons tolower_0)
  qed
qed

section \<open>Declared variables and indices\<close>

record 'h http_variable =
  var_name :: bytes
  var_set_handler :: "'h option"
  var_get_handler :: "'h option"
  var_changeable :: bool

record 'h var_conf =
  vc_keys :: "'h http_variable list"
  vc_indexed :: "bytes list"

text \<open>The search loops over the names, in order.\<close>

fun name_find :: "bytes \<Rightarrow> bytes list \<Rightarrow> nat option" where
  "name_find name [] = None"
| "name_find name (k # ks) =
     (if length name \<noteq> length k \<or> ngx_strncasecmp name k (length name) \<noteq> 0
      then map_option Suc (name_find name ks) else Some 0)"

definition ngx_http_add_variable ::
  "bool \<Rightarrow> 'h var_conf \<Rightarrow> bytes \<Rightarrow> bool \<Rightarrow> nat option \<times> 'h var_conf" where
  "ngx_http_add_variable ok vc name changeable =
     (case name_find name (map var_name (vc_keys vc)) of
        Some i \<Rightarrow> (if \<not> var_changeable (vc_keys vc ! i) then None else Some i, vc)
      | None \<Rightarrow>
          if \<not> ok then (None, vc)
          else (Some (length (vc_keys vc)),
                vc\<lparr>vc_keys := vc_keys vc @
                  [\<lparr>var_name = map ngx_tolower name, var_set_handler = None, var_get_handler = None,
                    var_changeable = changeable\<rparr>]\<rparr>))"

definition ngx_http_get_variable_index :: "bool \<Rightarrow> 'h var_conf \<Rightarrow> bytes \<Rightarrow> nat option \<times> 'h var_conf" where
  "ngx_http_get_variable_index ok vc name =
     (case name_find name (vc_indexed vc) of
        Some i \<Rightarrow> (Some i, vc)
      | None \<Rightarrow>
          if \<not> ok then (None, vc)
          else (Some (length (vc_indexed vc)), vc\<lparr>vc_indexed := vc_indexed vc @ [map ngx_tolower name]\<rparr>))"

definition var_set_get_handler :: "nat \<Rightarrow> 'h \<Rightarrow> 'h var_conf \<Rightarrow> 'h var_conf" where
  "var_set_get_handler i h vc =
     vc\<lparr>vc_keys := (vc_keys vc)[i := (vc_keys vc ! i)\<lparr>var_get_handler := Some h\<rparr>]\<rparr>"

definition var_set_set_handler :: "nat \<Rightarrow> 'h \<Rightarrow> 'h var_conf \<Rightarrow> 'h var_conf" where
  "var_set_set_handler i h vc =
     vc\<lparr>vc_keys := (vc_keys vc)[i := (vc_keys vc ! i)\<lparr>var_set_handler := Some h\<rparr>]\<rparr>"

section \<open>Reading variables\<close>

record vvl =
  vl_data :: bytes
  vl_valid :: bool
  vl_no_cacheable :: bool
  vl_not_found :: bool

text \<open>
  \<open>gh i v\<close> is the get handler of the variable \<open>i\<close> called with the value \<open>v\<close>, \<open>nc i\<close> its flag
  \<^verbatim>\<open>NGX_HTTP_VAR_NOCACHEABLE\<close>. The first component of the result is whether a value is returned.
\<close>

definition ngx_http_get_indexed_variable ::
  "(nat \<Rightarrow> vvl \<Rightarrow> ngx_rc \<times> vvl) \<Rightarrow> (nat \<Rightarrow> bool) \<Rightarrow> vvl list \<Rightarrow> nat \<Rightarrow> vvl option \<times> vvl list" where
  "ngx_http_get_indexed_variable gh nc vars i =
     (if length vars \<le> i then (None, vars)
      else if vl_not_found (vars ! i) \<or> vl_valid (vars ! i) then (Some (vars ! i), vars)
      else
        case gh i (vars ! i) of (rc, v) \<Rightarrow>
          if rc = NGX_OK then
            let v = (if nc i then v\<lparr>vl_no_cacheable := True\<rparr> else v) in (Some v, vars[i := v])
          else (None, vars[i := v\<lparr>vl_valid := False, vl_not_found := True\<rparr>]))"

definition ngx_http_get_flushed_variable ::
  "(nat \<Rightarrow> vvl \<Rightarrow> ngx_rc \<times> vvl) \<Rightarrow> (nat \<Rightarrow> bool) \<Rightarrow> vvl list \<Rightarrow> nat \<Rightarrow> vvl option \<times> vvl list" where
  "ngx_http_get_flushed_variable gh nc vars i =
     (let v = vars ! i in
      if vl_valid v then
        if \<not> vl_no_cacheable v then (Some v, vars)
        else ngx_http_get_indexed_variable gh nc (vars[i := v\<lparr>vl_valid := False, vl_not_found := False\<rparr>]) i
      else ngx_http_get_indexed_variable gh nc vars i)"

section \<open>Interning: one index per name\<close>

text \<open>
  The interface of both tables: a call returns a position whose entry has the name's canonical
  form, positions already given stay what they are, and no canonical form has two positions.
\<close>

locale interning =
  fixes intern :: "'t \<Rightarrow> 'k \<Rightarrow> nat \<times> 't"
    and entries :: "'t \<Rightarrow> 'n list"
    and canon :: "'k \<Rightarrow> 'n"
    and key_ok :: "'k \<Rightarrow> bool"
    and inv :: "'t \<Rightarrow> bool"
  assumes inv_distinct: "inv t \<Longrightarrow> distinct (entries t)"
    and intern_inv: "inv t \<Longrightarrow> key_ok k \<Longrightarrow> intern t k = (i, t') \<Longrightarrow> inv t'"
    and intern_entry: "inv t \<Longrightarrow> key_ok k \<Longrightarrow> intern t k = (i, t') \<Longrightarrow>
      i < length (entries t') \<and> entries t' ! i = canon k"
    and intern_extends: "inv t \<Longrightarrow> key_ok k \<Longrightarrow> intern t k = (i, t') \<Longrightarrow> \<exists>more. entries t' = entries t @ more"
begin

lemma intern_same:
  assumes "inv t" and "key_ok k" and "key_ok k'" and "intern t k = (i, t')" and "intern t' k' = (j, t'')"
  shows "i = j \<longleftrightarrow> canon k = canon k'"
proof -
  have i: "i < length (entries t')" "entries t' ! i = canon k" using intern_entry assms by blast+
  have inv': "inv t'" using intern_inv assms by blast
  have j: "j < length (entries t'')" "entries t'' ! j = canon k'" using intern_entry assms inv' by blast+
  obtain more where m: "entries t'' = entries t' @ more" using intern_extends assms inv' by blast
  have "distinct (entries t'')" using intern_inv inv_distinct assms inv' by blast
  moreover have "i < length (entries t'')" "entries t'' ! i = canon k" using i m by (simp_all add: nth_append)
  ultimately show ?thesis using j nth_eq_iff_index_eq by metis
qed

end

lemma name_find_Some:
  "name_find name ks = Some i \<Longrightarrow> 0 \<notin> set name \<Longrightarrow> i < length ks \<and> map ngx_tolower name = map ngx_tolower (ks ! i)"
proof (induction ks arbitrary: i)
  case (Cons k ks)
  then show ?case using strncasecmp_eq_0 [of name k] by (auto split: if_splits)
qed simp

lemma name_find_None:
  "name_find name ks = None \<Longrightarrow> 0 \<notin> set name \<Longrightarrow> k \<in> set ks \<Longrightarrow> map ngx_tolower k \<noteq> map ngx_tolower name"
proof (induction ks)
  case (Cons x ks)
  then show ?case using strncasecmp_eq_0 [of name x] by (auto split: if_splits dest: map_eq_imp_length_eq)
qed simp

lemma tolower_idem [simp]: "ngx_tolower (ngx_tolower c) = ngx_tolower c"
proof (cases "c \<ge> 65 \<and> c \<le> 90")
  case True
  have "\<forall>n \<in> set [65..<91]. ngx_tolower (ngx_tolower (of_nat n)) = ngx_tolower (of_nat n)"
    by (simp add: upt_rec ngx_tolower_def del: set_upt)
  moreover have "unat c \<in> set [65..<91]" using True
    by (simp only: set_upt atLeastLessThan_iff word_le_nat_alt) simp
  ultimately have "ngx_tolower (ngx_tolower (of_nat (unat c))) = ngx_tolower (of_nat (unat c))" by (rule bspec)
  then show ?thesis by simp
qed (auto simp: ngx_tolower_def)

lemma map_tolower_idem [simp]: "map ngx_tolower (map ngx_tolower s) = map ngx_tolower s"
  by simp

text \<open>Both tables satisfy the interface when the allocations succeed.\<close>

definition names_ok :: "bytes list \<Rightarrow> bool" where
  "names_ok ks \<longleftrightarrow> distinct ks \<and> (\<forall>k \<in> set ks. map ngx_tolower k = k)"

definition intern_index :: "'h var_conf \<Rightarrow> bytes \<Rightarrow> nat \<times> 'h var_conf" where
  "intern_index vc name = (case ngx_http_get_variable_index True vc name of (i, vc') \<Rightarrow> (the i, vc'))"

definition intern_variable :: "'h var_conf \<Rightarrow> bytes \<Rightarrow> nat \<times> 'h var_conf" where
  "intern_variable vc name = (case ngx_http_add_variable True vc name True of (i, vc') \<Rightarrow> (the i, vc'))"

lemma names_ok_extend:
  "names_ok ks \<Longrightarrow> name_find name ks = None \<Longrightarrow> 0 \<notin> set name \<Longrightarrow> names_ok (ks @ [map ngx_tolower name])"
  using name_find_None [of name ks "map ngx_tolower name"] by (auto simp: names_ok_def)

lemma names_ok_found:
  "names_ok ks \<Longrightarrow> name_find name ks = Some i \<Longrightarrow> 0 \<notin> set name \<Longrightarrow> i < length ks \<and> ks ! i = map ngx_tolower name"
  using name_find_Some [of name ks i] by (auto simp: names_ok_def)

lemma names_ok_distinct: "names_ok ks \<Longrightarrow> distinct ks"
  by (simp add: names_ok_def)

interpretation index_table: interning intern_index vc_indexed "map ngx_tolower" "\<lambda>k. 0 \<notin> set k"
  "\<lambda>vc. names_ok (vc_indexed vc)"
  by unfold_locales
    (auto simp: names_ok_distinct intern_index_def ngx_http_get_variable_index_def names_ok_extend nth_append
      dest: names_ok_found split: option.splits)

interpretation variable_table: interning intern_variable "\<lambda>vc. map var_name (vc_keys vc)" "map ngx_tolower"
  "\<lambda>k. 0 \<notin> set k" "\<lambda>vc. names_ok (map var_name (vc_keys vc)) \<and> (\<forall>v \<in> set (vc_keys vc). var_changeable v)"
  by unfold_locales
    (auto simp: names_ok_distinct intern_variable_def ngx_http_add_variable_def names_ok_extend nth_append
      dest: names_ok_found split: option.splits if_splits)

text \<open>
  Two names get the same variable index exactly when they differ only in the case of
  letters, whatever other names were given indices before (names without NUL bytes).
\<close>

theorem variable_index_by_name:
  assumes "names_ok (vc_indexed vc)" and "0 \<notin> set k" and "0 \<notin> set k'"
    and "ngx_http_get_variable_index True vc k = (Some i, vc')"
    and "ngx_http_get_variable_index True vc' k' = (Some j, vc'')"
  shows "i = j \<longleftrightarrow> map ngx_tolower k = map ngx_tolower k'"
  using index_table.intern_same [of vc k k' i vc' j vc''] assms by (simp add: intern_index_def)

theorem variable_index_by_name_witness:
  "\<exists>vc' vc''. ngx_http_get_variable_index True \<lparr>vc_keys = [] :: unit http_variable list, vc_indexed = []\<rparr> (bs ''Ab'') =
      (Some 0, vc') \<and>
    ngx_http_get_variable_index True vc' (bs ''aB'') = (Some 0, vc'') \<and>
    map ngx_tolower (bs ''Ab'') = map ngx_tolower (bs ''aB'')"
proof -
  let ?vc = "\<lparr>vc_keys = [] :: unit http_variable list, vc_indexed = []\<rparr>"
  let ?vc' = "?vc\<lparr>vc_indexed := [map ngx_tolower (bs ''Ab'')]\<rparr>"
  have 1: "ngx_http_get_variable_index True ?vc (bs ''Ab'') = (Some 0, ?vc')"
    by (simp add: ngx_http_get_variable_index_def)
  have 2: "ngx_http_get_variable_index True ?vc' (bs ''aB'') = (Some 0, ?vc')"
    by (simp add: ngx_http_get_variable_index_def ngx_tolower_def)
  from variable_index_by_name [OF _ _ _ 1 2] 1 2 show ?thesis by (auto simp: names_ok_def)
qed

text \<open>
  Reading a variable runs its handler at most once: once a read has returned a valid value
  that may be cached, every later read returns the same value and changes nothing, whatever
  the handler would do then.
\<close>

theorem flushed_variable_cached:
  assumes "ngx_http_get_flushed_variable gh nc vars i = (Some v, vars')" and "vl_valid v" and "\<not> vl_no_cacheable v"
    and "i < length vars"
  shows "ngx_http_get_flushed_variable gh' nc' vars' i = (Some v, vars')"
proof -
  have "vars' ! i = v"
    using assms
    by (auto simp: ngx_http_get_flushed_variable_def ngx_http_get_indexed_variable_def Let_def
        split: if_splits prod.splits)
  then show ?thesis using assms(2,3) by (simp add: ngx_http_get_flushed_variable_def)
qed

theorem flushed_variable_cached_witness:
  "ngx_http_get_flushed_variable (\<lambda>_ v. (NGX_ERROR, v)) (\<lambda>_. False)
     [\<lparr>vl_data = bs ''x'', vl_valid = True, vl_no_cacheable = False, vl_not_found = False\<rparr>] 0 =
   (Some \<lparr>vl_data = bs ''x'', vl_valid = True, vl_no_cacheable = False, vl_not_found = False\<rparr>,
    [\<lparr>vl_data = bs ''x'', vl_valid = True, vl_no_cacheable = False, vl_not_found = False\<rparr>])"
  using flushed_variable_cached [of
      "\<lambda>_ v. (NGX_OK, v\<lparr>vl_data := bs ''x'', vl_valid := True\<rparr>)" "\<lambda>_. False"
      "[\<lparr>vl_data = [], vl_valid = False, vl_no_cacheable = False, vl_not_found = False\<rparr>]" 0
      "\<lparr>vl_data = bs ''x'', vl_valid = True, vl_no_cacheable = False, vl_not_found = False\<rparr>"
      "[\<lparr>vl_data = bs ''x'', vl_valid = True, vl_no_cacheable = False, vl_not_found = False\<rparr>]"
      "\<lambda>_ v. (NGX_ERROR, v)" "\<lambda>_. False"]
  by (simp add: ngx_http_get_flushed_variable_def ngx_http_get_indexed_variable_def)

end
