(* ===== verification/Script.thy ===== *)
theory Script
  imports Variables Ngx_Codec "HOL-Library.Sublist"
begin

text \<open>
  The script compiler and evaluator of \<^verbatim>\<open>src/http/ngx_http_script.c\<close>: a text with variables, captures and
  arguments is compiled into two programs, one that computes the length of its value and one that
  writes it.

  A program is the list of its codes; \<^verbatim>\<open>e->ip\<close> is the rest of the list and the terminating null pointer the code
  \<open>LNull\<close> or \<open>VNull\<close>. Running past the end of a program, writing past the end of the buffer and using the pointer
  \<^verbatim>\<open>NGX_CONF_ERROR\<close> that \<^verbatim>\<open>ngx_http_script_add_code\<close> returns without memory are undefined: \<open>None\<close>.
\<close>

section \<open>Compilation\<close>

definition ngx_http_script_variables_count :: "bytes \<Rightarrow> nat" where
  "ngx_http_script_variables_count s = length (filter (\<lambda>c. c = cb (CHR ''$'')) s)"

datatype lcode = LCopy nat | LVar nat | LCapture nat | LMarkArgs | LNull

datatype vcode = VCopy bytes | VVar nat | VCapture nat | VStartArgs | VNull

text \<open>
  \<^verbatim>\<open>ngx_http_script_compile_t\<close>. The pointer to the array of flushes is \<open>None\<close> when it is null. An array is \<open>None\<close> before
  it is created.
\<close>

record script_compile =
  sc_flushes :: "nat list option option"
  sc_lengths :: "lcode list option"
  sc_values :: "vcode list option"
  sc_variables :: nat
  sc_ncaptures :: nat
  sc_captures_mask :: ngx_uint
  sc_total :: nat
  sc_compile_args :: bool
  sc_complete_lengths :: bool
  sc_complete_values :: bool
  sc_dup_capture :: bool
  sc_args :: bool

text \<open>
  The pool: whether the arrays can be created, an index for a name, a flush and the next code can be
  allocated.
\<close>

record script_pool =
  sp_create :: bool
  sp_index :: "bytes \<Rightarrow> bool"
  sp_flush :: "nat \<Rightarrow> bool"
  sp_code :: "nat \<Rightarrow> bool"

definition codes_count :: "script_compile \<Rightarrow> nat" where
  "codes_count sc = length (case sc_lengths sc of None \<Rightarrow> [] | Some l \<Rightarrow> l) + length (case sc_values sc of None \<Rightarrow> [] | Some v \<Rightarrow> v)"

text \<open>\<^verbatim>\<open>ngx_http_script_add_code\<close> on the two programs.\<close>

definition add_lcode :: "script_pool \<Rightarrow> lcode \<Rightarrow> script_compile \<Rightarrow> script_compile option" where
  "add_lcode pl c sc =
     (if sp_code pl (codes_count sc) then Some (sc\<lparr>sc_lengths := Some (the (sc_lengths sc) @ [c])\<rparr>) else None)"

definition add_vcode :: "script_pool \<Rightarrow> vcode \<Rightarrow> script_compile \<Rightarrow> script_compile option" where
  "add_vcode pl c sc =
     (if sp_code pl (codes_count sc) then Some (sc\<lparr>sc_values := Some (the (sc_values sc) @ [c])\<rparr>) else None)"

definition add_codes :: "script_pool \<Rightarrow> lcode \<Rightarrow> vcode \<Rightarrow> script_compile \<Rightarrow> script_compile option" where
  "add_codes pl l v sc = Option.bind (add_lcode pl l sc) (add_vcode pl v)"

definition is_name_char :: "byte \<Rightarrow> bool" where
  "is_name_char ch \<longleftrightarrow>
     ch \<ge> cb (CHR ''A'') \<and> ch \<le> cb (CHR ''Z'') \<or> ch \<ge> cb (CHR ''a'') \<and> ch \<le> cb (CHR ''z'') \<or>
     ch \<ge> cb (CHR ''0'') \<and> ch \<le> cb (CHR ''9'') \<or> ch = cb (CHR ''_'')"

text \<open>The loop over a variable name: the name, whether the bracket is still open, and the rest.\<close>

fun name_scan :: "bool \<Rightarrow> bytes \<Rightarrow> bytes \<times> bool \<times> bytes" where
  "name_scan bracket [] = ([], bracket, [])"
| "name_scan bracket (ch # s) =
     (if ch = cb (CHR ''}'') \<and> bracket then ([], False, s)
      else if is_name_char ch then (case name_scan bracket s of (name, b, r) \<Rightarrow> (ch # name, b, r))
      else ([], bracket, ch # s))"

definition compile_capture :: "script_pool \<Rightarrow> nat \<Rightarrow> script_compile \<Rightarrow> script_compile option" where
  "compile_capture pl n sc =
     (let sc = (if sc_captures_mask sc AND push_bit n 1 \<noteq> 0 then sc\<lparr>sc_dup_capture := True\<rparr> else sc);
          sc = sc\<lparr>sc_captures_mask := sc_captures_mask sc OR push_bit n 1\<rparr>
      in map_option (\<lambda>sc. if sc_ncaptures sc < n then sc\<lparr>sc_ncaptures := n\<rparr> else sc)
           (add_codes pl (LCapture (2 * n)) (VCapture (2 * n)) sc))"

text \<open>
  A variable after its name was read. The result is the status, \<open>NGX_OK\<close> when the compilation goes on.
\<close>

definition compile_variable ::
    "script_pool \<Rightarrow> bytes \<Rightarrow> script_compile \<Rightarrow> 'h var_conf \<Rightarrow> (ngx_rc \<times> script_compile \<times> 'h var_conf) option" where
  "compile_variable pl name sc vc =
     (let sc = sc\<lparr>sc_variables := sc_variables sc + 1\<rparr> in
      case ngx_http_get_variable_index (sp_index pl name) vc name of
        (None, vc) \<Rightarrow> Some (NGX_ERROR, sc, vc)
      | (Some index, vc) \<Rightarrow>
          if sc_flushes sc \<noteq> None \<and> \<not> sp_flush pl (length (the (the (sc_flushes sc)))) then Some (NGX_ERROR, sc, vc)
          else
            let sc = sc\<lparr>sc_flushes := map_option (map_option (\<lambda>f. f @ [index])) (sc_flushes sc)\<rparr> in
            map_option (\<lambda>sc. (NGX_OK, sc, vc)) (add_codes pl (LVar index) (VVar index) sc))"

definition starts_args :: "script_compile \<Rightarrow> byte \<Rightarrow> bool" where
  "starts_args sc ch \<longleftrightarrow> ch = cb (CHR ''?'') \<and> sc_compile_args sc"

definition literal_byte :: "script_compile \<Rightarrow> byte \<Rightarrow> bool" where
  "literal_byte sc ch \<longleftrightarrow> ch \<noteq> cb (CHR ''$'') \<and> \<not> starts_args sc ch"

lemma name_scan_shorter: "length (snd (snd (name_scan b s))) + length (fst (name_scan b s)) \<le> length s"
  by (induction b s rule: name_scan.induct) (auto split: prod.split)

lemma name_scan_eq_shorter:
  "(name, b', r) = name_scan b s \<Longrightarrow> length r \<le> length s"
  using name_scan_shorter [of b s] by (cases "name_scan b s") auto

text \<open>One round of the loop over a source that is not empty: the status, the rest of the source, the state.\<close>

definition compile_dollar ::
    "script_pool \<Rightarrow> bytes \<Rightarrow> script_compile \<Rightarrow> 'h var_conf \<Rightarrow> (ngx_rc \<times> bytes \<times> script_compile \<times> 'h var_conf) option" where
  "compile_dollar pl src sc vc =
     (if src = [] then Some (NGX_ERROR, src, sc, vc)
      else if hd src \<ge> cb (CHR ''1'') \<and> hd src \<le> cb (CHR ''9'') then
        map_option (\<lambda>sc. (NGX_OK, tl src, sc, vc)) (compile_capture pl (unat (hd src - cb (CHR ''0''))) sc)
      else if hd src = cb (CHR ''{'') \<and> tl src = [] then Some (NGX_ERROR, src, sc, vc)
      else
        (case name_scan (hd src = cb (CHR ''{'')) (if hd src = cb (CHR ''{'') then tl src else src) of
           (name, bracket, r) \<Rightarrow>
             if bracket \<or> name = [] then Some (NGX_ERROR, r, sc, vc)
             else map_option (\<lambda>(rc, sc, vc). (rc, r, sc, vc)) (compile_variable pl name sc vc)))"

definition compile_item ::
    "script_pool \<Rightarrow> bytes \<Rightarrow> script_compile \<Rightarrow> 'h var_conf \<Rightarrow> (ngx_rc \<times> bytes \<times> script_compile \<times> 'h var_conf) option" where
  "compile_item pl src sc vc =
     (if hd src = cb (CHR ''$'') then compile_dollar pl (tl src) sc vc
      else if starts_args sc (hd src) then
        map_option (\<lambda>sc. (NGX_OK, tl src, sc, vc))
          (add_codes pl LMarkArgs VStartArgs (sc\<lparr>sc_args := True, sc_compile_args := False\<rparr>))
      else
        let name = takeWhile (literal_byte sc) src in
        map_option (\<lambda>sc. (NGX_OK, drop (length name) src, sc, vc))
          (add_codes pl (LCopy (length name)) (VCopy name) (sc\<lparr>sc_total := sc_total sc + length name\<rparr>)))"

lemma compile_item_shorter:
  assumes "src \<noteq> []" and "compile_item pl src sc vc = Some (rc, r, sc', vc')"
  shows "length r < length src"
proof (cases "hd src = cb (CHR ''$'')")
  case True
  with assms have "length r \<le> length (tl src)"
    by (auto simp: compile_item_def compile_dollar_def simp del: name_scan.simps dest!: name_scan_eq_shorter [OF sym]
        split: if_splits prod.splits)
  with assms(1) show ?thesis by (cases src) simp_all
next
  case False
  with assms show ?thesis
    by (cases src) (auto simp: compile_item_def literal_byte_def Let_def split: if_splits)
qed

function compile_loop ::
    "script_pool \<Rightarrow> bytes \<Rightarrow> script_compile \<Rightarrow> 'h var_conf \<Rightarrow> (ngx_rc \<times> script_compile \<times> 'h var_conf) option" where
  "compile_loop pl src sc vc =
     (if src = [] then Some (NGX_OK, sc, vc)
      else
        Option.bind (compile_item pl src sc vc) (\<lambda>(rc, r, sc, vc).
          if rc \<noteq> NGX_OK then Some (rc, sc, vc) else compile_loop pl r sc vc))"
  by pat_completeness auto
termination
  by (relation "measure (\<lambda>(pl, src, sc, vc). length src)") (auto dest: compile_item_shorter)

declare compile_loop.simps [simp del]

definition ngx_http_script_compile ::
    "script_pool \<Rightarrow> bytes \<Rightarrow> script_compile \<Rightarrow> 'h var_conf \<Rightarrow> (ngx_rc \<times> script_compile \<times> 'h var_conf) option" where
  "ngx_http_script_compile pl src sc vc =
     (if \<not> sp_create pl \<and> (sc_flushes sc = Some None \<or> sc_lengths sc = None \<or> sc_values sc = None)
      then Some (NGX_ERROR, sc, vc)
      else
        let sc = sc\<lparr>sc_flushes := map_option (\<lambda>f. Some (case f of None \<Rightarrow> [] | Some f \<Rightarrow> f)) (sc_flushes sc),
                   sc_lengths := Some (case sc_lengths sc of None \<Rightarrow> [] | Some l \<Rightarrow> l),
                   sc_values := Some (case sc_values sc of None \<Rightarrow> [] | Some v \<Rightarrow> v), sc_variables := 0\<rparr> in
        Option.bind (compile_loop pl src sc vc) (\<lambda>(rc, sc, vc).
          if rc \<noteq> NGX_OK then Some (rc, sc, vc)
          else
            Option.bind (if sc_complete_lengths sc then add_lcode pl LNull sc else Some sc) (\<lambda>sc.
            map_option (\<lambda>sc. (NGX_OK, sc, vc))
              (if sc_complete_values sc then add_vcode pl VNull sc else Some sc))))"

section \<open>Evaluation\<close>

text \<open>
  The fields of \<^verbatim>\<open>ngx_http_script_engine_t\<close> the copying codes use. \<open>en_pos\<close> holds the bytes written to the
  buffer, \<open>en_room\<close> is its size, \<open>en_args\<close> the offset of \<^verbatim>\<open>e->args\<close>. The last two are flags of the request. \<open>gh\<close> and \<open>nc\<close> are
  the handlers of the variables, as for the functions that read them.
\<close>

record engine =
  en_pos :: bytes
  en_room :: nat
  en_args :: "nat option"
  en_flushed :: bool
  en_skip :: bool
  en_quote :: bool
  en_is_args :: bool
  en_captures :: "nat list"
  en_ncaptures :: nat
  en_line :: bytes
  en_vars :: "vvl list"
  en_quoted_uri :: bool
  en_plus_in_uri :: bool

definition read_var ::
    "(nat \<Rightarrow> vvl \<Rightarrow> ngx_rc \<times> vvl) \<Rightarrow> (nat \<Rightarrow> bool) \<Rightarrow> engine \<Rightarrow> nat \<Rightarrow> vvl option \<times> engine" where
  "read_var gh nc e i =
     (case (if en_flushed e then ngx_http_get_indexed_variable gh nc (en_vars e) i
            else ngx_http_get_flushed_variable gh nc (en_vars e) i) of
        (v, vars) \<Rightarrow> (v, e\<lparr>en_vars := vars\<rparr>))"

definition value_text :: "vvl option \<Rightarrow> bytes" where
  "value_text v = (case v of None \<Rightarrow> [] | Some v \<Rightarrow> if vl_not_found v then [] else vl_data v)"

text \<open>The text of a capture, and whether the code escapes it.\<close>

definition capture_text :: "engine \<Rightarrow> nat \<Rightarrow> bytes option" where
  "capture_text e n =
     (if n + 1 < length (en_captures e) \<and> en_captures e ! n \<le> en_captures e ! (n + 1) \<and>
         en_captures e ! (n + 1) \<le> length (en_line e)
      then Some (take (en_captures e ! (n + 1) - en_captures e ! n) (drop (en_captures e ! n) (en_line e)))
      else None)"

definition escapes :: "engine \<Rightarrow> bool" where
  "escapes e \<longleftrightarrow> (en_is_args e \<or> en_quote e) \<and> (en_quoted_uri e \<or> en_plus_in_uri e)"

fun lcode_run :: "(nat \<Rightarrow> vvl \<Rightarrow> ngx_rc \<times> vvl) \<Rightarrow> (nat \<Rightarrow> bool) \<Rightarrow> lcode \<Rightarrow> engine \<Rightarrow> (nat \<times> engine) option" where
  "lcode_run gh nc (LCopy n) e = Some (n, e)"
| "lcode_run gh nc (LVar i) e = (case read_var gh nc e i of (v, e) \<Rightarrow> Some (length (value_text v), e))"
| "lcode_run gh nc (LCapture n) e =
     (if n < en_ncaptures e then
        map_option (\<lambda>t. (if escapes e then length t + 2 * ngx_escape_uri_count NGX_ESCAPE_ARGS t else length t, e))
          (capture_text e n)
      else Some (0, e))"
| "lcode_run gh nc LMarkArgs e = Some (1, e\<lparr>en_is_args := True\<rparr>)"
| "lcode_run gh nc LNull e = None"

fun lengths_run :: "(nat \<Rightarrow> vvl \<Rightarrow> ngx_rc \<times> vvl) \<Rightarrow> (nat \<Rightarrow> bool) \<Rightarrow> lcode list \<Rightarrow> nat \<Rightarrow> engine \<Rightarrow> (nat \<times> engine) option" where
  "lengths_run gh nc [] len e = None"
| "lengths_run gh nc (c # cs) len e =
     (if c = LNull then Some (len, e)
      else Option.bind (lcode_run gh nc c e) (\<lambda>(n, e). lengths_run gh nc cs (len + n) e))"

definition put_bytes :: "bytes \<Rightarrow> engine \<Rightarrow> engine option" where
  "put_bytes s e = (if length (en_pos e) + length s \<le> en_room e then Some (e\<lparr>en_pos := en_pos e @ s\<rparr>) else None)"

fun vcode_run :: "(nat \<Rightarrow> vvl \<Rightarrow> ngx_rc \<times> vvl) \<Rightarrow> (nat \<Rightarrow> bool) \<Rightarrow> vcode \<Rightarrow> engine \<Rightarrow> engine option" where
  "vcode_run gh nc (VCopy s) e = (if en_skip e then Some e else put_bytes s e)"
| "vcode_run gh nc (VVar i) e =
     (if en_skip e then Some e else case read_var gh nc e i of (v, e) \<Rightarrow> put_bytes (value_text v) e)"
| "vcode_run gh nc (VCapture n) e =
     (if n < en_ncaptures e then
        Option.bind (capture_text e n) (\<lambda>t. put_bytes (if escapes e then ngx_escape_uri NGX_ESCAPE_ARGS t else t) e)
      else Some e)"
| "vcode_run gh nc VStartArgs e = Some (e\<lparr>en_args := Some (length (en_pos e))\<rparr>)"
| "vcode_run gh nc VNull e = None"

fun values_run :: "(nat \<Rightarrow> vvl \<Rightarrow> ngx_rc \<times> vvl) \<Rightarrow> (nat \<Rightarrow> bool) \<Rightarrow> vcode list \<Rightarrow> engine \<Rightarrow> engine option" where
  "values_run gh nc [] e = None"
| "values_run gh nc (c # cs) e =
     (if c = VNull then Some e else Option.bind (vcode_run gh nc c e) (values_run gh nc cs))"

definition flush_value :: "vvl \<Rightarrow> vvl" where
  "flush_value v = (if vl_no_cacheable v then v\<lparr>vl_valid := False, vl_not_found := False\<rparr> else v)"

definition ngx_http_script_flush_no_cacheable_variables :: "vvl list \<Rightarrow> nat list option \<Rightarrow> vvl list option" where
  "ngx_http_script_flush_no_cacheable_variables vars indices =
     (case indices of
        None \<Rightarrow> Some vars
      | Some is \<Rightarrow> if list_all (\<lambda>i. i < length vars) is
          then Some (fold (\<lambda>i vars. vars[i := flush_value (vars ! i)]) is vars) else None)"

definition blank_engine :: engine where
  "blank_engine =
     \<lparr>en_pos = [], en_room = 0, en_args = None, en_flushed = False, en_skip = False, en_quote = False, en_is_args = False,
      en_captures = [], en_ncaptures = 0, en_line = [], en_vars = [], en_quoted_uri = False, en_plus_in_uri = False\<rparr>"

text \<open>
  The evaluation of a script. \<open>ghl\<close> and \<open>ghv\<close> are the handlers while the lengths and while the values are run, since
  a handler may answer differently each time it is called. The result is \<open>None\<close> in the second place for a null pointer; otherwise the
  bytes written and the length announced in \<^verbatim>\<open>value->len\<close>.
\<close>

definition ngx_http_script_run ::
    "bool \<Rightarrow> (nat \<Rightarrow> vvl \<Rightarrow> ngx_rc \<times> vvl) \<Rightarrow> (nat \<Rightarrow> vvl \<Rightarrow> ngx_rc \<times> vvl) \<Rightarrow> (nat \<Rightarrow> bool) \<Rightarrow> vvl list \<Rightarrow>
     lcode list \<Rightarrow> nat \<Rightarrow> vcode list \<Rightarrow> ((bytes \<times> nat) option \<times> vvl list) option" where
  "ngx_http_script_run ok ghl ghv nc vars lens len vals =
     (let e = blank_engine\<lparr>en_flushed := True, en_vars := map flush_value vars\<rparr> in
      Option.bind (lengths_run ghl nc lens len e) (\<lambda>(len, e).
        if \<not> ok then Some (None, en_vars e)
        else map_option (\<lambda>e. (Some (en_pos e, len), en_vars e)) (values_run ghv nc vals (e\<lparr>en_pos := [], en_room := len\<rparr>))))"

section \<open>The two programs agree\<close>

text \<open>The length code that goes with a value code; the compiler always emits the two together.\<close>

fun lcode_of :: "vcode \<Rightarrow> lcode" where
  "lcode_of (VCopy s) = LCopy (length s)"
| "lcode_of (VVar i) = LVar i"
| "lcode_of (VCapture n) = LCapture n"
| "lcode_of VStartArgs = LMarkArgs"
| "lcode_of VNull = LNull"

definition paired :: "script_compile \<Rightarrow> bool" where
  "paired sc \<longleftrightarrow>
     (\<exists>vs. sc_values sc = Some vs \<and> sc_lengths sc = Some (map lcode_of vs) \<and> VNull \<notin> set vs \<and>
           (VStartArgs \<in> set vs \<longrightarrow> sc_args sc))"

text \<open>The flags a compilation does not change.\<close>

definition same_flags :: "script_compile \<Rightarrow> script_compile \<Rightarrow> bool" where
  "same_flags sc sc' \<longleftrightarrow>
     sc_complete_lengths sc' = sc_complete_lengths sc \<and> sc_complete_values sc' = sc_complete_values sc"

lemma add_codes_paired:
  assumes "add_codes pl (lcode_of c) c sc = Some sc'" and "paired sc" and "c \<noteq> VNull" and "c = VStartArgs \<longrightarrow> sc_args sc"
  shows "paired sc' \<and> sc_args sc' = sc_args sc \<and> sc_compile_args sc' = sc_compile_args sc \<and> same_flags sc sc'"
  using assms by (auto simp: same_flags_def add_codes_def add_lcode_def add_vcode_def paired_def Option.bind_eq_Some_conv split: if_splits)

lemma paired_update [simp]:
  "paired (sc\<lparr>sc_flushes := f\<rparr>) = paired sc" "paired (sc\<lparr>sc_variables := n\<rparr>) = paired sc"
  "paired (sc\<lparr>sc_ncaptures := n\<rparr>) = paired sc" "paired (sc\<lparr>sc_captures_mask := m\<rparr>) = paired sc"
  "paired (sc\<lparr>sc_total := n\<rparr>) = paired sc" "paired (sc\<lparr>sc_dup_capture := b\<rparr>) = paired sc"
  "paired (sc\<lparr>sc_compile_args := b\<rparr>) = paired sc"
  by (simp_all add: paired_def)

lemma compile_capture_paired:
  "\<lbrakk>compile_capture pl n sc = Some sc'; paired sc\<rbrakk> \<Longrightarrow> paired sc' \<and> sc_args sc' = sc_args sc \<and> sc_compile_args sc' = sc_compile_args sc \<and> same_flags sc sc'"
  using add_codes_paired [of pl "VCapture (2 * n)"]
  by (fastforce simp: same_flags_def compile_capture_def Let_def split: if_splits)

lemma compile_variable_paired:
  "\<lbrakk>compile_variable pl name sc vc = Some (rc, sc', vc'); paired sc\<rbrakk> \<Longrightarrow>
     paired sc' \<and> sc_args sc' = sc_args sc \<and> sc_compile_args sc' = sc_compile_args sc \<and> same_flags sc sc'"
  using add_codes_paired [of pl "VVar _"]
  by (fastforce simp: same_flags_def compile_variable_def Let_def split: if_splits prod.splits option.splits)

lemma compile_dollar_cases:
  assumes "compile_dollar pl src sc vc = Some (rc, r, sc', vc')"
  obtains "sc' = sc"
    | n where "compile_capture pl n sc = Some sc'"
    | name where "compile_variable pl name sc vc = Some (rc, sc', vc')"
  using assms by (auto simp: compile_dollar_def simp del: name_scan.simps split: if_splits prod.splits)

lemma compile_dollar_paired:
  assumes "compile_dollar pl src sc vc = Some (rc, r, sc', vc')" and "paired sc"
  shows "paired sc' \<and> sc_args sc' = sc_args sc \<and> sc_compile_args sc' = sc_compile_args sc \<and> same_flags sc sc'"
  using assms(1)
proof (cases rule: compile_dollar_cases)
  case 1
  with assms(2) show ?thesis by (simp add: same_flags_def)
next
  case 2
  from compile_capture_paired [OF this assms(2)] show ?thesis .
next
  case 3
  from compile_variable_paired [OF this assms(2)] show ?thesis .
qed

lemma compile_item_paired:
  assumes "compile_item pl src sc vc = Some (rc, r, sc', vc')" and "paired sc"
  shows "paired sc' \<and> (\<not> sc_compile_args sc \<longrightarrow> sc_args sc' = sc_args sc \<and> \<not> sc_compile_args sc') \<and> same_flags sc sc'"
proof (cases "hd src = cb (CHR ''$'')")
  case True
  with assms show ?thesis using compile_dollar_paired [of pl "tl src" sc vc rc r sc' vc'] by (simp add: compile_item_def)
next
  case False
  show ?thesis
  proof (cases "starts_args sc (hd src)")
    case True
    have "paired (sc\<lparr>sc_args := True, sc_compile_args := False\<rparr>)" using assms(2) by (auto simp: paired_def)
    with True False assms add_codes_paired [of pl VStartArgs "sc\<lparr>sc_args := True, sc_compile_args := False\<rparr>" sc']
    show ?thesis by (auto simp: same_flags_def compile_item_def starts_args_def)
  next
    case no_args: False
    let ?name = "takeWhile (literal_byte sc) src"
    from no_args False assms add_codes_paired [of pl "VCopy ?name" "sc\<lparr>sc_total := sc_total sc + length ?name\<rparr>" sc']
    show ?thesis by (auto simp: same_flags_def compile_item_def Let_def)
  qed
qed

lemma compile_loop_paired:
  "\<lbrakk>compile_loop pl src sc vc = Some (rc, sc', vc'); paired sc\<rbrakk> \<Longrightarrow>
     paired sc' \<and> (\<not> sc_compile_args sc \<longrightarrow> sc_args sc' = sc_args sc) \<and> same_flags sc sc'"
proof (induction pl src sc vc rule: compile_loop.induct)
  case (1 pl src sc vc)
  show ?case
  proof (cases "src = []")
    case False
    with 1(2) obtain rc1 r sc1 vc1 where item: "compile_item pl src sc vc = Some (rc1, r, sc1, vc1)"
      and next1: "rc1 \<noteq> NGX_OK \<and> sc1 = sc' \<or> rc1 = NGX_OK \<and> compile_loop pl r sc1 vc1 = Some (rc, sc', vc')"
      by (subst (asm) compile_loop.simps) (auto simp: Option.bind_eq_Some_conv split: if_splits)
    from compile_item_paired [OF item 1(3)] next1 False 1(1) item show ?thesis
      by (fastforce simp: same_flags_def)
  qed (use 1 in \<open>auto simp: compile_loop.simps same_flags_def\<close>)
qed

section \<open>Running the two programs\<close>

text \<open>
  A variable is settled when reading it no longer calls its handler. A handler that returns \<^verbatim>\<open>NGX_OK\<close> has set one of the two
  flags; a failed handler leaves the variable marked as not found.
\<close>

definition settled :: "vvl list \<Rightarrow> nat \<Rightarrow> bool" where
  "settled vars i \<longleftrightarrow> (i < length vars \<longrightarrow> vl_valid (vars ! i) \<or> vl_not_found (vars ! i))"

definition handlers_ok :: "(nat \<Rightarrow> vvl \<Rightarrow> ngx_rc \<times> vvl) \<Rightarrow> bool" where
  "handlers_ok gh \<longleftrightarrow> (\<forall>i v v'. gh i v = (NGX_OK, v') \<longrightarrow> vl_valid v' \<or> vl_not_found v')"

definition var_text :: "vvl list \<Rightarrow> nat \<Rightarrow> bytes" where
  "var_text vars i = (if i < length vars then value_text (Some (vars ! i)) else [])"

text \<open>What happened to the variables between two points of an evaluation.\<close>

definition settles :: "vvl list \<Rightarrow> vvl list \<Rightarrow> bool" where
  "settles vars vars' \<longleftrightarrow> length vars' = length vars \<and> (\<forall>j < length vars. settled vars j \<longrightarrow> vars' ! j = vars ! j)"

lemma settles_refl [simp]: "settles vars vars"
  by (simp add: settles_def)

lemma settles_valid: "settles vars vars' \<Longrightarrow> list_all vl_valid vars \<Longrightarrow> vars' = vars"
  by (rule nth_equalityI) (auto simp: settles_def settled_def list_all_length)

lemma settles_settled: "settles vars vars' \<Longrightarrow> settled vars i \<Longrightarrow> settled vars' i"
  by (auto simp: settles_def settled_def)

lemma settles_text: "settles vars vars' \<Longrightarrow> settled vars i \<Longrightarrow> var_text vars' i = var_text vars i"
  by (auto simp: settles_def var_text_def)

lemma settles_trans: "settles a b \<Longrightarrow> settles b c \<Longrightarrow> settles a c"
  by (auto simp: settles_def settled_def)

lemma indexed_settles:
  assumes "handlers_ok gh" and "ngx_http_get_indexed_variable gh nc vars i = (v, vars')"
  shows "settles vars vars' \<and> settled vars' i \<and> value_text v = var_text vars' i"
proof (cases "i < length vars \<and> \<not> (vl_not_found (vars ! i) \<or> vl_valid (vars ! i))")
  case True
  obtain rc w where w: "gh i (vars ! i) = (rc, w)" by fastforce
  show ?thesis
  proof (cases "rc = NGX_OK")
    case True
    with assms(1) w have "vl_valid w \<or> vl_not_found w" by (auto simp: handlers_ok_def)
    with True assms(2) w \<open>i < length vars \<and> _\<close> show ?thesis
      by (auto simp: ngx_http_get_indexed_variable_def settles_def settled_def var_text_def nth_list_update Let_def split: if_splits)
  next
    case False
    with assms(2) w \<open>i < length vars \<and> _\<close> show ?thesis
      by (auto simp: ngx_http_get_indexed_variable_def settles_def settled_def var_text_def value_text_def nth_list_update)
  qed
next
  case False
  with assms(2) show ?thesis
    by (auto simp: ngx_http_get_indexed_variable_def settled_def var_text_def value_text_def split: if_splits)
qed

lemma indexed_settled:
  "settled vars i \<Longrightarrow> \<exists>v. ngx_http_get_indexed_variable gh nc vars i = (v, vars) \<and> value_text v = var_text vars i"
  by (auto simp: ngx_http_get_indexed_variable_def settled_def var_text_def value_text_def)

fun code_text :: "vvl list \<Rightarrow> vcode \<Rightarrow> bytes" where
  "code_text vars (VCopy s) = s"
| "code_text vars (VVar i) = var_text vars i"
| "code_text vars c = []"

definition codes_settled :: "vvl list \<Rightarrow> vcode list \<Rightarrow> bool" where
  "codes_settled vars vs \<longleftrightarrow> (\<forall>i. VVar i \<in> set vs \<longrightarrow> settled vars i)"

lemma code_text_settles:
  "settles vars vars' \<Longrightarrow> codes_settled vars [c] \<Longrightarrow> code_text vars' c = code_text vars c"
  by (cases c) (auto simp: codes_settled_def settles_text)

text \<open>
  Codes whose text the variables alone determine: a capture counts when the engine has no captures, so that it
  gives nothing.
\<close>

fun plain_code :: "nat \<Rightarrow> vcode \<Rightarrow> bool" where
  "plain_code n (VCopy s) = True"
| "plain_code n (VVar i) = True"
| "plain_code n (VCapture k) = (n = 0)"
| "plain_code n c = False"

definition run_engine :: "engine \<Rightarrow> bool" where
  "run_engine e \<longleftrightarrow> en_flushed e \<and> \<not> en_skip e"

lemma lcode_run_text:
  assumes "handlers_ok gh" and "run_engine e" and "plain_code (en_ncaptures e) c"
  obtains vars' where "lcode_run gh nc (lcode_of c) e = Some (length (code_text vars' c), e\<lparr>en_vars := vars'\<rparr>)"
    and "settles (en_vars e) vars'" and "codes_settled vars' [c]"
proof (cases c)
  case (VVar i)
  obtain v vars' where v: "ngx_http_get_indexed_variable gh nc (en_vars e) i = (v, vars')" by fastforce
  with indexed_settles [OF assms(1) v] VVar assms(2) that [of vars'] show ?thesis
    by (auto simp: read_var_def run_engine_def codes_settled_def)
qed (use assms that [of "en_vars e"] in \<open>auto simp: codes_settled_def run_engine_def\<close>)

lemma lengths_run_text:
  assumes "handlers_ok gh"
  shows "\<lbrakk>run_engine e; list_all (plain_code (en_ncaptures e)) vs\<rbrakk> \<Longrightarrow>
    \<exists>vars'. lengths_run gh nc (map lcode_of vs @ [LNull]) len e =
        Some (len + length (concat (map (code_text vars') vs)), e\<lparr>en_vars := vars'\<rparr>) \<and>
      settles (en_vars e) vars' \<and> codes_settled vars' vs"
proof (induction vs arbitrary: len e)
  case Nil
  show ?case by (intro exI [of _ "en_vars e"]) (simp add: codes_settled_def)
next
  case (Cons c vs)
  obtain vars1 where c: "lcode_run gh nc (lcode_of c) e = Some (length (code_text vars1 c), e\<lparr>en_vars := vars1\<rparr>)"
    and s1: "settles (en_vars e) vars1" and cs1: "codes_settled vars1 [c]"
    using lcode_run_text [OF assms Cons.prems(1), of c] Cons.prems(2) by auto
  have ln: "lcode_of c \<noteq> LNull" using Cons.prems(2) by (cases c) auto
  have "run_engine (e\<lparr>en_vars := vars1\<rparr>)" using Cons.prems(1) by (simp add: run_engine_def)
  from Cons.IH [OF this, of "len + length (code_text vars1 c)"] Cons.prems(2) obtain vars2 where
    v2: "lengths_run gh nc (map lcode_of vs @ [LNull]) (len + length (code_text vars1 c)) (e\<lparr>en_vars := vars1\<rparr>) =
        Some (len + length (code_text vars1 c) + length (concat (map (code_text vars2) vs)), e\<lparr>en_vars := vars2\<rparr>)"
    and s2: "settles vars1 vars2" and cs2: "codes_settled vars2 vs"
    by auto
  have "codes_settled vars2 (c # vs)" using cs1 cs2 settles_settled [OF s2] by (auto simp: codes_settled_def)
  with c ln v2 settles_trans [OF s1 s2] code_text_settles [OF s2 cs1] show ?case
    by (intro exI [of _ vars2]) simp
qed

lemma vcode_run_text:
  assumes "run_engine e" and "plain_code (en_ncaptures e) c" and "codes_settled (en_vars e) [c]"
    and "length (en_pos e) + length (code_text (en_vars e) c) \<le> en_room e"
  shows "vcode_run gh nc c e = Some (e\<lparr>en_pos := en_pos e @ code_text (en_vars e) c\<rparr>)"
proof (cases c)
  case (VVar i)
  with assms(3) obtain v where "ngx_http_get_indexed_variable gh nc (en_vars e) i = (v, en_vars e)"
    "value_text v = var_text (en_vars e) i"
    using indexed_settled [of "en_vars e" i gh nc] by (auto simp: codes_settled_def)
  with VVar assms show ?thesis by (simp add: read_var_def run_engine_def put_bytes_def)
qed (use assms in \<open>auto simp: run_engine_def put_bytes_def\<close>)

lemma values_run_text:
  "\<lbrakk>run_engine e; list_all (plain_code (en_ncaptures e)) vs; codes_settled (en_vars e) vs;
    length (en_pos e) + length (concat (map (code_text (en_vars e)) vs)) \<le> en_room e\<rbrakk> \<Longrightarrow>
   values_run gh nc (vs @ [VNull]) e = Some (e\<lparr>en_pos := en_pos e @ concat (map (code_text (en_vars e)) vs)\<rparr>)"
proof (induction vs arbitrary: e)
  case (Cons c vs)
  have "vcode_run gh nc c e = Some (e\<lparr>en_pos := en_pos e @ code_text (en_vars e) c\<rparr>)"
    using Cons.prems by (intro vcode_run_text) (auto simp: codes_settled_def)
  moreover have "c \<noteq> VNull" using Cons.prems(2) by auto
  ultimately show ?case using Cons.prems Cons.IH [of "e\<lparr>en_pos := en_pos e @ code_text (en_vars e) c\<rparr>"]
    by (simp add: run_engine_def codes_settled_def)
qed simp

text \<open>The whole run, for the two programs of one compilation; \<^verbatim>\<open>ngx_http_script_run\<close> has no captures.\<close>

section \<open>Engines that flush while they read\<close>

text \<open>
  The engine of the rewrite module reads variables with \<^verbatim>\<open>ngx_http_get_flushed_variable\<close>. For variables that may be
  cached this is the same.
\<close>

definition cached :: "vvl list \<Rightarrow> bool" where
  "cached vars \<longleftrightarrow> (\<forall>v \<in> set vars. \<not> vl_no_cacheable v)"

definition caching_handlers :: "(nat \<Rightarrow> vvl \<Rightarrow> ngx_rc \<times> vvl) \<Rightarrow> (nat \<Rightarrow> bool) \<Rightarrow> bool" where
  "caching_handlers gh nc \<longleftrightarrow> (\<forall>i. \<not> nc i) \<and> (\<forall>i v. \<not> vl_no_cacheable v \<longrightarrow> \<not> vl_no_cacheable (snd (gh i v)))"

definition codes_in_range :: "nat \<Rightarrow> vcode list \<Rightarrow> bool" where
  "codes_in_range n vs \<longleftrightarrow> (\<forall>i. VVar i \<in> set vs \<longrightarrow> i < n)"

lemma flushed_indexed:
  assumes "cached vars" and "i < length vars"
  shows "ngx_http_get_flushed_variable gh nc vars i = ngx_http_get_indexed_variable gh nc vars i"
proof -
  have "\<not> vl_no_cacheable (vars ! i)" using assms by (simp add: cached_def)
  with assms(2) show ?thesis
    by (auto simp: ngx_http_get_flushed_variable_def ngx_http_get_indexed_variable_def Let_def)
qed

lemma cached_flush: "cached vars \<Longrightarrow> map flush_value vars = vars"
  by (auto simp: cached_def flush_value_def intro: map_idI)

lemma cached_update: "cached vars \<Longrightarrow> \<not> vl_no_cacheable v \<Longrightarrow> cached (vars[i := v])"
  using set_update_subset_insert [of vars i v] by (auto simp: cached_def)

lemma indexed_cached:
  assumes "caching_handlers gh nc" and "cached vars" and "ngx_http_get_indexed_variable gh nc vars i = (v, vars')"
  shows "cached vars'"
proof (cases "i < length vars \<and> \<not> (vl_not_found (vars ! i) \<or> vl_valid (vars ! i))")
  case True
  obtain rc w where w: "gh i (vars ! i) = (rc, w)" by fastforce
  have "\<not> vl_no_cacheable (vars ! i)" using True assms(2) by (simp add: cached_def)
  with assms(1) w have "\<not> vl_no_cacheable w" "\<not> nc i" by (simp_all add: caching_handlers_def) (metis snd_conv)
  then have "cached (vars[i := w])" "cached (vars[i := w\<lparr>vl_valid := False, vl_not_found := True\<rparr>])"
    using cached_update [OF assms(2)] by simp_all
  with True assms(3) w \<open>\<not> nc i\<close> show ?thesis by (auto simp: ngx_http_get_indexed_variable_def Let_def split: if_splits)
qed (use assms in \<open>auto simp: ngx_http_get_indexed_variable_def split: if_splits\<close>)

lemma lcode_run_flushed:
  assumes "caching_handlers gh nc" and "cached (en_vars e)" and "codes_in_range (length (en_vars e)) [c]"
  shows "lcode_run gh nc (lcode_of c) e =
    map_option (apsnd (\<lambda>e'. e'\<lparr>en_flushed := en_flushed e\<rparr>)) (lcode_run gh nc (lcode_of c) (e\<lparr>en_flushed := True\<rparr>))"
  using assms flushed_indexed [of "en_vars e"]
  by (cases c) (auto simp: read_var_def codes_in_range_def escapes_def capture_text_def map_option_case
      split: prod.splits option.splits)

lemma vcode_run_flushed:
  assumes "cached (en_vars e)" and "codes_in_range (length (en_vars e)) [c]"
  shows "vcode_run gh nc c e =
    map_option (\<lambda>e'. e'\<lparr>en_flushed := en_flushed e\<rparr>) (vcode_run gh nc c (e\<lparr>en_flushed := True\<rparr>))"
  using assms flushed_indexed [of "en_vars e"]
  by (cases c) (auto simp: read_var_def codes_in_range_def escapes_def capture_text_def put_bytes_def
      split: prod.splits option.splits bind_splits)

lemma lcode_run_cached:
  assumes "caching_handlers gh nc" and "cached (en_vars e)" and "en_flushed e"
    and "lcode_run gh nc (lcode_of c) e = Some (n, e')"
  shows "cached (en_vars e') \<and> length (en_vars e') = length (en_vars e) \<and> en_flushed e'"
proof (cases c)
  case (VVar i)
  obtain v vars' where v: "ngx_http_get_indexed_variable gh nc (en_vars e) i = (v, vars')" by fastforce
  have "length vars' = length (en_vars e)"
    using v by (auto simp: ngx_http_get_indexed_variable_def Let_def split: if_splits prod.splits)
  with assms VVar v indexed_cached [OF assms(1,2) v] show ?thesis by (auto simp: read_var_def)
qed (use assms in \<open>auto split: if_splits\<close>)

lemma lengths_run_cached:
  assumes "caching_handlers gh nc"
  shows "\<lbrakk>cached (en_vars e); en_flushed e; lengths_run gh nc (map lcode_of vs @ [LNull]) len e = Some (n, e')\<rbrakk> \<Longrightarrow>
    cached (en_vars e') \<and> length (en_vars e') = length (en_vars e)"
proof (induction vs arbitrary: len e)
  case (Cons c vs)
  show ?case
  proof (cases "lcode_of c = LNull")
    case False
    with Cons.prems obtain m e1 where "lcode_run gh nc (lcode_of c) e = Some (m, e1)"
      "lengths_run gh nc (map lcode_of vs @ [LNull]) (len + m) e1 = Some (n, e')"
      by (auto simp: Option.bind_eq_Some_conv)
    with lcode_run_cached [OF assms Cons.prems(1,2)] Cons.IH [of e1 "len + m"] show ?thesis by auto
  qed (use Cons.prems in auto)
qed simp

lemma lengths_run_flushed:
  assumes "caching_handlers gh nc"
  shows "\<lbrakk>cached (en_vars e); codes_in_range (length (en_vars e)) vs; \<not> en_flushed e; VNull \<notin> set vs\<rbrakk> \<Longrightarrow>
    lengths_run gh nc (map lcode_of vs @ [LNull]) len e =
      map_option (apsnd (\<lambda>e'. e'\<lparr>en_flushed := False\<rparr>))
        (lengths_run gh nc (map lcode_of vs @ [LNull]) len (e\<lparr>en_flushed := True\<rparr>))"
proof (induction vs arbitrary: len e)
  case (Cons c vs)
  let ?e = "e\<lparr>en_flushed := True\<rparr>"
  have ln: "lcode_of c \<noteq> LNull" using Cons.prems(4) by (cases c) auto
  have step: "lcode_run gh nc (lcode_of c) e = map_option (apsnd (\<lambda>e'. e'\<lparr>en_flushed := False\<rparr>)) (lcode_run gh nc (lcode_of c) ?e)"
    using lcode_run_flushed [OF assms Cons.prems(1), of c] Cons.prems(2,3) by (simp add: codes_in_range_def)
  show ?case
  proof (cases "lcode_run gh nc (lcode_of c) ?e")
    case None
    with step ln show ?thesis by simp
  next
    case (Some r)
    obtain n e' where r: "r = (n, e')" by fastforce
    have e': "cached (en_vars e')" "length (en_vars e') = length (en_vars e)" "en_flushed e'"
      using lcode_run_cached [OF assms, of ?e c n e'] Some r Cons.prems(1) by auto
    then have "e'\<lparr>en_flushed := True\<rparr> = e'" by simp
    with Cons.IH [of "e'\<lparr>en_flushed := False\<rparr>" "len + n"] e' Cons.prems step Some r ln show ?thesis
      by (simp add: codes_in_range_def)
  qed
qed simp

section \<open>Evaluation as a whole\<close>

lemma script_run_text:
  assumes "handlers_ok ghl" and "set vs \<inter> {VNull, VStartArgs} = {}"
  obtains vars' where "settles (map flush_value vars) vars'" and "codes_settled vars' vs"
    and "\<lbrakk>cached vars; caching_handlers ghl nc\<rbrakk> \<Longrightarrow> cached vars'"
    and "ngx_http_script_run True ghl ghv nc vars (map lcode_of vs @ [LNull]) 0 (vs @ [VNull]) =
      Some (Some (concat (map (code_text vars') vs), length (concat (map (code_text vars') vs))), vars')"
proof -
  let ?e = "blank_engine\<lparr>en_flushed := True, en_vars := map flush_value vars\<rparr>"
  have e: "run_engine ?e" by (simp add: run_engine_def blank_engine_def)
  have plain: "list_all (plain_code 0) vs"
    unfolding list_all_iff
  proof
    fix c assume "c \<in> set vs"
    with assms(2) show "plain_code 0 c" by (cases c) auto
  qed
  then have "list_all (plain_code (en_ncaptures ?e)) vs" by (simp add: blank_engine_def)
  from lengths_run_text [OF assms(1) e this, of nc 0] obtain vars' where
    l: "lengths_run ghl nc (map lcode_of vs @ [LNull]) 0 ?e =
      Some (length (concat (map (code_text vars') vs)), ?e\<lparr>en_vars := vars'\<rparr>)"
    and s: "settles (map flush_value vars) vars'" "codes_settled vars' vs" by auto
  let ?e' = "?e\<lparr>en_vars := vars', en_pos := [], en_room := length (concat (map (code_text vars') vs))\<rparr>"
  have "values_run ghv nc (vs @ [VNull]) ?e' = Some (?e'\<lparr>en_pos := concat (map (code_text vars') vs)\<rparr>)"
    using values_run_text [of ?e' vs ghv nc] plain s(2) e by (simp add: run_engine_def blank_engine_def)
  moreover have "cached vars'" if "cached vars" "caching_handlers ghl nc"
    using lengths_run_cached [OF that(2) _ _ l] that(1) by (simp add: cached_flush)
  ultimately show ?thesis using l s that [of vars'] by (simp add: ngx_http_script_run_def Let_def)
qed

text \<open>The structure \<^verbatim>\<open>ngx_http_script_compile_t\<close> as every caller without arguments fills it in.\<close>

definition fresh_compile :: script_compile where
  "fresh_compile =
     \<lparr>sc_flushes = None, sc_lengths = None, sc_values = None, sc_variables = 0, sc_ncaptures = 0, sc_captures_mask = 0,
      sc_total = 0, sc_compile_args = False, sc_complete_lengths = True, sc_complete_values = True,
      sc_dup_capture = False, sc_args = False\<rparr>"

lemma compile_programs:
  assumes "ngx_http_script_compile pl src fresh_compile vc = Some (NGX_OK, sc, vc')"
  obtains vs where "sc_lengths sc = Some (map lcode_of vs @ [LNull])" and "sc_values sc = Some (vs @ [VNull])"
    and "set vs \<inter> {VNull, VStartArgs} = {}"
proof -
  let ?sc = "fresh_compile\<lparr>sc_lengths := Some [], sc_values := Some [], sc_variables := 0\<rparr>"
  from assms obtain sc1 where sc1: "compile_loop pl src ?sc vc = Some (NGX_OK, sc1, vc')"
    and fin: "Option.bind (if sc_complete_lengths sc1 then add_lcode pl LNull sc1 else Some sc1)
      (\<lambda>sc. if sc_complete_values sc then add_vcode pl VNull sc else Some sc) = Some sc"
    by (auto simp: ngx_http_script_compile_def fresh_compile_def Option.bind_eq_Some_conv split: if_splits)
  have "paired ?sc" by (simp add: paired_def)
  from compile_loop_paired [OF sc1 this] have "paired sc1" "\<not> sc_args sc1" "sc_complete_lengths sc1" "sc_complete_values sc1"
    by (simp_all add: fresh_compile_def same_flags_def)
  then obtain vs where "sc_values sc1 = Some vs" "sc_lengths sc1 = Some (map lcode_of vs)" "VNull \<notin> set vs" "VStartArgs \<notin> set vs"
    by (auto simp: paired_def)
  with fin that [of vs] \<open>sc_complete_lengths sc1\<close> \<open>sc_complete_values sc1\<close> show ?thesis
    by (auto simp: add_lcode_def add_vcode_def Option.bind_eq_Some_conv split: if_splits)
qed

text \<open>
  C4. Evaluating a compiled script is safe: whatever the source of a script that is compiled on its own, and even if the
  handlers of the variables answer differently in the second pass, the program for the values writes exactly the
  number of bytes that the program for the lengths computed and that was allocated. The handlers of the first pass that
  succeed mark their value as valid or not found (\<open>handlers_ok\<close>; the handler of the prefix of \<^verbatim>\<open>memcached_more\<close> does not, so a script with
  that variable is outside), and a handler changes no variable but its own.
\<close>

theorem script_run_safe:
  assumes "ngx_http_script_compile pl src fresh_compile vc = Some (NGX_OK, sc, vc')" and "handlers_ok ghl"
  shows "\<exists>text vars'. ngx_http_script_run True ghl ghv nc vars (the (sc_lengths sc)) 0 (the (sc_values sc)) =
    Some (Some (text, length text), vars')"
proof -
  obtain vs where "sc_lengths sc = Some (map lcode_of vs @ [LNull])" "sc_values sc = Some (vs @ [VNull])"
    "set vs \<inter> {VNull, VStartArgs} = {}"
    using compile_programs [OF assms(1)] .
  then show ?thesis by (metis script_run_text [OF assms(2)] option.sel)
qed

section \<open>Templates\<close>

text \<open>The texts a configuration gives: literal parts, \<^verbatim>\<open>$name\<close> and \<^verbatim>\<open>${name}\<close>.\<close>

datatype part = PText bytes | PVar bytes | PBraced bytes

fun print_part :: "part \<Rightarrow> bytes" where
  "print_part (PText s) = s"
| "print_part (PVar n) = cb (CHR ''$'') # n"
| "print_part (PBraced n) = cb (CHR ''$'') # cb (CHR ''{'') # n @ [cb (CHR ''}'')]"

definition print_template :: "part list \<Rightarrow> bytes" where
  "print_template ps = concat (map print_part ps)"

definition part_name_ok :: "bytes \<Rightarrow> bool" where
  "part_name_ok n \<longleftrightarrow> n \<noteq> [] \<and> list_all is_name_char n"

fun parts_ok :: "part list \<Rightarrow> bool" where
  "parts_ok [] = True"
| "parts_ok (PText s # ps) =
     (s \<noteq> [] \<and> cb (CHR ''$'') \<notin> set s \<and> (case ps of PText t # _ \<Rightarrow> False | _ \<Rightarrow> True) \<and> parts_ok ps)"
| "parts_ok (PVar n # ps) =
     (part_name_ok n \<and> \<not> (hd n \<ge> cb (CHR ''1'') \<and> hd n \<le> cb (CHR ''9'')) \<and>
      (case ps of PText t # _ \<Rightarrow> \<not> is_name_char (hd t) | _ \<Rightarrow> True) \<and> parts_ok ps)"
| "parts_ok (PBraced n # ps) = (part_name_ok n \<and> parts_ok ps)"

fun part_code :: "bytes list \<Rightarrow> part \<Rightarrow> vcode" where
  "part_code names (PText s) = VCopy s"
| "part_code names (PVar n) = VVar (the (name_find n names))"
| "part_code names (PBraced n) = VVar (the (name_find n names))"

fun part_known :: "bytes list \<Rightarrow> part \<Rightarrow> bool" where
  "part_known names (PText s) = True"
| "part_known names (PVar n) = (name_find n names \<noteq> None)"
| "part_known names (PBraced n) = (name_find n names \<noteq> None)"

lemma print_template_simps [simp]: "print_template [] = []" "print_template (p # ps) = print_part p @ print_template ps"
  by (simp_all add: print_template_def)

lemma name_chars:
  "\<not> is_name_char 0" "\<not> is_name_char (cb (CHR ''$''))" "\<not> is_name_char (cb (CHR ''{''))" "\<not> is_name_char (cb (CHR ''}''))"
  by (simp_all add: is_name_char_def)

lemma name_find_append: "name_find n ks = Some i \<Longrightarrow> name_find n (ks @ extra) = Some i"
  by (induction ks arbitrary: i) (auto split: if_splits)

lemma name_find_new:
  assumes "name_find n ks = None" and "0 \<notin> set n"
  shows "name_find n (ks @ [map ngx_tolower n]) = Some (length ks)"
proof -
  have "ngx_strncasecmp n (map ngx_tolower n) (length n) = 0"
    using strncasecmp_eq_0 [of n "map ngx_tolower n"] assms(2) by simp
  with assms(1) show ?thesis by (induction ks) (auto split: if_splits)
qed

lemma part_code_append: "part_known names p \<Longrightarrow> part_code (names @ extra) p = part_code names p \<and> part_known (names @ extra) p"
  by (cases p) (auto simp: name_find_append)

definition pool_ok :: "script_pool \<Rightarrow> bool" where
  "pool_ok pl \<longleftrightarrow> sp_create pl \<and> sp_index pl = (\<lambda>_. True) \<and> sp_flush pl = (\<lambda>_. True) \<and> sp_code pl = (\<lambda>_. True)"

definition open_compile :: "vcode list \<Rightarrow> script_compile \<Rightarrow> bool" where
  "open_compile vs sc \<longleftrightarrow> sc_values sc = Some vs \<and> sc_lengths sc \<noteq> None \<and> \<not> sc_compile_args sc"

lemma add_codes_open:
  "\<lbrakk>pool_ok pl; open_compile vs sc\<rbrakk> \<Longrightarrow> \<exists>sc'. add_codes pl l c sc = Some sc' \<and> open_compile (vs @ [c]) sc'"
  by (auto simp: add_codes_def add_lcode_def add_vcode_def pool_ok_def open_compile_def)

lemma open_update [simp]:
  "open_compile vs (sc\<lparr>sc_flushes := f\<rparr>) = open_compile vs sc" "open_compile vs (sc\<lparr>sc_variables := n\<rparr>) = open_compile vs sc"
  "open_compile vs (sc\<lparr>sc_total := n\<rparr>) = open_compile vs sc"
  by (simp_all add: open_compile_def)

lemma compile_variable_open:
  assumes "pool_ok pl" and "open_compile vs sc" and "part_name_ok n"
  obtains sc' vc' extra where "compile_variable pl n sc vc = Some (NGX_OK, sc', vc')"
    and "vc_indexed vc' = vc_indexed vc @ extra" and "name_find n (vc_indexed vc') \<noteq> None"
    and "open_compile (vs @ [VVar (the (name_find n (vc_indexed vc')))]) sc'"
proof -
  have n0: "0 \<notin> set n" using assms(3) name_chars(1) by (auto simp: part_name_ok_def list_all_iff)
  have "\<exists>i vc' extra. ngx_http_get_variable_index True vc n = (Some i, vc') \<and> vc_indexed vc' = vc_indexed vc @ extra \<and>
      name_find n (vc_indexed vc') = Some i"
    using name_find_new [OF _ n0, of "vc_indexed vc"]
    by (cases "name_find n (vc_indexed vc)") (simp_all add: ngx_http_get_variable_index_def)
  then obtain i vc' extra where i: "ngx_http_get_variable_index True vc n = (Some i, vc')"
    "vc_indexed vc' = vc_indexed vc @ extra" "name_find n (vc_indexed vc') = Some i" by blast
  let ?sc = "sc\<lparr>sc_variables := sc_variables sc + 1, sc_flushes := map_option (map_option (\<lambda>f. f @ [i])) (sc_flushes sc)\<rparr>"
  obtain sc' where "add_codes pl (LVar i) (VVar i) ?sc = Some sc'" "open_compile (vs @ [VVar i]) sc'"
    using add_codes_open [OF assms(1), of vs ?sc "LVar i" "VVar i"] assms(2) by auto
  with i assms(1) that [of sc' vc' extra] show ?thesis
    by (simp add: compile_variable_def pool_ok_def Let_def)
qed

lemma name_scan_plain:
  "\<lbrakk>list_all is_name_char n; r = [] \<or> \<not> is_name_char (hd r)\<rbrakk> \<Longrightarrow> name_scan False (n @ r) = (n, False, r)"
  by (induction n) (cases r, auto)

lemma name_scan_braced:
  "list_all is_name_char n \<Longrightarrow> name_scan True (n @ cb (CHR ''}'') # r) = (n, False, r)"
  using name_chars(4) by (induction n) auto

text \<open>One part of a template is one round of the compiler.\<close>

lemma print_template_start:
  "parts_ok ps \<Longrightarrow> (case ps of PText t # _ \<Rightarrow> False | _ \<Rightarrow> True) \<Longrightarrow> print_template ps = [] \<or> hd (print_template ps) = cb (CHR ''$'')"
  by (cases ps; cases "hd ps") auto

lemma print_template_after_name:
  "parts_ok ps \<Longrightarrow> (case ps of PText t # _ \<Rightarrow> \<not> is_name_char (hd t) | _ \<Rightarrow> True) \<Longrightarrow>
     print_template ps = [] \<or> \<not> is_name_char (hd (print_template ps))"
  using name_chars(2) by (cases ps; cases "hd ps") auto

lemma literal_item:
  assumes "s \<noteq> []" and "cb (CHR ''$'') \<notin> set s" and "\<not> sc_compile_args sc" and "r = [] \<or> hd r = cb (CHR ''$'')"
  shows "compile_item pl (s @ r) sc vc =
    map_option (\<lambda>sc. (NGX_OK, r, sc, vc)) (add_codes pl (LCopy (length s)) (VCopy s) (sc\<lparr>sc_total := sc_total sc + length s\<rparr>))"
proof -
  have "literal_byte sc = (\<lambda>c. c \<noteq> cb (CHR ''$''))" using assms(3) by (auto simp: literal_byte_def starts_args_def)
  moreover have "takeWhile (\<lambda>c. c \<noteq> cb (CHR ''$'')) (s @ r) = s"
    using assms(2,4) by (subst takeWhile_append2) (auto simp: takeWhile_eq_Nil_iff)
  moreover have "hd (s @ r) \<noteq> cb (CHR ''$'')" using assms(1,2) by (cases s) auto
  ultimately show ?thesis using assms(3) by (simp add: compile_item_def starts_args_def)
qed

lemma part_item:
  assumes pl: "pool_ok pl" and sc: "open_compile vs sc" and ok: "parts_ok (p # ps)"
  obtains sc' vc' extra where
    "compile_item pl (print_template (p # ps)) sc vc = Some (NGX_OK, print_template ps, sc', vc')"
    and "vc_indexed vc' = vc_indexed vc @ extra" and "part_known (vc_indexed vc') p"
    and "open_compile (vs @ [part_code (vc_indexed vc') p]) sc'"
proof (cases p)
  case (PText s)
  obtain sc' where sc': "add_codes pl (LCopy (length s)) (VCopy s) (sc\<lparr>sc_total := sc_total sc + length s\<rparr>) = Some sc'"
    "open_compile (vs @ [VCopy s]) sc'"
    using add_codes_open [OF pl, of vs "sc\<lparr>sc_total := sc_total sc + length s\<rparr>"] sc by auto
  have "compile_item pl (s @ print_template ps) sc vc = Some (NGX_OK, print_template ps, sc', vc)"
    using literal_item [of s sc "print_template ps" pl vc] print_template_start [of ps] ok PText sc sc'(1)
    by (simp add: open_compile_def)
  with sc'(2) PText that [of sc' vc "[]"] show ?thesis by simp
next
  case (PVar n)
  with ok have n: "part_name_ok n" by simp
  obtain sc' vc' extra where v: "compile_variable pl n sc vc = Some (NGX_OK, sc', vc')"
    "vc_indexed vc' = vc_indexed vc @ extra" "name_find n (vc_indexed vc') \<noteq> None"
    "open_compile (vs @ [VVar (the (name_find n (vc_indexed vc')))]) sc'"
    using compile_variable_open [OF pl sc n] .
  have "name_scan False (n @ print_template ps) = (n, False, print_template ps)"
    using name_scan_plain [of n "print_template ps"] print_template_after_name [of ps] ok PVar n by (simp add: part_name_ok_def)
  moreover have "is_name_char (hd n)" "n \<noteq> []" using n by (auto simp: part_name_ok_def list_all_iff)
  moreover have "hd n \<noteq> cb (CHR ''{'')" using name_chars(3) \<open>is_name_char (hd n)\<close> by auto
  ultimately have "compile_dollar pl (n @ print_template ps) sc vc = Some (NGX_OK, print_template ps, sc', vc')"
    using ok PVar v(1) by (auto simp: compile_dollar_def)
  with v PVar that [of sc' vc' extra] show ?thesis by (simp add: compile_item_def)
next
  case (PBraced n)
  with ok have n: "part_name_ok n" by simp
  obtain sc' vc' extra where v: "compile_variable pl n sc vc = Some (NGX_OK, sc', vc')"
    "vc_indexed vc' = vc_indexed vc @ extra" "name_find n (vc_indexed vc') \<noteq> None"
    "open_compile (vs @ [VVar (the (name_find n (vc_indexed vc')))]) sc'"
    using compile_variable_open [OF pl sc n] .
  have "name_scan True (n @ cb (CHR ''}'') # print_template ps) = (n, False, print_template ps)"
    using name_scan_braced n by (simp add: part_name_ok_def)
  then have "compile_dollar pl (cb (CHR ''{'') # n @ cb (CHR ''}'') # print_template ps) sc vc = Some (NGX_OK, print_template ps, sc', vc')"
    using v(1) n by (simp add: compile_dollar_def part_name_ok_def)
  with v PBraced that [of sc' vc' extra] show ?thesis by (simp add: compile_item_def)
qed

lemma compile_parts:
  assumes pl: "pool_ok pl"
  shows "\<lbrakk>open_compile vs sc; parts_ok ps\<rbrakk> \<Longrightarrow>
    \<exists>sc' vc' extra. compile_loop pl (print_template ps) sc vc = Some (NGX_OK, sc', vc') \<and>
      vc_indexed vc' = vc_indexed vc @ extra \<and> list_all (part_known (vc_indexed vc')) ps \<and>
      open_compile (vs @ map (part_code (vc_indexed vc')) ps) sc'"
proof (induction ps arbitrary: vs sc vc)
  case Nil
  then show ?case by (auto simp: compile_loop.simps)
next
  case (Cons p ps)
  obtain sc1 vc1 extra where 1: "compile_item pl (print_template (p # ps)) sc vc = Some (NGX_OK, print_template ps, sc1, vc1)"
    "vc_indexed vc1 = vc_indexed vc @ extra" "part_known (vc_indexed vc1) p"
    "open_compile (vs @ [part_code (vc_indexed vc1) p]) sc1"
    using part_item [OF pl Cons.prems] .
  have "parts_ok ps" using Cons.prems(2) by (cases p) auto
  from Cons.IH [OF 1(4) this, of vc1] obtain sc' vc' extra' where
    2: "compile_loop pl (print_template ps) sc1 vc1 = Some (NGX_OK, sc', vc')" "vc_indexed vc' = vc_indexed vc1 @ extra'"
    "list_all (part_known (vc_indexed vc')) ps"
    "open_compile ((vs @ [part_code (vc_indexed vc1) p]) @ map (part_code (vc_indexed vc')) ps) sc'"
    by auto
  have "print_template (p # ps) \<noteq> []" using Cons.prems(2) by (cases p) auto
  with 1(1) 2(1) have "compile_loop pl (print_template (p # ps)) sc vc = Some (NGX_OK, sc', vc')"
    by (subst compile_loop.simps) auto
  with 1(2) 2(2-4) part_code_append [OF 1(3), of extra'] show ?case by auto
qed

lemma compile_template:
  assumes "pool_ok pl" and "parts_ok ps"
  obtains sc vc' extra where "ngx_http_script_compile pl (print_template ps) fresh_compile vc = Some (NGX_OK, sc, vc')"
    and "vc_indexed vc' = vc_indexed vc @ extra" and "list_all (part_known (vc_indexed vc')) ps"
    and "sc_values sc = Some (map (part_code (vc_indexed vc')) ps @ [VNull])"
proof -
  let ?sc = "fresh_compile\<lparr>sc_lengths := Some [], sc_values := Some [], sc_variables := 0\<rparr>"
  have "open_compile [] ?sc" by (simp add: open_compile_def fresh_compile_def)
  from compile_parts [OF assms(1) this assms(2), of vc] obtain sc' vc' extra where
    l: "compile_loop pl (print_template ps) ?sc vc = Some (NGX_OK, sc', vc')" "vc_indexed vc' = vc_indexed vc @ extra"
    "list_all (part_known (vc_indexed vc')) ps" "open_compile (map (part_code (vc_indexed vc')) ps) sc'" by auto
  have "paired ?sc" by (simp add: paired_def)
  from compile_loop_paired [OF l(1) this] have "sc_complete_lengths sc'" "sc_complete_values sc'"
    by (simp_all add: same_flags_def fresh_compile_def)
  with l assms(1) that show ?thesis
    by (simp add: ngx_http_script_compile_def fresh_compile_def add_lcode_def add_vcode_def pool_ok_def open_compile_def)
qed

text \<open>The text of a part in the final state of the variables, which are found by their names.\<close>

fun part_text :: "bytes list \<Rightarrow> vvl list \<Rightarrow> part \<Rightarrow> bytes" where
  "part_text names vars (PText s) = s"
| "part_text names vars (PVar n) = var_text vars (the (name_find n names))"
| "part_text names vars (PBraced n) = var_text vars (the (name_find n names))"

lemma code_text_part: "code_text vars (part_code names p) = part_text names vars p"
  by (cases p) simp_all

text \<open>
  C11. Compiling a template and running the result gives the literal parts and the values of the named variables in order.
  A variable that had a value that may be cached keeps it; the others get the value their
  handler returns, once for the whole script.
\<close>

theorem script_expands:
  assumes "pool_ok pl" and "parts_ok ps" and "handlers_ok ghl"
  shows "\<exists>sc vc' vars'. ngx_http_script_compile pl (print_template ps) fresh_compile vc = Some (NGX_OK, sc, vc') \<and>
     prefix (vc_indexed vc) (vc_indexed vc') \<and> list_all (part_known (vc_indexed vc')) ps \<and>
     ngx_http_script_run True ghl ghv nc vars (the (sc_lengths sc)) 0 (the (sc_values sc)) =
       (let text = concat (map (part_text (vc_indexed vc') vars') ps) in Some (Some (text, length text), vars')) \<and>
     settles (map flush_value vars) vars'"
proof -
  obtain sc vc' extra where c: "ngx_http_script_compile pl (print_template ps) fresh_compile vc = Some (NGX_OK, sc, vc')"
    "vc_indexed vc' = vc_indexed vc @ extra" "list_all (part_known (vc_indexed vc')) ps"
    "sc_values sc = Some (map (part_code (vc_indexed vc')) ps @ [VNull])"
    by (rule compile_template [OF assms(1,2), of vc])
  obtain vs where vs: "sc_lengths sc = Some (map lcode_of vs @ [LNull])" "sc_values sc = Some (vs @ [VNull])"
    "set vs \<inter> {VNull, VStartArgs} = {}"
    using compile_programs [OF c(1)] .
  with c(4) have "vs = map (part_code (vc_indexed vc')) ps" by simp
  then have parts_eq: "map (code_text vars') vs = map (part_text (vc_indexed vc') vars') ps" for vars'
    by (simp add: code_text_part)
  obtain vars' where "settles (map flush_value vars) vars'"
    "ngx_http_script_run True ghl ghv nc vars (map lcode_of vs @ [LNull]) 0 (vs @ [VNull]) =
      Some (Some (concat (map (code_text vars') vs), length (concat (map (code_text vars') vs))), vars')"
    using script_run_text [OF assms(3) vs(3)] .
  then have "ngx_http_script_run True ghl ghv nc vars (the (sc_lengths sc)) 0 (the (sc_values sc)) =
      (let text = concat (map (part_text (vc_indexed vc') vars') ps) in Some (Some (text, length text), vars'))"
    unfolding parts_eq Let_def vs(1,2) by simp
  with c \<open>settles _ _\<close> show ?thesis by auto
qed

definition demo_pool :: script_pool where
  "demo_pool = \<lparr>sp_create = True, sp_index = \<lambda>_. True, sp_flush = \<lambda>_. True, sp_code = \<lambda>_. True\<rparr>"

definition demo_handler :: "nat \<Rightarrow> vvl \<Rightarrow> ngx_rc \<times> vvl" where
  "demo_handler i v = (NGX_OK, v\<lparr>vl_data := bs ''x'', vl_valid := True\<rparr>)"

lemma demo_ok: "pool_ok demo_pool" "handlers_ok demo_handler"
  by (auto simp: pool_ok_def demo_pool_def handlers_ok_def demo_handler_def)

definition demo_conf :: "unit var_conf" where
  "demo_conf = \<lparr>vc_keys = [], vc_indexed = []\<rparr>"

text \<open>A variable that has no value yet, with a longer answer in the second pass than \<open>demo_handler\<close> gives in the first.\<close>

definition demo_unset :: vvl where
  "demo_unset = \<lparr>vl_data = [], vl_valid = False, vl_no_cacheable = False, vl_not_found = False\<rparr>"

definition demo_longer :: "nat \<Rightarrow> vvl \<Rightarrow> ngx_rc \<times> vvl" where
  "demo_longer i v = (NGX_OK, v\<lparr>vl_data := bs ''longer'', vl_valid := True\<rparr>)"

theorem script_run_safe_witness:
  "\<exists>sc vc' written vars'.
     ngx_http_script_compile demo_pool (bs ''a$b'') fresh_compile demo_conf = Some (NGX_OK, sc, vc') \<and>
     ngx_http_script_run True demo_handler demo_longer (\<lambda>_. False) [demo_unset] (the (sc_lengths sc)) 0 (the (sc_values sc)) =
       Some (Some (written, length written), vars')"
proof -
  have ok: "parts_ok [PText (bs ''a''), PVar (bs ''b'')]" by (simp add: part_name_ok_def is_name_char_def)
  obtain sc vc' where c: "ngx_http_script_compile demo_pool (print_template [PText (bs ''a''), PVar (bs ''b'')]) fresh_compile demo_conf =
      Some (NGX_OK, sc, vc')"
    by (rule compile_template [OF demo_ok(1) ok, of demo_conf])
  from script_run_safe [OF c demo_ok(2), of demo_longer "\<lambda>_. False" "[demo_unset]"] c show ?thesis by auto
qed

definition demo_vars :: "vvl list" where
  "demo_vars =
     [\<lparr>vl_data = bs ''joe'', vl_valid = True, vl_no_cacheable = False, vl_not_found = False\<rparr>,
      \<lparr>vl_data = bs ''7'', vl_valid = True, vl_no_cacheable = False, vl_not_found = False\<rparr>]"

theorem script_expands_witness:
  "\<exists>sc vc'. ngx_http_script_compile demo_pool (bs ''u=${name}&v=$b'') fresh_compile (demo_conf\<lparr>vc_indexed := [bs ''name'', bs ''b'']\<rparr>) =
       Some (NGX_OK, sc, vc') \<and>
     ngx_http_script_run True demo_handler demo_handler (\<lambda>_. False) demo_vars (the (sc_lengths sc)) 0 (the (sc_values sc)) =
       Some (Some (bs ''u=joe&v=7'', 9), demo_vars)"
proof -
  let ?ps = "[PText (bs ''u=''), PBraced (bs ''name''), PText (bs ''&v=''), PVar (bs ''b'')]"
  let ?vc = "demo_conf\<lparr>vc_indexed := [bs ''name'', bs ''b'']\<rparr>"
  have ok: "parts_ok ?ps" by (simp add: part_name_ok_def is_name_char_def)
  obtain sc vc' vars' where c: "ngx_http_script_compile demo_pool (print_template ?ps) fresh_compile ?vc = Some (NGX_OK, sc, vc')"
    and p: "prefix (vc_indexed ?vc) (vc_indexed vc')"
    and r: "ngx_http_script_run True demo_handler demo_handler (\<lambda>_. False) demo_vars (the (sc_lengths sc)) 0 (the (sc_values sc)) =
       (let written = concat (map (part_text (vc_indexed vc') vars') ?ps) in Some (Some (written, length written), vars'))"
    and s: "settles (map flush_value demo_vars) vars'"
    using script_expands [OF demo_ok(1) ok demo_ok(2), of ?vc demo_handler "\<lambda>_. False" demo_vars] by blast
  have "vars' = demo_vars"
    using settles_valid [OF s] by (simp add: demo_vars_def flush_value_def)
  moreover have "name_find (bs ''name'') (vc_indexed vc') = Some 0" "name_find (bs ''b'') (vc_indexed vc') = Some 1"
    using p by (auto simp: prefix_def ngx_tolower_def intro: name_find_append)
  ultimately show ?thesis using c r
    by (intro exI [of _ sc] exI [of _ vc']) (simp add: var_text_def value_text_def demo_vars_def Let_def)
qed

end
