(* ===== verification/Hash_Util.thy ===== *)
theory Hash_Util
  imports Prelude
begin

text \<open>
  The string hash \<^verbatim>\<open>ngx_hash_key\<close> of \<^verbatim>\<open>src/core/ngx_hash.c\<close>, the chained hash table of
  \<^verbatim>\<open>src/c/ngx_util/ngx_hash_util.h\<close> and its client, the upstream lookup of
  \<^verbatim>\<open>src/c/ngx_http_usset_module\<close>.

  A bucket is the chain from the element stored in the bucket array along the \<^verbatim>\<open>next\<close> pointers; it
  is never empty, an unused bucket holding one element with the value \<^verbatim>\<open>HASH_VAL_UNSET\<close>. Values
  are pointers, machine words.
\<close>

section \<open>Keys\<close>

definition ngx_hash :: "ngx_uint \<Rightarrow> byte \<Rightarrow> ngx_uint" where
  "ngx_hash key c = key * 31 + ucast c"

definition ngx_hash_key :: "bytes \<Rightarrow> ngx_uint" where
  "ngx_hash_key data = foldl ngx_hash 0 data"

text \<open>\<^verbatim>\<open>ngx_strncmp\<close> on two strings of one length: it stops at a NUL byte.\<close>

fun strncmp_eq :: "bytes \<Rightarrow> bytes \<Rightarrow> bool" where
  "strncmp_eq (a # s) (b # t) \<longleftrightarrow> a = b \<and> (a = 0 \<or> strncmp_eq s t)"
| "strncmp_eq _ _ \<longleftrightarrow> True"

definition ngx_str_eq :: "bytes \<Rightarrow> bytes \<Rightarrow> bool" where
  "ngx_str_eq a b \<longleftrightarrow> length a = length b \<and> strncmp_eq a b"

lemma ngx_str_eq_iff: "0 \<notin> set a \<Longrightarrow> ngx_str_eq a b \<longleftrightarrow> a = b"
proof (induction a arbitrary: b)
  case (Cons x a)
  then show ?case by (cases b) (auto simp: ngx_str_eq_def)
qed (auto simp: ngx_str_eq_def)

lemma ngx_str_eq_iff': "0 \<notin> set b \<Longrightarrow> ngx_str_eq a b \<longleftrightarrow> a = b"
proof (induction b arbitrary: a)
  case (Cons x b)
  then show ?case by (cases a) (auto simp: ngx_str_eq_def)
qed (auto simp: ngx_str_eq_def)

section \<open>The table\<close>

record hash_elt =
  he_hash :: ngx_uint
  he_name :: bytes
  he_val :: ngx_uint

record hash_t =
  h_size :: nat
  h_buckets :: "hash_elt list list"

definition HASH_VAL_UNSET :: ngx_uint where "HASH_VAL_UNSET = - 1"

definition hash_create :: "(nat \<Rightarrow> bool) \<Rightarrow> nat \<Rightarrow> hash_t option" where
  "hash_create pa sz =
     (if \<not> pa 24 then None
      else if \<not> pa (40 * sz) then None
      else Some \<lparr>h_size = sz,
                 h_buckets = replicate sz [\<lparr>he_hash = 0, he_name = [], he_val = HASH_VAL_UNSET\<rparr>]\<rparr>)"

text \<open>\<^verbatim>\<open>hash_add\<close>: \<open>nx\<close> is the chain the element's own \<^verbatim>\<open>next\<close> pointer leads to when it is copied.\<close>

definition hash_add :: "hash_t \<Rightarrow> hash_elt \<Rightarrow> hash_elt list \<Rightarrow> ngx_rc \<times> hash_t" where
  "hash_add hash elt nx =
     (let i = unat (he_hash elt) mod h_size hash;
          b = h_buckets hash ! i
      in if he_val (hd b) = HASH_VAL_UNSET
         then (NGX_OK, hash\<lparr>h_buckets := (h_buckets hash)[i := elt # nx]\<rparr>)
         else (NGX_OK, hash\<lparr>h_buckets := (h_buckets hash)[i := b @ [elt]]\<rparr>))"

definition hash_padd :: "(nat \<Rightarrow> bool) \<Rightarrow> hash_t \<Rightarrow> bytes \<Rightarrow> ngx_uint \<Rightarrow> ngx_rc \<times> hash_t" where
  "hash_padd pa hash name val =
     (if \<not> pa 40 then (NGX_ERROR, hash)
      else hash_add hash \<lparr>he_hash = ngx_hash_key name, he_name = name, he_val = val\<rparr> [])"

primrec hash_chain_find :: "bytes \<Rightarrow> hash_elt list \<Rightarrow> ngx_uint" where
  "hash_chain_find name [] = HASH_VAL_UNSET"
| "hash_chain_find name (e # es) =
     (if ngx_str_eq name (he_name e) then he_val e else hash_chain_find name es)"

definition hash_find :: "hash_t \<Rightarrow> bytes \<Rightarrow> ngx_uint" where
  "hash_find hash name =
     (let b = h_buckets hash ! (unat (ngx_hash_key name) mod h_size hash) in
      if he_val (hd b) = HASH_VAL_UNSET then HASH_VAL_UNSET else hash_chain_find name b)"

section \<open>The interface: the first value added for a name is found\<close>

locale first_wins_map =
  fixes add :: "'m \<Rightarrow> 'k \<Rightarrow> 'v \<Rightarrow> 'm"
    and find :: "'m \<Rightarrow> 'k \<Rightarrow> 'v option"
    and inv :: "'m \<Rightarrow> bool"
    and key_ok :: "'k \<Rightarrow> bool"
    and val_ok :: "'v \<Rightarrow> bool"
  assumes inv_add: "inv m \<Longrightarrow> key_ok k \<Longrightarrow> val_ok v \<Longrightarrow> inv (add m k v)"
    and find_add: "inv m \<Longrightarrow> key_ok k \<Longrightarrow> val_ok v \<Longrightarrow> key_ok k' \<Longrightarrow>
      find (add m k v) k' = (if k' = k \<and> find m k = None then Some v else find m k')"
begin

definition add_all :: "'m \<Rightarrow> ('k \<times> 'v) list \<Rightarrow> 'm" where
  "add_all m kvs = foldl (\<lambda>m (k, v). add m k v) m kvs"

lemma add_all_simps [simp]: "add_all m [] = m" "add_all m ((k, v) # kvs) = add_all (add m k v) kvs"
  by (simp_all add: add_all_def)

lemma add_all_inv:
  "inv m \<Longrightarrow> list_all (\<lambda>(k, v). key_ok k \<and> val_ok v) kvs \<Longrightarrow> inv (add_all m kvs)"
  by (induction kvs arbitrary: m) (auto simp: inv_add)

lemma find_add_all:
  "inv m \<Longrightarrow> list_all (\<lambda>(k, v). key_ok k \<and> val_ok v) kvs \<Longrightarrow> key_ok k \<Longrightarrow>
   find (add_all m kvs) k = (case find m k of Some v \<Rightarrow> Some v | None \<Rightarrow> map_of kvs k)"
  by (induction kvs arbitrary: m) (auto simp: inv_add find_add split: option.split)

lemma add_keeps_found:
  "inv m \<Longrightarrow> key_ok k \<Longrightarrow> val_ok v \<Longrightarrow> key_ok k' \<Longrightarrow> find m k' = Some w \<Longrightarrow> find (add m k v) k' = Some w"
  by (auto simp: find_add)

end

section \<open>The table implements it\<close>

definition bucket_ok :: "nat \<Rightarrow> nat \<Rightarrow> hash_elt list \<Rightarrow> bool" where
  "bucket_ok sz i b \<longleftrightarrow>
     b \<noteq> [] \<and>
     (he_val (hd b) \<noteq> HASH_VAL_UNSET \<longrightarrow>
        (\<forall>e \<in> set b. he_val e \<noteq> HASH_VAL_UNSET \<and> 0 \<notin> set (he_name e) \<and>
           unat (ngx_hash_key (he_name e)) mod sz = i))"

definition hash_inv :: "hash_t \<Rightarrow> bool" where
  "hash_inv h \<longleftrightarrow>
     0 < h_size h \<and> length (h_buckets h) = h_size h \<and>
     (\<forall>i < h_size h. bucket_ok (h_size h) i (h_buckets h ! i))"

definition name_ok :: "bytes \<Rightarrow> bool" where "name_ok k \<longleftrightarrow> 0 \<notin> set k"
definition val_ok :: "ngx_uint \<Rightarrow> bool" where "val_ok v \<longleftrightarrow> v \<noteq> HASH_VAL_UNSET"

definition hash_put :: "hash_t \<Rightarrow> bytes \<Rightarrow> ngx_uint \<Rightarrow> hash_t" where
  "hash_put h k v = snd (hash_padd (\<lambda>_. True) h k v)"

definition hash_lookup :: "hash_t \<Rightarrow> bytes \<Rightarrow> ngx_uint option" where
  "hash_lookup h k = (if hash_find h k = HASH_VAL_UNSET then None else Some (hash_find h k))"

lemma chain_find_append:
  "hash_chain_find k (b @ [e]) =
     (if \<exists>x \<in> set b. ngx_str_eq k (he_name x) then hash_chain_find k b
      else if ngx_str_eq k (he_name e) then he_val e else HASH_VAL_UNSET)"
  by (induction b) auto

lemma chain_find_some:
  "\<forall>e \<in> set b. he_val e \<noteq> HASH_VAL_UNSET \<Longrightarrow>
   hash_chain_find k b \<noteq> HASH_VAL_UNSET \<longleftrightarrow> (\<exists>x \<in> set b. ngx_str_eq k (he_name x))"
  by (induction b) auto

lemma hash_put_eq:
  "hash_put h k v =
     (let i = unat (ngx_hash_key k) mod h_size h; b = h_buckets h ! i;
          e = \<lparr>he_hash = ngx_hash_key k, he_name = k, he_val = v\<rparr>
      in h\<lparr>h_buckets := (h_buckets h)[i := if he_val (hd b) = HASH_VAL_UNSET then [e] else b @ [e]]\<rparr>)"
  by (simp add: hash_put_def hash_padd_def hash_add_def Let_def)

lemma hash_put_inv:
  assumes "hash_inv h" and "name_ok k" and "val_ok v"
  shows "hash_inv (hash_put h k v)"
proof -
  let ?i = "unat (ngx_hash_key k) mod h_size h"
  have i: "?i < h_size h" using assms(1) by (simp add: hash_inv_def)
  have "bucket_ok (h_size h) j (h_buckets (hash_put h k v) ! j)" if "j < h_size h" for j
    using assms that i
    by (cases "j = ?i") (auto simp: hash_put_eq Let_def hash_inv_def bucket_ok_def name_ok_def val_ok_def)
  with assms(1) show ?thesis by (simp add: hash_inv_def hash_put_eq Let_def)
qed

lemma hash_put_lookup:
  assumes "hash_inv h" and "name_ok k" and "val_ok v" and "name_ok k'"
  shows "hash_lookup (hash_put h k v) k' =
    (if k' = k \<and> hash_lookup h k = None then Some v else hash_lookup h k')"
proof -
  let ?s = "h_size h"
  let ?i = "unat (ngx_hash_key k) mod ?s" and ?j = "unat (ngx_hash_key k') mod ?s"
  have i: "?i < ?s" "?j < ?s" "length (h_buckets h) = ?s" using assms(1) by (auto simp: hash_inv_def)
  have ok: "bucket_ok ?s ?i (h_buckets h ! ?i)" using assms(1) i(1) by (auto simp: hash_inv_def)
  note eqs = ngx_str_eq_iff [of k] ngx_str_eq_iff [of k'] ngx_str_eq_iff' [of k]
  show ?thesis
  proof (cases "?j = ?i")
    case True
    let ?b = "h_buckets h ! ?i"
    show ?thesis
    proof (cases "he_val (hd ?b) = HASH_VAL_UNSET")
      case unset: True
      then show ?thesis
        using assms(2-4) True i eqs
        by (auto simp: hash_lookup_def hash_find_def hash_put_eq Let_def name_ok_def val_ok_def)
    next
      case False
      then have b: "\<forall>e \<in> set ?b. he_val e \<noteq> HASH_VAL_UNSET" "?b \<noteq> []" using ok by (auto simp: bucket_ok_def)
      note some = chain_find_some [OF b(1)]
      show ?thesis
        using assms(2-4) True i eqs False b(2) some [of k] some [of k']
        by (auto simp: hash_lookup_def hash_find_def hash_put_eq Let_def name_ok_def val_ok_def chain_find_append)
    qed
  next
    case False
    then show ?thesis
      using i by (auto simp: hash_lookup_def hash_find_def hash_put_eq Let_def)
  qed
qed

interpretation hash_map: first_wins_map hash_put hash_lookup hash_inv name_ok val_ok
  by unfold_locales (simp_all add: hash_put_inv hash_put_lookup)

lemma hash_create_inv:
  assumes "hash_create pa sz = Some h" and "0 < sz"
  shows "hash_inv h" and "hash_lookup h k = None"
  using assms
  by (auto simp: hash_create_def hash_inv_def bucket_ok_def hash_lookup_def hash_find_def split: if_splits)

definition hash_fill :: "hash_t \<Rightarrow> (bytes \<times> ngx_uint) list \<Rightarrow> hash_t" where
  "hash_fill h kvs = foldl (\<lambda>h (k, v). snd (hash_padd (\<lambda>_. True) h k v)) h kvs"

lemma hash_fill_add_all: "hash_fill h kvs = hash_map.add_all h kvs"
  by (simp add: hash_fill_def hash_map.add_all_def hash_put_def)

text \<open>
  C27. After any sequence of \<^verbatim>\<open>hash_padd\<close> calls on a new table, \<^verbatim>\<open>hash_find\<close> returns for every name the
  first value added for it, and \<^verbatim>\<open>HASH_VAL_UNSET\<close> for a name never added (names without NUL
  bytes, values other than \<^verbatim>\<open>HASH_VAL_UNSET\<close>).
\<close>

theorem hash_table_finds:
  assumes "hash_create pa sz = Some h" and "0 < sz"
    and "list_all (\<lambda>(k, v). 0 \<notin> set k \<and> v \<noteq> HASH_VAL_UNSET) kvs" and "0 \<notin> set k"
  shows "hash_find (hash_fill h kvs) k = (case map_of kvs k of Some v \<Rightarrow> v | None \<Rightarrow> HASH_VAL_UNSET)"
proof -
  have "hash_lookup (hash_fill h kvs) k = map_of kvs k"
    using hash_map.find_add_all [OF hash_create_inv(1) [OF assms(1,2)], of kvs k]
      hash_create_inv(2) [OF assms(1,2)] assms(3,4)
    by (simp add: hash_fill_add_all name_ok_def val_ok_def)
  then show ?thesis by (cases "map_of kvs k") (auto simp: hash_lookup_def split: if_splits)
qed

theorem hash_table_finds_witness:
  "\<exists>h. hash_create (\<lambda>_. True) 32 = Some h \<and>
     hash_find (hash_fill h [(bs ''a'', 1), (bs ''A'', 2), (bs ''a'', 3)]) (bs ''a'') = 1 \<and>
     hash_find (hash_fill h [(bs ''a'', 1), (bs ''A'', 2), (bs ''a'', 3)]) (bs ''x'') = HASH_VAL_UNSET"
proof -
  obtain h where h: "hash_create (\<lambda>_. True) 32 = Some h" by (simp add: hash_create_def)
  show ?thesis
    using h hash_table_finds [OF h, of "[(bs ''a'', 1), (bs ''A'', 2), (bs ''a'', 3)]" "bs ''a''"]
      hash_table_finds [OF h, of "[(bs ''a'', 1), (bs ''A'', 2), (bs ''a'', 3)]" "bs ''x''"]
    by (simp add: HASH_VAL_UNSET_def)
qed

section \<open>Upstream servers by name\<close>

text \<open>
  The usset module: the elements of the table are allocated without clearing them, so the \<^verbatim>\<open>next\<close>
  pointer an element has when it is copied into an empty bucket is whatever the memory held:
  \<open>junk i\<close> is the chain it denotes for element \<open>i\<close>. An upstream is its host and its address.
\<close>

definition HASH_MAX_SIZE :: nat where "HASH_MAX_SIZE = 32"

record usset_conf =
  us_nus :: nat
  us_hash :: "hash_t option"

definition ngx_http_usset_get_us :: "(nat \<Rightarrow> bool) \<Rightarrow> (bytes \<times> ngx_uint) list \<Rightarrow> hash_elt list option" where
  "ngx_http_usset_get_us pa ups =
     (if \<not> pa (40 * length ups) then None
      else Some (map (\<lambda>(host, p). \<lparr>he_hash = ngx_hash_key host, he_name = host, he_val = p\<rparr>) ups))"

definition ngx_http_usset_create_us_hash ::
  "(nat \<Rightarrow> bool) \<Rightarrow> (nat \<Rightarrow> hash_elt list) \<Rightarrow> (bytes \<times> ngx_uint) list \<Rightarrow> usset_conf \<Rightarrow> ngx_rc \<times> usset_conf" where
  "ngx_http_usset_create_us_hash pa junk ups mcf =
     (case ngx_http_usset_get_us pa ups of
        None \<Rightarrow> (NGX_ERROR, mcf)
      | Some elts \<Rightarrow>
          let mcf = mcf\<lparr>us_nus := length elts\<rparr> in
          case hash_create pa HASH_MAX_SIZE of
            None \<Rightarrow> (NGX_ERROR, mcf\<lparr>us_hash := None\<rparr>)
          | Some h \<Rightarrow>
              (NGX_OK, mcf\<lparr>us_hash := Some
                 (foldl (\<lambda>h i. snd (hash_add h (elts ! i) (junk i))) h [0..<length elts])\<rparr>))"

definition ngx_http_usset_postconf ::
  "(nat \<Rightarrow> bool) \<Rightarrow> (nat \<Rightarrow> hash_elt list) \<Rightarrow> (bytes \<times> ngx_uint) list \<Rightarrow> usset_conf \<Rightarrow> ngx_rc \<times> usset_conf" where
  "ngx_http_usset_postconf pa junk ups mcf = (NGX_OK, snd (ngx_http_usset_create_us_hash pa junk ups mcf))"

primrec usset_chain_find :: "bytes \<Rightarrow> hash_elt list \<Rightarrow> ngx_uint" where
  "usset_chain_find name [] = 0"
| "usset_chain_find name (e # es) = (if ngx_str_eq (he_name e) name then he_val e else usset_chain_find name es)"

text \<open>\<open>None\<close> where the code reads through a null table pointer.\<close>

definition ngx_http_usset_find_upstream_server_byname :: "usset_conf \<Rightarrow> bytes \<Rightarrow> ngx_uint option" where
  "ngx_http_usset_find_upstream_server_byname mcf name =
     map_option (\<lambda>hash.
       let b = h_buckets hash ! (unat (ngx_hash_key name) mod h_size hash) in
       if tl b = [] then he_val (hd b) else usset_chain_find name b)
     (us_hash mcf)"

lemma usset_fold:
  assumes "\<And>i. junk i = []"
  shows "foldl (\<lambda>h i. snd (hash_add h
      (map (\<lambda>(host, p). \<lparr>he_hash = ngx_hash_key host, he_name = host, he_val = p\<rparr>) ups ! i) (junk i))) h [0..<length ups] =
    hash_fill h ups"
proof (induction ups rule: rev_induct)
  case (snoc x ups)
  have "foldl (\<lambda>h i. snd (hash_add h
      (map (\<lambda>(host, p). \<lparr>he_hash = ngx_hash_key host, he_name = host, he_val = p\<rparr>) (ups @ [x]) ! i) (junk i))) h [0..<length ups] =
    foldl (\<lambda>h i. snd (hash_add h
      (map (\<lambda>(host, p). \<lparr>he_hash = ngx_hash_key host, he_name = host, he_val = p\<rparr>) ups ! i) (junk i))) h [0..<length ups]"
    by (rule foldl_cong) (auto simp: nth_append)
  with snoc assms show ?case by (cases x) (simp add: hash_fill_def hash_padd_def nth_append)
qed (simp add: hash_fill_def)

lemma usset_chain:
  "\<forall>e \<in> set b. he_val e \<noteq> HASH_VAL_UNSET \<Longrightarrow> 0 \<notin> set name \<Longrightarrow> hash_chain_find name b \<noteq> HASH_VAL_UNSET \<Longrightarrow>
   usset_chain_find name b = hash_chain_find name b"
  by (induction b) (auto simp: ngx_str_eq_iff ngx_str_eq_iff' split: if_splits)

text \<open>
  When the element memory was zero, the lookup of the usset module finds every configured
  upstream: the address of the first upstream with the given host name.
\<close>

theorem usset_finds_upstream:
  assumes "\<And>i. junk i = []" and "\<And>n. pa n"
    and "list_all (\<lambda>(k, v). 0 \<notin> set k \<and> v \<noteq> HASH_VAL_UNSET) ups" and "map_of ups name = Some p"
  shows "ngx_http_usset_find_upstream_server_byname
    (snd (ngx_http_usset_postconf pa junk ups \<lparr>us_nus = 0, us_hash = None\<rparr>)) name = Some p"
proof -
  obtain h where h: "hash_create pa HASH_MAX_SIZE = Some h" using assms(2) by (simp add: hash_create_def)
  let ?t = "hash_fill h ups"
  have ok: "list_all (\<lambda>(k, v). name_ok k \<and> val_ok v) ups" using assms(3) by (simp add: name_ok_def val_ok_def)
  have m: "(name, p) \<in> set ups" using assms(4) by (rule map_of_SomeD)
  then have name: "0 \<notin> set name" "p \<noteq> HASH_VAL_UNSET" using assms(3) by (auto simp: list_all_iff)
  note i0 = hash_create_inv [OF h]
  have inv: "hash_inv ?t" using hash_map.add_all_inv [OF i0(1) ok] by (simp add: hash_fill_add_all HASH_MAX_SIZE_def)
  have "hash_lookup ?t name = Some p"
    using hash_map.find_add_all [OF i0(1) ok, of name] i0(2) assms(4) name
    by (simp add: hash_fill_add_all HASH_MAX_SIZE_def name_ok_def)
  then have f: "hash_find ?t name = p" by (auto simp: hash_lookup_def split: if_splits)
  let ?b = "h_buckets ?t ! (unat (ngx_hash_key name) mod h_size ?t)"
  have set: "he_val (hd ?b) \<noteq> HASH_VAL_UNSET" and cf: "hash_chain_find name ?b = p"
    using f name(2) by (auto simp: hash_find_def Let_def split: if_splits)
  have "bucket_ok (h_size ?t) (unat (ngx_hash_key name) mod h_size ?t) ?b" using inv by (auto simp: hash_inv_def)
  with set have b: "?b \<noteq> []" "\<forall>e \<in> set ?b. he_val e \<noteq> HASH_VAL_UNSET" by (auto simp: bucket_ok_def)
  have "(if tl ?b = [] then he_val (hd ?b) else usset_chain_find name ?b) = p"
    using usset_chain [OF b(2) name(1)] cf name(2) b(1) by (cases ?b) (auto split: if_splits)
  then show ?thesis
    using h assms(2) usset_fold [where junk = junk and ups = ups and h = h, OF assms(1)]
    by (simp add: ngx_http_usset_find_upstream_server_byname_def ngx_http_usset_postconf_def
        ngx_http_usset_create_us_hash_def ngx_http_usset_get_us_def Let_def)
qed

theorem usset_finds_upstream_witness:
  "ngx_http_usset_find_upstream_server_byname
     (snd (ngx_http_usset_postconf (\<lambda>_. True) (\<lambda>_. []) [(bs ''a'', 7), (bs ''A'', 8)] \<lparr>us_nus = 0, us_hash = None\<rparr>))
     (bs ''A'') = Some 8"
  using usset_finds_upstream [of "\<lambda>_. []" "\<lambda>_. True" "[(bs ''a'', 7), (bs ''A'', 8)]" "bs ''A''" 8]
  by (simp add: HASH_VAL_UNSET_def)

text \<open>
  A name that is not configured gets the address of another upstream when its bucket holds one
  element, and the address \<^verbatim>\<open>-1\<close> when its bucket is empty.
\<close>

lemma usset_unknown_name:
  "ngx_http_usset_find_upstream_server_byname
     (snd (ngx_http_usset_postconf (\<lambda>_. True) (\<lambda>_. []) [(bs ''a'', 7)] \<lparr>us_nus = 0, us_hash = None\<rparr>)) (bs ''A'') = Some 7 \<and>
   ngx_http_usset_find_upstream_server_byname
     (snd (ngx_http_usset_postconf (\<lambda>_. True) (\<lambda>_. []) [(bs ''a'', 7)] \<lparr>us_nus = 0, us_hash = None\<rparr>)) (bs ''b'') =
       Some HASH_VAL_UNSET"
  by (simp add: ngx_http_usset_find_upstream_server_byname_def ngx_http_usset_postconf_def
      ngx_http_usset_create_us_hash_def ngx_http_usset_get_us_def hash_create_def HASH_MAX_SIZE_def hash_add_def
      ngx_hash_key_def ngx_hash_def HASH_VAL_UNSET_def Let_def)

end
