(* ===== verification/Rewrite.thy ===== *)
theory Rewrite
  imports Script Hash_Util
begin

text \<open>
  The codes of the rewrite module: the part of \<^verbatim>\<open>src/http/ngx_http_script.c\<close> that works on the stack, the regular
  expression codes with their buffers, and \<^verbatim>\<open>src/http/modules/ngx_http_rewrite_module.c\<close>, which compiles the commands into
  codes and runs them for a request.

  A program is the list of its codes, and a code says how many of the codes behind it are skipped; the byte distance
  \<^verbatim>\<open>next\<close> of the source is the number of skipped codes here. The pattern matcher, the file cache, the set handlers of
  variables and the codes of other modules are arguments, collected in \<open>rw_env\<close>. Undefined behaviour (an empty or full stack, a
  write behind a buffer, a read of bytes that were never written) is \<open>None\<close>.
\<close>

section \<open>Codes and engine\<close>

datatype file_op =
    file_plain | file_not_plain | file_dir | file_not_dir | file_exists | file_not_exists | file_exec | file_not_exec

record regex_code =
  rc_regex :: nat
  rc_lengths :: "lcode list option"
  rc_const :: nat
  rc_ncaptures :: nat
  rc_status :: nat
  rc_next :: nat
  rc_test :: bool
  rc_negative_test :: bool
  rc_uri :: bool
  rc_args :: bool
  rc_add_args :: bool
  rc_redirect :: bool
  rc_break_cycle :: bool

record regex_end_code =
  re_uri :: bool
  re_args :: bool
  re_add_args :: bool
  re_redirect :: bool

datatype ('h, 'x) code =
    CNull
  | CNop
  | CCopy vcode
  | CValue bytes
  | CComplex "lcode list option"
  | CVar nat
  | CSetVar nat
  | CSetHandler 'h
  | CEqual
  | CNotEqual
  | CFile file_op
  | CIf nat "nat option"
  | CReturn ngx_rc
  | CBreak
  | CRegex regex_code
  | CRegexEnd regex_end_code
  | CExt 'x

text \<open>
  A value on the stack is a copied variable or points into a buffer, given by its number; what it says is read when it
  is used. A code that puts a text on the stack sets the length and the data of the cell only: \<open>ev_stale\<close> is what the
  cell held before, whose bits stay.
\<close>

datatype sval = SVal vvl | SBuf nat nat

record rw_request =
  rq_uri :: bytes
  rq_exten :: "bytes option"
  rq_args :: bytes
  rq_internal :: bool
  rq_valid_unparsed_uri :: bool
  rq_valid_location :: bool
  rq_uri_changed :: bool
  rq_header_only :: bool
  rq_zero_body :: bool
  rq_location :: "bytes option"
  rq_loc_conf :: "nat option"

record 'q rengine =
  rn_e :: engine
  rn_bufs :: "bytes list"
  rn_sp :: "sval list"
  rn_stack :: nat
  rn_status :: ngx_rc
  rn_req :: rw_request
  rn_ext :: 'q

datatype regex_result = RNoMatch | RFail | RMatch nat "nat list"

record file_info =
  fi_is_file :: bool
  fi_is_dir :: bool
  fi_is_link :: bool
  fi_is_exec :: bool

datatype flow = Skip nat | Exit

record ('h, 'x, 'q) rw_env =
  ev_gh :: "nat \<Rightarrow> vvl \<Rightarrow> ngx_rc \<times> vvl"
  ev_nc :: "nat \<Rightarrow> bool"
  ev_set :: "'h \<Rightarrow> vvl \<Rightarrow> vvl list \<Rightarrow> vvl list"
  ev_regex :: "nat \<Rightarrow> bytes \<Rightarrow> regex_result"
  ev_file :: "bytes \<Rightarrow> file_info option"
  ev_palloc :: "nat \<Rightarrow> bool"
  ev_list_push :: bool
  ev_stale :: "'q rengine \<Rightarrow> vvl"
  ev_ext :: "'x \<Rightarrow> 'q rengine \<Rightarrow> 'q rengine option"

section \<open>The stack\<close>

definition null_value :: vvl where
  "null_value = \<lparr>vl_data = [], vl_valid = True, vl_no_cacheable = False, vl_not_found = False\<rparr>"

definition true_value :: vvl where
  "true_value = null_value\<lparr>vl_data := bs ''1''\<rparr>"

definition push :: "sval \<Rightarrow> 'q rengine \<Rightarrow> 'q rengine option" where
  "push v e = (if length (rn_sp e) < rn_stack e then Some (e\<lparr>rn_sp := v # rn_sp e\<rparr>) else None)"

definition pop :: "'q rengine \<Rightarrow> (sval \<times> 'q rengine) option" where
  "pop e = (case rn_sp e of [] \<Rightarrow> None | v # sp \<Rightarrow> Some (v, e\<lparr>rn_sp := sp\<rparr>))"

definition buffer :: "'q rengine \<Rightarrow> nat \<Rightarrow> bytes option" where
  "buffer e n =
     (if n = length (rn_bufs e) then Some (en_pos (rn_e e))
      else if n < length (rn_bufs e) then Some (rn_bufs e ! n) else None)"

definition sval_text :: "'q rengine \<Rightarrow> sval \<Rightarrow> bytes option" where
  "sval_text e v =
     (case v of
        SVal v \<Rightarrow> Some (vl_data v)
      | SBuf n len \<Rightarrow> Option.bind (buffer e n) (\<lambda>b. if len \<le> length b then Some (take len b) else None))"

text \<open>\<^verbatim>\<open>e->buf\<close> and \<^verbatim>\<open>e->pos\<close> move to a new block; the old one stays where it is.\<close>

definition new_buffer :: "nat \<Rightarrow> 'q rengine \<Rightarrow> 'q rengine" where
  "new_buffer len e =
     e\<lparr>rn_bufs := rn_bufs e @ [en_pos (rn_e e)], rn_e := (rn_e e)\<lparr>en_pos := [], en_room := len\<rparr>\<rparr>"

definition fail500 :: "'q rengine \<Rightarrow> flow \<times> 'q rengine" where
  "fail500 e = (Exit, e\<lparr>rn_status := NGX_HTTP 500\<rparr>)"

section \<open>Values\<close>

definition copy_code :: "('h, 'x, 'q) rw_env \<Rightarrow> vcode \<Rightarrow> 'q rengine \<Rightarrow> 'q rengine option" where
  "copy_code ev c e = map_option (\<lambda>e'. e\<lparr>rn_e := e'\<rparr>) (vcode_run (ev_gh ev) (ev_nc ev) c (rn_e e))"

text \<open>The engine for the lengths, zeroed but for the fields copied, reads and caches variables of the same request.\<close>

definition length_engine :: "bool \<Rightarrow> engine \<Rightarrow> engine" where
  "length_engine quote e =
     blank_engine\<lparr>en_line := en_line e, en_captures := en_captures e, en_ncaptures := en_ncaptures e, en_quote := quote,
       en_vars := en_vars e, en_quoted_uri := en_quoted_uri e, en_plus_in_uri := en_plus_in_uri e\<rparr>"

definition run_lengths :: "('h, 'x, 'q) rw_env \<Rightarrow> lcode list option \<Rightarrow> bool \<Rightarrow> 'q rengine \<Rightarrow> (nat \<times> bool \<times> 'q rengine) option" where
  "run_lengths ev lens quote e =
     Option.bind lens (\<lambda>lens.
     map_option (\<lambda>(len, le). (len, en_is_args le, e\<lparr>rn_e := (rn_e e)\<lparr>en_vars := en_vars le\<rparr>\<rparr>))
       (lengths_run (ev_gh ev) (ev_nc ev) lens 0 (length_engine quote (rn_e e))))"

definition ngx_http_script_complex_value_code ::
    "('h, 'x, 'q) rw_env \<Rightarrow> lcode list option \<Rightarrow> 'q rengine \<Rightarrow> (flow \<times> 'q rengine) option" where
  "ngx_http_script_complex_value_code ev lens e =
     Option.bind (run_lengths ev lens (en_quote (rn_e e)) e) (\<lambda>(len, _, e).
       if \<not> ev_palloc ev len then Some (fail500 e)
       else
         let e = new_buffer len e in
         map_option (Pair (Skip 0)) (push (SBuf (length (rn_bufs e)) len) e))"

definition ngx_http_script_value_code :: "('h, 'x, 'q) rw_env \<Rightarrow> bytes \<Rightarrow> 'q rengine \<Rightarrow> 'q rengine option" where
  "ngx_http_script_value_code ev s e = push (SVal ((ev_stale ev e)\<lparr>vl_data := s\<rparr>)) e"

definition ngx_http_script_var_code :: "('h, 'x, 'q) rw_env \<Rightarrow> nat \<Rightarrow> 'q rengine \<Rightarrow> 'q rengine option" where
  "ngx_http_script_var_code ev i e =
     (case ngx_http_get_flushed_variable (ev_gh ev) (ev_nc ev) (en_vars (rn_e e)) i of
        (v, vars) \<Rightarrow>
          let e = e\<lparr>rn_e := (rn_e e)\<lparr>en_vars := vars\<rparr>\<rparr> in
          push (SVal (case v of None \<Rightarrow> null_value | Some v \<Rightarrow> if vl_not_found v then null_value else v)) e)"

definition ngx_http_script_set_var_code :: "nat \<Rightarrow> 'q rengine \<Rightarrow> 'q rengine option" where
  "ngx_http_script_set_var_code i e =
     Option.bind (pop e) (\<lambda>(v, e).
     Option.bind (sval_text e v) (\<lambda>s.
       if i < length (en_vars (rn_e e))
       then Some (e\<lparr>rn_e := (rn_e e)\<lparr>en_vars := (en_vars (rn_e e))[i := null_value\<lparr>vl_data := s\<rparr>]\<rparr>\<rparr>)
       else None))"

text \<open>The set handler gets the cell of the stack, with the bits that are there.\<close>

definition ngx_http_script_var_set_handler_code :: "('h, 'x, 'q) rw_env \<Rightarrow> 'h \<Rightarrow> 'q rengine \<Rightarrow> 'q rengine option" where
  "ngx_http_script_var_set_handler_code ev h e =
     Option.bind (pop e) (\<lambda>(v, e).
     map_option (\<lambda>s.
       let cell = (case v of SVal w \<Rightarrow> w | SBuf _ _ \<Rightarrow> (ev_stale ev e)\<lparr>vl_data := s\<rparr>) in
       e\<lparr>rn_e := (rn_e e)\<lparr>en_vars := ev_set ev h cell (en_vars (rn_e e))\<rparr>\<rparr>)
       (sval_text e v))"

definition compare_code :: "bool \<Rightarrow> 'q rengine \<Rightarrow> 'q rengine option" where
  "compare_code eq e =
     Option.bind (pop e) (\<lambda>(v, e).
     Option.bind (pop e) (\<lambda>(res, e).
     Option.bind (sval_text e v) (\<lambda>s.
     Option.bind (sval_text e res) (\<lambda>t. push (SVal (if ngx_str_eq s t = eq then true_value else null_value)) e))))"

definition ngx_http_script_equal_code :: "'q rengine \<Rightarrow> 'q rengine option" where
  "ngx_http_script_equal_code = compare_code True"

definition ngx_http_script_not_equal_code :: "'q rengine \<Rightarrow> 'q rengine option" where
  "ngx_http_script_not_equal_code = compare_code False"

definition file_true :: "file_info option \<Rightarrow> file_op \<Rightarrow> bool" where
  "file_true fi op =
     (case fi of
        None \<Rightarrow> op \<in> {file_not_plain, file_not_dir, file_not_exists, file_not_exec}
      | Some fi \<Rightarrow>
          (case op of
             file_plain \<Rightarrow> fi_is_file fi
           | file_not_plain \<Rightarrow> \<not> fi_is_file fi
           | file_dir \<Rightarrow> fi_is_dir fi
           | file_not_dir \<Rightarrow> \<not> fi_is_dir fi
           | file_exists \<Rightarrow> fi_is_file fi \<or> fi_is_dir fi \<or> fi_is_link fi
           | file_not_exists \<Rightarrow> \<not> (fi_is_file fi \<or> fi_is_dir fi \<or> fi_is_link fi)
           | file_exec \<Rightarrow> fi_is_exec fi
           | file_not_exec \<Rightarrow> \<not> fi_is_exec fi))"

text \<open>The path on the stack ends with a NUL byte that its length counts.\<close>

definition ngx_http_script_file_code :: "('h, 'x, 'q) rw_env \<Rightarrow> file_op \<Rightarrow> 'q rengine \<Rightarrow> 'q rengine option" where
  "ngx_http_script_file_code ev op e =
     Option.bind (pop e) (\<lambda>(v, e).
     Option.bind (sval_text e v) (\<lambda>s.
       push (SVal (if file_true (ev_file ev (butlast s)) op then true_value else null_value)) e))"

section \<open>Control\<close>

definition ngx_http_script_if_code :: "nat \<Rightarrow> nat option \<Rightarrow> 'q rengine \<Rightarrow> (flow \<times> 'q rengine) option" where
  "ngx_http_script_if_code skip loc_conf e =
     Option.bind (pop e) (\<lambda>(v, e).
     map_option (\<lambda>s.
       if s \<noteq> [] \<and> hd s \<noteq> cb (CHR ''0'') then
         (Skip 0, if loc_conf \<noteq> None then e\<lparr>rn_req := (rn_req e)\<lparr>rq_loc_conf := loc_conf\<rparr>\<rparr> else e)
       else (Skip skip, e)) (sval_text e v))"

definition ngx_http_script_return_code :: "ngx_rc \<Rightarrow> 'q rengine \<Rightarrow> flow \<times> 'q rengine" where
  "ngx_http_script_return_code status e =
     (Exit, if status = NGX_HTTP 204
            then e\<lparr>rn_status := status, rn_req := (rn_req e)\<lparr>rq_header_only := True, rq_zero_body := True\<rparr>\<rparr>
            else e\<lparr>rn_status := status\<rparr>)"

definition ngx_http_script_break_code :: "'q rengine \<Rightarrow> flow \<times> 'q rengine" where
  "ngx_http_script_break_code e = (Exit, e\<lparr>rn_req := (rn_req e)\<lparr>rq_uri_changed := False\<rparr>\<rparr>)"

section \<open>Regular expressions\<close>

text \<open>
  The lengths of the captures behind the first, as the loop over \<^verbatim>\<open>captures[2 * n]\<close> adds them. A group that did not
  take part in the match is a pair of equal positions.
\<close>

fun captures_length :: "nat list \<Rightarrow> nat" where
  "captures_length (a # b # caps) = (b - a) + captures_length caps"
| "captures_length _ = 0"

definition regex_size :: "regex_code \<Rightarrow> nat \<Rightarrow> 'q rengine \<Rightarrow> nat" where
  "regex_size c rc e =
     rc_const c +
     (if rc_uri c \<and> rc \<noteq> 0 \<and> (en_quoted_uri (rn_e e) \<or> en_plus_in_uri (rn_e e))
      then 2 * ngx_escape_uri_count NGX_ESCAPE_ARGS (rq_uri (rn_req e)) else 0) +
     captures_length (take (2 * rc - 2) (drop 2 (en_captures (rn_e e))))"

text \<open>What the code does to the request before it builds the new URI.\<close>

definition regex_request :: "regex_code \<Rightarrow> rw_request \<Rightarrow> rw_request" where
  "regex_request c r =
     (if rc_uri c then
        let r = r\<lparr>rq_internal := True, rq_valid_unparsed_uri := False\<rparr> in
        if rc_break_cycle c then r\<lparr>rq_valid_location := False, rq_uri_changed := False\<rparr> else r\<lparr>rq_uri_changed := True\<rparr>
      else r)"

definition regex_buffer :: "('h, 'x, 'q) rw_env \<Rightarrow> regex_code \<Rightarrow> nat \<Rightarrow> 'q rengine \<Rightarrow> (flow \<times> 'q rengine) option" where
  "regex_buffer ev c rc e =
     Option.bind
       (if rc_lengths c = None then Some (regex_size c rc e, e)
        else map_option (\<lambda>(len, is_args, e). (len, e\<lparr>rn_e := (rn_e e)\<lparr>en_is_args := is_args\<rparr>\<rparr>))
               (run_lengths ev (rc_lengths c) (rc_redirect c) e))
       (\<lambda>(len, e).
         let len = (if rc_add_args c \<and> rq_args (rn_req e) \<noteq> [] then len + length (rq_args (rn_req e)) + 1 else len) in
         if \<not> ev_palloc ev len then Some (fail500 e)
         else
           let e = e\<lparr>rn_e := (rn_e e)\<lparr>en_quote := rc_redirect c\<rparr>\<rparr> in
           Some (Skip 0, new_buffer len e))"

text \<open>The line to match: the URI, or the value on the stack.\<close>

definition regex_line :: "regex_code \<Rightarrow> 'q rengine \<Rightarrow> (bytes \<times> 'q rengine) option" where
  "regex_line c e =
     (if rc_uri c then Some (rq_uri (rn_req e), e)
      else Option.bind (pop e) (\<lambda>(v, e). map_option (\<lambda>s. (s, e)) (sval_text e v)))"

text \<open>What the code does with the answer of the matcher.\<close>

definition regex_outcome ::
    "('h, 'x, 'q) rw_env \<Rightarrow> regex_code \<Rightarrow> regex_result \<Rightarrow> 'q rengine \<Rightarrow> (flow \<times> 'q rengine) option" where
  "regex_outcome ev c res e =
     (case res of
        RNoMatch \<Rightarrow>
          let e = e\<lparr>rn_e := (rn_e e)\<lparr>en_ncaptures := 0\<rparr>\<rparr> in
          if rc_test c then
            map_option (Pair (Skip 0)) (push (SVal (if rc_negative_test c then true_value else null_value)) e)
          else Some (Skip (rc_next c), e)
      | RFail \<Rightarrow> Some (fail500 e)
      | RMatch rc caps \<Rightarrow>
          let e = e\<lparr>rn_e := (rn_e e)\<lparr>en_captures := caps, en_ncaptures := rc_ncaptures c\<rparr>\<rparr> in
          if rc_test c then
            map_option (Pair (Skip 0)) (push (SVal (if rc_negative_test c then null_value else true_value)) e)
          else
            let e = (if rc_status c \<noteq> 0 then e\<lparr>rn_status := NGX_HTTP (rc_status c)\<rparr> else e) in
            if rc_status c \<noteq> 0 \<and> \<not> rc_redirect c then Some (Exit, e)
            else regex_buffer ev c rc (e\<lparr>rn_req := regex_request c (rn_req e)\<rparr>))"

definition ngx_http_script_regex_start_code ::
    "('h, 'x, 'q) rw_env \<Rightarrow> regex_code \<Rightarrow> 'q rengine \<Rightarrow> (flow \<times> 'q rengine) option" where
  "ngx_http_script_regex_start_code ev c e =
     Option.bind (regex_line c e) (\<lambda>(line, e).
       regex_outcome ev c (ev_regex ev (rc_regex c) line) (e\<lparr>rn_e := (rn_e e)\<lparr>en_line := line\<rparr>\<rparr>))"

text \<open>\<^verbatim>\<open>ngx_http_set_exten\<close>: the extension behind the last dot, searched from the end.\<close>

fun exten_search :: "bytes \<Rightarrow> nat \<Rightarrow> bytes option" where
  "exten_search uri i =
     (if i \<le> 1 then None
      else if uri ! i = cb (CHR ''.'') \<and> uri ! (i - 1) \<noteq> cb (CHR ''/'') then Some (drop (i + 1) uri)
      else if uri ! i = cb (CHR ''/'') then None
      else exten_search uri (i - 1))"

declare exten_search.simps [simp del]

definition ngx_http_set_exten :: "rw_request \<Rightarrow> rw_request" where
  "ngx_http_set_exten r = r\<lparr>rq_exten := exten_search (rq_uri r) (length (rq_uri r) - 1)\<rparr>"

definition append_args :: "byte \<Rightarrow> bool \<Rightarrow> 'q rengine \<Rightarrow> 'q rengine option" where
  "append_args sep add e =
     (if add \<and> rq_args (rn_req e) \<noteq> []
      then map_option (\<lambda>e'. e\<lparr>rn_e := e'\<rparr>) (put_bytes (sep # rq_args (rn_req e)) (rn_e e))
      else Some e)"

definition regex_end_redirect :: "('h, 'x, 'q) rw_env \<Rightarrow> regex_end_code \<Rightarrow> 'q rengine \<Rightarrow> (flow \<times> 'q rengine) option" where
  "regex_end_redirect ev c e =
     (case ngx_unescape_uri False True (en_pos (rn_e e)) of
        (dst, src) \<Rightarrow>
          map_option (\<lambda>e.
            if \<not> ev_list_push ev then fail500 e
            else (Skip 0, e\<lparr>rn_req := (rn_req e)\<lparr>rq_location := Some (en_pos (rn_e e))\<rparr>\<rparr>))
            (append_args (if re_args c then cb (CHR ''&'') else cb (CHR ''?'')) (re_add_args c)
               (e\<lparr>rn_e := (rn_e e)\<lparr>en_pos := dst @ src\<rparr>\<rparr>)))"

definition ngx_http_script_regex_end_code ::
    "('h, 'x, 'q) rw_env \<Rightarrow> regex_end_code \<Rightarrow> 'q rengine \<Rightarrow> (flow \<times> 'q rengine) option" where
  "ngx_http_script_regex_end_code ev c e =
     (let e = e\<lparr>rn_e := (rn_e e)\<lparr>en_quote := False\<rparr>\<rparr> in
      if re_redirect c then regex_end_redirect ev c e
      else
        Option.bind
          (case en_args (rn_e e) of
             Some a \<Rightarrow>
               map_option (\<lambda>e.
                 (take a (en_pos (rn_e e)),
                  e\<lparr>rn_e := (rn_e e)\<lparr>en_args := None\<rparr>, rn_req := (rn_req e)\<lparr>rq_args := drop a (en_pos (rn_e e))\<rparr>\<rparr>))
                 (append_args (cb (CHR ''&'')) (re_add_args c) e)
           | None \<Rightarrow>
               Some (en_pos (rn_e e),
                     if \<not> re_add_args c then e\<lparr>rn_req := (rn_req e)\<lparr>rq_args := []\<rparr>\<rparr> else e))
          (\<lambda>(uri, e).
            if re_uri c then
              let e = e\<lparr>rn_req := (rn_req e)\<lparr>rq_uri := uri\<rparr>\<rparr> in
              if uri = [] then Some (fail500 e) else Some (Skip 0, e\<lparr>rn_req := ngx_http_set_exten (rn_req e)\<rparr>)
            else Some (Skip 0, e)))"

section \<open>Running a program\<close>

definition continue_with :: "'q rengine option \<Rightarrow> (flow \<times> 'q rengine) option" where
  "continue_with e = map_option (Pair (Skip 0)) e"

fun code_step :: "('h, 'x, 'q) rw_env \<Rightarrow> ('h, 'x) code \<Rightarrow> 'q rengine \<Rightarrow> (flow \<times> 'q rengine) option" where
  "code_step ev CNull e = Some (Exit, e)"
| "code_step ev CNop e = Some (Skip 0, e)"
| "code_step ev (CCopy c) e = continue_with (copy_code ev c e)"
| "code_step ev (CValue s) e = continue_with (ngx_http_script_value_code ev s e)"
| "code_step ev (CComplex lens) e = ngx_http_script_complex_value_code ev lens e"
| "code_step ev (CVar i) e = continue_with (ngx_http_script_var_code ev i e)"
| "code_step ev (CSetVar i) e = continue_with (ngx_http_script_set_var_code i e)"
| "code_step ev (CSetHandler h) e = continue_with (ngx_http_script_var_set_handler_code ev h e)"
| "code_step ev CEqual e = continue_with (ngx_http_script_equal_code e)"
| "code_step ev CNotEqual e = continue_with (ngx_http_script_not_equal_code e)"
| "code_step ev (CFile op) e = continue_with (ngx_http_script_file_code ev op e)"
| "code_step ev (CIf skip lc) e = ngx_http_script_if_code skip lc e"
| "code_step ev (CReturn status) e = Some (ngx_http_script_return_code status e)"
| "code_step ev CBreak e = Some (ngx_http_script_break_code e)"
| "code_step ev (CRegex c) e = ngx_http_script_regex_start_code ev c e"
| "code_step ev (CRegexEnd c) e = ngx_http_script_regex_end_code ev c e"
| "code_step ev (CExt x) e = continue_with (ev_ext ev x e)"

function run_codes :: "('h, 'x, 'q) rw_env \<Rightarrow> ('h, 'x) code list \<Rightarrow> 'q rengine \<Rightarrow> 'q rengine option" where
  "run_codes ev ip e =
     (case ip of
        [] \<Rightarrow> None
      | c # ip' \<Rightarrow>
          Option.bind (code_step ev c e) (\<lambda>(fl, e).
            case fl of Exit \<Rightarrow> Some e | Skip n \<Rightarrow> run_codes ev (drop n ip') e))"
  by pat_completeness auto
termination by (relation "measure (\<lambda>(ev, ip, e). length ip)") auto

declare run_codes.simps [simp del]

text \<open>
  \<^verbatim>\<open>ngx_http_rewrite_handler\<close>: \<open>ok\<close> says whether its three allocations succeed, \<open>err_status\<close> is the status of an error page
  that is being served.
\<close>

definition ngx_http_rewrite_handler ::
    "('h, 'x, 'q) rw_env \<Rightarrow> bool \<Rightarrow> ('h, 'x) code list option \<Rightarrow> nat \<Rightarrow> ngx_rc option \<Rightarrow> 'q rengine \<Rightarrow> (ngx_rc \<times> 'q rengine) option" where
  "ngx_http_rewrite_handler ev ok codes stack_size err_status e =
     (case codes of
        None \<Rightarrow> Some (NGX_DECLINED, e)
      | Some codes \<Rightarrow>
          if \<not> ok then Some (NGX_HTTP 500, e)
          else
            map_option (\<lambda>e.
              (if rn_status e = NGX_DECLINED then NGX_DECLINED
               else case err_status of None \<Rightarrow> rn_status e | Some s \<Rightarrow> s, e))
              (run_codes ev codes
                (e\<lparr>rn_sp := [], rn_stack := stack_size, rn_bufs := [], rn_status := NGX_DECLINED,
                   rn_e := (rn_e e)\<lparr>en_pos := [], en_room := 0, en_args := None, en_flushed := False, en_skip := False,
                     en_quote := True, en_is_args := False, en_captures := [], en_ncaptures := 0, en_line := []\<rparr>\<rparr>)))"

section \<open>Compiling the commands\<close>

text \<open>
  The location configuration: the codes, a null pointer before the first one, and the number of captures. A command returns
  whether it succeeded. \<open>rx pattern caseless\<close> is the compiled pattern and its number of captures, \<open>None\<close> when it does not
  compile.
\<close>

record ('h, 'x) rw_loc_conf =
  lc_codes :: "('h, 'x) code list option"
  lc_captures :: nat

definition codes_of :: "('h, 'x) rw_loc_conf \<Rightarrow> ('h, 'x) code list" where
  "codes_of lcf = (case lc_codes lcf of None \<Rightarrow> [] | Some cs \<Rightarrow> cs)"

text \<open>
  \<^verbatim>\<open>ngx_http_rewrite_var\<close>, the handler of a variable that was not set yet: with and without the warning it
  gives the empty value.
\<close>

definition ngx_http_rewrite_var :: "vvl \<Rightarrow> ngx_rc \<times> vvl" where
  "ngx_http_rewrite_var v = (NGX_OK, null_value)"

text \<open>
  \<^verbatim>\<open>ngx_http_rewrite_merge_loc_conf\<close> without the two flags for the log: the stack size of the configuration, inherited or ten, and the
  null that ends the codes. \<open>shared\<close> says whether the codes are those of the outer configuration, \<open>ok\<close> whether there is memory.
\<close>

definition ngx_http_rewrite_merge_loc_conf ::
    "bool \<Rightarrow> bool \<Rightarrow> nat option \<Rightarrow> nat option \<Rightarrow> ('h, 'x) rw_loc_conf \<Rightarrow> (('h, 'x) rw_loc_conf \<times> nat) option" where
  "ngx_http_rewrite_merge_loc_conf ok shared prev_stack_size stack_size lcf =
     (let stack = (case stack_size of Some n \<Rightarrow> n | None \<Rightarrow> (case prev_stack_size of Some n \<Rightarrow> n | None \<Rightarrow> 10)) in
      case lc_codes lcf of
        None \<Rightarrow> Some (lcf, stack)
      | Some cs \<Rightarrow>
          if shared then Some (lcf, stack)
          else if ok then Some (lcf\<lparr>lc_codes := Some (cs @ [CNull])\<rparr>, stack)
          else None)"

definition ngx_http_script_start_code :: "script_pool \<Rightarrow> ('h, 'x) code \<Rightarrow> ('h, 'x) rw_loc_conf \<Rightarrow> ('h, 'x) rw_loc_conf option" where
  "ngx_http_script_start_code pl c lcf =
     (if (lc_codes lcf = None \<longrightarrow> sp_create pl) \<and> sp_code pl (length (codes_of lcf))
      then Some (lcf\<lparr>lc_codes := Some (codes_of lcf @ [c])\<rparr>) else None)"

type_synonym ('h, 'x) command_result = "(bool \<times> ('h, 'x) rw_loc_conf \<times> 'h var_conf) option"

definition emit_code :: "script_pool \<Rightarrow> ('h, 'x) code \<Rightarrow> ('h, 'x) rw_loc_conf \<Rightarrow> 'h var_conf \<Rightarrow> ('h, 'x) command_result" where
  "emit_code pl c lcf vc =
     Some (case ngx_http_script_start_code pl c lcf of None \<Rightarrow> (False, lcf, vc) | Some lcf \<Rightarrow> (True, lcf, vc))"

text \<open>The next step of a command, when the one before succeeded.\<close>

definition then_do ::
    "('h, 'x) command_result \<Rightarrow> (('h, 'x) rw_loc_conf \<Rightarrow> 'h var_conf \<Rightarrow> ('h, 'x) command_result) \<Rightarrow> ('h, 'x) command_result" where
  "then_do r f = Option.bind r (\<lambda>(ok, lcf, vc). if ok then f lcf vc else Some (False, lcf, vc))"

definition value_compile :: "nat \<Rightarrow> script_compile" where
  "value_compile n = fresh_compile\<lparr>sc_values := Some [], sc_complete_values := False, sc_variables := n\<rparr>"

definition ngx_http_rewrite_value ::
    "script_pool \<Rightarrow> bytes \<Rightarrow> ('h, 'x) rw_loc_conf \<Rightarrow> 'h var_conf \<Rightarrow> ('h, 'x) command_result" where
  "ngx_http_rewrite_value pl src lcf vc =
     (if ngx_http_script_variables_count src = 0 then emit_code pl (CValue src) lcf vc
      else
        case ngx_http_script_start_code pl (CComplex None) lcf of
          None \<Rightarrow> Some (False, lcf, vc)
        | Some lcf' \<Rightarrow>
            map_option (\<lambda>(rc, sc, vc).
              (rc = NGX_OK,
               lcf'\<lparr>lc_codes := Some (codes_of lcf @ CComplex (sc_lengths sc) # map CCopy (the (sc_values sc)))\<rparr>, vc))
              (ngx_http_script_compile pl src (value_compile (ngx_http_script_variables_count src)) vc))"

definition ngx_http_rewrite_variable ::
    "script_pool \<Rightarrow> bytes \<Rightarrow> ('h, 'x) rw_loc_conf \<Rightarrow> 'h var_conf \<Rightarrow> ('h, 'x) command_result" where
  "ngx_http_rewrite_variable pl v lcf vc =
     (case ngx_http_get_variable_index (sp_index pl (tl v)) vc (tl v) of
        (None, vc) \<Rightarrow> Some (False, lcf, vc)
      | (Some i, vc) \<Rightarrow> emit_code pl (CVar i) lcf vc)"

definition ngx_http_rewrite_return ::
    "script_pool \<Rightarrow> bytes \<Rightarrow> ('h, 'x) rw_loc_conf \<Rightarrow> 'h var_conf \<Rightarrow> ('h, 'x) command_result" where
  "ngx_http_rewrite_return pl v lcf vc =
     then_do (emit_code pl (CReturn (NGX_HTTP (unat (ngx_atoi v)))) lcf vc)
       (\<lambda>lcf vc. Some (ngx_atoi v \<noteq> NGX_ERROR_VAL, lcf, vc))"

definition ngx_http_rewrite_break :: "script_pool \<Rightarrow> ('h, 'x) rw_loc_conf \<Rightarrow> 'h var_conf \<Rightarrow> ('h, 'x) command_result" where
  "ngx_http_rewrite_break pl lcf vc = emit_code pl CBreak lcf vc"

definition special_name :: "bytes \<Rightarrow> bool" where
  "special_name n \<longleftrightarrow>
     ngx_strncasecmp (n @ [0]) (bs ''http_'') 5 = 0 \<or> ngx_strncasecmp (n @ [0]) (bs ''sent_http_'') 10 = 0 \<or>
     ngx_strncasecmp (n @ [0]) (bs ''upstream_http_'') 14 = 0"

text \<open>The code that takes the value from the stack; \<open>i\<close> is the declared variable, \<open>index\<close> its index.\<close>

definition set_code :: "'h var_conf \<Rightarrow> nat \<Rightarrow> nat \<Rightarrow> ('h, 'x) code" where
  "set_code vc i index = (case var_set_handler (vc_keys vc ! i) of Some h \<Rightarrow> CSetHandler h | None \<Rightarrow> CSetVar index)"

definition ngx_http_rewrite_set ::
    "script_pool \<Rightarrow> bool \<Rightarrow> (nat \<Rightarrow> 'h) \<Rightarrow> bytes \<Rightarrow> bytes \<Rightarrow> ('h, 'x) rw_loc_conf \<Rightarrow> 'h var_conf \<Rightarrow> ('h, 'x) command_result" where
  "ngx_http_rewrite_set pl ok rewrite_var v1 v2 lcf vc =
     (if hd (v1 @ [0]) \<noteq> cb (CHR ''$'') then Some (False, lcf, vc)
      else
        let name = tl v1 in
        case ngx_http_add_variable ok vc name True of
          (None, vc) \<Rightarrow> Some (False, lcf, vc)
        | (Some i, vc) \<Rightarrow>
            (case ngx_http_get_variable_index (sp_index pl name) vc name of
               (None, vc) \<Rightarrow> Some (False, lcf, vc)
             | (Some index, vc) \<Rightarrow>
                 let vc = (if var_get_handler (vc_keys vc ! i) = None \<and> \<not> special_name name
                           then var_set_get_handler i (rewrite_var index) vc else vc) in
                 then_do (ngx_http_rewrite_value pl v2 lcf vc)
                   (\<lambda>lcf vc. emit_code pl (set_code vc i index) lcf vc)))"

subsection \<open>Conditions\<close>

definition blank_regex :: regex_code where
  "blank_regex =
     \<lparr>rc_regex = 0, rc_lengths = None, rc_const = 0, rc_ncaptures = 0, rc_status = 0, rc_next = 0, rc_test = False,
      rc_negative_test = False, rc_uri = False, rc_args = False, rc_add_args = False, rc_redirect = False,
      rc_break_cycle = False\<rparr>"

definition use_captures :: "nat \<Rightarrow> ('h, 'x) rw_loc_conf \<Rightarrow> ('h, 'x) rw_loc_conf" where
  "use_captures n lcf = (if lc_captures lcf < n then lcf\<lparr>lc_captures := n\<rparr> else lcf)"

definition condition_regex ::
    "script_pool \<Rightarrow> (bytes \<Rightarrow> bool \<Rightarrow> (nat \<times> nat) option) \<Rightarrow> bytes \<Rightarrow> bytes \<Rightarrow> ('h, 'x) rw_loc_conf \<Rightarrow> 'h var_conf \<Rightarrow>
     ('h, 'x) command_result" where
  "condition_regex pl rx op pattern lcf vc =
     (case rx pattern (last op = cb (CHR ''*'')) of
        None \<Rightarrow> then_do (emit_code pl (CRegex blank_regex) lcf vc) (\<lambda>lcf vc. Some (False, lcf, vc))
      | Some (re, n) \<Rightarrow>
          let caps = (if n \<noteq> 0 then (n + 1) * 3 else 0) in
          then_do
            (emit_code pl (CRegex (blank_regex\<lparr>rc_regex := re, rc_test := True,
               rc_negative_test := hd op = cb (CHR ''!''), rc_ncaptures := caps\<rparr>)) lcf vc)
            (\<lambda>lcf vc. Some (True, use_captures caps lcf, vc)))"

definition condition_operator ::
    "script_pool \<Rightarrow> (bytes \<Rightarrow> bool \<Rightarrow> (nat \<times> nat) option) \<Rightarrow> bytes \<Rightarrow> bytes \<Rightarrow> ('h, 'x) rw_loc_conf \<Rightarrow> 'h var_conf \<Rightarrow>
     ('h, 'x) command_result" where
  "condition_operator pl rx op rhs lcf vc =
     (if op = bs ''='' then then_do (ngx_http_rewrite_value pl rhs lcf vc) (emit_code pl CEqual)
      else if op = bs ''!='' then then_do (ngx_http_rewrite_value pl rhs lcf vc) (emit_code pl CNotEqual)
      else if op \<in> {bs ''~'', bs ''~*'', bs ''!~'', bs ''!~*''} then condition_regex pl rx op rhs lcf vc
      else Some (False, lcf, vc))"

definition condition_file_op :: "bytes \<Rightarrow> file_op option" where
  "condition_file_op p =
     (if p ! 1 = cb (CHR ''f'') then Some file_plain
      else if p ! 1 = cb (CHR ''d'') then Some file_dir
      else if p ! 1 = cb (CHR ''e'') then Some file_exists
      else if p ! 1 = cb (CHR ''x'') then Some file_exec
      else if p ! 0 = cb (CHR ''!'') then
        if p ! 2 = cb (CHR ''f'') then Some file_not_plain
        else if p ! 2 = cb (CHR ''d'') then Some file_not_dir
        else if p ! 2 = cb (CHR ''e'') then Some file_not_exists
        else if p ! 2 = cb (CHR ''x'') then Some file_not_exec
        else None
      else None)"

definition condition_words ::
    "script_pool \<Rightarrow> (bytes \<Rightarrow> bool \<Rightarrow> (nat \<times> nat) option) \<Rightarrow> bytes list \<Rightarrow> nat \<Rightarrow> nat \<Rightarrow> ('h, 'x) rw_loc_conf \<Rightarrow> 'h var_conf \<Rightarrow>
     ('h, 'x) command_result" where
  "condition_words pl rx value cur lst lcf vc =
     (let p = value ! cur in
      if length p > 1 \<and> p ! 0 = cb (CHR ''$'') then
        if cur \<noteq> lst \<and> cur + 2 \<noteq> lst then Some (False, lcf, vc)
        else
          then_do (ngx_http_rewrite_variable pl p lcf vc)
            (\<lambda>lcf vc. if cur = lst then Some (True, lcf, vc)
                      else condition_operator pl rx (value ! (cur + 1)) (value ! lst) lcf vc)
      else if length p = 2 \<and> p ! 0 = cb (CHR ''-'') \<or> length p = 3 \<and> p ! 0 = cb (CHR ''!'') \<and> p ! 1 = cb (CHR ''-'') then
        if cur + 1 \<noteq> lst then Some (False, lcf, vc)
        else
          then_do (ngx_http_rewrite_value pl (value ! lst @ [0]) lcf vc)
            (\<lambda>lcf vc. case condition_file_op p of
                None \<Rightarrow> then_do (emit_code pl (CFile file_plain) lcf vc) (\<lambda>lcf vc. Some (False, lcf, vc))
              | Some op \<Rightarrow> emit_code pl (CFile op) lcf vc)
      else Some (False, lcf, vc))"

text \<open>The words of the command, the first being its name; the parentheses are taken off first.\<close>

definition ngx_http_rewrite_if_condition ::
    "script_pool \<Rightarrow> (bytes \<Rightarrow> bool \<Rightarrow> (nat \<times> nat) option) \<Rightarrow> bytes list \<Rightarrow> ('h, 'x) rw_loc_conf \<Rightarrow> 'h var_conf \<Rightarrow>
     ('h, 'x) command_result" where
  "ngx_http_rewrite_if_condition pl rx value lcf vc =
     (let lst = length value - 1 in
      if length (value ! 1) < 1 \<or> hd (value ! 1) \<noteq> cb (CHR ''('') then Some (False, lcf, vc)
      else
        let (cur, value) = (if length (value ! 1) = 1 then (2, value) else (1, value[1 := tl (value ! 1)])) in
        if length (value ! lst) < 1 \<or> last (value ! lst) \<noteq> cb (CHR '')'') then Some (False, lcf, vc)
        else
          let (lst, value) = (if length (value ! lst) = 1 then (lst - 1, value) else (lst, value[lst := butlast (value ! lst)]))
          in condition_words pl rx value cur lst lcf vc)"

text \<open>
  \<^verbatim>\<open>ngx_http_rewrite_if\<close> around the commands of its block, which are compiled into the same array; \<open>loc_conf\<close> is the configuration of the
  block inside a location.
\<close>

definition ngx_http_rewrite_if ::
    "script_pool \<Rightarrow> (bytes \<Rightarrow> bool \<Rightarrow> (nat \<times> nat) option) \<Rightarrow> bytes list \<Rightarrow> nat option \<Rightarrow>
     (('h, 'x) rw_loc_conf \<Rightarrow> 'h var_conf \<Rightarrow> ('h, 'x) command_result) \<Rightarrow> ('h, 'x) rw_loc_conf \<Rightarrow> 'h var_conf \<Rightarrow>
     ('h, 'x) command_result" where
  "ngx_http_rewrite_if pl rx value loc_conf block lcf vc =
     then_do (ngx_http_rewrite_if_condition pl rx value lcf vc) (\<lambda>lcf vc.
       case ngx_http_script_start_code pl (CIf 0 loc_conf) lcf of
         None \<Rightarrow> Some (True, lcf, vc)
       | Some lcf' \<Rightarrow>
           then_do (block lcf' vc) (\<lambda>lcf'' vc.
             let k = length (codes_of lcf) in
             Some (True, lcf''\<lparr>lc_codes := Some ((codes_of lcf'')[k := CIf (length (codes_of lcf'') - k - 1) loc_conf])\<rparr>, vc)))"

subsection \<open>The command \<^verbatim>\<open>rewrite\<close>\<close>

text \<open>The flag of the command: the status, whether it redirects, whether it breaks and whether it is the last one.\<close>

definition rewrite_flag :: "bytes \<Rightarrow> (nat \<times> bool \<times> bool \<times> bool) \<Rightarrow> (nat \<times> bool \<times> bool \<times> bool) option" where
  "rewrite_flag f st =
     (case st of (status, redirect, brk, lst) \<Rightarrow>
        if f = bs ''last'' then Some (status, redirect, brk, True)
        else if f = bs ''break'' then Some (status, redirect, True, True)
        else if f = bs ''redirect'' then Some (302, True, brk, True)
        else if f = bs ''permanent'' then Some (301, True, brk, True)
        else None)"

definition rewrite_mode :: "bytes list \<Rightarrow> bytes \<Rightarrow> (nat \<times> bool \<times> bool \<times> bool) option" where
  "rewrite_mode value repl =
     (let st = (if take 7 repl = bs ''http://'' \<or> take 8 repl = bs ''https://'' then (302, True, False, True)
                else (0, False, False, False))
      in if length value = 4 then rewrite_flag (value ! 3) st else Some st)"

text \<open>The end of the command, after the replacement was compiled; \<open>k\<close> is the position of the regex code.\<close>

definition rewrite_finish ::
    "script_pool \<Rightarrow> nat \<Rightarrow> regex_code \<Rightarrow> bool \<Rightarrow> ('h, 'x) rw_loc_conf \<Rightarrow> 'h var_conf \<Rightarrow> ('h, 'x) command_result" where
  "rewrite_finish pl k c lst lcf vc =
     (let fin = CRegexEnd \<lparr>re_uri = rc_uri c, re_args = rc_args c, re_add_args = rc_add_args c, re_redirect = rc_redirect c\<rparr> #
                (if lst then [CNull] else []);
          cs = codes_of lcf @ fin
      in if \<forall>j < length fin. sp_code pl (length (codes_of lcf) + j)
         then Some (True, lcf\<lparr>lc_codes := Some (cs[k := CRegex (c\<lparr>rc_next := length cs - k - 1\<rparr>)])\<rparr>, vc)
         else None)"

text \<open>The replacement is compiled behind the regex code, which then gets what the compilation found out.\<close>

definition rewrite_compile ::
    "script_pool \<Rightarrow> nat \<Rightarrow> nat \<Rightarrow> nat \<Rightarrow> bool \<Rightarrow> bytes \<Rightarrow> nat \<times> bool \<times> bool \<times> bool \<Rightarrow> ('h, 'x) rw_loc_conf \<Rightarrow> 'h var_conf \<Rightarrow>
     ('h, 'x) command_result" where
  "rewrite_compile pl k re n add_args repl mode lcf vc =
     (case mode of (status, redirect, brk, lst) \<Rightarrow>
        Option.bind
          (ngx_http_script_compile pl repl
            ((value_compile (ngx_http_script_variables_count repl))\<lparr>sc_compile_args := \<not> redirect\<rparr>) vc)
          (\<lambda>(rc, sc, vc).
            let lcf = lcf\<lparr>lc_codes := Some (codes_of lcf @ map CCopy (the (sc_values sc)))\<rparr>;
                caps = (if n \<noteq> 0 then (n + 1) * 3 else 0);
                c = blank_regex\<lparr>rc_regex := re, rc_uri := True, rc_add_args := add_args, rc_status := status,
                      rc_redirect := redirect, rc_break_cycle := brk, rc_const := sc_total sc, rc_args := sc_args sc,
                      rc_lengths := (if sc_variables sc = 0 \<and> \<not> sc_dup_capture sc then None else sc_lengths sc),
                      rc_ncaptures := caps\<rparr>
            in if rc \<noteq> NGX_OK \<or> sc_ncaptures sc > n then Some (False, lcf, vc)
               else rewrite_finish pl k c lst (use_captures caps lcf) vc))"

definition ngx_http_rewrite ::
    "script_pool \<Rightarrow> (bytes \<Rightarrow> bool \<Rightarrow> (nat \<times> nat) option) \<Rightarrow> bytes list \<Rightarrow> ('h, 'x) rw_loc_conf \<Rightarrow> 'h var_conf \<Rightarrow>
     ('h, 'x) command_result" where
  "ngx_http_rewrite pl rx value lcf vc =
     (let k = length (codes_of lcf) in
      then_do (emit_code pl (CRegex blank_regex) lcf vc) (\<lambda>lcf vc.
        case rx (value ! 1) False of
          None \<Rightarrow> Some (False, lcf, vc)
        | Some (re, n) \<Rightarrow>
            if value ! 2 = [] then None
            else
              let add_args = (last (value ! 2) \<noteq> cb (CHR ''?''));
                  repl = (if add_args then value ! 2 else butlast (value ! 2))
              in case rewrite_mode value repl of
                   None \<Rightarrow> Some (False, lcf, vc)
                 | Some mode \<Rightarrow> rewrite_compile pl k re n add_args repl mode lcf vc))"

section \<open>Buffers that are too small\<close>

definition demo_request :: "bytes \<Rightarrow> rw_request" where
  "demo_request uri =
     \<lparr>rq_uri = uri, rq_exten = None, rq_args = [], rq_internal = False, rq_valid_unparsed_uri = True,
      rq_valid_location = True, rq_uri_changed = False, rq_header_only = False, rq_zero_body = False,
      rq_location = None, rq_loc_conf = None\<rparr>"

definition demo_rengine :: "bytes \<Rightarrow> unit rengine" where
  "demo_rengine uri =
     \<lparr>rn_e = blank_engine\<lparr>en_quoted_uri := True\<rparr>, rn_bufs = [], rn_sp = [], rn_stack = 10, rn_status = NGX_DECLINED,
      rn_req = demo_request uri, rn_ext = ()\<rparr>"

text \<open>A matcher whose groups all take in the whole line.\<close>

definition demo_env :: "unit list \<Rightarrow> (unit, unit, unit) rw_env" where
  "demo_env groups =
     \<lparr>ev_gh = demo_handler, ev_nc = \<lambda>_. False, ev_set = \<lambda>_ _ vars. vars,
      ev_regex = \<lambda>_ s. RMatch (length groups + 1) (concat (map (\<lambda>_. [0, length s]) (() # groups))), ev_file = \<lambda>_. None,
      ev_palloc = \<lambda>_. True, ev_list_push = True, ev_stale = \<lambda>_. null_value, ev_ext = \<lambda>_ e. Some e\<rparr>"

definition demo_lcf :: "(unit, unit) rw_loc_conf" where
  "demo_lcf = \<lparr>lc_codes = None, lc_captures = 0\<rparr>"

definition demo_rewrite :: "nat \<Rightarrow> string \<Rightarrow> (unit, unit) code list" where
  "demo_rewrite n repl =
     (case ngx_http_rewrite demo_pool (\<lambda>_ _. Some (0, n)) [bs ''rewrite'', [], bs repl] demo_lcf demo_conf of
        Some (True, lcf, _) \<Rightarrow> codes_of lcf @ [CNull] | _ \<Rightarrow> [])"

lemmas compile_eval = ngx_http_rewrite_def rewrite_compile_def then_do_def emit_code_def ngx_http_script_start_code_def codes_of_def
  demo_pool_def demo_lcf_def demo_conf_def rewrite_mode_def value_compile_def fresh_compile_def ngx_http_script_compile_def
  ngx_http_script_variables_count_def compile_loop.simps compile_item_def compile_dollar_def compile_capture_def
  starts_args_def literal_byte_def add_codes_def add_lcode_def add_vcode_def codes_count_def rewrite_finish_def
  use_captures_def blank_regex_def demo_rewrite_def

lemmas rewrite_eval = ngx_http_rewrite_handler_def run_codes.simps continue_with_def copy_code_def
  ngx_http_script_regex_start_code_def regex_line_def regex_outcome_def regex_buffer_def regex_size_def run_lengths_def length_engine_def blank_engine_def
  escapes_def capture_text_def put_bytes_def new_buffer_def regex_request_def demo_env_def demo_rengine_def demo_request_def
  must_escape_def escape_args_tab_def

text \<open>
  A capture before the question mark is escaped when it is written, because \<^verbatim>\<open>e->is_args\<close> is already set, but not when its length
  is computed: \<^verbatim>\<open>rewrite ^(.*)$ $1?$1\<close> with a quoted URI writes behind the buffer.
\<close>

lemma demo_rewrite_args:
  "demo_rewrite 1 ''$1?$1'' =
     [CRegex (blank_regex\<lparr>rc_uri := True, rc_add_args := True, rc_args := True, rc_ncaptures := 6, rc_next := 4,
        rc_lengths := Some [LCapture 2, LMarkArgs, LCapture 2, LNull]\<rparr>),
      CCopy (VCapture 2), CCopy VStartArgs, CCopy (VCapture 2),
      CRegexEnd \<lparr>re_uri = True, re_args = True, re_add_args = True, re_redirect = False\<rparr>, CNull]"
  by (simp add: compile_eval)

lemma rewrite_args_overflow:
  "ngx_http_rewrite_handler (demo_env [()]) True (Some (demo_rewrite 1 ''$1?$1'')) 10 None (demo_rengine (bs '' '')) = None"
  unfolding demo_rewrite_args by (simp add: rewrite_eval blank_regex_def)

text \<open>
  Without a second capture the length is guessed: the captures once, and three bytes for every byte of the URI that is escaped. Nested
  captures count it twice: \<^verbatim>\<open>rewrite ^((.*))$ http://h/$1$2\<close> writes behind the buffer as well.
\<close>

lemma demo_rewrite_nested:
  "demo_rewrite 2 ''http://h/$1$2'' =
     [CRegex (blank_regex\<lparr>rc_uri := True, rc_add_args := True, rc_ncaptures := 9, rc_next := 5, rc_const := 9, rc_status := 302,
        rc_redirect := True\<rparr>),
      CCopy (VCopy (bs ''http://h/'')), CCopy (VCapture 2), CCopy (VCapture 4),
      CRegexEnd \<lparr>re_uri = True, re_args = False, re_add_args = True, re_redirect = True\<rparr>, CNull, CNull]"
  by (simp add: compile_eval)

lemma rewrite_nested_overflow:
  "ngx_http_rewrite_handler (demo_env [(), ()]) True (Some (demo_rewrite 2 ''http://h/$1$2'')) 10 None (demo_rengine (bs '' '')) = None"
  unfolding demo_rewrite_nested by (simp add: rewrite_eval blank_regex_def)

section \<open>Commands and their execution\<close>

lemma run_codes_Cons:
  "code_step ev c e = Some (Skip 0, e') \<Longrightarrow> run_codes ev (c # ip) e = run_codes ev ip e'"
  by (subst run_codes.simps) simp

text \<open>What the environment has to grant, and the part of the engine a value leaves alone.\<close>

definition env_ok :: "('h, 'x, 'q) rw_env \<Rightarrow> bool" where
  "env_ok ev \<longleftrightarrow> handlers_ok (ev_gh ev) \<and> caching_handlers (ev_gh ev) (ev_nc ev) \<and> (\<forall>n. ev_palloc ev n)"

definition rengine_ok :: "nat \<Rightarrow> 'q rengine \<Rightarrow> bool" where
  "rengine_ok n e \<longleftrightarrow>
     \<not> en_flushed (rn_e e) \<and> \<not> en_skip (rn_e e) \<and> cached (en_vars (rn_e e)) \<and> length (en_vars (rn_e e)) = n"

definition same_rest :: "'q rengine \<Rightarrow> 'q rengine \<Rightarrow> bool" where
  "same_rest e e' \<longleftrightarrow> rn_stack e' = rn_stack e \<and> rn_status e' = rn_status e \<and> rn_req e' = rn_req e \<and> rn_ext e' = rn_ext e"

lemma copies_exec:
  "\<lbrakk>rengine_ok n e; codes_in_range n vs; list_all (plain_code (en_ncaptures (rn_e e))) vs; codes_settled (en_vars (rn_e e)) vs;
    length (en_pos (rn_e e)) + length (concat (map (code_text (en_vars (rn_e e))) vs)) \<le> en_room (rn_e e)\<rbrakk> \<Longrightarrow>
   run_codes ev (map CCopy vs @ rest) e =
     run_codes ev rest (e\<lparr>rn_e := (rn_e e)\<lparr>en_pos := en_pos (rn_e e) @ concat (map (code_text (en_vars (rn_e e))) vs)\<rparr>\<rparr>)"
proof (induction vs arbitrary: e)
  case (Cons c vs)
  let ?e = "(rn_e e)\<lparr>en_flushed := True\<rparr>"
  have "vcode_run (ev_gh ev) (ev_nc ev) c ?e = Some (?e\<lparr>en_pos := en_pos ?e @ code_text (en_vars ?e) c\<rparr>)"
    using Cons.prems by (intro vcode_run_text) (auto simp: run_engine_def rengine_ok_def codes_settled_def)
  moreover have "codes_in_range (length (en_vars (rn_e e))) [c]" "cached (en_vars (rn_e e))" "\<not> en_flushed (rn_e e)"
    using Cons.prems(1,2) by (auto simp: codes_in_range_def rengine_ok_def)
  ultimately have "vcode_run (ev_gh ev) (ev_nc ev) c (rn_e e) =
      Some ((rn_e e)\<lparr>en_pos := en_pos (rn_e e) @ code_text (en_vars (rn_e e)) c\<rparr>)"
    using vcode_run_flushed [of "rn_e e" c "ev_gh ev" "ev_nc ev"] by simp
  then have "run_codes ev (map CCopy (c # vs) @ rest) e =
      run_codes ev (map CCopy vs @ rest) (e\<lparr>rn_e := (rn_e e)\<lparr>en_pos := en_pos (rn_e e) @ code_text (en_vars (rn_e e)) c\<rparr>\<rparr>)"
    by (simp add: run_codes_Cons continue_with_def copy_code_def)
  with Cons.IH [of "e\<lparr>rn_e := (rn_e e)\<lparr>en_pos := en_pos (rn_e e) @ code_text (en_vars (rn_e e)) c\<rparr>\<rparr>"] Cons.prems
  show ?case by (simp add: rengine_ok_def codes_in_range_def codes_settled_def)
qed simp

lemma complex_exec:
  assumes ev: "env_ok ev" and e: "rengine_ok n e" "length (rn_sp e) < rn_stack e"
    and vs: "codes_in_range n vs" "list_all (plain_code 1) vs"
  obtains vars' e' where "settles (en_vars (rn_e e)) vars'" and "rengine_ok n e'" and "same_rest e e'"
    and "rn_sp e' = SBuf (length (rn_bufs e')) (length (concat (map (code_text vars') vs))) # rn_sp e"
    and "en_pos (rn_e e') = concat (map (code_text vars') vs)" and "en_vars (rn_e e') = vars'"
    and "\<And>rest. run_codes ev (CComplex (Some (map lcode_of vs @ [LNull])) # map CCopy vs @ rest) e = run_codes ev rest e'"
proof -
  let ?le = "length_engine (en_quote (rn_e e)) (rn_e e)"
  have plain: "list_all (plain_code m) vs" for m
    using vs(2) unfolding list_all_iff by (metis plain_code.simps(1,2,3,4,5) vcode.exhaust zero_neq_one)
  have nn: "VNull \<notin> set vs" using vs(2) by (auto simp: list_all_iff)
  have le: "\<not> en_flushed ?le" "en_vars ?le = en_vars (rn_e e)" by (simp_all add: length_engine_def blank_engine_def)
  have "run_engine (?le\<lparr>en_flushed := True\<rparr>)" by (simp add: run_engine_def length_engine_def blank_engine_def)
  from lengths_run_text [of "ev_gh ev", OF _ this plain, of "ev_nc ev" 0] ev obtain vars' where
    run: "lengths_run (ev_gh ev) (ev_nc ev) (map lcode_of vs @ [LNull]) 0 (?le\<lparr>en_flushed := True\<rparr>) =
      Some (length (concat (map (code_text vars') vs)), ?le\<lparr>en_flushed := True, en_vars := vars'\<rparr>)"
    and s: "settles (en_vars (rn_e e)) vars'" "codes_settled vars' vs"
    by (auto simp: env_ok_def le(2))
  have vars': "cached vars'" "length vars' = n"
    using lengths_run_cached [OF _ _ _ run] ev e(1) le(2) by (simp_all add: env_ok_def rengine_ok_def)
  define len where "len = length (concat (map (code_text vars') vs))"
  have lens: "lengths_run (ev_gh ev) (ev_nc ev) (map lcode_of vs @ [LNull]) 0 ?le = Some (len, ?le\<lparr>en_vars := vars'\<rparr>)"
    using lengths_run_flushed [of "ev_gh ev" "ev_nc ev" ?le vs 0] ev e(1) vs(1) nn le run
    by (simp add: env_ok_def rengine_ok_def len_def)
  let ?e1 = "(new_buffer len (e\<lparr>rn_e := (rn_e e)\<lparr>en_vars := vars'\<rparr>\<rparr>))"
  let ?e2 = "?e1\<lparr>rn_sp := SBuf (length (rn_bufs ?e1)) len # rn_sp e\<rparr>"
  have step: "code_step ev (CComplex (Some (map lcode_of vs @ [LNull]))) e = Some (Skip 0, ?e2)"
    using lens ev e(2)
    by (simp add: ngx_http_script_complex_value_code_def run_lengths_def env_ok_def push_def new_buffer_def Let_def)
  have ok2: "rengine_ok n ?e2" using e(1) vars' by (simp add: rengine_ok_def new_buffer_def)
  have "run_codes ev (map CCopy vs @ rest) ?e2 =
      run_codes ev rest (?e2\<lparr>rn_e := (rn_e ?e2)\<lparr>en_pos := concat (map (code_text vars') vs)\<rparr>\<rparr>)" for rest
    using copies_exec [OF ok2 vs(1), of ev rest] plain s(2) by (simp add: new_buffer_def len_def)
  then show ?thesis
    using that [of vars' "?e2\<lparr>rn_e := (rn_e ?e2)\<lparr>en_pos := concat (map (code_text vars') vs)\<rparr>\<rparr>"] s(1) ok2 step
    by (simp add: run_codes_Cons same_rest_def new_buffer_def len_def rengine_ok_def)
qed

section \<open>The command \<^verbatim>\<open>set\<close>\<close>

text \<open>Compiling a value declares no variable; it only gives indices.\<close>

lemma compile_item_keys:
  "compile_item pl src sc vc = Some (rc, r, sc', vc') \<Longrightarrow> vc_keys vc' = vc_keys vc"
  by (auto simp: compile_item_def compile_dollar_def compile_variable_def ngx_http_get_variable_index_def Let_def
      split: if_splits prod.splits option.splits)

lemma compile_loop_keys:
  "compile_loop pl src sc vc = Some (rc, sc', vc') \<Longrightarrow> vc_keys vc' = vc_keys vc"
proof (induction pl src sc vc rule: compile_loop.induct)
  case (1 pl src sc vc)
  show ?case
  proof (cases "src = []")
    case False
    with 1(2) obtain rc1 r sc1 vc1 where item: "compile_item pl src sc vc = Some (rc1, r, sc1, vc1)"
      and next1: "rc1 \<noteq> NGX_OK \<and> vc1 = vc' \<or> rc1 = NGX_OK \<and> compile_loop pl r sc1 vc1 = Some (rc, sc', vc')"
      by (subst (asm) compile_loop.simps) (auto simp: Option.bind_eq_Some_conv split: if_splits)
    from compile_item_keys [OF item] next1 False 1(1) item show ?thesis by fastforce
  qed (use 1 in \<open>auto simp: compile_loop.simps\<close>)
qed

lemma compile_value:
  assumes "pool_ok pl" and "parts_ok ps"
  obtains sc vc' extra where "ngx_http_script_compile pl (print_template ps) (value_compile n) vc = Some (NGX_OK, sc, vc')"
    and "vc_indexed vc' = vc_indexed vc @ extra" and "vc_keys vc' = vc_keys vc" and "list_all (part_known (vc_indexed vc')) ps"
    and "sc_values sc = Some (map (part_code (vc_indexed vc')) ps)"
    and "sc_lengths sc = Some (map lcode_of (map (part_code (vc_indexed vc')) ps) @ [LNull])"
proof -
  let ?sc = "(value_compile n)\<lparr>sc_lengths := Some [], sc_variables := 0\<rparr>"
  have "open_compile [] ?sc" by (simp add: open_compile_def value_compile_def fresh_compile_def)
  from compile_parts [OF assms(1) this assms(2), of vc] obtain sc' vc' extra where
    l: "compile_loop pl (print_template ps) ?sc vc = Some (NGX_OK, sc', vc')" "vc_indexed vc' = vc_indexed vc @ extra"
    "list_all (part_known (vc_indexed vc')) ps" "open_compile (map (part_code (vc_indexed vc')) ps) sc'" by auto
  have "paired ?sc" by (simp add: paired_def value_compile_def)
  from compile_loop_paired [OF l(1) this] have "paired sc'" "sc_complete_lengths sc'" "\<not> sc_complete_values sc'"
    by (simp_all add: same_flags_def value_compile_def fresh_compile_def)
  with l compile_loop_keys [OF l(1)] assms(1) that show ?thesis
    by (auto simp: ngx_http_script_compile_def value_compile_def fresh_compile_def add_lcode_def pool_ok_def open_compile_def
        paired_def)
qed

lemma literal_template:
  "\<lbrakk>ngx_http_script_variables_count (print_template ps) = 0; parts_ok ps\<rbrakk> \<Longrightarrow>
     concat (map (part_text names vars) ps) = print_template ps"
  by (induction ps rule: parts_ok.induct) (auto simp: ngx_http_script_variables_count_def)

lemma part_codes_ok:
  assumes "parts_ok ps" and "list_all (part_known names) ps" and "length names \<le> n"
  shows "codes_in_range n (map (part_code names) ps)" and "list_all (plain_code 1) (map (part_code names) ps)"
proof -
  have "i < n" if p: "p \<in> set ps" "part_code names p = VVar i" for p i
  proof -
    have "part_known names p" using p(1) assms(2) by (simp add: list_all_iff)
    then have "\<exists>m. name_find m names = Some i \<and> (p = PVar m \<or> p = PBraced m)"
      using p(2) by (cases p) auto
    then obtain m where m: "name_find m names = Some i" "p = PVar m \<or> p = PBraced m" by blast
    have "part_name_ok m" using assms(1) p(1) m(2)
      by (induction ps rule: parts_ok.induct) auto
    then have "0 \<notin> set m" using name_chars(1) by (auto simp: part_name_ok_def list_all_iff)
    from name_find_Some [OF m(1) this] assms(3) show ?thesis by simp
  qed
  then show "codes_in_range n (map (part_code names) ps)" by (auto simp: codes_in_range_def dest: sym)
  show "list_all (plain_code 1) (map (part_code names) ps)"
    by (induction ps) (auto split: part.split, metis part_code.elims plain_code.simps(1,2))
qed

text \<open>What a segment of codes does to the engine it leaves off with, for every program behind it.\<close>

lemma value_exec:
  assumes pl: "pool_ok pl" and ps: "parts_ok ps"
  obtains lcf' vc' seg extra where "ngx_http_rewrite_value pl (print_template ps) lcf vc = Some (True, lcf', vc')"
    and "codes_of lcf' = codes_of lcf @ seg" and "vc_indexed vc' = vc_indexed vc @ extra" and "vc_keys vc' = vc_keys vc"
    and "\<And>(ev :: ('h, 'x, 'q) rw_env) n (e :: 'q rengine). \<lbrakk>env_ok ev; rengine_ok n e; length (vc_indexed vc') \<le> n; length (rn_sp e) < rn_stack e\<rbrakk> \<Longrightarrow>
      \<exists>vars' e' v. settles (en_vars (rn_e e)) vars' \<and> en_vars (rn_e e') = vars' \<and> rengine_ok n e' \<and> same_rest e e' \<and>
        rn_sp e' = v # rn_sp e \<and> sval_text e' v = Some (concat (map (part_text (vc_indexed vc') vars') ps)) \<and>
        (\<forall>rest. run_codes ev (seg @ rest) e = run_codes ev rest e')"
proof (cases "ngx_http_script_variables_count (print_template ps) = 0")
  case True
  let ?c = "CValue (print_template ps)" and ?v = "\<lambda>ev e. SVal ((ev_stale ev e)\<lparr>vl_data := print_template ps\<rparr>)"
  have step: "code_step ev ?c e = Some (Skip 0, e\<lparr>rn_sp := ?v ev e # rn_sp e\<rparr>)" if "length (rn_sp e) < rn_stack e" for ev :: "('h, 'x, 'q) rw_env" and e :: "'q rengine"
    using that by (simp add: continue_with_def ngx_http_script_value_code_def push_def)
  have "\<exists>vars' e' v. settles (en_vars (rn_e e)) vars' \<and> en_vars (rn_e e') = vars' \<and> rengine_ok n e' \<and> same_rest e e' \<and>
        rn_sp e' = v # rn_sp e \<and> sval_text e' v = Some (concat (map (part_text (vc_indexed vc) vars') ps)) \<and>
        (\<forall>rest. run_codes ev ([?c] @ rest) e = run_codes ev rest e')"
    if "rengine_ok n e" "length (rn_sp e) < rn_stack e" for ev :: "('h, 'x, 'q) rw_env" and n and e :: "'q rengine"
    using that run_codes_Cons [OF step [OF that(2), of ev]] literal_template [OF True ps]
    by (intro exI [of _ "en_vars (rn_e e)"] exI [of _ "e\<lparr>rn_sp := ?v ev e # rn_sp e\<rparr>"] exI [of _ "?v ev e"])
      (simp add: rengine_ok_def same_rest_def sval_text_def)
  with True pl that [of "lcf\<lparr>lc_codes := Some (codes_of lcf @ [?c])\<rparr>" vc "[?c]" "[]"] show ?thesis
    by (simp add: ngx_http_rewrite_value_def emit_code_def ngx_http_script_start_code_def pool_ok_def codes_of_def)
next
  case False
  obtain sc vc' extra where
    c: "ngx_http_script_compile pl (print_template ps) (value_compile (ngx_http_script_variables_count (print_template ps))) vc =
        Some (NGX_OK, sc, vc')"
      "vc_indexed vc' = vc_indexed vc @ extra" "vc_keys vc' = vc_keys vc" "list_all (part_known (vc_indexed vc')) ps"
      "sc_values sc = Some (map (part_code (vc_indexed vc')) ps)"
      "sc_lengths sc = Some (map lcode_of (map (part_code (vc_indexed vc')) ps) @ [LNull])"
    by (rule compile_value [OF pl ps, of "ngx_http_script_variables_count (print_template ps)" vc])
  let ?vs = "map (part_code (vc_indexed vc')) ps"
  let ?seg = "CComplex (Some (map lcode_of ?vs @ [LNull])) # map CCopy ?vs"
  have "\<exists>vars' e' v. settles (en_vars (rn_e e)) vars' \<and> en_vars (rn_e e') = vars' \<and> rengine_ok n e' \<and> same_rest e e' \<and>
        rn_sp e' = v # rn_sp e \<and> sval_text e' v = Some (concat (map (part_text (vc_indexed vc') vars') ps)) \<and>
        (\<forall>rest. run_codes ev (?seg @ rest) e = run_codes ev rest e')"
    if e: "env_ok ev" "rengine_ok n e" "length (vc_indexed vc') \<le> n" "length (rn_sp e) < rn_stack e"
    for ev :: "('h, 'x, 'q) rw_env" and n and e :: "'q rengine"
  proof -
    obtain vars' e' where x: "settles (en_vars (rn_e e)) vars'" "rengine_ok n e'" "same_rest e e'"
      "rn_sp e' = SBuf (length (rn_bufs e')) (length (concat (map (code_text vars') ?vs))) # rn_sp e"
      "en_pos (rn_e e') = concat (map (code_text vars') ?vs)" "en_vars (rn_e e') = vars'"
      "\<And>rest. run_codes ev (CComplex (Some (map lcode_of ?vs @ [LNull])) # map CCopy ?vs @ rest) e = run_codes ev rest e'"
      by (rule complex_exec [OF e(1,2,4) part_codes_ok [OF ps c(4) e(3)]]) blast
    have "concat (map (code_text vars') ?vs) = concat (map (part_text (vc_indexed vc') vars') ps)"
      by (simp add: code_text_part comp_def)
    with x show ?thesis
      by (intro exI [of _ vars'] exI [of _ e'] exI [of _ "SBuf (length (rn_bufs e')) (length (concat (map (code_text vars') ?vs)))"])
        (simp add: sval_text_def buffer_def)
  qed
  with c False pl that [of "lcf\<lparr>lc_codes := Some (codes_of lcf @ ?seg)\<rparr>" vc' ?seg extra] show ?thesis
    by (simp add: ngx_http_rewrite_value_def ngx_http_script_start_code_def pool_ok_def codes_of_def)
qed

lemma set_var_exec:
  assumes "rn_sp e = v # sp" and "sval_text e v = Some s" and "rengine_ok n e" and "i < n"
  shows "code_step ev (CSetVar i) e =
    Some (Skip 0, e\<lparr>rn_sp := sp, rn_e := (rn_e e)\<lparr>en_vars := (en_vars (rn_e e))[i := null_value\<lparr>vl_data := s\<rparr>]\<rparr>\<rparr>)"
proof -
  have "sval_text (e\<lparr>rn_sp := sp\<rparr>) v = sval_text e v" by (simp add: sval_text_def buffer_def split: sval.split)
  with assms show ?thesis by (simp add: continue_with_def ngx_http_script_set_var_code_def pop_def rengine_ok_def)
qed

text \<open>
  C12. The command \<^verbatim>\<open>set $name template\<close>, for a template of literal parts and variables (no captures) and a variable that can be changed
  and has no set handler, compiles into codes that leave the stack as it was and give the variable the text of the template: its
  literal parts and the values of the variables it names, each handler called at most once. No other variable that had a value changes,
  nor do the status and the request. The engine they run in has room for one value on its stack, every variable of it can be cached,
  get handlers that succeed mark their value as valid or not found, and every allocation succeeds (\<open>env_ok\<close>, \<open>rengine_ok\<close>).
\<close>

theorem rewrite_set_assigns:
  assumes "pool_ok pl" and "part_name_ok name" and "parts_ok ps"
    and "\<forall>i. name_find name (map var_name (vc_keys vc)) = Some i \<longrightarrow>
      var_changeable (vc_keys vc ! i) \<and> var_set_handler (vc_keys vc ! i) = None"
  shows "\<exists>lcf' vc' seg index.
    ngx_http_rewrite_set pl True rewrite_var (cb (CHR ''$'') # name) (print_template ps) lcf vc = Some (True, lcf', vc') \<and>
    codes_of lcf' = codes_of lcf @ seg \<and> name_find name (vc_indexed vc') = Some index \<and>
    (\<forall>(ev :: ('h, 'x, 'q) rw_env) n (e :: 'q rengine). env_ok ev \<and> rengine_ok n e \<and> length (vc_indexed vc') \<le> n \<and> length (rn_sp e) < rn_stack e \<longrightarrow>
      (\<exists>vars' e'. settles (en_vars (rn_e e)) vars' \<and>
        en_vars (rn_e e') = vars'[index := null_value\<lparr>vl_data := concat (map (part_text (vc_indexed vc') vars') ps)\<rparr>] \<and>
        rengine_ok n e' \<and> same_rest e e' \<and> rn_sp e' = rn_sp e \<and>
        (\<forall>rest. run_codes ev (seg @ rest) e = run_codes ev rest e')))"
proof -
  have n0: "0 \<notin> set name" using assms(2) name_chars(1) by (auto simp: part_name_ok_def list_all_iff)
  obtain i vc1 where i: "ngx_http_add_variable True vc name True = (Some i, vc1)" "i < length (vc_keys vc1)"
    "var_set_handler (vc_keys vc1 ! i) = None" "vc_indexed vc1 = vc_indexed vc"
    using assms(4) name_find_Some [OF _ n0, of "map var_name (vc_keys vc)"]
    by (cases "name_find name (map var_name (vc_keys vc))") (auto simp: ngx_http_add_variable_def)
  obtain index vc2 where index: "ngx_http_get_variable_index True vc1 name = (Some index, vc2)"
    "name_find name (vc_indexed vc2) = Some index" "vc_keys vc2 = vc_keys vc1"
    using name_find_new [OF _ n0, of "vc_indexed vc1"]
    by (cases "name_find name (vc_indexed vc1)") (auto simp: ngx_http_get_variable_index_def)
  define vc3 where "vc3 = (if var_get_handler (vc_keys vc2 ! i) = None \<and> \<not> special_name name
    then var_set_get_handler i (rewrite_var index) vc2 else vc2)"
  have vc3: "vc_indexed vc3 = vc_indexed vc2" "var_set_handler (vc_keys vc3 ! i) = None"
    using i(2,3) index(3) by (simp_all add: vc3_def var_set_get_handler_def)
  obtain lcf1 vc' seg extra where v: "ngx_http_rewrite_value pl (print_template ps) lcf vc3 = Some (True, lcf1, vc')"
    "codes_of lcf1 = codes_of lcf @ seg" "vc_indexed vc' = vc_indexed vc3 @ extra" "vc_keys vc' = vc_keys vc3"
    "\<And>(ev :: ('h, 'x, 'q) rw_env) n (e :: 'q rengine). \<lbrakk>env_ok ev; rengine_ok n e; length (vc_indexed vc') \<le> n; length (rn_sp e) < rn_stack e\<rbrakk> \<Longrightarrow>
      \<exists>vars' e' v. settles (en_vars (rn_e e)) vars' \<and> en_vars (rn_e e') = vars' \<and> rengine_ok n e' \<and> same_rest e e' \<and>
        rn_sp e' = v # rn_sp e \<and> sval_text e' v = Some (concat (map (part_text (vc_indexed vc') vars') ps)) \<and>
        (\<forall>rest. run_codes ev (seg @ rest) e = run_codes ev rest e')"
    by (rule value_exec [OF assms(1,3), of lcf vc3]) blast
  have known: "name_find name (vc_indexed vc') = Some index" using index(2) v(3) vc3(1) name_find_append by metis
  have bound: "index < length (vc_indexed vc')" using name_find_Some [OF known n0] by simp
  let ?lcf' = "lcf1\<lparr>lc_codes := Some (codes_of lcf1 @ [CSetVar index])\<rparr>"
  have cmd: "ngx_http_rewrite_set pl True rewrite_var (cb (CHR ''$'') # name) (print_template ps) lcf vc = Some (True, ?lcf', vc')"
    using assms(1) i(1) index(1) v(1,4) vc3(2)
    by (simp add: ngx_http_rewrite_set_def vc3_def [symmetric] then_do_def emit_code_def ngx_http_script_start_code_def pool_ok_def
        set_code_def Let_def)
  have "\<exists>vars' e'. settles (en_vars (rn_e e)) vars' \<and>
        en_vars (rn_e e') = vars'[index := null_value\<lparr>vl_data := concat (map (part_text (vc_indexed vc') vars') ps)\<rparr>] \<and>
        rengine_ok n e' \<and> same_rest e e' \<and> rn_sp e' = rn_sp e \<and>
        (\<forall>rest. run_codes ev ((seg @ [CSetVar index]) @ rest) e = run_codes ev rest e')"
    if e: "env_ok ev" "rengine_ok n e" "length (vc_indexed vc') \<le> n" "length (rn_sp e) < rn_stack e" for ev :: "('h, 'x, 'q) rw_env" and n and e :: "'q rengine"
  proof -
    obtain vars' e1 v1 where x: "settles (en_vars (rn_e e)) vars'" "en_vars (rn_e e1) = vars'" "rengine_ok n e1" "same_rest e e1"
      "rn_sp e1 = v1 # rn_sp e" "sval_text e1 v1 = Some (concat (map (part_text (vc_indexed vc') vars') ps))"
      "\<And>rest. run_codes ev (seg @ rest) e = run_codes ev rest e1"
      using v(5) [OF e] by blast
    have "index < n" using bound e(3) by simp
    define w where "w = null_value\<lparr>vl_data := concat (map (part_text (vc_indexed vc') vars') ps)\<rparr>"
    note step = set_var_exec [OF x(5,6,3) \<open>index < n\<close>, of ev, folded w_def]
    have "cached (vars'[index := w])" using x(2,3) by (intro cached_update) (simp_all add: rengine_ok_def w_def null_value_def)
    then show ?thesis using x run_codes_Cons [OF step]
      by (intro exI [of _ vars'] exI [of _ "e1\<lparr>rn_sp := rn_sp e, rn_e := (rn_e e1)\<lparr>en_vars := vars'[index := w]\<rparr>\<rparr>"])
        (simp add: rengine_ok_def same_rest_def w_def)
  qed
  with cmd known v(2) show ?thesis by (intro exI [of _ ?lcf'] exI [of _ vc'] exI [of _ "seg @ [CSetVar index]"] exI [of _ index])
      (auto simp: codes_of_def)
qed

lemma strncasecmp_step:
  "ngx_strncasecmp (a # s) (b # t) (numeral n) =
     (if ngx_tolower a = ngx_tolower b then if ngx_tolower a \<noteq> 0 then ngx_strncasecmp s t (pred_numeral n) else 0
      else uint (ngx_tolower a) - uint (ngx_tolower b))"
  by (simp add: numeral_eq_Suc Let_def)

definition demo_engine3 :: "unit rengine" where
  "demo_engine3 = (demo_rengine (bs ''/''))\<lparr>rn_e := blank_engine\<lparr>en_vars := demo_vars @ [null_value]\<rparr>\<rparr>"

theorem rewrite_set_assigns_witness:
  "\<exists>lcf' vc' seg e'.
    ngx_http_rewrite_set demo_pool True (\<lambda>_. ()) (bs ''$z'') (bs ''$b!'') demo_lcf
      (demo_conf\<lparr>vc_indexed := [bs ''name'', bs ''b'', bs ''z'']\<rparr>) = Some (True, lcf', vc') \<and>
    codes_of lcf' = seg \<and> run_codes (demo_env []) (seg @ [CNull]) demo_engine3 = run_codes (demo_env []) [CNull] e' \<and>
    en_vars (rn_e e') = demo_vars @ [null_value\<lparr>vl_data := bs ''7!''\<rparr>]"
proof -
  let ?vc = "demo_conf\<lparr>vc_indexed := [bs ''name'', bs ''b'', bs ''z'']\<rparr>" and ?ps = "[PVar (bs ''b''), PText (bs ''!'')]"
  have ok: "part_name_ok (bs ''z'')" "parts_ok ?ps" by (simp_all add: part_name_ok_def is_name_char_def)
  have keys: "\<forall>i. name_find (bs ''z'') (map var_name (vc_keys ?vc)) = Some i \<longrightarrow>
      var_changeable (vc_keys ?vc ! i) \<and> var_set_handler (vc_keys ?vc ! i) = None" by (simp add: demo_conf_def)
  obtain lcf' vc' seg index where c: "ngx_http_rewrite_set demo_pool True (\<lambda>_. ()) (cb (CHR ''$'') # bs ''z'') (print_template ?ps)
      demo_lcf ?vc = Some (True, lcf', vc')" "codes_of lcf' = codes_of demo_lcf @ seg" "name_find (bs ''z'') (vc_indexed vc') = Some index"
    and run: "\<forall>ev n (e :: unit rengine). env_ok (ev :: (unit, unit, unit) rw_env) \<and> rengine_ok n e \<and> length (vc_indexed vc') \<le> n \<and> length (rn_sp e) < rn_stack e \<longrightarrow>
      (\<exists>vars' e'. settles (en_vars (rn_e e)) vars' \<and>
        en_vars (rn_e e') = vars'[index := null_value\<lparr>vl_data := concat (map (part_text (vc_indexed vc') vars') ?ps)\<rparr>] \<and>
        rengine_ok n e' \<and> same_rest e e' \<and> rn_sp e' = rn_sp e \<and>
        (\<forall>rest. run_codes ev (seg @ rest) e = run_codes ev rest e'))"
    using rewrite_set_assigns [OF demo_ok(1) ok keys, of "\<lambda>_. ()" demo_lcf] by blast
  have vc': "vc_indexed vc' = vc_indexed ?vc"
  proof -
    have "map_option (vc_indexed \<circ> snd \<circ> snd) (ngx_http_rewrite_set demo_pool True (\<lambda>_. ()) (cb (CHR ''$'') # bs ''z'')
        (print_template ?ps) demo_lcf ?vc) = Some (vc_indexed ?vc)" by code_simp
    with c(1) show ?thesis by simp
  qed
  have "env_ok (demo_env [])"
    using demo_ok(2) by (auto simp: env_ok_def demo_env_def caching_handlers_def demo_handler_def)
  moreover have "rengine_ok 3 demo_engine3" "length (rn_sp demo_engine3) < rn_stack demo_engine3"
    by (simp_all add: demo_engine3_def rengine_ok_def demo_rengine_def blank_engine_def cached_def demo_vars_def null_value_def)
  ultimately obtain vars' e' where e': "settles (en_vars (rn_e demo_engine3)) vars'"
    "en_vars (rn_e e') = vars'[index := null_value\<lparr>vl_data := concat (map (part_text (vc_indexed vc') vars') ?ps)\<rparr>]"
    "\<And>rest. run_codes (demo_env []) (seg @ rest) demo_engine3 = run_codes (demo_env []) rest e'"
    using run [rule_format, of "demo_env []" 3 demo_engine3] unfolding vc' by auto
  have "vars' = demo_vars @ [null_value]"
    using settles_valid [OF e'(1)] by (simp add: demo_vars_def demo_engine3_def null_value_def)
  moreover have "index = 2" using c(3) unfolding vc' by (simp add: ngx_tolower_def)
  ultimately show ?thesis using e' c vc'
    by (intro exI [of _ lcf'] exI [of _ vc'] exI [of _ seg] exI [of _ e'])
      (simp add: ngx_tolower_def codes_of_def demo_lcf_def demo_vars_def var_text_def value_text_def)
qed

end
