(* ===== verification/Rewrite_Stack.thy ===== *)
theory Rewrite_Stack
  imports Rewrite
begin

text \<open>
  The stack of the rewrite module. The configuration of a location is a list of directives, nested in \<^verbatim>\<open>if\<close> blocks; all of
  them are compiled into one program. Every code has a static effect on the depth of the stack; the programs that the commands
  produce are well-typed for it, and a well-typed program never takes a value from an empty
  stack, puts one on a full stack, or runs past its end.
\<close>

section \<open>Directives\<close>

text \<open>
  The directives of a block, in the order of the configuration file, with their words. \<open>rv\<close> is the get handler for new variables,
  \<open>rx\<close> the pattern compiler. The option of \<open>DIf\<close> is the configuration of its block; \<open>DCommand\<close> is a command of another module that adds
  codes.
\<close>

datatype ('h, 'x) directive =
    DSet bytes bytes
  | DReturn bytes
  | DBreak
  | DRewrite "bytes list"
  | DIf "bytes list" "nat option" "('h, 'x) directive list"
  | DCommand "('h, 'x) rw_loc_conf \<Rightarrow> 'h var_conf \<Rightarrow> ('h, 'x) command_result"

fun compile_directive ::
    "script_pool \<Rightarrow> (bytes \<Rightarrow> bool \<Rightarrow> (nat \<times> nat) option) \<Rightarrow> (nat \<Rightarrow> 'h) \<Rightarrow> ('h, 'x) directive \<Rightarrow> ('h, 'x) rw_loc_conf \<Rightarrow> 'h var_conf \<Rightarrow>
     ('h, 'x) command_result"
  and compile_directives ::
    "script_pool \<Rightarrow> (bytes \<Rightarrow> bool \<Rightarrow> (nat \<times> nat) option) \<Rightarrow> (nat \<Rightarrow> 'h) \<Rightarrow> ('h, 'x) directive list \<Rightarrow> ('h, 'x) rw_loc_conf \<Rightarrow> 'h var_conf \<Rightarrow>
     ('h, 'x) command_result" where
  "compile_directive pl rx rv (DSet name v) lcf vc = ngx_http_rewrite_set pl True rv name v lcf vc"
| "compile_directive pl rx rv (DReturn v) lcf vc = ngx_http_rewrite_return pl v lcf vc"
| "compile_directive pl rx rv DBreak lcf vc = ngx_http_rewrite_break pl lcf vc"
| "compile_directive pl rx rv (DRewrite value) lcf vc = ngx_http_rewrite pl rx value lcf vc"
| "compile_directive pl rx rv (DIf value loc_conf ds) lcf vc =
     ngx_http_rewrite_if pl rx value loc_conf (compile_directives pl rx rv ds) lcf vc"
| "compile_directive pl rx rv (DCommand cmd) lcf vc = cmd lcf vc"
| "compile_directives pl rx rv [] lcf vc = Some (True, lcf, vc)"
| "compile_directives pl rx rv (d # ds) lcf vc =
     then_do (compile_directive pl rx rv d lcf vc) (compile_directives pl rx rv ds)"

section \<open>The effect of a code\<close>

text \<open>How many values a code takes and gives; \<open>fx\<close> is the effect of the codes of other modules, when they have a fixed one.\<close>

fun effect :: "('x \<Rightarrow> (nat \<times> nat) option) \<Rightarrow> ('h, 'x) code \<Rightarrow> nat \<times> nat" where
  "effect fx (CValue s) = (0, 1)"
| "effect fx (CComplex l) = (0, 1)"
| "effect fx (CVar i) = (0, 1)"
| "effect fx (CSetVar i) = (1, 0)"
| "effect fx (CSetHandler h) = (1, 0)"
| "effect fx CEqual = (2, 1)"
| "effect fx CNotEqual = (2, 1)"
| "effect fx (CFile op) = (1, 1)"
| "effect fx (CIf n lc) = (1, 0)"
| "effect fx (CRegex c) = (if rc_uri c then 0 else 1, if rc_test c then 1 else 0)"
| "effect fx (CExt x) = (case fx x of None \<Rightarrow> (0, 0) | Some p \<Rightarrow> p)"
| "effect fx _ = (0, 0)"

fun known_effect :: "('x \<Rightarrow> (nat \<times> nat) option) \<Rightarrow> ('h, 'x) code \<Rightarrow> bool" where
  "known_effect fx (CExt x) = (fx x \<noteq> None)"
| "known_effect fx _ = True"

definition has_room :: "('x \<Rightarrow> (nat \<times> nat) option) \<Rightarrow> nat \<Rightarrow> ('h, 'x) code \<Rightarrow> nat \<Rightarrow> bool" where
  "has_room fx lim c d \<longleftrightarrow> known_effect fx c \<and> fst (effect fx c) \<le> d \<and> d - fst (effect fx c) + snd (effect fx c) \<le> lim"

definition depth_after :: "('x \<Rightarrow> (nat \<times> nat) option) \<Rightarrow> ('h, 'x) code \<Rightarrow> nat \<Rightarrow> nat" where
  "depth_after fx c d = d - fst (effect fx c) + snd (effect fx c)"

text \<open>Whether a code ends the program, and how far it may skip.\<close>

fun ends_program :: "('h, 'x) code \<Rightarrow> bool" where
  "ends_program CNull = True"
| "ends_program (CReturn s) = True"
| "ends_program CBreak = True"
| "ends_program _ = False"

fun may_skip :: "('h, 'x) code \<Rightarrow> nat" where
  "may_skip (CIf n lc) = n"
| "may_skip (CRegex c) = (if rc_test c then 0 else rc_next c)"
| "may_skip _ = 0"

function stack_ok :: "('x \<Rightarrow> (nat \<times> nat) option) \<Rightarrow> nat \<Rightarrow> ('h, 'x) code list \<Rightarrow> nat \<Rightarrow> bool" where
  "stack_ok fx lim [] d = False"
| "stack_ok fx lim (c # cs) d =
     (has_room fx lim c d \<and>
      (ends_program c \<or> stack_ok fx lim cs (depth_after fx c d) \<and> stack_ok fx lim (drop (may_skip c) cs) (depth_after fx c d)))"
  by pat_completeness auto
termination by (relation "measure (\<lambda>(fx, lim, cs, d). length cs)") auto

declare stack_ok.simps [simp del]

lemmas stack_ok_Cons = stack_ok.simps(2)

section \<open>Running keeps the type\<close>

text \<open>The states a program reaches.\<close>

inductive reaches :: "('h, 'x, 'q) rw_env \<Rightarrow> ('h, 'x) code list \<Rightarrow> 'q rengine \<Rightarrow> ('h, 'x) code list \<Rightarrow> 'q rengine \<Rightarrow> bool"
  for ev ip0 e0 where
  start: "reaches ev ip0 e0 ip0 e0"
| step: "\<lbrakk>reaches ev ip0 e0 (c # ip) e; code_step ev c e = Some (Skip n, e')\<rbrakk> \<Longrightarrow> reaches ev ip0 e0 (drop n ip) e'"

definition ext_effect :: "('x \<Rightarrow> (nat \<times> nat) option) \<Rightarrow> ('h, 'x, 'q) rw_env \<Rightarrow> bool" where
  "ext_effect fx ev \<longleftrightarrow>
     (\<forall>x n k e e'. fx x = Some (n, k) \<and> ev_ext ev x e = Some e' \<longrightarrow>
        rn_stack e' = rn_stack e \<and> length (rn_sp e') = length (rn_sp e) - n + k)"

definition moved :: "nat \<Rightarrow> nat \<Rightarrow> 'q rengine \<Rightarrow> 'q rengine \<Rightarrow> bool" where
  "moved n k e e' \<longleftrightarrow> rn_stack e' = rn_stack e \<and> length (rn_sp e') = length (rn_sp e) - n + k"

lemma push_moved: "push v e = Some e' \<Longrightarrow> moved 0 1 e e'"
  by (auto simp: push_def moved_def split: if_splits)

lemma pop_moved: "pop e = Some (v, e') \<Longrightarrow> moved 1 0 e e' \<and> 0 < length (rn_sp e)"
  by (auto simp: pop_def moved_def split: list.splits)

lemma moved_trans: "moved n k a b \<Longrightarrow> moved m j b c \<Longrightarrow> m \<le> k \<Longrightarrow> moved n (k - m + j) a c"
  by (auto simp: moved_def)

lemma moved_updates [simp]:
  "moved n k e (e'\<lparr>rn_e := x\<rparr>) = moved n k e e'" "moved n k (e\<lparr>rn_e := x\<rparr>) e' = moved n k e e'"
  "moved n k e (e'\<lparr>rn_req := r\<rparr>) = moved n k e e'" "moved n k (e\<lparr>rn_req := r\<rparr>) e' = moved n k e e'"
  "moved n k e (e'\<lparr>rn_status := s\<rparr>) = moved n k e e'" "moved n k (e\<lparr>rn_status := s\<rparr>) e' = moved n k e e'"
  "moved n k e (e'\<lparr>rn_bufs := b\<rparr>) = moved n k e e'" "moved n k (e\<lparr>rn_bufs := b\<rparr>) e' = moved n k e e'"
  "moved n k e (new_buffer l e') = moved n k e e'" "moved n k (new_buffer l e) e' = moved n k e e'"
  "moved 0 0 e e"
  by (simp_all add: moved_def new_buffer_def)

lemma run_lengths_moved: "run_lengths ev lens q e = Some (len, a, e') \<Longrightarrow> moved 0 0 e e'"
  by (auto simp: run_lengths_def Option.bind_eq_Some_conv)

lemma complex_moved: "ngx_http_script_complex_value_code ev lens e = Some (Skip n, e') \<Longrightarrow> moved 0 1 e e' \<and> n = 0"
  by (auto simp: ngx_http_script_complex_value_code_def Option.bind_eq_Some_conv fail500_def Let_def
      dest!: run_lengths_moved push_moved split: if_splits dest: moved_trans)

lemma compare_moved: "compare_code b e = Some e' \<Longrightarrow> moved 2 1 e e'"
  by (auto simp: compare_code_def Option.bind_eq_Some_conv moved_def dest!: pop_moved push_moved)

lemma regex_buffer_moved: "regex_buffer ev c rc e = Some (Skip n, e') \<Longrightarrow> moved 0 0 e e' \<and> n = 0"
  by (auto simp: regex_buffer_def Option.bind_eq_Some_conv fail500_def Let_def dest!: run_lengths_moved split: if_splits)

lemma regex_line_moved: "regex_line c e = Some (line, e') \<Longrightarrow> moved (if rc_uri c then 0 else 1) 0 e e'"
  by (auto simp: regex_line_def Option.bind_eq_Some_conv dest!: pop_moved split: if_splits)

lemma regex_outcome_moved:
  "regex_outcome ev c res e = Some (Skip n, e') \<Longrightarrow>
     moved 0 (if rc_test c then 1 else 0) e e' \<and> (n = 0 \<or> \<not> rc_test c \<and> n = rc_next c)"
  by (cases res) (auto simp: regex_outcome_def fail500_def Let_def dest!: push_moved regex_buffer_moved split: if_splits)

lemma regex_start_moved:
  assumes "ngx_http_script_regex_start_code ev c e = Some (Skip n, e')"
  shows "moved (if rc_uri c then 0 else 1) (if rc_test c then 1 else 0) e e' \<and> (n = 0 \<or> \<not> rc_test c \<and> n = rc_next c)"
proof -
  obtain line e1 where line: "regex_line c e = Some (line, e1)"
    and out: "regex_outcome ev c (ev_regex ev (rc_regex c) line) (e1\<lparr>rn_e := (rn_e e1)\<lparr>en_line := line\<rparr>\<rparr>) = Some (Skip n, e')"
    using assms by (auto simp: ngx_http_script_regex_start_code_def Option.bind_eq_Some_conv)
  from regex_line_moved [OF line] regex_outcome_moved [OF out] show ?thesis
    using moved_trans [of "if rc_uri c then 0 else 1" 0 e e1 0 "if rc_test c then 1 else 0" e'] by auto
qed

lemma append_args_moved: "append_args sep add e = Some e' \<Longrightarrow> moved 0 0 e e'"
  by (auto simp: append_args_def split: if_splits)

lemma regex_end_moved: "ngx_http_script_regex_end_code ev c e = Some (Skip n, e') \<Longrightarrow> moved 0 0 e e' \<and> n = 0"
  by (auto simp: ngx_http_script_regex_end_code_def regex_end_redirect_def Option.bind_eq_Some_conv fail500_def Let_def
      dest!: append_args_moved split: if_splits prod.splits option.splits)

lemma value_codes_moved:
  "copy_code ev v e = Some e' \<Longrightarrow> moved 0 0 e e'"
  "ngx_http_script_value_code ev s e = Some e' \<Longrightarrow> moved 0 1 e e'"
  "ngx_http_script_var_code ev i e = Some e' \<Longrightarrow> moved 0 1 e e'"
  by (auto simp: copy_code_def ngx_http_script_value_code_def ngx_http_script_var_code_def Let_def dest!: push_moved split: prod.splits)

lemma set_codes_moved:
  "ngx_http_script_set_var_code i e = Some e' \<Longrightarrow> moved 1 0 e e'"
  "ngx_http_script_var_set_handler_code ev h e = Some e' \<Longrightarrow> moved 1 0 e e'"
  by (auto simp: ngx_http_script_set_var_code_def ngx_http_script_var_set_handler_code_def Let_def Option.bind_eq_Some_conv
      dest!: pop_moved split: if_splits)

lemma file_code_moved: "ngx_http_script_file_code ev op e = Some e' \<Longrightarrow> moved 1 1 e e'"
  by (auto simp: ngx_http_script_file_code_def Option.bind_eq_Some_conv moved_def dest!: pop_moved push_moved)

lemma if_code_moved:
  assumes "ngx_http_script_if_code k lc e = Some (Skip n, e')"
  shows "moved 1 0 e e' \<and> (n = 0 \<or> n = k)"
proof -
  obtain v e1 where v: "pop e = Some (v, e1)"
    using assms by (cases "pop e") (simp_all add: ngx_http_script_if_code_def split: prod.splits)
  moreover obtain s where "sval_text e1 v = Some s"
    using assms v by (cases "sval_text e1 v") (simp_all add: ngx_http_script_if_code_def)
  ultimately have "(if s \<noteq> [] \<and> hd s \<noteq> cb (CHR ''0'') then
         (Skip 0, if lc \<noteq> None then e1\<lparr>rn_req := (rn_req e1)\<lparr>rq_loc_conf := lc\<rparr>\<rparr> else e1)
       else (Skip k, e1)) = (Skip n, e')"
    using assms unfolding ngx_http_script_if_code_def by (simp only: bind.simps split_conv option.map option.inject)
  then have "n = 0 \<or> n = k" "e' = e1 \<or> e' = e1\<lparr>rn_req := (rn_req e1)\<lparr>rq_loc_conf := lc\<rparr>\<rparr>"
    by (simp_all split: if_splits)
  with pop_moved [OF v] show ?thesis by auto
qed

lemma continue_with_Some: "continue_with r = Some (Skip n, e') \<longleftrightarrow> r = Some e' \<and> n = 0"
  by (auto simp: continue_with_def)

lemmas code_moved = value_codes_moved set_codes_moved file_code_moved if_code_moved compare_moved regex_start_moved regex_end_moved
  complex_moved

lemma code_step_moved:
  assumes "code_step ev c e = Some (Skip n, e')" and "ext_effect fx ev" and "known_effect fx c"
  shows "moved (fst (effect fx c)) (snd (effect fx c)) e e' \<and> (n = 0 \<or> n = may_skip c)"
proof (cases c)
  case (CRegex r)
  then show ?thesis using regex_start_moved [of ev r e n e'] assms by auto
next
  case (CExt x)
  with assms(3) obtain m k where "fx x = Some (m, k)" by auto
  with CExt assms(1,2) show ?thesis by (auto simp: ext_effect_def moved_def continue_with_Some)
qed (use assms(1) in \<open>auto simp: continue_with_Some ngx_http_script_equal_code_def ngx_http_script_not_equal_code_def
    ngx_http_script_return_code_def ngx_http_script_break_code_def dest: code_moved\<close>)

lemma ends_program_exits: "ends_program c \<Longrightarrow> code_step ev c e \<noteq> Some (Skip n, e')"
  by (cases c) (auto simp: ngx_http_script_return_code_def ngx_http_script_break_code_def)

lemma reaches_next: "\<lbrakk>reaches ev ip0 e0 (c # ip) e; code_step ev c e = Some (Skip 0, e')\<rbrakk> \<Longrightarrow> reaches ev ip0 e0 ip e'"
  using reaches.step [of ev ip0 e0 c ip e 0 e'] by simp

lemma reaches_stack_ok:
  assumes "reaches ev ip0 e0 ip e" and "stack_ok fx lim ip0 (length (rn_sp e0))" and "ext_effect fx ev"
  shows "stack_ok fx lim ip (length (rn_sp e)) \<and> rn_stack e = rn_stack e0"
  using assms
proof (induction rule: reaches.induct)
  case (step c ip e n e')
  then have ok: "stack_ok fx lim (c # ip) (length (rn_sp e))" "rn_stack e = rn_stack e0" by simp_all
  have "known_effect fx c" using ok(1) by (simp add: stack_ok_Cons has_room_def)
  then have m: "moved (fst (effect fx c)) (snd (effect fx c)) e e'" "n = 0 \<or> n = may_skip c"
    using code_step_moved [OF step.hyps(2) step.prems(2)] by simp_all
  have "\<not> ends_program c" using ends_program_exits step.hyps(2) by metis
  with ok(1) have "stack_ok fx lim (drop n ip) (depth_after fx c (length (rn_sp e)))"
    using m(2) by (auto simp: stack_ok_Cons)
  with m(1) ok(2) show ?case by (simp add: moved_def depth_after_def)
qed simp

section \<open>Compiled programs are well-typed\<close>

text \<open>
  A command that starts with \<open>d\<close> values on the stack and ends with \<open>d'\<close>: it only appends codes, and the codes are well-typed before
  every program that is well-typed for \<open>d'\<close>.
\<close>

definition segment_ok :: "('x \<Rightarrow> (nat \<times> nat) option) \<Rightarrow> nat \<Rightarrow> ('h, 'x) code list \<Rightarrow> nat \<Rightarrow> nat \<Rightarrow> bool" where
  "segment_ok fx lim seg d d' \<longleftrightarrow> (\<forall>rest. stack_ok fx lim rest d' \<longrightarrow> stack_ok fx lim (seg @ rest) d)"

definition emits :: "('x \<Rightarrow> (nat \<times> nat) option) \<Rightarrow> nat \<Rightarrow> ('h, 'x) rw_loc_conf \<Rightarrow> ('h, 'x) rw_loc_conf \<Rightarrow> nat \<Rightarrow> nat \<Rightarrow> bool" where
  "emits fx lim lcf lcf' d d' \<longleftrightarrow> (\<exists>seg. codes_of lcf' = codes_of lcf @ seg \<and> segment_ok fx lim seg d d')"

lemma segment_append: "segment_ok fx lim a d d1 \<Longrightarrow> segment_ok fx lim b d1 d2 \<Longrightarrow> segment_ok fx lim (a @ b) d d2"
  by (simp add: segment_ok_def)

lemma segment_Nil: "segment_ok fx lim [] d d"
  by (simp add: segment_ok_def)

lemma segment_Cons:
  "\<lbrakk>segment_ok fx lim seg (depth_after fx c d) d'; has_room fx lim c d; may_skip c = 0\<rbrakk> \<Longrightarrow> segment_ok fx lim (c # seg) d d'"
  by (simp add: segment_ok_def stack_ok_Cons)

lemmas segment_code = segment_Cons [OF segment_Nil]

lemma segment_skip:
  "\<lbrakk>segment_ok fx lim seg (depth_after fx c d) (depth_after fx c d); has_room fx lim c d; may_skip c = length seg\<rbrakk> \<Longrightarrow>
     segment_ok fx lim (c # seg) d (depth_after fx c d)"
  by (simp add: segment_ok_def stack_ok_Cons)

lemma segment_copies: "d \<le> lim \<Longrightarrow> segment_ok fx lim (map CCopy vs) d d"
  by (induction vs) (simp_all add: segment_Nil segment_Cons has_room_def depth_after_def)

lemma emits_trans: "emits fx lim a b d d1 \<Longrightarrow> emits fx lim b c d1 d2 \<Longrightarrow> emits fx lim a c d d2"
  unfolding emits_def using segment_append by (metis append_assoc)

lemma then_do_Some:
  "then_do r f = Some (True, lcf', vc') \<longleftrightarrow> (\<exists>lcf vc. r = Some (True, lcf, vc) \<and> f lcf vc = Some (True, lcf', vc'))"
  by (auto simp: then_do_def Option.bind_eq_Some_conv split: if_splits)

lemma emit_code_Some:
  "emit_code pl c lcf vc = Some (True, lcf', vc') \<Longrightarrow> codes_of lcf' = codes_of lcf @ [c]"
  by (auto simp: emit_code_def ngx_http_script_start_code_def codes_of_def split: option.splits if_splits)

lemma emit_code_emits:
  "\<lbrakk>emit_code pl c lcf vc = Some (True, lcf', vc'); has_room fx lim c d; may_skip c = 0\<rbrakk> \<Longrightarrow>
     emits fx lim lcf lcf' d (depth_after fx c d)"
  unfolding emits_def by (metis emit_code_Some segment_code)

lemma codes_of_simps [simp]: "codes_of (lcf\<lparr>lc_codes := Some cs\<rparr>) = cs" "codes_of (use_captures n lcf) = codes_of lcf"
  by (simp_all add: codes_of_def use_captures_def)

lemma value_emits:
  assumes "ngx_http_rewrite_value pl src lcf vc = Some (True, lcf', vc')" and "d < lim"
  shows "emits fx lim lcf lcf' d (Suc d)"
proof (cases "ngx_http_script_variables_count src = 0")
  case True
  with assms emit_code_emits [of pl "CValue src" lcf vc lcf' vc' fx lim d] show ?thesis
    by (simp add: ngx_http_rewrite_value_def has_room_def depth_after_def)
next
  case False
  with assms(1) obtain sc :: script_compile where "codes_of lcf' = codes_of lcf @ CComplex (sc_lengths sc) # map CCopy (the (sc_values sc))"
    by (auto simp: ngx_http_rewrite_value_def split: option.splits)
  moreover have "segment_ok fx lim (CComplex (sc_lengths sc) # map CCopy (the (sc_values sc))) d (Suc d)"
    using assms(2) by (intro segment_Cons segment_copies) (simp_all add: has_room_def depth_after_def segment_copies)
  ultimately show ?thesis by (auto simp: emits_def)
qed

lemma variable_emits:
  "\<lbrakk>ngx_http_rewrite_variable pl v lcf vc = Some (True, lcf', vc'); d < lim\<rbrakk> \<Longrightarrow> emits fx lim lcf lcf' d (Suc d)"
  using emit_code_emits [of pl "CVar _" lcf _ lcf' vc' fx lim d]
  by (fastforce simp: ngx_http_rewrite_variable_def has_room_def depth_after_def split: prod.splits option.splits)

lemma set_code_facts:
  "effect fx (set_code vc i index) = (1, 0)" "may_skip (set_code vc i index) = 0" "known_effect fx (set_code vc i index)"
  by (simp_all add: set_code_def split: option.split)

lemma set_emits:
  assumes "ngx_http_rewrite_set pl ok rv v1 v2 lcf vc = Some (True, lcf', vc')" and "0 < lim"
  shows "emits fx lim lcf lcf' 0 0"
proof -
  obtain vc1 lcf1 vc2 i index where v: "ngx_http_rewrite_value pl v2 lcf vc1 = Some (True, lcf1, vc2)"
    and c: "emit_code pl (set_code vc2 i index) lcf1 vc2 = Some (True, lcf', vc')"
    using assms(1) by (auto simp: ngx_http_rewrite_set_def then_do_Some Let_def split: if_splits prod.splits option.splits)
  have "emits fx lim lcf1 lcf' (Suc 0) 0"
    using emit_code_emits [OF c, of fx lim "Suc 0"] by (simp add: has_room_def depth_after_def set_code_facts)
  with value_emits [OF v assms(2)] emits_trans show ?thesis by blast
qed

lemma operator_emits:
  assumes "condition_operator pl rx op rhs lcf vc = Some (True, lcf', vc')" and "2 \<le> lim"
  shows "emits fx lim lcf lcf' 1 1"
proof -
  consider (cmp) c lcf1 vc1 where "c \<in> {CEqual, CNotEqual}" "ngx_http_rewrite_value pl rhs lcf vc = Some (True, lcf1, vc1)"
      "emit_code pl c lcf1 vc1 = Some (True, lcf', vc')"
    | (regex) "condition_regex pl rx op rhs lcf vc = Some (True, lcf', vc')"
    using assms(1) by (auto simp: condition_operator_def then_do_Some split: if_splits)
  then show ?thesis
  proof cases
    case cmp
    have "emits fx lim lcf1 lcf' 2 1"
      using emit_code_emits [OF cmp(3), of fx lim 2] cmp(1) assms(2) by (auto simp: has_room_def depth_after_def)
    moreover have "emits fx lim lcf lcf1 1 2"
      using value_emits [OF cmp(2), of 1 lim fx] assms(2) by (simp add: numeral_2_eq_2)
    ultimately show ?thesis using emits_trans by blast
  next
    case regex
    then obtain c lcf1 vc1 caps where c: "emit_code pl (CRegex c) lcf vc = Some (True, lcf1, vc1)" "rc_test c" "\<not> rc_uri c"
      "lcf' = use_captures caps lcf1"
      by (auto simp: condition_regex_def then_do_Some blank_regex_def Let_def split: option.splits)
    with emit_code_emits [OF c(1), of fx lim 1] assms(2) show ?thesis by (simp add: emits_def has_room_def depth_after_def)
  qed
qed

lemma condition_emits:
  assumes "ngx_http_rewrite_if_condition pl rx value lcf vc = Some (True, lcf', vc')" and "2 \<le> lim"
  shows "emits fx lim lcf lcf' 0 1"
proof -
  obtain ws cur lst where w: "condition_words pl rx ws cur lst lcf vc = Some (True, lcf', vc')"
    using assms(1) by (auto simp: ngx_http_rewrite_if_condition_def Let_def split: if_splits prod.splits)
  consider (var) lcf1 vc1 where "ngx_http_rewrite_variable pl (ws ! cur) lcf vc = Some (True, lcf1, vc1)"
      "lcf' = lcf1 \<or> condition_operator pl rx (ws ! (cur + 1)) (ws ! lst) lcf1 vc1 = Some (True, lcf', vc')"
    | (path) lcf1 vc1 op where "ngx_http_rewrite_value pl (ws ! lst @ [0]) lcf vc = Some (True, lcf1, vc1)"
      "emit_code pl (CFile op) lcf1 vc1 = Some (True, lcf', vc')"
    using w by (auto simp: condition_words_def then_do_Some Let_def split: if_splits option.splits)
  then show ?thesis
  proof cases
    case var
    with variable_emits [OF var(1), of 0 lim fx] operator_emits [of pl rx _ _ lcf1 vc1 lcf' vc' lim fx] emits_trans assms(2)
    show ?thesis by fastforce
  next
    case path
    have "emits fx lim lcf1 lcf' 1 1"
      using emit_code_emits [OF path(2), of fx lim 1] assms(2) by (simp add: has_room_def depth_after_def)
    with value_emits [OF path(1), of 0 lim fx] emits_trans assms(2) show ?thesis by fastforce
  qed
qed

lemma if_emits:
  assumes "ngx_http_rewrite_if pl rx value loc_conf block lcf vc = Some (True, lcf', vc')" and "pool_ok pl" and "2 \<le> lim"
    and block: "\<And>lcf vc lcf' vc'. block lcf vc = Some (True, lcf', vc') \<Longrightarrow> emits fx lim lcf lcf' 0 0"
  shows "emits fx lim lcf lcf' 0 0"
proof -
  obtain lcf1 vc1 lcf2 lcf3 vc3 where cond: "ngx_http_rewrite_if_condition pl rx value lcf vc = Some (True, lcf1, vc1)"
    and start: "ngx_http_script_start_code pl (CIf 0 loc_conf) lcf1 = Some lcf2"
    and blk: "block lcf2 vc1 = Some (True, lcf3, vc3)"
    and fin: "codes_of lcf' = (codes_of lcf3)[length (codes_of lcf1) :=
      CIf (length (codes_of lcf3) - length (codes_of lcf1) - 1) loc_conf]"
    using assms(1,2)
    by (auto simp: ngx_http_rewrite_if_def then_do_Some ngx_http_script_start_code_def pool_ok_def Let_def split: option.splits if_splits)
  have "codes_of lcf2 = codes_of lcf1 @ [CIf 0 loc_conf]"
    using start by (auto simp: ngx_http_script_start_code_def split: if_splits)
  with block [OF blk] obtain seg where seg: "codes_of lcf3 = codes_of lcf1 @ CIf 0 loc_conf # seg" "segment_ok fx lim seg 0 0"
    by (auto simp: emits_def)
  have "segment_ok fx lim (CIf (length seg) loc_conf # seg) 1 0"
    using segment_skip [of fx lim seg "CIf (length seg) loc_conf" 1] seg(2) assms(3) by (simp add: has_room_def depth_after_def)
  with fin seg(1) have "emits fx lim lcf1 lcf' 1 0" by (auto simp: emits_def)
  with condition_emits [OF cond assms(3)] emits_trans show ?thesis by blast
qed

lemma rewrite_finish_emits:
  assumes "rewrite_finish pl (length (codes_of lcf0)) c lst lcf vc = Some (True, lcf', vc')"
    and "codes_of lcf = codes_of lcf0 @ CRegex blank_regex # map CCopy vs" and "rc_uri c" and "\<not> rc_test c"
  shows "emits fx lim lcf0 lcf' 0 0"
proof -
  define fin :: "('a, 'b) code list" where
    "fin = CRegexEnd \<lparr>re_uri = rc_uri c, re_args = rc_args c, re_add_args = rc_add_args c, re_redirect = rc_redirect c\<rparr> #
      (if lst then [CNull] else [])"
  define seg where "seg = map CCopy vs @ fin"
  let ?c = "CRegex (c\<lparr>rc_next := length seg\<rparr>)"
  have "segment_ok fx lim fin 0 0"
    by (auto intro!: segment_Cons simp: fin_def segment_Nil has_room_def depth_after_def)
  then have "segment_ok fx lim seg 0 0" unfolding seg_def using segment_append [OF segment_copies] by blast
  then have "segment_ok fx lim (?c # seg) 0 0"
    using segment_skip [of fx lim seg ?c 0] assms(3,4) by (simp add: has_room_def depth_after_def)
  moreover have "codes_of lcf' = codes_of lcf0 @ ?c # seg"
    using assms(1,2) unfolding rewrite_finish_def fin_def [symmetric] Let_def
    by (auto simp: seg_def list_update_append split: if_splits)
  ultimately show ?thesis by (auto simp: emits_def)
qed

lemma rewrite_compile_emits:
  assumes "rewrite_compile pl (length (codes_of lcf0)) re n add_args repl mode lcf vc = Some (True, lcf', vc')"
    and "codes_of lcf = codes_of lcf0 @ [CRegex blank_regex]"
  shows "emits fx lim lcf0 lcf' 0 0"
proof -
  obtain status redirect brk lst where mode: "mode = (status, redirect, brk, lst)" by (cases mode) blast
  obtain sc :: script_compile and c vc1 caps where
    "rewrite_finish pl (length (codes_of lcf0)) c lst
      (use_captures caps (lcf\<lparr>lc_codes := Some (codes_of lcf @ map CCopy (the (sc_values sc)))\<rparr>)) vc1 = Some (True, lcf', vc')"
    "rc_uri c" "\<not> rc_test c"
    using assms(1) unfolding rewrite_compile_def mode Option.bind_eq_Some_conv Let_def split_conv
    by (force simp: blank_regex_def split: if_splits)
  with rewrite_finish_emits [of pl lcf0 c lst _ vc1 lcf' vc' "the (sc_values sc)" fx lim] assms(2) show ?thesis by simp
qed

lemma rewrite_emits:
  assumes "ngx_http_rewrite pl rx value lcf vc = Some (True, lcf', vc')"
  shows "emits fx lim lcf lcf' 0 0"
proof -
  let ?add = "last (value ! 2) \<noteq> cb (CHR ''?'')"
  let ?repl = "if ?add then value ! 2 else butlast (value ! 2)"
  obtain lcf1 vc1 where start: "emit_code pl (CRegex blank_regex) lcf vc = Some (True, lcf1, vc1)"
    and r: "(case rx (value ! 1) False of None \<Rightarrow> Some (False, lcf1, vc1)
      | Some (re, n) \<Rightarrow> if value ! 2 = [] then None
          else (case rewrite_mode value ?repl of None \<Rightarrow> Some (False, lcf1, vc1)
            | Some mode \<Rightarrow> rewrite_compile pl (length (codes_of lcf)) re n ?add ?repl mode lcf1 vc1)) = Some (True, lcf', vc')"
    using assms unfolding ngx_http_rewrite_def Let_def then_do_Some by blast
  obtain re n where re: "rx (value ! 1) False = Some (re, n)" using r by (cases "rx (value ! 1) False") auto
  obtain mode where mode: "rewrite_mode value ?repl = Some mode" using r re by (cases "rewrite_mode value ?repl") (auto split: if_splits)
  have "rewrite_compile pl (length (codes_of lcf)) re n ?add ?repl mode lcf1 vc1 = Some (True, lcf', vc')"
    using r unfolding re mode by (simp split: if_splits)
  from rewrite_compile_emits [OF this] emit_code_Some [OF start] show ?thesis by simp
qed

text \<open>The commands of other modules have to keep the stack balanced as well.\<close>

definition command_ok ::
    "('x \<Rightarrow> (nat \<times> nat) option) \<Rightarrow> nat \<Rightarrow> (('h, 'x) rw_loc_conf \<Rightarrow> 'h var_conf \<Rightarrow> ('h, 'x) command_result) \<Rightarrow> bool" where
  "command_ok fx lim cmd \<longleftrightarrow> (\<forall>lcf vc lcf' vc'. cmd lcf vc = Some (True, lcf', vc') \<longrightarrow> emits fx lim lcf lcf' 0 0)"

fun directive_ok :: "('x \<Rightarrow> (nat \<times> nat) option) \<Rightarrow> nat \<Rightarrow> ('h, 'x) directive \<Rightarrow> bool" where
  "directive_ok fx lim (DIf value loc_conf ds) = list_all (directive_ok fx lim) ds"
| "directive_ok fx lim (DCommand cmd) = command_ok fx lim cmd"
| "directive_ok fx lim _ = True"

lemma compile_directive_emits:
  assumes "pool_ok pl" and "2 \<le> lim"
  shows "\<lbrakk>compile_directive pl rx rv d lcf vc = Some (True, lcf', vc'); directive_ok fx lim d\<rbrakk> \<Longrightarrow> emits fx lim lcf lcf' 0 0"
    and "\<lbrakk>compile_directives pl rx rv ds lcf vc = Some (True, lcf', vc'); list_all (directive_ok fx lim) ds\<rbrakk> \<Longrightarrow>
      emits fx lim lcf lcf' 0 0"
  using assms(1)
proof (induction pl rx rv d lcf vc and pl rx rv ds lcf vc arbitrary: lcf' vc' and lcf' vc'
    rule: compile_directive_compile_directives.induct)
  case (1 pl rx rv name v lcf vc)
  with set_emits assms(2) show ?case by fastforce
next
  case (2 pl rx rv v lcf vc)
  then show ?case
    using emit_code_emits [of pl "CReturn (NGX_HTTP (unat (ngx_atoi v)))" lcf vc lcf' _ fx lim 0]
    by (auto simp: ngx_http_rewrite_return_def then_do_Some has_room_def depth_after_def)
next
  case (3 pl rx rv lcf vc)
  then show ?case
    using emit_code_emits [of pl CBreak lcf vc lcf' vc' fx lim 0] by (simp add: ngx_http_rewrite_break_def has_room_def depth_after_def)
next
  case (4 pl rx rv ws lcf vc)
  with rewrite_emits show ?case by fastforce
next
  case (5 pl rx rv ws loc_conf ds lcf vc)
  from if_emits [OF 5(2) [unfolded compile_directive.simps] 5(4) assms(2)] 5(1,3,4) show ?case by simp
next
  case (6 pl rx rv cmd lcf vc)
  then show ?case by (auto simp: command_ok_def)
next
  case (7 pl rx rv lcf vc)
  then show ?case by (auto simp: emits_def segment_Nil)
next
  case (8 pl rx rv d ds lcf vc)
  then show ?case using emits_trans by (fastforce simp: then_do_Some)
qed

section \<open>The stack is safe\<close>

lemma compiled_stack_safe:
  assumes "compile_directives pl rx rv ds \<lparr>lc_codes = None, lc_captures = 0\<rparr> vc = Some (True, lcf, vc')" and "pool_ok pl"
    and "ngx_http_rewrite_merge_loc_conf True False None stack_size lcf = Some (lcf', n)" and "2 \<le> n"
    and "list_all (directive_ok fx n) ds" and "ext_effect fx ev"
    and "lc_codes lcf' = Some codes" and "rn_sp e0 = []" and "rn_stack e0 = n" and "reaches ev codes e0 ip e"
  shows "\<exists>c ip'. ip = c # ip' \<and> fst (effect fx c) \<le> length (rn_sp e) \<and>
    length (rn_sp e) - fst (effect fx c) + snd (effect fx c) \<le> rn_stack e"
proof -
  have "emits fx n \<lparr>lc_codes = None, lc_captures = 0\<rparr> lcf 0 0"
    using compile_directive_emits(2) [OF assms(2,4,1,5)] .
  then have seg: "segment_ok fx n (codes_of lcf) 0 0" by (auto simp: emits_def codes_of_def)
  have "codes = codes_of lcf @ [CNull]"
    using assms(3,7) by (auto simp: ngx_http_rewrite_merge_loc_conf_def codes_of_def split: option.splits)
  with seg have "stack_ok fx n codes (length (rn_sp e0))"
    using assms(8) by (auto simp: segment_ok_def stack_ok_Cons has_room_def)
  from reaches_stack_ok [OF assms(10) this assms(6)] have "stack_ok fx n ip (length (rn_sp e))" "rn_stack e = n"
    using assms(9) by simp_all
  then show ?thesis by (cases ip) (auto simp: stack_ok.simps has_room_def)
qed

text \<open>
  C2. A location whose directives were compiled never misuses the stack: with at least two places (the module reserves ten), no state that the program
  reaches, for any request, any matches and any variables, is at the end of the codes, has too few values for the
  next code or too little room for what it pushes.
\<close>

theorem rewrite_stack_safe:
  assumes "compile_directives pl rx rv ds \<lparr>lc_codes = None, lc_captures = 0\<rparr> vc = Some (True, lcf, vc')" and "pool_ok pl"
    and "ngx_http_rewrite_merge_loc_conf True False None stack_size lcf = Some (lcf', n)" and "2 \<le> n"
    and "list_all (directive_ok fx n) ds" and "ext_effect fx ev"
    and "lc_codes lcf' = Some codes" and "rn_sp e0 = []" and "rn_stack e0 = n" and "reaches ev codes e0 ip e"
  shows "\<exists>c ip'. ip = c # ip' \<and> fst (effect fx c) \<le> length (rn_sp e) \<and>
    length (rn_sp e) - fst (effect fx c) + snd (effect fx c) \<le> rn_stack e"
  using assms by (rule compiled_stack_safe)

text \<open>\<^verbatim>\<open>if ($b = x) { return 403; }\<close>, in the state after the comparison.\<close>

definition demo_if :: "(unit, unit) directive list" where
  "demo_if = [DIf [bs ''if'', bs ''($b'', bs ''='', bs ''x)''] None [DReturn (bs ''403'')]]"

definition demo_if_codes :: "(unit, unit) code list" where
  "demo_if_codes = [CVar 0, CValue (bs ''x''), CEqual, CIf 1 None, CReturn (NGX_HTTP 403), CNull]"

theorem rewrite_stack_safe_witness:
  "\<exists>e. reaches (demo_env []) demo_if_codes demo_engine3 (drop 3 demo_if_codes) e \<and> 1 \<le> length (rn_sp e)"
proof -
  let ?lcf = "\<lparr>lc_codes = Some (butlast demo_if_codes), lc_captures = 0\<rparr>"
  have c: "compile_directives demo_pool (\<lambda>_ _. None) (\<lambda>_. ()) demo_if \<lparr>lc_codes = None, lc_captures = 0\<rparr> demo_conf =
      Some (True, ?lcf, demo_conf\<lparr>vc_indexed := [bs ''b'']\<rparr>)"
    by code_simp
  have m: "ngx_http_rewrite_merge_loc_conf True False None None ?lcf = Some (?lcf\<lparr>lc_codes := Some demo_if_codes\<rparr>, 10)"
    by (simp add: ngx_http_rewrite_merge_loc_conf_def demo_if_codes_def)
  obtain e1 e2 e3 where s: "code_step (demo_env []) (CVar 0) demo_engine3 = Some (Skip 0, e1)"
    "code_step (demo_env []) (CValue (bs ''x'')) e1 = Some (Skip 0, e2)" "code_step (demo_env []) CEqual e2 = Some (Skip 0, e3)"
  proof (rule that)
    let ?e1 = "demo_engine3\<lparr>rn_sp := [SVal (hd demo_vars)]\<rparr>"
    let ?e2 = "?e1\<lparr>rn_sp := [SVal (null_value\<lparr>vl_data := bs ''x''\<rparr>), SVal (hd demo_vars)]\<rparr>"
    show "code_step (demo_env []) (CVar 0) demo_engine3 = Some (Skip 0, ?e1)"
      by (simp add: continue_with_def ngx_http_script_var_code_def ngx_http_get_flushed_variable_def demo_engine3_def
          demo_rengine_def demo_vars_def blank_engine_def push_def Let_def)
    show "code_step (demo_env []) (CValue (bs ''x'')) ?e1 = Some (Skip 0, ?e2)"
      by (simp add: continue_with_def ngx_http_script_value_code_def push_def demo_engine3_def demo_rengine_def demo_env_def)
    show "code_step (demo_env []) CEqual ?e2 = Some (Skip 0, ?e1\<lparr>rn_sp := [SVal null_value]\<rparr>)"
      by (simp add: continue_with_def ngx_http_script_equal_code_def compare_code_def pop_def sval_text_def push_def
          demo_engine3_def demo_rengine_def demo_vars_def null_value_def ngx_str_eq_def)
  qed
  have r: "reaches (demo_env []) demo_if_codes demo_engine3 (drop 3 demo_if_codes) e3"
    using reaches_next [OF reaches_next [OF reaches_next [OF reaches.start s(1)] s(2)] s(3)] by (simp add: demo_if_codes_def)
  have "ext_effect (\<lambda>_. None) (demo_env [])" "list_all (directive_ok (\<lambda>_. None) 10) demo_if"
    by (simp_all add: ext_effect_def demo_if_def)
  from rewrite_stack_safe [OF c demo_ok(1) m _ this(2,1) _ _ _ r] r show ?thesis
    by (auto simp: demo_if_codes_def demo_engine3_def demo_rengine_def)
qed

end
