(* ===== verification/Arrayv_Command.thy ===== *)
theory Arrayv_Command
  imports Arrayv Rewrite_Stack
begin

text \<open>
  The configuration commands of \<^verbatim>\<open>ngx_http_arrayv_module\<close>. They add codes to the program of the rewrite module: a value is computed on the stack and
  handed to the set handler of the array, or the get handler of the array puts a value on the stack and a variable takes it. The handlers are
  those of \<open>Arrayv\<close>.
\<close>

section \<open>Handlers and codes\<close>

text \<open>
  A handler of a variable is one of this module, whose data is an operation for the index of the array, or another one. Only \<^verbatim>\<open>array_var\<close> installs the handlers of
  this module, both at once; the data of any other variable is none of its operations.
\<close>

datatype 'h av_handler = HAv nat | HVar 'h

datatype av_code = AvSet av_op | AvGet av_op

definition array_index :: "'h av_handler http_variable \<Rightarrow> nat option" where
  "array_index v = (case (var_get_handler v, var_set_handler v) of (Some (HAv i), Some (HAv j)) \<Rightarrow> Some i | _ \<Rightarrow> None)"

text \<open>
  The slots of the array variables are kept apart from the other variables, as the part of the engine that belongs to this module: the context that the slot of an
  array points to is no text, and a template that names the array (which would copy the bytes of the context) or a command that sets it as a plain variable is
  outside the model. \<open>stale\<close> is what the cell of the stack holds: when the get handler fails, it stays there and is pushed all the same, and a code that puts a
  text on the stack leaves the bits of the cell as they were, so the set handler gets them.
\<close>

definition ngx_http_script_var_get_handler_code ::
    "av_pool \<Rightarrow> (av_slot list rengine \<Rightarrow> vvt) \<Rightarrow> av_op \<Rightarrow> av_slot list rengine \<Rightarrow> av_slot list rengine option" where
  "ngx_http_script_var_get_handler_code pool stale op e =
     Option.bind (ngx_http_av_get_handler pool (rn_ext e) (stale e) op) (\<lambda>(rc, slots, v).
       push (SVal \<lparr>vl_data = v_data v, vl_valid = v_valid v, vl_no_cacheable = False, vl_not_found = v_not_found v\<rparr>) (e\<lparr>rn_ext := slots\<rparr>))"

definition av_cell :: "vvt \<Rightarrow> sval \<Rightarrow> bytes \<Rightarrow> vvt" where
  "av_cell old v s =
     (case v of
        SVal w \<Rightarrow> \<lparr>v_data = s, v_valid = vl_valid w, v_not_found = vl_not_found w\<rparr>
      | SBuf _ _ \<Rightarrow> old\<lparr>v_data := s\<rparr>)"

lemma av_cell_data [simp]: "v_data (av_cell old v s) = s"
  by (simp add: av_cell_def split: sval.split)

fun av_run :: "av_pool \<Rightarrow> (av_slot list rengine \<Rightarrow> vvt) \<Rightarrow> av_code \<Rightarrow> av_slot list rengine \<Rightarrow> av_slot list rengine option" where
  "av_run pool stale (AvGet op) e = ngx_http_script_var_get_handler_code pool stale op e"
| "av_run pool stale (AvSet op) e =
     Option.bind (Rewrite.pop e) (\<lambda>(v, e).
     Option.bind (sval_text e v) (\<lambda>s.
       map_option (\<lambda>slots. e\<lparr>rn_ext := slots\<rparr>)
         (ngx_http_av_set_handler pool (rn_ext e) (av_cell (stale e) v s) op)))"

section \<open>The commands\<close>

text \<open>\<^verbatim>\<open>ngx_http_create_main_conf\<close>: the names of the arrays that were declared.\<close>

definition ngx_http_create_main_conf :: "bool \<Rightarrow> bytes list option" where
  "ngx_http_create_main_conf ok = (if ok then Some [] else None)"

text \<open>
  \<^verbatim>\<open>array_var\<close>. The name is compared with the declared ones up to its own length; \<open>behind nm\<close> is the memory behind a name. Memory that could not be allocated for the variable, its
  index or the operation is used all the same (\<open>ok\<close>).
\<close>

definition ngx_http_av_array_var_command ::
    "(nat \<Rightarrow> bool) \<Rightarrow> (bytes \<Rightarrow> bytes) \<Rightarrow> bytes list \<Rightarrow> bytes list \<Rightarrow> 'h av_handler var_conf \<Rightarrow>
      (conf_result \<times> bytes list \<times> 'h av_handler var_conf) option" where
  "ngx_http_av_array_var_command ok behind args avs vc =
     (if length args \<noteq> 2 then Some (Some ''arguments number must  be  1'', avs, vc)
      else
        case ngx_http_get_var_name_str (args ! 1) of
          Inl res \<Rightarrow> Some (Some res, avs, vc)
        | Inr name \<Rightarrow>
            if list_ex (\<lambda>nm. strncmp_eq (nm @ behind nm) name) avs then Some (Some ''found duplicated AV name'', avs, vc)
            else
              case ngx_http_add_variable (ok 0) vc name True of
                (None, vc) \<Rightarrow> None
              | (Some v, vc) \<Rightarrow>
                  (case ngx_http_get_variable_index (ok 1) vc name of
                     (None, vc) \<Rightarrow> None
                   | (Some vi, vc) \<Rightarrow>
                       if \<not> ok 2 then None
                       else
                         let vc = var_set_set_handler v (HAv vi) (var_set_get_handler v (HAv vi) vc) in
                         if \<not> ok 3 then Some (Some ''pushing array_variable to main conf failed'', avs, vc)
                         else Some (None, avs @ [var_name (vc_keys vc ! v)], vc)))"

text \<open>
  The commands that put something into an array. \<open>op_junk\<close> is the delimiter of an operation without one. A variable that is no array is used as one.
\<close>

definition ngx_http_av_in_command ::
    "script_pool \<Rightarrow> bool \<Rightarrow> bool \<Rightarrow> byte \<Rightarrow> av_opflag \<Rightarrow> bytes list \<Rightarrow> ('h av_handler, av_code) rw_loc_conf \<Rightarrow> 'h av_handler var_conf \<Rightarrow>
      ('h av_handler, av_code) command_result" where
  "ngx_http_av_in_command pl ok op_ok op_junk flag args lcf vc =
     (if hd (args ! 1 @ [0]) \<noteq> cb (CHR ''$'') then Some (False, lcf, vc)
      else
        let name = tl (args ! 1) in
        case ngx_http_add_variable ok vc name True of
          (None, vc) \<Rightarrow> Some (False, lcf, vc)
        | (Some v, vc) \<Rightarrow>
            if \<not> op_ok then None
            else
              Option.bind (array_index (vc_keys vc ! v)) (\<lambda>i.
                if 4 < length args then Some (False, lcf, vc)
                else
                  let op = av_opindex flag i (if length args = 4 then hd (args ! 3 @ [0]) else op_junk) in
                  case ngx_http_get_variable_index (sp_index pl name) vc name of
                    (None, vc) \<Rightarrow> Some (False, lcf, vc)
                  | (Some index, vc) \<Rightarrow>
                      then_do (ngx_http_rewrite_value pl (args ! 2) lcf vc) (\<lambda>lcf vc. emit_code pl (CExt (AvSet op)) lcf vc)))"

text \<open>The code that takes the value for the variable of a command that takes something out of an array.\<close>

definition out_code :: "'h av_handler var_conf \<Rightarrow> nat \<Rightarrow> nat \<Rightarrow> ('h av_handler, av_code) code" where
  "out_code vc i index =
     (case var_set_handler (vc_keys vc ! i) of
        Some (HAv j) \<Rightarrow> CExt (AvSet (av_opindex OP_NONE j 0))
      | Some (HVar h) \<Rightarrow> CSetHandler (HVar h)
      | None \<Rightarrow> CSetVar index)"

text \<open>What follows when the operation is known and both variables were declared.\<close>

definition av_out_codes ::
    "script_pool \<Rightarrow> (nat \<Rightarrow> 'h) \<Rightarrow> bytes \<Rightarrow> bytes \<Rightarrow> nat \<Rightarrow> av_op \<Rightarrow> ('h av_handler, av_code) rw_loc_conf \<Rightarrow> 'h av_handler var_conf \<Rightarrow>
      ('h av_handler, av_code) command_result" where
  "av_out_codes pl rewrite_var name arr vout op lcf vc =
     (case ngx_http_get_variable_index (sp_index pl name) vc name of
        (None, vc) \<Rightarrow> Some (False, lcf, vc)
      | (Some index, vc) \<Rightarrow>
          (case ngx_http_get_variable_index (sp_index pl arr) vc arr of
             (None, vc) \<Rightarrow> Some (False, lcf, vc)
           | (Some _, vc) \<Rightarrow>
               let vc = (if var_get_handler (vc_keys vc ! vout) = None \<and> \<not> special_name name
                         then var_set_get_handler vout (HVar (rewrite_var index)) vc else vc)
               in then_do (emit_code pl (CExt (AvGet op)) lcf vc) (\<lambda>lcf vc. emit_code pl (out_code vc vout index) lcf vc)))"

text \<open>The array is used before it is known that both variables could be declared.\<close>

definition ngx_http_av_out_command ::
    "script_pool \<Rightarrow> bool \<Rightarrow> bool \<Rightarrow> bool \<Rightarrow> (nat \<Rightarrow> 'h) \<Rightarrow> byte \<Rightarrow> av_opflag \<Rightarrow> bytes list \<Rightarrow> ('h av_handler, av_code) rw_loc_conf \<Rightarrow>
      'h av_handler var_conf \<Rightarrow> ('h av_handler, av_code) command_result" where
  "ngx_http_av_out_command pl ok1 ok2 op_ok rewrite_var op_junk flag args lcf vc =
     (if hd (args ! 1 @ [0]) \<noteq> cb (CHR ''$'') \<or> hd (args ! 2 @ [0]) \<noteq> cb (CHR ''$'') then Some (False, lcf, vc)
      else
        case ngx_http_add_variable ok1 vc (tl (args ! 1)) True of (vout, vc) \<Rightarrow>
        case ngx_http_add_variable ok2 vc (tl (args ! 2)) True of
          (None, vc) \<Rightarrow> None
        | (Some varray, vc) \<Rightarrow>
            if \<not> op_ok then None
            else
              Option.bind (array_index (vc_keys vc ! varray)) (\<lambda>i.
                let op = av_opindex flag i op_junk in
                if 4 < length args then Some (False, lcf, vc)
                else
                  Option.bind (if length args = 4 then map_option (\<lambda>jx. op\<lparr>op_joinx := jx\<rparr>) (ngx_http_av_readstr (args ! 3)) else Some op) (\<lambda>op.
                    case vout of
                      None \<Rightarrow> Some (False, lcf, vc)
                    | Some vout \<Rightarrow> av_out_codes pl rewrite_var (tl (args ! 1)) (tl (args ! 2)) vout op lcf vc)))"

definition ngx_http_push_var_command where
  "ngx_http_push_var_command pl ok op_ok op_junk args lcf vc = ngx_http_av_in_command pl ok op_ok op_junk OP_HEAD args lcf vc"

definition ngx_http_unshift_var_command where
  "ngx_http_unshift_var_command pl ok op_ok op_junk args lcf vc = ngx_http_av_in_command pl ok op_ok op_junk OP_TAIL args lcf vc"

definition ngx_http_str_to_var_command where
  "ngx_http_str_to_var_command pl ok op_ok op_junk args lcf vc = ngx_http_av_in_command pl ok op_ok op_junk OP_STR args lcf vc"

definition ngx_http_pop_var_command where
  "ngx_http_pop_var_command pl ok1 ok2 op_ok rv op_junk args lcf vc = ngx_http_av_out_command pl ok1 ok2 op_ok rv op_junk OP_HEAD args lcf vc"

definition ngx_http_shift_var_command where
  "ngx_http_shift_var_command pl ok1 ok2 op_ok rv op_junk args lcf vc = ngx_http_av_out_command pl ok1 ok2 op_ok rv op_junk OP_TAIL args lcf vc"

definition ngx_http_print_var_command where
  "ngx_http_print_var_command pl ok1 ok2 op_ok rv op_junk args lcf vc = ngx_http_av_out_command pl ok1 ok2 op_ok rv op_junk OP_LIST args lcf vc"

section \<open>The stack\<close>

fun av_fx :: "av_code \<Rightarrow> (nat \<times> nat) option" where
  "av_fx (AvSet op) = Some (1, 0)"
| "av_fx (AvGet op) = Some (0, 1)"

lemma av_ext_effect: "ev_ext ev = av_run pool stale \<Longrightarrow> ext_effect av_fx ev"
proof -
  assume ev: "ev_ext ev = av_run pool stale"
  have "rn_stack e' = rn_stack e \<and> length (rn_sp e') = length (rn_sp e) - n + k"
    if "av_fx x = Some (n, k)" "av_run pool stale x e = Some e'" for x n k e e'
    using that
    by (cases x) (auto simp: ngx_http_script_var_get_handler_code_def Option.bind_eq_Some_conv Rewrite.pop_def push_def split: if_splits list.splits)
  then show ?thesis unfolding ext_effect_def ev by blast
qed

lemma out_code_facts: "effect av_fx (out_code vc i index) = (1, 0)" "may_skip (out_code vc i index) = 0" "known_effect av_fx (out_code vc i index)"
  by (simp_all add: out_code_def split: option.split av_handler.split)

lemma in_command_emits:
  assumes "ngx_http_av_in_command pl ok op_ok op_junk flag args lcf vc = Some (True, lcf', vc')" and "2 \<le> lim"
  shows "emits av_fx lim lcf lcf' 0 0"
proof -
  let ?name = "tl (args ! 1)"
  obtain vo vc0 where a: "ngx_http_add_variable ok vc ?name True = (vo, vc0)" by fastforce
  obtain io vc1 where b: "ngx_http_get_variable_index (sp_index pl ?name) vc0 ?name = (io, vc1)" by fastforce
  obtain lcf1 vc2 op where v: "ngx_http_rewrite_value pl (args ! 2) lcf vc1 = Some (True, lcf1, vc2)"
    and c: "emit_code pl (CExt (AvSet op)) lcf1 vc2 = Some (True, lcf', vc')"
    using assms(1) a b by (auto simp: ngx_http_av_in_command_def then_do_Some Let_def Option.bind_eq_Some_conv split: if_splits option.splits)
  have "emits av_fx lim lcf1 lcf' (Suc 0) 0"
    using emit_code_emits [OF c, of av_fx lim "Suc 0"] by (simp add: has_room_def depth_after_def)
  with value_emits [OF v, of 0 lim av_fx] emits_trans assms(2) show ?thesis by fastforce
qed

lemma out_codes_emits:
  assumes "av_out_codes pl rv name arr vout op lcf vc = Some (True, lcf', vc')" and "2 \<le> lim"
  shows "emits av_fx lim lcf lcf' 0 0"
proof -
  obtain io vc1 where i1: "ngx_http_get_variable_index (sp_index pl name) vc name = (io, vc1)" by fastforce
  obtain ia vc2 where i2: "ngx_http_get_variable_index (sp_index pl arr) vc1 arr = (ia, vc2)" by fastforce
  obtain vc3 lcf1 vc4 i index where g: "emit_code pl (CExt (AvGet op)) lcf vc3 = Some (True, lcf1, vc4)"
    and c: "emit_code pl (out_code vc4 i index) lcf1 vc4 = Some (True, lcf', vc')"
    using assms(1) i1 i2 by (auto simp: av_out_codes_def then_do_Some Let_def split: option.splits)
  have "emits av_fx lim lcf lcf1 0 1"
    using emit_code_emits [OF g, of av_fx lim 0] assms(2) by (simp add: has_room_def depth_after_def)
  moreover have "emits av_fx lim lcf1 lcf' 1 0"
    using emit_code_emits [OF c, of av_fx lim 1] by (simp add: has_room_def depth_after_def out_code_facts)
  ultimately show ?thesis using emits_trans by blast
qed

lemma out_command_emits:
  assumes "ngx_http_av_out_command pl ok1 ok2 op_ok rv op_junk flag args lcf vc = Some (True, lcf', vc')" and "2 \<le> lim"
  shows "emits av_fx lim lcf lcf' 0 0"
proof -
  obtain vo vc1 where a1: "ngx_http_add_variable ok1 vc (tl (args ! 1)) True = (vo, vc1)" by fastforce
  obtain va vc2 where a2: "ngx_http_add_variable ok2 vc1 (tl (args ! 2)) True = (va, vc2)" by fastforce
  obtain vout op where "av_out_codes pl rv (tl (args ! 1)) (tl (args ! 2)) vout op lcf vc2 = Some (True, lcf', vc')"
    using assms(1) a1 a2 by (auto simp: ngx_http_av_out_command_def Let_def Option.bind_eq_Some_conv split: if_splits option.splits)
  from out_codes_emits [OF this assms(2)] show ?thesis .
qed

section \<open>What the commands do to an array\<close>

text \<open>
  The arrays to which a command can add: every well-formed one, but for \<^verbatim>\<open>push_array\<close> not one in the state in which the branch is taken that reuses a freed slot
  (\<open>arrayv_push_after_pop\<close>).
\<close>

definition put_ctx :: "av_opflag \<Rightarrow> av_vctx \<Rightarrow> bool" where
  "put_ctx flag c \<longleftrightarrow> ctx_wf c \<and> (flag = OP_HEAD \<longrightarrow> \<not> push_reuses c)"

definition put_list :: "av_opflag \<Rightarrow> 'a \<Rightarrow> 'a list \<Rightarrow> 'a list" where
  "put_list flag x l = (if flag = OP_HEAD then l @ [x] else x # l)"

definition take_list :: "av_opflag \<Rightarrow> 'a list \<Rightarrow> 'a list" where
  "take_list flag l = (if flag = OP_HEAD then butlast l else tl l)"

definition taken :: "av_opflag \<Rightarrow> bytes list \<Rightarrow> bytes" where
  "taken flag l = (if l = [] then [] else if flag = OP_HEAD then last l else hd l)"

definition slot_texts :: "av_slot list \<Rightarrow> nat \<Rightarrow> bytes list" where
  "slot_texts slots i = map av_data (slot_list (slots ! i))"

lemma put_step:
  assumes "av_inv (put_ctx flag) pool i slots" and "flag \<in> {OP_HEAD, OP_TAIL}"
  shows "\<exists>slots'. ngx_http_av_set_handler pool slots v (av_opindex flag i d) = Some slots' \<and> av_inv ctx_wf pool i slots' \<and>
    only_slot i slots slots' \<and> slot_texts slots' i = put_list flag (v_data v) (slot_texts slots i)"
proof -
  have e: "put_ctx flag av_ctx_empty" by (simp add: put_ctx_def push_reuses_def)
  have pl: "av_pool_ok pool" using assms(1) by (simp add: av_inv_def)
  have "\<exists>slots'. ngx_http_av_set_handler pool slots v (av_opindex flag i d) = Some slots' \<and> av_inv ctx_wf pool i slots' \<and>
      only_slot i slots slots' \<and> slot_list (slots' ! i) = put_list flag (av_vcopy v) (slot_list (slots ! i))"
  proof (intro set_handler_step [OF assms(1) e])
    show "length (v_data v) < 2 ^ 28 \<or> flag \<noteq> OP_STR" using assms(2) by auto
    fix c
    assume "put_ctx flag c"
    with assms(2) pl av_push_refines [of c pool "av_vcopy v"] av_unshift_refines [of c pool "av_vcopy v"]
    show "\<exists>c'. (case flag of OP_HEAD \<Rightarrow> av_push pool c (av_vcopy v) | OP_TAIL \<Rightarrow> av_unshift pool c (av_vcopy v)
           | OP_STR \<Rightarrow> if d \<in> set (v_data v) \<or> v_data v = [] then Some c else av_push pool c \<lparr>av_data = v_data v, av_valid = True\<rparr>
           | _ \<Rightarrow> Some c) = Some c' \<and> ctx_wf c' \<and> ctx_list c' = put_list flag (av_vcopy v) (ctx_list c)"
      by (auto simp: put_ctx_def put_list_def av_pool_ok_def)
  qed
  then show ?thesis by (auto simp: slot_texts_def put_list_def av_vcopy_def)
qed

lemma take_step:
  assumes "av_inv ctx_wf pool i slots" and "flag \<in> {OP_HEAD, OP_TAIL}"
  shows "\<exists>slots' w. ngx_http_av_get_handler pool slots v (av_opindex flag i d) = Some (NGX_OK, slots', w) \<and> av_inv ctx_wf pool i slots' \<and>
    only_slot i slots slots' \<and> v_data w = taken flag (slot_texts slots i) \<and> slot_texts slots' i = take_list flag (slot_texts slots i)"
proof -
  let ?pick = "if flag = OP_HEAD then last else hd"
  have "\<exists>slots'. ngx_http_av_get_handler pool slots v (av_opindex flag i d) = Some (NGX_OK, slots', deque_get v ?pick (slot_list (slots ! i))) \<and>
      av_inv ctx_wf pool i slots' \<and> only_slot i slots slots' \<and> slot_list (slots' ! i) = take_list flag (slot_list (slots ! i))"
  proof (intro get_handler_step [OF assms(1) ctx_empty(1)])
    show "flag = OP_HEAD \<or> flag = OP_TAIL" using assms(2) by auto
    fix c
    assume "ctx_wf c"
    with assms(2) av_pop_refines [of c v] av_shift_refines [of c v]
    show "\<exists>c'. (if flag = OP_HEAD then av_pop c v else av_shift c v) = Some (NGX_OK, c', deque_get v ?pick (ctx_list c)) \<and> ctx_wf c' \<and>
        ctx_list c' = take_list flag (ctx_list c)"
      by (auto simp: take_list_def deque_get_def)
  qed
  then show ?thesis
    by (auto simp: slot_texts_def taken_def take_list_def deque_get_def map_butlast map_tl last_map hd_map ngx_http_variable_null_value_def
        ngx_http_av_copy_vvt_def)
qed

text \<open>What a command does not touch.\<close>

definition same_frame :: "'q rengine \<Rightarrow> 'q rengine \<Rightarrow> bool" where
  "same_frame e e' \<longleftrightarrow> rn_sp e' = rn_sp e \<and> rn_stack e' = rn_stack e \<and> rn_status e' = rn_status e \<and> rn_req e' = rn_req e"

lemma put_exec:
  assumes "rn_sp e = v # sp" and "sval_text e v = Some s" and "ev_ext ev = av_run pool stale"
    and "ngx_http_av_set_handler pool (rn_ext e) (av_cell (stale (e\<lparr>rn_sp := sp\<rparr>)) v s) op = Some slots'"
  shows "code_step ev (CExt (AvSet op)) e = Some (Skip 0, e\<lparr>rn_sp := sp, rn_ext := slots'\<rparr>)"
proof -
  have "sval_text (e\<lparr>rn_sp := sp\<rparr>) v = sval_text e v" by (simp add: sval_text_def buffer_def split: sval.split)
  with assms show ?thesis by (simp add: continue_with_def Rewrite.pop_def)
qed

lemma put_run:
  fixes ev :: "('a av_handler, av_code, av_slot list) rw_env"
  assumes "rn_sp e1 = w # rn_sp e" and "sval_text e1 w = Some s" and "ev_ext ev = av_run pool stale" and "rengine_ok n e1" and "same_rest e e1"
    and "av_inv (put_ctx flag) pool i (rn_ext e)" and "flag \<in> {OP_HEAD, OP_TAIL}"
  shows "\<exists>e'. en_vars (rn_e e') = en_vars (rn_e e1) \<and> rengine_ok n e' \<and> same_frame e e' \<and> av_inv ctx_wf pool i (rn_ext e') \<and>
    only_slot i (rn_ext e) (rn_ext e') \<and> slot_texts (rn_ext e') i = put_list flag s (slot_texts (rn_ext e) i) \<and>
    (\<forall>rest. run_codes ev (CExt (AvSet (av_opindex flag i d)) # rest) e1 = run_codes ev rest e')"
proof -
  let ?w = "av_cell (stale (e1\<lparr>rn_sp := rn_sp e\<rparr>)) w s"
  have ext: "rn_ext e1 = rn_ext e" using assms(5) by (simp add: same_rest_def)
  obtain slots' where s: "ngx_http_av_set_handler pool (rn_ext e1) ?w (av_opindex flag i d) = Some slots'"
    "av_inv ctx_wf pool i slots'" "only_slot i (rn_ext e) slots'" "slot_texts slots' i = put_list flag s (slot_texts (rn_ext e) i)"
    using put_step [OF assms(6,7), of ?w d] unfolding ext by auto
  show ?thesis using assms(4,5) s(2-4) run_codes_Cons [OF put_exec [OF assms(1,2,3) s(1)]]
    by (intro exI [of _ "e1\<lparr>rn_sp := rn_sp e, rn_ext := slots'\<rparr>"]) (simp add: rengine_ok_def same_rest_def same_frame_def)
qed

lemma take_exec:
  assumes "ev_ext ev = av_run pool stale" and "length (rn_sp e) < rn_stack e"
    and "ngx_http_av_get_handler pool (rn_ext e) (stale e) op = Some (rc, slots', w)"
  shows "code_step ev (CExt (AvGet op)) e =
    Some (Skip 0, e\<lparr>rn_ext := slots', rn_sp := SVal \<lparr>vl_data = v_data w, vl_valid = v_valid w, vl_no_cacheable = False, vl_not_found = v_not_found w\<rparr> # rn_sp e\<rparr>)"
  using assms by (simp add: continue_with_def ngx_http_script_var_get_handler_code_def push_def)

text \<open>An array of the configuration.\<close>

definition declared :: "bytes \<Rightarrow> nat \<Rightarrow> 'h av_handler var_conf \<Rightarrow> bool" where
  "declared arr i vc \<longleftrightarrow>
     (\<exists>v. name_find arr (map var_name (vc_keys vc)) = Some v \<and> v < length (vc_keys vc) \<and> var_changeable (vc_keys vc ! v) \<and> array_index (vc_keys vc ! v) = Some i)"

lemma index_given:
  assumes "0 \<notin> set name"
  obtains index vc' where "ngx_http_get_variable_index True vc name = (Some index, vc')" and "name_find name (vc_indexed vc') = Some index"
    and "vc_keys vc' = vc_keys vc" and "\<exists>extra. vc_indexed vc' = vc_indexed vc @ extra" and "index < length (vc_indexed vc')"
proof (cases "name_find name (vc_indexed vc)")
  case None
  then show ?thesis using that name_find_new [OF None assms] by (simp add: ngx_http_get_variable_index_def)
next
  case (Some i)
  then show ?thesis using that name_find_Some [OF Some assms] by (simp add: ngx_http_get_variable_index_def)
qed

text \<open>
  C13. The commands \<^verbatim>\<open>push_array\<close> and \<^verbatim>\<open>unshift_array\<close> on a declared array compile into codes that put the text of the template behind or before the elements
  of the array, whatever well-formed state it is in, except that a push must not meet the branch that reuses a freed slot (\<open>put_ctx\<close>). They evaluate each variable
  of the template at most once and leave the slots of the other arrays, the stack, the status and the request as they were. The engine they run in has room for one
  value on its stack, no variable that cannot be cached, get handlers that mark their value as valid or not found (\<open>env_ok\<close>), and the pool serves every allocation.
\<close>

theorem array_put:
  assumes "pool_ok pl" and "parts_ok ps" and "part_name_ok arr" and "declared arr i vc" and "flag \<in> {OP_HEAD, OP_TAIL}"
  shows "\<exists>lcf' vc' seg.
    ngx_http_av_in_command pl True True op_junk flag [cmd, cb (CHR ''$'') # arr, print_template ps] lcf vc = Some (True, lcf', vc') \<and>
    codes_of lcf' = codes_of lcf @ seg \<and>
    (\<forall>ev n (e :: av_slot list rengine) pool stale. env_ok ev \<and> ev_ext ev = av_run pool stale \<and> rengine_ok n e \<and> length (vc_indexed vc') \<le> n \<and>
      length (rn_sp e) < rn_stack e \<and> av_inv (put_ctx flag) pool i (rn_ext e) \<longrightarrow>
      (\<exists>e'. settles (en_vars (rn_e e)) (en_vars (rn_e e')) \<and> rengine_ok n e' \<and> same_frame e e' \<and> av_inv ctx_wf pool i (rn_ext e') \<and> only_slot i (rn_ext e) (rn_ext e') \<and>
        slot_texts (rn_ext e') i =
          put_list flag (concat (map (part_text (vc_indexed vc') (en_vars (rn_e e'))) ps)) (slot_texts (rn_ext e) i) \<and>
        (\<forall>rest. run_codes ev (seg @ rest) e = run_codes ev rest e')))"
proof -
  have n0: "0 \<notin> set arr" using assms(3) name_chars(1) by (auto simp: part_name_ok_def list_all_iff)
  obtain v where v: "ngx_http_add_variable True vc arr True = (Some v, vc)" "array_index (vc_keys vc ! v) = Some i"
    using assms(4) by (auto simp: declared_def ngx_http_add_variable_def)
  obtain index vc1 where index: "ngx_http_get_variable_index True vc arr = (Some index, vc1)"
    using index_given [OF n0, of vc] by blast
  obtain lcf1 vc' seg extra where x: "ngx_http_rewrite_value pl (print_template ps) lcf vc1 = Some (True, lcf1, vc')"
    "codes_of lcf1 = codes_of lcf @ seg"
    "\<And>(ev :: ('a av_handler, av_code, av_slot list) rw_env) n (e :: av_slot list rengine).
      \<lbrakk>env_ok ev; rengine_ok n e; length (vc_indexed vc') \<le> n; length (rn_sp e) < rn_stack e\<rbrakk> \<Longrightarrow>
      \<exists>vars' e' v. settles (en_vars (rn_e e)) vars' \<and> en_vars (rn_e e') = vars' \<and> rengine_ok n e' \<and> same_rest e e' \<and>
        rn_sp e' = v # rn_sp e \<and> sval_text e' v = Some (concat (map (part_text (vc_indexed vc') vars') ps)) \<and>
        (\<forall>rest. run_codes ev (seg @ rest) e = run_codes ev rest e')"
    by (rule value_exec [OF assms(1,2), of lcf vc1]) blast
  let ?op = "av_opindex flag i op_junk"
  let ?lcf' = "lcf1\<lparr>lc_codes := Some (codes_of lcf1 @ [CExt (AvSet ?op)])\<rparr>"
  have c: "ngx_http_av_in_command pl True True op_junk flag [cmd, cb (CHR ''$'') # arr, print_template ps] lcf vc = Some (True, ?lcf', vc')"
    using assms(1) v index x(1)
    by (simp add: ngx_http_av_in_command_def then_do_def emit_code_def ngx_http_script_start_code_def pool_ok_def Let_def)
  have "\<exists>e'. settles (en_vars (rn_e e)) (en_vars (rn_e e')) \<and> rengine_ok n e' \<and> same_frame e e' \<and> av_inv ctx_wf pool i (rn_ext e') \<and> only_slot i (rn_ext e) (rn_ext e') \<and>
        slot_texts (rn_ext e') i =
          put_list flag (concat (map (part_text (vc_indexed vc') (en_vars (rn_e e'))) ps)) (slot_texts (rn_ext e) i) \<and>
        (\<forall>rest. run_codes ev ((seg @ [CExt (AvSet ?op)]) @ rest) e = run_codes ev rest e')"
    if e: "env_ok ev" "ev_ext ev = av_run pool stale" "rengine_ok n e" "length (vc_indexed vc') \<le> n" "length (rn_sp e) < rn_stack e"
      "av_inv (put_ctx flag) pool i (rn_ext e)" for ev :: "('a av_handler, av_code, av_slot list) rw_env" and n e pool stale
  proof -
    obtain e1 w where e1: "settles (en_vars (rn_e e)) (en_vars (rn_e e1))" "rengine_ok n e1" "same_rest e e1" "rn_sp e1 = w # rn_sp e"
      "sval_text e1 w = Some (concat (map (part_text (vc_indexed vc') (en_vars (rn_e e1))) ps))"
      "\<And>rest. run_codes ev (seg @ rest) e = run_codes ev rest e1"
      using x(3) [OF e(1,3,4,5)] by blast
    obtain e' where "en_vars (rn_e e') = en_vars (rn_e e1)" "rengine_ok n e'" "same_frame e e'" "av_inv ctx_wf pool i (rn_ext e')"
      "only_slot i (rn_ext e) (rn_ext e')"
      "slot_texts (rn_ext e') i = put_list flag (concat (map (part_text (vc_indexed vc') (en_vars (rn_e e1))) ps)) (slot_texts (rn_ext e) i)"
      "\<And>rest. run_codes ev (CExt (AvSet ?op) # rest) e1 = run_codes ev rest e'"
      using put_run [OF e1(4,5) e(2) e1(2,3) e(6) assms(5), of op_junk] by blast
    with e1(1,6) show ?thesis by (intro exI [of _ e']) simp
  qed
  with c x(2) show ?thesis by (intro exI [of _ ?lcf'] exI [of _ vc'] exI [of _ "seg @ [CExt (AvSet ?op)]"]) (auto simp: codes_of_def)
qed

lemma out_declared:
  assumes "declared arr i vc" and "0 \<notin> set name"
    and "\<forall>k. name_find name (map var_name (vc_keys vc)) = Some k \<longrightarrow> var_changeable (vc_keys vc ! k) \<and> var_set_handler (vc_keys vc ! k) = None"
  obtains vout vc1 varray where "ngx_http_add_variable True vc name True = (Some vout, vc1)" and "vout < length (vc_keys vc1)"
    and "var_set_handler (vc_keys vc1 ! vout) = None" and "ngx_http_add_variable True vc1 arr True = (Some varray, vc1)"
    and "array_index (vc_keys vc1 ! varray) = Some i"
proof -
  obtain v where v: "name_find arr (map var_name (vc_keys vc)) = Some v" "v < length (vc_keys vc)" "var_changeable (vc_keys vc ! v)"
    "array_index (vc_keys vc ! v) = Some i"
    using assms(1) by (auto simp: declared_def)
  obtain vout vc1 where o: "ngx_http_add_variable True vc name True = (Some vout, vc1)" "vout < length (vc_keys vc1)"
    "var_set_handler (vc_keys vc1 ! vout) = None" "\<exists>more. vc_keys vc1 = vc_keys vc @ more"
    using assms(3) name_find_Some [OF _ assms(2), of "map var_name (vc_keys vc)"]
    by (cases "name_find name (map var_name (vc_keys vc))") (auto simp: ngx_http_add_variable_def)
  then obtain more where m: "vc_keys vc1 = vc_keys vc @ more" by blast
  have "name_find arr (map var_name (vc_keys vc1)) = Some v" using name_find_append [OF v(1)] m by simp
  then have "ngx_http_add_variable True vc1 arr True = (Some v, vc1)" "array_index (vc_keys vc1 ! v) = Some i"
    using v(2-4) m by (simp_all add: ngx_http_add_variable_def nth_append)
  with o that show ?thesis by blast
qed

lemma take_run:
  fixes ev :: "('a av_handler, av_code, av_slot list) rw_env"
  assumes "ev_ext ev = av_run pool stale" and "rengine_ok n e" and "length (rn_sp e) < rn_stack e" and "av_inv ctx_wf pool i (rn_ext e)"
    and "flag \<in> {OP_HEAD, OP_TAIL}" and "index < n"
  shows "\<exists>e'. en_vars (rn_e e') = (en_vars (rn_e e))[index := null_value\<lparr>vl_data := taken flag (slot_texts (rn_ext e) i)\<rparr>] \<and>
    rengine_ok n e' \<and> same_frame e e' \<and> av_inv ctx_wf pool i (rn_ext e') \<and> only_slot i (rn_ext e) (rn_ext e') \<and>
    slot_texts (rn_ext e') i = take_list flag (slot_texts (rn_ext e) i) \<and>
    (\<forall>rest. run_codes ev (CExt (AvGet (av_opindex flag i d)) # CSetVar index # rest) e = run_codes ev rest e')"
proof -
  obtain slots' w where s: "ngx_http_av_get_handler pool (rn_ext e) (stale e) (av_opindex flag i d) = Some (NGX_OK, slots', w)" "av_inv ctx_wf pool i slots'"
    "only_slot i (rn_ext e) slots'" "v_data w = taken flag (slot_texts (rn_ext e) i)" "slot_texts slots' i = take_list flag (slot_texts (rn_ext e) i)"
    using take_step [OF assms(4,5)] by blast
  let ?v = "SVal \<lparr>vl_data = v_data w, vl_valid = v_valid w, vl_no_cacheable = False, vl_not_found = v_not_found w\<rparr>"
  let ?e1 = "e\<lparr>rn_ext := slots', rn_sp := ?v # rn_sp e\<rparr>" and ?vars = "(en_vars (rn_e e))[index := null_value\<lparr>vl_data := v_data w\<rparr>]"
  have step: "code_step ev (CSetVar index) ?e1 = Some (Skip 0, ?e1\<lparr>rn_sp := rn_sp e, rn_e := (rn_e e)\<lparr>en_vars := ?vars\<rparr>\<rparr>)"
    using set_var_exec [of ?e1 ?v "rn_sp e" "v_data w" n index ev] assms(2,6) by (simp add: sval_text_def rengine_ok_def)
  have "cached ?vars" using assms(2) by (intro cached_update) (simp_all add: rengine_ok_def null_value_def)
  then show ?thesis
    using assms(2) s(2-5) run_codes_Cons [OF take_exec [OF assms(1,3) s(1)]] run_codes_Cons [OF step]
    by (intro exI [of _ "?e1\<lparr>rn_sp := rn_sp e, rn_e := (rn_e e)\<lparr>en_vars := ?vars\<rparr>\<rparr>"]) (simp add: rengine_ok_def same_frame_def)
qed

text \<open>
  C14. The commands \<^verbatim>\<open>pop_array\<close> and \<^verbatim>\<open>shift_array\<close> compile into codes that take the last or the first element from a declared array, whatever well-formed state it
  is in, and give it to the variable, or give it the empty text when the array has none. They change no other variable and leave the slots of the other arrays, the
  stack, the status and the request as they were. The variable is one that can be changed and has no set handler, the stack has room for one value and the pool
  serves every allocation.
\<close>

theorem array_take:
  assumes "pool_ok pl" and "part_name_ok name" and "part_name_ok arr" and "declared arr i vc"
    and "\<forall>k. name_find name (map var_name (vc_keys vc)) = Some k \<longrightarrow> var_changeable (vc_keys vc ! k) \<and> var_set_handler (vc_keys vc ! k) = None"
    and "flag \<in> {OP_HEAD, OP_TAIL}"
  shows "\<exists>lcf' vc' seg index.
    ngx_http_av_out_command pl True True True rv op_junk flag [cmd, cb (CHR ''$'') # name, cb (CHR ''$'') # arr] lcf vc = Some (True, lcf', vc') \<and>
    codes_of lcf' = codes_of lcf @ seg \<and> name_find name (vc_indexed vc') = Some index \<and>
    (\<forall>ev n (e :: av_slot list rengine) pool stale. ev_ext ev = av_run pool stale \<and> rengine_ok n e \<and> length (vc_indexed vc') \<le> n \<and>
      length (rn_sp e) < rn_stack e \<and> av_inv ctx_wf pool i (rn_ext e) \<longrightarrow>
      (\<exists>e'. en_vars (rn_e e') = (en_vars (rn_e e))[index := null_value\<lparr>vl_data := taken flag (slot_texts (rn_ext e) i)\<rparr>] \<and>
        rengine_ok n e' \<and> same_frame e e' \<and> av_inv ctx_wf pool i (rn_ext e') \<and> only_slot i (rn_ext e) (rn_ext e') \<and>
        slot_texts (rn_ext e') i = take_list flag (slot_texts (rn_ext e) i) \<and>
        (\<forall>rest. run_codes ev (seg @ rest) e = run_codes ev rest e')))"
proof -
  have n0: "0 \<notin> set name" "0 \<notin> set arr"
    using assms(2,3) name_chars(1) by (auto simp: part_name_ok_def list_all_iff)
  obtain vout vc1 varray where v: "ngx_http_add_variable True vc name True = (Some vout, vc1)" "vout < length (vc_keys vc1)"
    "var_set_handler (vc_keys vc1 ! vout) = None" "ngx_http_add_variable True vc1 arr True = (Some varray, vc1)"
    "array_index (vc_keys vc1 ! varray) = Some i"
    using out_declared [OF assms(4) n0(1) assms(5)] .
  obtain index vc2 where index: "ngx_http_get_variable_index True vc1 name = (Some index, vc2)" "name_find name (vc_indexed vc2) = Some index"
    "vc_keys vc2 = vc_keys vc1" "index < length (vc_indexed vc2)"
    using index_given [OF n0(1), of vc1] by blast
  obtain ia vc3 where ia: "ngx_http_get_variable_index True vc2 arr = (Some ia, vc3)" "vc_keys vc3 = vc_keys vc2" "\<exists>extra. vc_indexed vc3 = vc_indexed vc2 @ extra"
    using index_given [OF n0(2), of vc2] by blast
  define vc' where "vc' = (if var_get_handler (vc_keys vc3 ! vout) = None \<and> \<not> special_name name
    then var_set_get_handler vout (HVar (rv index)) vc3 else vc3)"
  have vc': "vc_indexed vc' = vc_indexed vc3" "var_set_handler (vc_keys vc' ! vout) = None"
    using v(2,3) index(3) ia(2) by (simp_all add: vc'_def var_set_get_handler_def)
  have known: "name_find name (vc_indexed vc') = Some index" "index < length (vc_indexed vc')"
    using index(2,4) ia(3) vc'(1) name_find_append by auto
  let ?op = "av_opindex flag i op_junk"
  let ?seg = "[CExt (AvGet ?op), CSetVar index] :: ('a av_handler, av_code) code list"
  let ?lcf' = "lcf\<lparr>lc_codes := Some (codes_of lcf @ ?seg)\<rparr>"
  have "av_out_codes pl rv name arr vout ?op lcf vc1 = Some (True, ?lcf', vc')"
    using assms(1) index(1) ia(1) vc'(2)
    by (simp add: av_out_codes_def vc'_def [symmetric] then_do_def emit_code_def ngx_http_script_start_code_def pool_ok_def out_code_def codes_of_def Let_def)
  then have c: "ngx_http_av_out_command pl True True True rv op_junk flag [cmd, cb (CHR ''$'') # name, cb (CHR ''$'') # arr] lcf vc = Some (True, ?lcf', vc')"
    using v(1,4,5) by (simp add: ngx_http_av_out_command_def Let_def)
  have "\<exists>e'. en_vars (rn_e e') = (en_vars (rn_e e))[index := null_value\<lparr>vl_data := taken flag (slot_texts (rn_ext e) i)\<rparr>] \<and>
        rengine_ok n e' \<and> same_frame e e' \<and> av_inv ctx_wf pool i (rn_ext e') \<and> only_slot i (rn_ext e) (rn_ext e') \<and> slot_texts (rn_ext e') i = take_list flag (slot_texts (rn_ext e) i) \<and>
        (\<forall>rest. run_codes ev (?seg @ rest) e = run_codes ev rest e')"
    if "ev_ext ev = av_run pool stale" "rengine_ok n e" "length (vc_indexed vc') \<le> n" "length (rn_sp e) < rn_stack e"
      "av_inv ctx_wf pool i (rn_ext e)" for ev :: "('a av_handler, av_code, av_slot list) rw_env" and n e pool stale
    using take_run [OF that(1,2,4,5) assms(6), of index op_junk] known(2) that(3) by simp
  with c known(1) show ?thesis
    by (intro exI [of _ ?lcf'] exI [of _ vc'] exI [of _ ?seg] exI [of _ index]) (auto simp: codes_of_def)
qed

text \<open>What \<^verbatim>\<open>array_var\<close> declares is an array for the other commands.\<close>

lemma array_var_declares:
  assumes "ngx_http_av_array_var_command ok behind [cmd, cb (CHR ''$'') # name] avs vc = Some (None, avs', vc')" and "0 \<notin> set name"
  shows "\<exists>i. declared name i vc' \<and> i < length (vc_indexed vc')"
proof -
  obtain v vc1 where v: "ngx_http_add_variable (ok 0) vc name True = (Some v, vc1)"
    using assms(1) by (auto simp: ngx_http_av_array_var_command_def ngx_http_get_var_name_str_def split: if_splits prod.splits option.splits)
  obtain vi vc2 where vi: "ngx_http_get_variable_index (ok 1) vc1 name = (Some vi, vc2)"
    using assms(1) v by (auto simp: ngx_http_av_array_var_command_def ngx_http_get_var_name_str_def split: if_splits prod.splits option.splits)
  have vc': "vc' = var_set_set_handler v (HAv vi) (var_set_get_handler v (HAv vi) vc2)"
    using assms(1) v vi by (auto simp: ngx_http_av_array_var_command_def ngx_http_get_var_name_str_def Let_def split: if_splits)
  have k: "name_find name (map var_name (vc_keys vc1)) = Some v" "v < length (vc_keys vc1)" "var_changeable (vc_keys vc1 ! v)"
    using v name_find_Some [OF _ assms(2), of "map var_name (vc_keys vc)"] name_find_new [OF _ assms(2), of "map var_name (vc_keys vc)"]
    by (auto simp: ngx_http_add_variable_def split: option.splits if_splits)
  have i: "vc_keys vc2 = vc_keys vc1" "vi < length (vc_indexed vc2)"
    using vi name_find_Some [OF _ assms(2), of "vc_indexed vc1"] by (auto simp: ngx_http_get_variable_index_def split: option.splits if_splits)
  let ?x = "(vc_keys vc1 ! v)\<lparr>var_get_handler := Some (HAv vi), var_set_handler := Some (HAv vi)\<rparr>"
  have keys: "vc_keys vc' = (vc_keys vc1)[v := ?x]" "vc_indexed vc' = vc_indexed vc2"
    using k(2) i(1) by (simp_all add: vc' var_set_set_handler_def var_set_get_handler_def)
  have "map var_name ((vc_keys vc1)[v := ?x]) = map var_name (vc_keys vc1)"
    using k(2) by (simp add: map_update list_update_same_conv)
  with k i(2) keys show ?thesis by (intro exI [of _ vi]) (simp add: declared_def array_index_def)
qed

section \<open>An example\<close>

text \<open>An array \<^verbatim>\<open>a\<close> with one element; \<^verbatim>\<open>push_array $a $b!\<close> and \<^verbatim>\<open>shift_array $z $a\<close>.\<close>

definition demo_av_conf :: "unit av_handler var_conf" where
  "demo_av_conf =
     \<lparr>vc_keys = [\<lparr>var_name = bs ''a'', var_set_handler = Some (HAv 3), var_get_handler = Some (HAv 3), var_changeable = True\<rparr>],
      vc_indexed = [bs ''name'', bs ''b'', bs ''z'', bs ''a'']\<rparr>"

definition demo_av_env :: "(unit av_handler, av_code, av_slot list) rw_env" where
  "demo_av_env =
     \<lparr>ev_gh = demo_handler, ev_nc = \<lambda>_. False, ev_set = \<lambda>_ _ vars. vars, ev_regex = \<lambda>_ _. RNoMatch, ev_file = \<lambda>_. None, ev_palloc = \<lambda>_. True,
      ev_list_push = True, ev_stale = \<lambda>_. null_value, ev_ext = av_run pool_unlimited (\<lambda>_. ngx_http_variable_null_value)\<rparr>"

definition demo_av_slots :: "av_slot list" where
  "demo_av_slots =
     replicate 3 slot_unset @
     [\<lparr>s_len = 16, s_data = SCtx (av_ctx_empty\<lparr>sft := elt_rep [] [\<lparr>av_data = bs ''q'', av_valid = True\<rparr>]\<rparr>), s_valid = True, s_not_found = False\<rparr>]"

definition demo_av_engine :: "av_slot list rengine" where
  "demo_av_engine =
     \<lparr>rn_e = blank_engine\<lparr>en_vars := demo_vars @ [null_value, null_value]\<rparr>, rn_bufs = [], rn_sp = [], rn_stack = 10, rn_status = NGX_DECLINED,
      rn_req = demo_request (bs ''/''), rn_ext = demo_av_slots\<rparr>"

lemma demo_av_ok:
  "declared (bs ''a'') 3 demo_av_conf" "env_ok demo_av_env" "ev_ext demo_av_env = av_run pool_unlimited (\<lambda>_. ngx_http_variable_null_value)"
  "rengine_ok 4 demo_av_engine" "length (rn_sp demo_av_engine) < rn_stack demo_av_engine"
  "av_inv ctx_wf pool_unlimited 3 (rn_ext demo_av_engine)" "slot_texts (rn_ext demo_av_engine) 3 = [bs ''q'']"
  "part_name_ok (bs ''a'')" "part_name_ok (bs ''z'')" "av_inv (put_ctx OP_HEAD) pool_unlimited 3 (rn_ext demo_av_engine)"
proof -
  show "declared (bs ''a'') 3 demo_av_conf" by (simp add: declared_def demo_av_conf_def array_index_def ngx_tolower_def)
  show "env_ok demo_av_env"
    using demo_ok(2) by (auto simp: env_ok_def demo_av_env_def caching_handlers_def demo_handler_def)
  show "av_inv ctx_wf pool_unlimited 3 (rn_ext demo_av_engine)" "av_inv (put_ctx OP_HEAD) pool_unlimited 3 (rn_ext demo_av_engine)"
    by (simp_all add: av_inv_def demo_av_engine_def demo_av_slots_def slot_inv_def put_ctx_def push_reuses_def ctx_wf_def av_pool_ok_def av_ctx_empty_def elt_empty_rep
        pool_unlimited_def nth_append)
  show "slot_texts (rn_ext demo_av_engine) 3 = [bs ''q'']"
    by (simp add: slot_texts_def demo_av_engine_def demo_av_slots_def slot_list_def ctx_list_def av_ctx_empty_def elt_empty_rep nth_append)
qed (simp_all add: demo_av_env_def demo_av_engine_def rengine_ok_def blank_engine_def cached_def demo_vars_def null_value_def part_name_ok_def is_name_char_def)

theorem array_put_witness:
  "\<exists>lcf' vc' seg e'. ngx_http_av_in_command demo_pool True True 0 OP_HEAD [bs ''push_array'', bs ''$a'', bs ''$b!''] \<lparr>lc_codes = None, lc_captures = 0\<rparr>
      demo_av_conf = Some (True, lcf', vc') \<and> codes_of lcf' = seg \<and>
    run_codes demo_av_env (seg @ [CNull]) demo_av_engine = run_codes demo_av_env [CNull] e' \<and> slot_texts (rn_ext e') 3 = [bs ''q'', bs ''7!'']"
proof -
  let ?ps = "[PVar (bs ''b''), PText (bs ''!'')]" and ?lcf = "\<lparr>lc_codes = None, lc_captures = 0\<rparr> :: (unit av_handler, av_code) rw_loc_conf"
  have ok: "parts_ok ?ps" by (simp add: part_name_ok_def is_name_char_def)
  obtain lcf' vc' seg where c: "ngx_http_av_in_command demo_pool True True 0 OP_HEAD [bs ''push_array'', cb (CHR ''$'') # bs ''a'', print_template ?ps] ?lcf demo_av_conf =
      Some (True, lcf', vc')" "codes_of lcf' = codes_of ?lcf @ seg"
    and run: "\<forall>ev n (e :: av_slot list rengine) pool stale. env_ok ev \<and> ev_ext ev = av_run pool stale \<and> rengine_ok n e \<and> length (vc_indexed vc') \<le> n \<and>
      length (rn_sp e) < rn_stack e \<and> av_inv (put_ctx OP_HEAD) pool 3 (rn_ext e) \<longrightarrow>
      (\<exists>e'. settles (en_vars (rn_e e)) (en_vars (rn_e e')) \<and> rengine_ok n e' \<and> same_frame e e' \<and> av_inv ctx_wf pool 3 (rn_ext e') \<and> only_slot 3 (rn_ext e) (rn_ext e') \<and>
        slot_texts (rn_ext e') 3 =
          put_list OP_HEAD (concat (map (part_text (vc_indexed vc') (en_vars (rn_e e'))) ?ps)) (slot_texts (rn_ext e) 3) \<and>
        (\<forall>rest. run_codes ev (seg @ rest) e = run_codes ev rest e'))"
    using array_put [OF demo_ok(1) ok demo_av_ok(8,1), of OP_HEAD 0 "bs ''push_array''" ?lcf] by auto
  have vc': "vc_indexed vc' = vc_indexed demo_av_conf"
  proof -
    have "map_option (vc_indexed \<circ> snd \<circ> snd) (ngx_http_av_in_command demo_pool True True 0 OP_HEAD
        [bs ''push_array'', cb (CHR ''$'') # bs ''a'', print_template ?ps] ?lcf demo_av_conf) = Some (vc_indexed demo_av_conf)" by code_simp
    with c(1) show ?thesis by simp
  qed
  have "length (vc_indexed vc') \<le> 4" unfolding vc' by (simp add: demo_av_conf_def)
  with run demo_av_ok(2-5,10) obtain e' where e': "settles (en_vars (rn_e demo_av_engine)) (en_vars (rn_e e'))"
    "slot_texts (rn_ext e') 3 =
      put_list OP_HEAD (concat (map (part_text (vc_indexed vc') (en_vars (rn_e e'))) ?ps)) (slot_texts (rn_ext demo_av_engine) 3)"
    "\<And>rest. run_codes demo_av_env (seg @ rest) demo_av_engine = run_codes demo_av_env rest e'"
    by blast
  have "en_vars (rn_e e') = demo_vars @ [null_value, null_value]"
    using settles_valid [OF e'(1)] by (simp add: demo_vars_def demo_av_engine_def null_value_def)
  then have "slot_texts (rn_ext e') 3 = [bs ''q'', bs ''7!'']"
    using e'(2) demo_av_ok(7) unfolding vc'
    by (simp add: put_list_def demo_av_conf_def ngx_tolower_def var_text_def value_text_def demo_vars_def)
  with c e'(3) show ?thesis
    by (intro exI [of _ lcf'] exI [of _ vc'] exI [of _ seg] exI [of _ e']) (simp add: codes_of_def)
qed

theorem array_take_witness:
  "\<exists>lcf' vc' seg e'. ngx_http_av_out_command demo_pool True True True (\<lambda>_. ()) 0 OP_TAIL [bs ''shift_array'', bs ''$z'', bs ''$a''] \<lparr>lc_codes = None, lc_captures = 0\<rparr>
      demo_av_conf = Some (True, lcf', vc') \<and> codes_of lcf' = seg \<and>
    run_codes demo_av_env (seg @ [CNull]) demo_av_engine = run_codes demo_av_env [CNull] e' \<and> vl_data (en_vars (rn_e e') ! 2) = bs ''q''"
proof -
  let ?lcf = "\<lparr>lc_codes = None, lc_captures = 0\<rparr> :: (unit av_handler, av_code) rw_loc_conf"
  have free: "\<forall>k. name_find (bs ''z'') (map var_name (vc_keys demo_av_conf)) = Some k \<longrightarrow>
      var_changeable (vc_keys demo_av_conf ! k) \<and> var_set_handler (vc_keys demo_av_conf ! k) = None"
    by (simp add: demo_av_conf_def ngx_tolower_def)
  obtain lcf' vc' seg index where c: "ngx_http_av_out_command demo_pool True True True (\<lambda>_. ()) 0 OP_TAIL
      [bs ''shift_array'', cb (CHR ''$'') # bs ''z'', cb (CHR ''$'') # bs ''a''] ?lcf demo_av_conf = Some (True, lcf', vc')" "codes_of lcf' = codes_of ?lcf @ seg"
      "name_find (bs ''z'') (vc_indexed vc') = Some index"
    and run: "\<forall>ev n (e :: av_slot list rengine) pool stale. ev_ext ev = av_run pool stale \<and> rengine_ok n e \<and> length (vc_indexed vc') \<le> n \<and>
      length (rn_sp e) < rn_stack e \<and> av_inv ctx_wf pool 3 (rn_ext e) \<longrightarrow>
      (\<exists>e'. en_vars (rn_e e') = (en_vars (rn_e e))[index := null_value\<lparr>vl_data := taken OP_TAIL (slot_texts (rn_ext e) 3)\<rparr>] \<and>
        rengine_ok n e' \<and> same_frame e e' \<and> av_inv ctx_wf pool 3 (rn_ext e') \<and> only_slot 3 (rn_ext e) (rn_ext e') \<and> slot_texts (rn_ext e') 3 = take_list OP_TAIL (slot_texts (rn_ext e) 3) \<and>
        (\<forall>rest. run_codes ev (seg @ rest) e = run_codes ev rest e'))"
    using array_take [OF demo_ok(1) demo_av_ok(9,8,1) free, of OP_TAIL "\<lambda>_. ()" 0 "bs ''shift_array''" ?lcf] by blast
  have "map_option (vc_indexed \<circ> snd \<circ> snd) (ngx_http_av_out_command demo_pool True True True (\<lambda>_. ()) 0 OP_TAIL
        [bs ''shift_array'', cb (CHR ''$'') # bs ''z'', cb (CHR ''$'') # bs ''a''] ?lcf demo_av_conf) = Some (vc_indexed demo_av_conf)" by code_simp
  with c(1) have vc': "vc_indexed vc' = vc_indexed demo_av_conf" by simp
  have index: "index = 2" using c(3) unfolding vc' by (simp add: demo_av_conf_def ngx_tolower_def)
  have "length (vc_indexed vc') \<le> 4" unfolding vc' by (simp add: demo_av_conf_def)
  with run demo_av_ok(3-6) obtain e' where
    "en_vars (rn_e e') = (en_vars (rn_e demo_av_engine))[index := null_value\<lparr>vl_data := taken OP_TAIL (slot_texts (rn_ext demo_av_engine) 3)\<rparr>]"
    "\<And>rest. run_codes demo_av_env (seg @ rest) demo_av_engine = run_codes demo_av_env rest e'"
    by blast
  with c index demo_av_ok(7) show ?thesis
    by (intro exI [of _ lcf'] exI [of _ vc'] exI [of _ seg] exI [of _ e']) (simp add: codes_of_def taken_def demo_av_engine_def demo_vars_def)
qed

text \<open>
  Printing an empty array fails in the handler; the code pushes the cell of the stack all the same, so the variable gets whatever an earlier
  command left there.
\<close>

lemma array_print_stale:
  assumes "slot_ctx (av_slot_init (rn_ext e ! i)) = Some av_ctx_empty" and "i < length (rn_ext e)" and "length (rn_sp e) < rn_stack e" and "pl_fresh pool"
  shows "\<exists>e' v. av_run pool stale (AvGet ((av_opindex OP_LIST i d)\<lparr>op_joinx := jx\<rparr>)) e = Some e' \<and> rn_sp e' = SVal v # rn_sp e \<and> vl_data v = v_data (stale e)"
  using assms
  by (simp add: ngx_http_script_var_get_handler_code_def ngx_http_av_get_handler_def av_opindex_def av_list_def push_def av_ctx_empty_def av_elt_empty_def Let_def)

text \<open>A command on a variable that is no array reads its data as an operation.\<close>

lemma array_undeclared:
  "ngx_http_av_in_command demo_pool True True 0 OP_HEAD [bs ''push_array'', bs ''$a'', bs ''x''] \<lparr>lc_codes = None, lc_captures = 0\<rparr>
     (\<lparr>vc_keys = [], vc_indexed = []\<rparr> :: unit av_handler var_conf) = None"
  by (simp add: ngx_http_av_in_command_def ngx_http_add_variable_def array_index_def Let_def)

end
