(* ===== verification/Memcached_More.thy ===== *)
theory Memcached_More
  imports Ngx_Codec Hash_Util Variables
begin

text \<open>
  \<^verbatim>\<open>ngx_http_memcached_more_module\<close>: a location whose content is a value kept on a memcached server, between a
  prefix and a suffix that are variables. The module sends a request, reads the first line of the reply and filters the bytes that
  follow, in whatever pieces they arrive. The upstream engine of nginx that calls it is modelled as far as it feeds the
  filter (\<^verbatim>\<open>http/ngx_http_upstream.c\<close>).
\<close>

section \<open>State\<close>

text \<open>An unset index, timeout or size is \<open>None\<close>.\<close>

record 'u mcm_loc_conf =
  mc_upstream :: "'u option"
  mc_schema :: bytes
  mc_prefix_index :: "nat option"
  mc_suffix_index :: "nat option"
  mc_key_index :: "nat option"
  mc_value_index :: "nat option"
  mc_connect_timeout :: "ngx_uint option"
  mc_send_timeout :: "ngx_uint option"
  mc_read_timeout :: "ngx_uint option"
  mc_buffer_size :: "ngx_uint option"
  mc_next_upstream :: ngx_uint

text \<open>The context of a request. \<open>cx_pre\<close> is \<open>None\<close> while it is no valid string.\<close>

record mcm_ctx =
  cx_rest :: ngx_uint
  cx_key :: bytes
  cx_times :: nat
  cx_pre :: "bytes option"

text \<open>What the filter works on: the variables, \<^verbatim>\<open>u->length\<close>, \<^verbatim>\<open>ctx->rest\<close> and everything that was put into \<^verbatim>\<open>u->out_bufs\<close>.\<close>

record mcm_state =
  ms_vars :: "vvl list"
  ms_length :: ngx_uint
  ms_rest :: ngx_uint
  ms_out :: "bytes list"

definition mc_end :: bytes where
  "mc_end = [CR, LF] @ bs ''END'' @ [CR, LF]"

abbreviation MC_END_LEN :: nat where
  "MC_END_LEN \<equiv> length mc_end"

abbreviation (input) NGX_HTTP_UPSTREAM_INVALID_HEADER :: ngx_rc where
  "NGX_HTTP_UPSTREAM_INVALID_HEADER \<equiv> NGX_HTTP 40"

text \<open>
  The get handlers of the variables and their flags for the cache; an unset index is not one of the variables, and \<^verbatim>\<open>ngx_http_get_flushed_variable\<close>
  reads the variables at it before it is tested.
\<close>

record var_env =
  va_gh :: "nat \<Rightarrow> vvl \<Rightarrow> ngx_rc \<times> vvl"
  va_nc :: "nat \<Rightarrow> bool"

definition indexed :: "var_env \<Rightarrow> nat option \<Rightarrow> vvl list \<Rightarrow> vvl option \<times> vvl list" where
  "indexed va i vars =
     (case i of None \<Rightarrow> (None, vars) | Some i \<Rightarrow> ngx_http_get_indexed_variable (va_gh va) (va_nc va) vars i)"

definition flushed :: "var_env \<Rightarrow> nat option \<Rightarrow> vvl list \<Rightarrow> (vvl option \<times> vvl list) option" where
  "flushed va i vars =
     (case i of
        None \<Rightarrow> None
      | Some i \<Rightarrow>
          if length vars \<le> i then None else Some (ngx_http_get_flushed_variable (va_gh va) (va_nc va) vars i))"

section \<open>The request\<close>

text \<open>\<open>junk\<close> is what the memory for a new context holds.\<close>

definition ngx_http_mcm_get_ctx :: "bool \<Rightarrow> mcm_ctx \<Rightarrow> mcm_ctx option \<Rightarrow> mcm_ctx option" where
  "ngx_http_mcm_get_ctx ok junk ctx = (case ctx of Some c \<Rightarrow> Some c | None \<Rightarrow> if ok then Some junk else None)"

text \<open>
  The content handler: the method, the result of discarding the body and of setting the type, and the memory for the upstream structure are arguments.
  The context is used without a test.
\<close>

definition ngx_http_mcm_handler ::
    "bool \<Rightarrow> ngx_rc \<Rightarrow> bool \<Rightarrow> bool \<Rightarrow> bool \<Rightarrow> mcm_ctx \<Rightarrow> mcm_ctx option \<Rightarrow> (ngx_rc \<times> mcm_ctx option) option" where
  "ngx_http_mcm_handler get_or_head discard ctype_ok ok ctx_ok junk ctx =
     (if \<not> get_or_head then Some (NGX_HTTP 405, ctx)
      else if discard \<noteq> NGX_OK then Some (discard, ctx)
      else if \<not> ctype_ok then Some (NGX_HTTP 500, ctx)
      else if \<not> ok then Some (NGX_HTTP 500, ctx)
      else
        case ngx_http_mcm_get_ctx ctx_ok junk ctx of
          None \<Rightarrow> None
        | Some c \<Rightarrow> Some (NGX_DONE, Some (c\<lparr>cx_times := 2, cx_rest := of_nat MC_END_LEN\<rparr>)))"

text \<open>The request for the server and the key as it is sent; a write behind the buffer is undefined.\<close>

definition ngx_http_mcm_create_request ::
    "bool \<Rightarrow> var_env \<Rightarrow> nat option \<Rightarrow> vvl list \<Rightarrow> (ngx_rc \<times> (bytes \<times> bytes) option \<times> vvl list) option" where
  "ngx_http_mcm_create_request ok va key_index vars =
     (case indexed va key_index vars of (vv, vars) \<Rightarrow>
        case vv of
          None \<Rightarrow> Some (NGX_ERROR, None, vars)
        | Some v \<Rightarrow>
            if vl_not_found v \<or> vl_data v = [] then Some (NGX_ERROR, None, vars)
            else
              let escape = 2 * ngx_escape_uri_count NGX_ESCAPE_MEMCACHED (vl_data v);
                  len = length (bs ''get '') + length (vl_data v) + escape + length [CR, LF]
              in if \<not> ok then Some (NGX_ERROR, None, vars)
                 else
                   let key = (if escape = 0 then vl_data v else ngx_escape_uri NGX_ESCAPE_MEMCACHED (vl_data v));
                       req = bs ''get '' @ key @ [CR, LF]
                   in if len < length req then None else Some (NGX_OK, Some (req, key), vars))"

section \<open>The first line of the reply\<close>

text \<open>What the function stores: the status, the content length, and the bytes of the buffer from the new position on.\<close>

record mcm_head =
  hd_status :: nat
  hd_length :: ngx_int
  hd_body :: bytes

text \<open>
  The line \<open>mem\<close> is the buffer with a zero at the line feed. The position behind the key is \<open>q\<close>; \<open>None\<close> in the first component of the result is the jump to
  \<^verbatim>\<open>no_valid\<close>, otherwise it is the number of bytes up to the length, the text of the length and the position behind it. Without a carriage return the last byte
  is not part of the text; without any byte the zero is read as the first digit.
\<close>

definition mcm_fields :: "bytes \<Rightarrow> nat \<Rightarrow> (bytes \<times> nat) option option" where
  "mcm_fields mem q =
     (let flags = takeWhile (\<lambda>c. c \<noteq> 0 \<and> c \<noteq> cb (CHR '' '')) (drop (q + 1) mem);
          i = q + 1 + length flags
      in if length mem \<le> q then None
         else if mem ! q \<noteq> cb (CHR '' '') then Some None
         else if length mem \<le> i then None
         else if mem ! i = 0 then Some None
         else
           let digits = takeWhile (\<lambda>c. c \<noteq> 0 \<and> c \<noteq> CR) (drop (i + 1) mem);
               p = i + 1 + length digits
           in if length mem \<le> p then None
              else if mem ! p = CR then Some (Some (digits, p + 1))
              else Some (Some (if digits = [] then [0] else butlast digits, p)))"

text \<open>
  \<open>buf\<close> is the buffer from its position to its last byte, \<open>nxt\<close> the byte behind it, none at the end of the memory. The prefix and the suffix are
  used without a test.
\<close>

definition ngx_http_mcm_process_header ::
    "var_env \<Rightarrow> 'u mcm_loc_conf \<Rightarrow> bytes \<Rightarrow> bytes \<Rightarrow> byte option \<Rightarrow> vvl list \<Rightarrow> (ngx_rc \<times> mcm_head option \<times> vvl list) option" where
  "ngx_http_mcm_process_header va lcf key buf nxt vars =
     (let p = length (takeWhile (\<lambda>c. c \<noteq> LF) buf) in
      if p = length buf \<and> nxt = None then None
      else if p = length buf \<and> nxt \<noteq> Some LF then Some (NGX_AGAIN, None, vars)
      else
        let mem = (if p = length buf then buf @ [0] else buf[p := 0]) in
        if strncmp_eq mem (bs ''VALUE '') then
          if \<not> strncmp_eq (drop 6 mem) key then Some (NGX_HTTP_UPSTREAM_INVALID_HEADER, None, vars)
          else
            Option.bind (mcm_fields mem (6 + length key)) (\<lambda>f.
              case f of
                None \<Rightarrow> Some (NGX_HTTP_UPSTREAM_INVALID_HEADER, None, vars)
              | Some (digits, q) \<Rightarrow>
                  let n = ngx_atoof digits in
                  if n = NGX_ERROR_VAL then Some (NGX_HTTP_UPSTREAM_INVALID_HEADER, None, vars)
                  else
                    Option.bind (flushed va (mc_prefix_index lcf) vars) (\<lambda>(pv, vars).
                      case indexed va (mc_suffix_index lcf) vars of (sv, vars) \<Rightarrow>
                        case (pv, sv) of
                          (Some _, Some sv) \<Rightarrow>
                            if length buf < q + 1 then None
                            else
                              Some (NGX_OK,
                                Some \<lparr>hd_status = 200,
                                  hd_length = n + of_nat (length (vl_data (vars ! the (mc_prefix_index lcf))) + length (vl_data sv)),
                                  hd_body = drop (q + 1) mem\<rparr>, vars)
                        | _ \<Rightarrow> None))
        else if takeWhile (\<lambda>c. c \<noteq> 0) mem = bs ''END'' @ [CR] then
          Some (NGX_OK, Some \<lparr>hd_status = 404, hd_length = NGX_ERROR_VAL, hd_body = mem\<rparr>, vars)
        else Some (NGX_HTTP_UPSTREAM_INVALID_HEADER, None, vars))"

section \<open>The filter\<close>

text \<open>\<open>ok\<close> is whether a buffer for the chain is available.\<close>

definition ngx_http_mcm_filter_init :: "bool \<Rightarrow> var_env \<Rightarrow> 'u mcm_loc_conf \<Rightarrow> mcm_state \<Rightarrow> ngx_rc \<times> mcm_state" where
  "ngx_http_mcm_filter_init ok va lcf st =
     (let st = st\<lparr>ms_length := ms_length st + of_nat MC_END_LEN\<rparr> in
      case indexed va (mc_prefix_index lcf) (ms_vars st) of (pv, vars) \<Rightarrow>
        let st = st\<lparr>ms_vars := vars\<rparr> in
        if pv = None then (NGX_ERROR, st)
        else
          case indexed va (mc_suffix_index lcf) (ms_vars st) of (sv, vars) \<Rightarrow>
            let st = st\<lparr>ms_vars := vars\<rparr> in
            case sv of
              None \<Rightarrow> (NGX_ERROR, st)
            | Some s \<Rightarrow>
                let p = vl_data (vars ! the (mc_prefix_index lcf)) in
                if p \<noteq> [] \<and> \<not> ok then (NGX_ERROR, st)
                else
                  (NGX_OK, st\<lparr>ms_out := ms_out st @ (if p \<noteq> [] then [p] else []),
                     ms_length := ms_length st - of_nat (length p) - of_nat (length (vl_data s))\<rparr>))"

definition ngx_http_mcm_add_suffix :: "bool \<Rightarrow> var_env \<Rightarrow> 'u mcm_loc_conf \<Rightarrow> mcm_state \<Rightarrow> ngx_rc \<times> mcm_state" where
  "ngx_http_mcm_add_suffix ok va lcf st =
     (case indexed va (mc_suffix_index lcf) (ms_vars st) of (sv, vars) \<Rightarrow>
        let st = st\<lparr>ms_vars := vars\<rparr> in
        case sv of
          None \<Rightarrow> (NGX_ERROR, st)
        | Some s \<Rightarrow>
            if vl_not_found s then (NGX_ERROR, st)
            else if vl_data s = [] then (NGX_OK, st)
            else if \<not> ok then (NGX_ERROR, st)
            else (NGX_OK, st\<lparr>ms_out := ms_out st @ [vl_data s]\<rparr>))"

text \<open>
  The filter for the bytes of one read, which are in the buffer behind its last byte. The comparisons with the trailer only decide about a log message.
  As long as the length is not the rest of the trailer, it is at least the length of the trailer, so \<open>room\<close> is not negative.
\<close>

definition ngx_http_mcm_filter :: "bool \<Rightarrow> var_env \<Rightarrow> 'u mcm_loc_conf \<Rightarrow> bytes \<Rightarrow> mcm_state \<Rightarrow> ngx_rc \<times> mcm_state" where
  "ngx_http_mcm_filter ok va lcf c st =
     (if ms_length st = ms_rest st then ngx_http_mcm_add_suffix ok va lcf (st\<lparr>ms_length := 0, ms_rest := 0\<rparr>)
      else if \<not> ok then (NGX_ERROR, st)
      else
        let room = ms_length st - of_nat MC_END_LEN in
        if \<not> room <s of_nat (length c) then
          (NGX_OK, st\<lparr>ms_out := ms_out st @ [c], ms_length := ms_length st - of_nat (length c)\<rparr>)
        else
          let rest = ms_rest st - (of_nat (length c) - room);
              st = st\<lparr>ms_out := ms_out st @ [take (unat room) c], ms_rest := rest, ms_length := rest\<rparr>
          in if ms_length st = 0 then ngx_http_mcm_add_suffix ok va lcf st else (NGX_OK, st))"

section \<open>The upstream engine around the filter\<close>

datatype body_end = BodyDone | BodyError | BodyMore

text \<open>
  The loop of \<^verbatim>\<open>ngx_http_upstream_process_non_buffered_body\<close> over the results of \<^verbatim>\<open>recv\<close>; what is in the chain is sent in between. It finalizes the
  request when the length is 0 and waits when nothing can be read.
\<close>

fun mcm_reads :: "bool \<Rightarrow> var_env \<Rightarrow> 'u mcm_loc_conf \<Rightarrow> bytes list \<Rightarrow> mcm_state \<Rightarrow> body_end \<times> mcm_state" where
  "mcm_reads ok va lcf [] st = (if ms_length st = 0 then BodyDone else BodyMore, st)"
| "mcm_reads ok va lcf (c # cs) st =
     (if ms_length st = 0 then (BodyDone, st)
      else
        case ngx_http_mcm_filter ok va lcf c st of (rc, st) \<Rightarrow>
          if rc = NGX_ERROR then (BodyError, st) else mcm_reads ok va lcf cs st)"

text \<open>\<^verbatim>\<open>ngx_http_upstream_send_response\<close>: the length of the response, the filter for what came with the first line, and the other reads.\<close>

definition mcm_send_response ::
    "bool \<Rightarrow> var_env \<Rightarrow> 'u mcm_loc_conf \<Rightarrow> mcm_head \<Rightarrow> bytes list \<Rightarrow> vvl list \<Rightarrow> ngx_uint \<Rightarrow> body_end \<times> mcm_state" where
  "mcm_send_response ok va lcf h reads vars rest =
     (case ngx_http_mcm_filter_init ok va lcf
             \<lparr>ms_vars = vars, ms_length = (if hd_length h \<noteq> -1 then hd_length h else -1), ms_rest = rest, ms_out = []\<rparr> of
        (rc, st) \<Rightarrow>
          if rc = NGX_ERROR then (BodyError, st)
          else if hd_body h = [] then mcm_reads ok va lcf reads st
          else
            case ngx_http_mcm_filter ok va lcf (hd_body h) st of (rc, st) \<Rightarrow>
              if rc = NGX_ERROR then (BodyError, st) else mcm_reads ok va lcf reads st)"

section \<open>Configuration\<close>

definition ngx_http_mcm_create_loc_conf :: "bool \<Rightarrow> 'u mcm_loc_conf option" where
  "ngx_http_mcm_create_loc_conf ok =
     (if \<not> ok then None
      else
        Some \<lparr>mc_upstream = None, mc_schema = [], mc_prefix_index = None, mc_suffix_index = None, mc_key_index = None, mc_value_index = None,
          mc_connect_timeout = None, mc_send_timeout = None, mc_read_timeout = None, mc_buffer_size = None, mc_next_upstream = 0\<rparr>)"

abbreviation (input) NGX_HTTP_UPSTREAM_FT_OFF :: ngx_uint where
  "NGX_HTTP_UPSTREAM_FT_OFF \<equiv> 0x80000000"

text \<open>\<open>merge_value\<close> is \<^verbatim>\<open>ngx_conf_merge_value\<close>, \<open>or_prev\<close> the tests for an unset index. The default of the mask is errors and timeouts.\<close>

definition or_prev :: "'a option \<Rightarrow> 'a option \<Rightarrow> 'a option" where
  "or_prev x y = (case x of Some _ \<Rightarrow> x | None \<Rightarrow> y)"

definition merge_value :: "'a option \<Rightarrow> 'a option \<Rightarrow> 'a \<Rightarrow> 'a option" where
  "merge_value x y d = (case x of Some _ \<Rightarrow> x | None \<Rightarrow> case y of Some _ \<Rightarrow> y | None \<Rightarrow> Some d)"

definition ngx_http_mcm_merge_loc_conf :: "ngx_uint \<Rightarrow> 'u mcm_loc_conf \<Rightarrow> 'u mcm_loc_conf \<Rightarrow> 'u mcm_loc_conf" where
  "ngx_http_mcm_merge_loc_conf pagesize prev conf =
     (let next_upstream =
            (if mc_next_upstream conf = 0 then if mc_next_upstream prev = 0 then 0x1 OR 0x2 OR 0x4 else mc_next_upstream prev
             else mc_next_upstream conf)
      in conf\<lparr>mc_connect_timeout := merge_value (mc_connect_timeout conf) (mc_connect_timeout prev) 60000,
           mc_send_timeout := merge_value (mc_send_timeout conf) (mc_send_timeout prev) 60000,
           mc_read_timeout := merge_value (mc_read_timeout conf) (mc_read_timeout prev) 60000,
           mc_buffer_size := merge_value (mc_buffer_size conf) (mc_buffer_size prev) pagesize,
           mc_next_upstream := (if next_upstream AND NGX_HTTP_UPSTREAM_FT_OFF \<noteq> 0 then 0x1 OR NGX_HTTP_UPSTREAM_FT_OFF else next_upstream),
           mc_upstream := or_prev (mc_upstream conf) (mc_upstream prev),
           mc_schema := (if mc_upstream conf = None then mc_schema prev else mc_schema conf),
           mc_key_index := or_prev (mc_key_index conf) (mc_key_index prev),
           mc_value_index := or_prev (mc_value_index conf) (mc_value_index prev),
           mc_prefix_index := or_prev (mc_prefix_index conf) (mc_prefix_index prev),
           mc_suffix_index := or_prev (mc_suffix_index conf) (mc_suffix_index prev)\<rparr>)"

text \<open>
  The command \<^verbatim>\<open>memcached_pass\<close>: \<open>add\<close> is \<^verbatim>\<open>ngx_http_upstream_add\<close>, \<open>hs\<close> and \<open>hg\<close> the handlers of the prefix, \<open>ok\<close> the memory for the \<open>k\<close>-th
  declaration. The second component of the location is its flag \<^verbatim>\<open>auto_redirect\<close>. The variable of the prefix is used without a test.
\<close>

definition ngx_http_mcm_pass ::
    "(nat \<Rightarrow> bool) \<Rightarrow> (bytes \<Rightarrow> 'u option) \<Rightarrow> 'h \<Rightarrow> 'h \<Rightarrow> bytes list \<Rightarrow> bytes \<times> bool \<Rightarrow> 'u mcm_loc_conf \<Rightarrow> 'h var_conf \<Rightarrow>
      (conf_result \<times> bool \<times> 'u mcm_loc_conf \<times> 'h var_conf) option" where
  "ngx_http_mcm_pass ok add hs hg args clcf lcf vc =
     (if mc_schema lcf \<noteq> [] then Some (Some ''is duplicate'', snd clcf, lcf, vc)
      else
        let lcf = lcf\<lparr>mc_upstream := add (args ! 1)\<rparr> in
        if mc_upstream lcf = None then Some (Some [], snd clcf, lcf, vc)
        else if fst clcf = [] then None
        else
          let lcf = lcf\<lparr>mc_schema := bs ''memcached://''\<rparr>;
              redirect = (snd clcf \<or> last (fst clcf) = cb (CHR ''/''))
          in case ngx_http_add_variable (ok 0) vc (bs ''memcached_prefix'') True of
               (None, vc) \<Rightarrow> None
             | (Some v, vc) \<Rightarrow>
                 let vc = var_set_get_handler v hg (var_set_set_handler v hs vc);
                     vc = snd (ngx_http_get_variable_index (ok 1) vc (bs ''memcached_prefix''));
                     vc = snd (ngx_http_add_variable (ok 2) vc (bs ''memcached_suffix'') True)
                 in case ngx_http_get_variable_index (ok 3) vc (bs ''memcached_key'') of (ik, vc) \<Rightarrow>
                      let lcf = lcf\<lparr>mc_key_index := ik\<rparr> in
                      if ik = None then Some (Some [], redirect, lcf, vc)
                      else
                        case ngx_http_get_variable_index (ok 4) vc (bs ''memcached_prefix'') of (ip, vc) \<Rightarrow>
                          let lcf = lcf\<lparr>mc_prefix_index := ip\<rparr> in
                          if ip = None then Some (Some [], redirect, lcf, vc)
                          else
                            case ngx_http_get_variable_index (ok 5) vc (bs ''memcached_suffix'') of (is, vc) \<Rightarrow>
                              let lcf = lcf\<lparr>mc_suffix_index := is\<rparr> in
                              Some (if is = None then Some [] else None, redirect, lcf, vc))"

section \<open>The variable for the prefix\<close>

text \<open>Its handlers keep the value in the context; \<open>None\<close> is the use of a context or a value that is not there.\<close>

definition value_set_handler ::
    "bool \<Rightarrow> mcm_ctx \<Rightarrow> nat \<Rightarrow> vvl \<Rightarrow> vvl list \<times> mcm_ctx option \<Rightarrow> (vvl list \<times> mcm_ctx option) option" where
  "value_set_handler ok junk index v st =
     (case st of (vars, ctx) \<Rightarrow>
        if length vars \<le> index then None
        else
          let vars = vars[index := (vars ! index)\<lparr>vl_valid := False\<rparr>] in
          case ngx_http_mcm_get_ctx ok junk ctx of
            None \<Rightarrow> None
          | Some c \<Rightarrow> Some (vars, Some (c\<lparr>cx_pre := Some (vl_data v)\<rparr>)))"

definition value_get_handler :: "bool \<Rightarrow> mcm_ctx \<Rightarrow> mcm_ctx option \<Rightarrow> vvl \<Rightarrow> (ngx_rc \<times> vvl) option" where
  "value_get_handler ok junk ctx v =
     Option.bind (ngx_http_mcm_get_ctx ok junk ctx) (\<lambda>c. map_option (\<lambda>d. (NGX_OK, v\<lparr>vl_data := d\<rparr>)) (cx_pre c))"

section \<open>Variables with a constant value\<close>

text \<open>Evaluating the variable gives \<open>d\<close>, now and after the evaluation of any such variable.\<close>

definition steady :: "var_env \<Rightarrow> vvl list \<Rightarrow> nat \<Rightarrow> bytes \<Rightarrow> bool" where
  "steady va vars i d \<longleftrightarrow>
     i < length vars \<and> \<not> vl_not_found (vars ! i) \<and>
     (if vl_valid (vars ! i) then \<not> vl_no_cacheable (vars ! i) \<and> vl_data (vars ! i) = d
      else \<forall>v. va_gh va i v = (NGX_OK, v\<lparr>vl_data := d\<rparr>))"

definition read_ok :: "var_env \<Rightarrow> vvl list \<Rightarrow> nat \<Rightarrow> bytes \<Rightarrow> vvl option \<times> vvl list \<Rightarrow> bool" where
  "read_ok va vars i d r \<longleftrightarrow>
     (\<exists>v vars'. r = (Some v, vars') \<and> vl_data v = d \<and> \<not> vl_not_found v \<and> i < length vars' \<and> vars' ! i = v \<and>
       (\<forall>j e. steady va vars j e \<longrightarrow> steady va vars' j e \<and> (j \<noteq> i \<longrightarrow> vars' ! j = vars ! j)))"

lemma indexed_steady: "steady va vars i d \<Longrightarrow> read_ok va vars i d (indexed va (Some i) vars)"
  by (auto simp: read_ok_def steady_def indexed_def ngx_http_get_indexed_variable_def Let_def nth_list_update)

lemma flushed_steady: "steady va vars i d \<Longrightarrow> \<exists>r. flushed va (Some i) vars = Some r \<and> read_ok va vars i d r"
  using indexed_steady [of va vars i d]
  by (auto simp: steady_def flushed_def ngx_http_get_flushed_variable_def indexed_def read_ok_def Let_def)

section \<open>The filter is correct\<close>

lemma add_suffix_steady:
  assumes "steady va (ms_vars st) i s" and "mc_suffix_index lcf = Some i"
  shows "\<exists>st'. ngx_http_mcm_add_suffix True va lcf st = (NGX_OK, st') \<and> concat (ms_out st') = concat (ms_out st) @ s \<and>
    ms_length st' = ms_length st"
  using indexed_steady [OF assms(1)] assms(2) by (auto simp: read_ok_def ngx_http_mcm_add_suffix_def Let_def)

lemma reads_done: "ms_length st = 0 \<Longrightarrow> mcm_reads ok va lcf cs st = (BodyDone, st)"
  by (cases cs) simp_all

lemma filter_ends:
  assumes "steady va (ms_vars st) i s" and "mc_suffix_index lcf = Some i" and "ms_length st \<noteq> 0" and "ms_length st = ms_rest st" and "cs \<noteq> []"
  shows "\<exists>st'. mcm_reads True va lcf cs st = (BodyDone, st') \<and> concat (ms_out st') = concat (ms_out st) @ s"
proof -
  obtain c cs' where c: "cs = c # cs'" using assms(5) by (cases cs) auto
  let ?st = "st\<lparr>ms_length := 0, ms_rest := 0\<rparr>"
  obtain st' where "ngx_http_mcm_add_suffix True va lcf ?st = (NGX_OK, st')" "concat (ms_out st') = concat (ms_out st) @ s" "ms_length st' = 0"
    using add_suffix_steady [of va ?st i s lcf] assms(1,2) by auto
  then show ?thesis using c assms(3,4) by (simp add: ngx_http_mcm_filter_def reads_done)
qed

lemma length_mc_end: "MC_END_LEN = 7"
  by (simp add: mc_end_def)

lemma small_word: "n < 2 ^ 63 \<Longrightarrow> unat (of_nat n :: ngx_uint) = n"
  by (rule unat_of_nat64) simp

lemma sless_small: "m < 2 ^ 63 \<Longrightarrow> n < 2 ^ 63 \<Longrightarrow> (of_nat m :: ngx_uint) <s of_nat n \<longleftrightarrow> m < n"
  by (simp add: word_sless_alt sint_small small_word)

lemma of_nat_small_eq: "m < 2 ^ 63 \<Longrightarrow> n < 2 ^ 63 \<Longrightarrow> (of_nat m :: ngx_uint) = of_nat n \<longleftrightarrow> m = n"
  by (metis small_word)

text \<open>One read, while data are missing.\<close>

lemma filter_data:
  assumes "ms_length st = of_nat (length data + 7)" and "ms_rest st = 7" and "data \<noteq> []" and "length data + 7 < 2 ^ 63" and "length c < 2 ^ 63"
  shows "ngx_http_mcm_filter True va lcf c st =
    (if length c \<le> length data then
       (NGX_OK, st\<lparr>ms_out := ms_out st @ [c], ms_length := of_nat (length data - length c + 7)\<rparr>)
     else
       let rest = 7 - (of_nat (length c - length data)) in
       let st = st\<lparr>ms_out := ms_out st @ [take (length data) c], ms_rest := rest, ms_length := rest\<rparr> in
       if rest = 0 then ngx_http_mcm_add_suffix True va lcf st else (NGX_OK, st))"
proof -
  have ne: "(of_nat (length data + 7) :: ngx_uint) \<noteq> 7"
    using of_nat_small_eq [of "length data + 7" 7] assms(3,4) by simp
  have room: "ms_length st - of_nat MC_END_LEN = of_nat (length data)" using assms(1) length_mc_end by simp
  have n: "unat (of_nat (length data) :: ngx_uint) = length data" using small_word assms(4) by simp
  have lt: "(of_nat (length data) :: ngx_uint) <s of_nat (length c) \<longleftrightarrow> length data < length c" using sless_small assms(4,5) by simp
  have sub: "length c \<le> length data \<Longrightarrow> of_nat (length data + 7) - of_nat (length c) = (of_nat (length data - length c + 7) :: ngx_uint)"
    by (simp add: of_nat_diff)
  have sub2: "length data < length c \<Longrightarrow> of_nat (length c) - of_nat (length data) = (of_nat (length c - length data) :: ngx_uint)"
    by (simp add: of_nat_diff)
  show ?thesis
    unfolding ngx_http_mcm_filter_def room lt n Let_def using ne sub sub2 assms(1,2) by (auto simp: not_less Let_def simp del: of_nat_add of_nat_diff)
qed

lemma reads_correct:
  assumes "mc_suffix_index lcf = Some i"
  shows "\<lbrakk>steady va (ms_vars st) i s; concat cs = data @ mc_end; length data + 7 < 2 ^ 63; ms_length st = of_nat (length data + 7); ms_rest st = 7\<rbrakk> \<Longrightarrow>
    \<exists>st'. mcm_reads True va lcf cs st = (BodyDone, st') \<and> concat (ms_out st') = concat (ms_out st) @ data @ s"
proof (induction cs arbitrary: data st)
  case Nil
  then show ?case by (simp add: mc_end_def)
next
  case (Cons c cs)
  have nz: "ms_length st \<noteq> 0" using of_nat_small_eq [of "length data + 7" 0] Cons.prems(3,4) by simp
  have cat: "c @ concat cs = data @ mc_end" using Cons.prems(2) by simp
  have len: "length c + length (concat cs) = length data + 7" using arg_cong [OF cat, of length] length_mc_end by simp
  show ?case
  proof (cases "data = []")
    case True
    then show ?thesis using filter_ends [OF Cons.prems(1) assms nz, of "c # cs"] Cons.prems(4,5) by simp
  next
    case False
    note f = filter_data [OF Cons.prems(4,5) False Cons.prems(3), of c va lcf]
    show ?thesis
    proof (cases "length c \<le> length data")
      case True
      let ?st = "st\<lparr>ms_out := ms_out st @ [c], ms_length := of_nat (length data - length c + 7)\<rparr>"
      have split: "c = take (length c) data" "concat cs = drop (length c) data @ mc_end"
        using cat True append_eq_conv_conj [of c "concat cs" "data @ mc_end"] by simp_all
      obtain st' where "mcm_reads True va lcf cs ?st = (BodyDone, st')" "concat (ms_out st') = concat (ms_out ?st) @ drop (length c) data @ s"
        using Cons.IH [of ?st "drop (length c) data"] split(2) Cons.prems(1,3,5) diff_le_self [of "length data" "length c"]
        by (auto simp del: diff_le_self)
      moreover have "c @ drop (length c) data = data" using split(1) append_take_drop_id [of "length c" data] by simp
      ultimately show ?thesis using f True len nz Cons.prems(3) by auto
    next
      case longer: False
      let ?k = "length c - length data"
      let ?rest = "7 - of_nat ?k :: ngx_uint"
      let ?st = "st\<lparr>ms_out := ms_out st @ [take (length data) c], ms_rest := ?rest, ms_length := ?rest\<rparr>"
      have k: "?k \<le> 7" "length (concat cs) = 7 - ?k" using len longer by simp_all
      have "?rest = of_nat (7 - ?k)" using k(1) by (simp add: of_nat_diff)
      moreover have "concat cs = [] \<longleftrightarrow> 7 - ?k = 0" using k(2) by (metis length_0_conv)
      ultimately have zero: "?rest \<noteq> 0 \<Longrightarrow> cs \<noteq> []" using of_nat_small_eq [of "7 - ?k" 0] by auto
      have data: "take (length data) c = data" using arg_cong [OF cat, of "take (length data)"] longer by simp
      have f': "ngx_http_mcm_filter True va lcf c st = (if ?rest = 0 then ngx_http_mcm_add_suffix True va lcf ?st else (NGX_OK, ?st))"
        using f longer len Cons.prems(3) by (simp add: Let_def)
      have "steady va (ms_vars ?st) i s" using Cons.prems(1) by simp
      from add_suffix_steady [OF this assms] filter_ends [OF this assms, of cs] show ?thesis
        unfolding mcm_reads.simps f' using nz zero data by (cases "?rest = 0") (auto simp: reads_done)
    qed
  qed
qed

lemma steady_same: "steady va vars i p \<Longrightarrow> steady va vars j s \<Longrightarrow> i = j \<Longrightarrow> p = s"
  by (auto simp: steady_def split: if_splits) (metis (no_types, lifting) Pair_inject vvl.select_convs(1) vvl.surjective vvl.update_convs(1))

lemma filter_init_steady:
  assumes "steady va (ms_vars st) ip p" and "steady va (ms_vars st) is s" and "mc_prefix_index lcf = Some ip" and "mc_suffix_index lcf = Some is"
  shows "\<exists>vars. ngx_http_mcm_filter_init True va lcf st =
      (NGX_OK, st\<lparr>ms_vars := vars, ms_out := ms_out st @ (if p \<noteq> [] then [p] else []), ms_length := ms_length st + 7 - of_nat (length p) - of_nat (length s)\<rparr>) \<and>
    steady va vars is s"
proof -
  obtain v vars where v: "indexed va (Some ip) (ms_vars st) = (Some v, vars)" "steady va vars ip p" "steady va vars is s" "vl_data v = p" "vars ! ip = v"
    using indexed_steady [OF assms(1)] assms(1,2) by (auto simp: read_ok_def)
  obtain w vars' where w: "indexed va (Some is) vars = (Some w, vars')" "steady va vars' is s" "vl_data w = s" "vars' ! is = w"
    "ip \<noteq> is \<longrightarrow> vars' ! ip = vars ! ip"
    using indexed_steady [OF v(3)] v(2,3) by (auto simp: read_ok_def)
  have "vl_data (vars' ! ip) = p" using v(4,5) w(3,4,5) steady_same [OF assms(1,2)] by auto
  with v(1) w(1,2,3) assms(3,4) show ?thesis
    by (intro exI [of _ vars']) (simp add: ngx_http_mcm_filter_init_def length_mc_end Let_def algebra_simps)
qed

section \<open>The first line is read\<close>

lemma escape_none: "ngx_escape_uri_count type s = 0 \<Longrightarrow> ngx_escape_uri type s = s"
  by (induction s) (auto split: if_splits)

text \<open>The request fits its buffer, and the key in it has no byte that could end it.\<close>

lemma create_request_key:
  assumes "ngx_http_mcm_create_request ok va key_index vars = Some (NGX_OK, Some (req, key), vars')"
  shows "req = bs ''get '' @ key @ [CR, LF]" and "list_all (\<lambda>c. 0x20 < c) key"
proof -
  obtain vv vars1 where i: "indexed va key_index vars = (vv, vars1)" by fastforce
  obtain v where vv: "vv = Some v" using assms i by (cases vv) (auto simp: ngx_http_mcm_create_request_def)
  have "key = (if ngx_escape_uri_count NGX_ESCAPE_MEMCACHED (vl_data v) = 0 then vl_data v else ngx_escape_uri NGX_ESCAPE_MEMCACHED (vl_data v))"
    and req: "req = bs ''get '' @ key @ [CR, LF]"
    using assms i vv by (auto simp: ngx_http_mcm_create_request_def Let_def split: if_splits)
  then have v: "key = ngx_escape_uri NGX_ESCAPE_MEMCACHED (vl_data v)" using escape_none by simp
  show "req = bs ''get '' @ key @ [CR, LF]" by (rule req)
  show "list_all (\<lambda>c. 0x20 < c) key" unfolding list_all_iff v using escape_memcached_above_space by blast
qed

lemma create_request_ok:
  assumes "indexed va key_index vars = (Some v, vars')" and "\<not> vl_not_found v" and "vl_data v \<noteq> []"
  shows "ngx_http_mcm_create_request True va key_index vars =
    Some (NGX_OK, Some (bs ''get '' @ ngx_escape_uri NGX_ESCAPE_MEMCACHED (vl_data v) @ [CR, LF], ngx_escape_uri NGX_ESCAPE_MEMCACHED (vl_data v)), vars')"
  using assms length_ngx_escape_uri [of NGX_ESCAPE_MEMCACHED "vl_data v"] escape_none [of NGX_ESCAPE_MEMCACHED "vl_data v"]
  by (simp add: ngx_http_mcm_create_request_def Let_def)

text \<open>The first line of the reply of a server, and the line without its line feed.\<close>

definition reply_line :: "bytes \<Rightarrow> bytes \<Rightarrow> nat \<Rightarrow> bytes" where
  "reply_line key flags n = bs ''VALUE '' @ key @ [cb (CHR '' '')] @ flags @ [cb (CHR '' '')] @ dec_print n @ [CR]"

lemma strncmp_prefix: "strncmp_eq (t @ x) t"
  by (induction t) auto

lemma takeWhile_stop: "list_all P xs \<Longrightarrow> \<not> P y \<Longrightarrow> takeWhile P (xs @ y # ys) = xs"
  by (induction xs) auto

lemma dec_bytes: "list_all is_dec d \<Longrightarrow> list_all (\<lambda>c. c \<noteq> 0 \<and> c \<noteq> 32) d \<and> list_all (\<lambda>c. c \<noteq> 0 \<and> c \<noteq> CR) d \<and> list_all (\<lambda>c. c \<noteq> LF) d"
  by (auto simp: list_all_iff is_dec_def)

lemma fields_at:
  assumes "list_all (\<lambda>c. c \<noteq> 0 \<and> c \<noteq> 32) flags" and "list_all (\<lambda>c. c \<noteq> 0 \<and> c \<noteq> CR) d"
  shows "mcm_fields (a @ 32 # flags @ 32 # d @ CR # r) (length a) = Some (Some (d, length a + length flags + length d + 3))"
proof -
  have "takeWhile (\<lambda>c. c \<noteq> 0 \<and> c \<noteq> 32) (flags @ 32 # d @ CR # r) = flags" using assms(1) by (intro takeWhile_stop) auto
  moreover have "takeWhile (\<lambda>c. c \<noteq> 0 \<and> c \<noteq> CR) (d @ CR # r) = d" using assms(2) by (intro takeWhile_stop) auto
  moreover have "(a @ 32 # flags @ 32 # d @ CR # r) ! (length a + length flags + length d + 2) = CR"
    using nth_append_length [of "a @ 32 # flags @ 32 # d" CR r] by (simp add: add.assoc)
  moreover have "(a @ 32 # flags @ 32 # d @ CR # r) ! (length a + length flags + 1) = 32"
    using nth_append_length [of "a @ 32 # flags" 32 "d @ CR # r"] by simp
  ultimately show ?thesis by (simp add: mcm_fields_def Let_def)
qed

lemma fields_of_line:
  assumes "list_all is_dec flags"
  shows "mcm_fields (reply_line key flags n @ 0 # body) (6 + length key) = Some (Some (dec_print n, length (reply_line key flags n)))"
proof -
  have "mcm_fields ((bs ''VALUE '' @ key) @ 32 # flags @ 32 # dec_print n @ CR # 0 # body) (length (bs ''VALUE '' @ key)) =
      Some (Some (dec_print n, length (bs ''VALUE '' @ key) + length flags + length (dec_print n) + 3))"
    using dec_bytes [OF assms] dec_bytes [of "dec_print n"] dec_print_ok [of n] by (intro fields_at) auto
  then show ?thesis by (simp add: reply_line_def eval_nat_numeral)
qed

lemma line_no_LF: "list_all (\<lambda>c. 0x20 < c) key \<Longrightarrow> list_all is_dec flags \<Longrightarrow> list_all (\<lambda>c. c \<noteq> LF) (reply_line key flags n)"
  using dec_bytes [of flags] dec_bytes [of "dec_print n"] dec_print_ok [of n] by (auto simp: reply_line_def list_all_iff)

lemma header_steady:
  assumes key: "list_all (\<lambda>c. 0x20 < c) key" and flags: "list_all is_dec flags" and n: "n < 2 ^ 63"
    and vars: "steady va vars ip p" "steady va vars is s" "mc_prefix_index lcf = Some ip" "mc_suffix_index lcf = Some is"
  shows "\<exists>vars'. ngx_http_mcm_process_header va lcf key (reply_line key flags n @ LF # body) nxt vars =
      Some (NGX_OK, Some \<lparr>hd_status = 200, hd_length = of_nat (length p + n + length s), hd_body = body\<rparr>, vars') \<and>
    steady va vars' ip p \<and> steady va vars' is s"
proof -
  let ?l = "reply_line key flags n"
  have tw: "takeWhile (\<lambda>c. c \<noteq> LF) (?l @ LF # body) = ?l" using line_no_LF [OF key flags] by (intro takeWhile_stop) auto
  have mem: "(?l @ LF # body)[length ?l := 0] = ?l @ 0 # body" by simp
  let ?r = "[32] @ flags @ [32] @ dec_print n @ [CR] @ 0 # body"
  have cmp: "strncmp_eq (?l @ 0 # body) (bs ''VALUE '')" "strncmp_eq (drop 6 (?l @ 0 # body)) key"
    using strncmp_prefix [of "bs ''VALUE ''" "key @ ?r"] strncmp_prefix [of key ?r] by (simp_all add: reply_line_def)
  have atoof: "ngx_atoof (dec_print n) = of_nat n" using atoi_dec_print [of n] n by (simp add: atoof_eq_atoi)
  have ne: "of_nat n \<noteq> NGX_ERROR_VAL" by (rule of_nat63_not_error [OF n])
  obtain v vars1 where v: "flushed va (Some ip) vars = Some (Some v, vars1)" "steady va vars1 ip p" "steady va vars1 is s" "vl_data v = p" "vars1 ! ip = v"
    using flushed_steady [OF vars(1)] vars(1,2) by (auto simp: read_ok_def)
  obtain w vars2 where w: "indexed va (Some is) vars1 = (Some w, vars2)" "steady va vars2 ip p" "steady va vars2 is s" "vl_data w = s" "vars2 ! is = w"
    "ip \<noteq> is \<longrightarrow> vars2 ! ip = vars1 ! ip"
    using indexed_steady [OF v(3)] v(2,3) by (auto simp: read_ok_def)
  have "vl_data (vars2 ! ip) = p" using v(4,5) w(4,5,6) steady_same [OF vars(1,2)] by auto
  with v(1) w fields_of_line [OF flags, of key n body] cmp atoof ne show ?thesis
    unfolding ngx_http_mcm_process_header_def tw Let_def mem by (auto simp: vars(3,4) add.commute add.left_commute)
qed

text \<open>
  C8. Whatever the key, a reply of the server to the request of the module whose first line is in the buffer as a whole, with any number of the bytes behind it, gets the
  status 200 and the length of the prefix, the data and the suffix, and once the other bytes have arrived, in pieces of any sizes, the response ends and consists of the
  prefix, the data and the suffix. Prefix and suffix are variables that keep their values, and the buffers for the response can be allocated. A first line that is cut is
  outside: a line feed left in the buffer by earlier data can make it pass as complete (\<open>mcm_stale_line_feed\<close>).
\<close>

theorem mcm_reply_relayed:
  assumes "ngx_http_mcm_create_request True va (mc_key_index lcf) vars0 = Some (NGX_OK, Some (req, key), vars)"
    and "steady va vars ip p" and "steady va vars is s" and "mc_prefix_index lcf = Some ip" and "mc_suffix_index lcf = Some is"
    and "list_all is_dec flags" and "length p + length data + length s + 7 < 2 ^ 63"
    and "body @ concat reads = data @ mc_end"
  shows "req = bs ''get '' @ key @ [CR, LF] \<and>
    (\<exists>h vars' st. ngx_http_mcm_process_header va lcf key (reply_line key flags (length data) @ LF # body) nxt vars = Some (NGX_OK, Some h, vars') \<and>
      hd_status h = 200 \<and> hd_length h = of_nat (length (p @ data @ s)) \<and>
      mcm_send_response True va lcf h reads vars' (of_nat MC_END_LEN) = (BodyDone, st) \<and> concat (ms_out st) = p @ data @ s)"
proof -
  note key = create_request_key [OF assms(1)]
  have n: "length data < 2 ^ 63" using assms(7) by simp
  let ?len = "of_nat (length p + length data + length s) :: ngx_uint"
  let ?h = "\<lparr>hd_status = 200, hd_length = ?len, hd_body = body\<rparr>"
  obtain vars' where h: "ngx_http_mcm_process_header va lcf key (reply_line key flags (length data) @ LF # body) nxt vars = Some (NGX_OK, Some ?h, vars')"
    "steady va vars' ip p" "steady va vars' is s"
    using header_steady [OF key(2) assms(6) n assms(2-5)] by blast
  let ?st = "\<lparr>ms_vars = vars', ms_length = ?len, ms_rest = of_nat MC_END_LEN, ms_out = []\<rparr>"
  obtain vars'' where init: "ngx_http_mcm_filter_init True va lcf ?st = (NGX_OK, ?st\<lparr>ms_vars := vars'', ms_out := (if p \<noteq> [] then [p] else []),
      ms_length := ?len + 7 - of_nat (length p) - of_nat (length s)\<rparr>)" "steady va vars'' is s"
    using filter_init_steady [of va ?st ip p "is" s lcf] h(2,3) assms(4,5) by auto
  let ?st2 = "?st\<lparr>ms_vars := vars'', ms_out := (if p \<noteq> [] then [p] else []), ms_length := of_nat (length data + 7)\<rparr>"
  have init2: "ngx_http_mcm_filter_init True va lcf ?st = (NGX_OK, ?st2)" unfolding init(1) by simp
  have cat: "concat (if body = [] then reads else body # reads) = data @ mc_end" "concat (if p \<noteq> [] then [p] else []) = p"
    using assms(8) by auto
  obtain st where st: "mcm_reads True va lcf (if body = [] then reads else body # reads) ?st2 = (BodyDone, st)" "concat (ms_out st) = p @ data @ s"
    using reads_correct [OF assms(5), of va ?st2 s "if body = [] then reads else body # reads" data] init(2) assms(7) cat length_mc_end by (auto simp del: concat.simps)
  have "ms_length ?st2 \<noteq> 0" using of_nat_small_eq [of "length data + 7" 0] assms(7) by simp
  moreover have "?len \<noteq> - 1" using of_nat63_not_error [of "length p + length data + length s"] assms(7) by (simp add: NGX_ERROR_VAL_def)
  ultimately have "mcm_send_response True va lcf ?h reads vars' (of_nat MC_END_LEN) = (BodyDone, st)"
    using st(1) init2 unfolding mcm_send_response_def by (auto split: prod.splits if_splits)
  with h(1) st(2) key(1) show ?thesis by auto
qed

text \<open>A reply that arrives in three pieces, the last two inside of the trailer.\<close>

definition demo_mcm_conf :: "unit mcm_loc_conf" where
  "demo_mcm_conf =
     \<lparr>mc_upstream = Some (), mc_schema = bs ''memcached://'', mc_prefix_index = Some 1, mc_suffix_index = Some 2, mc_key_index = Some 0, mc_value_index = None,
      mc_connect_timeout = None, mc_send_timeout = None, mc_read_timeout = None, mc_buffer_size = None, mc_next_upstream = 0\<rparr>"

definition demo_mcm_vars :: "vvl list" where
  "demo_mcm_vars =
     [\<lparr>vl_data = bs ''a b'', vl_valid = True, vl_no_cacheable = False, vl_not_found = False\<rparr>,
      \<lparr>vl_data = [], vl_valid = False, vl_no_cacheable = True, vl_not_found = False\<rparr>,
      \<lparr>vl_data = bs '')'', vl_valid = True, vl_no_cacheable = False, vl_not_found = False\<rparr>]"

definition demo_mcm_va :: var_env where
  "demo_mcm_va = \<lparr>va_gh = (\<lambda>i v. (NGX_OK, v\<lparr>vl_data := bs ''(''\<rparr>)), va_nc = \<lambda>i. i = 1\<rparr>"

theorem mcm_reply_relayed_witness:
  "\<exists>h vars' st. ngx_http_mcm_process_header demo_mcm_va demo_mcm_conf (bs ''a%20b'') (bs ''VALUE a%20b 0 5'' @ [CR, LF] @ bs ''he'') (Some 0) demo_mcm_vars =
      Some (NGX_OK, Some h, vars') \<and> hd_length h = 7 \<and>
    mcm_send_response True demo_mcm_va demo_mcm_conf h [bs ''llo'' @ [CR, LF], bs ''END'', [CR, LF]] vars' 7 = (BodyDone, st) \<and>
    concat (ms_out st) = bs ''(hello)''"
proof -
  let ?reads = "[bs ''llo'' @ [CR, LF], bs ''END'', [CR, LF]]"
  have i: "indexed demo_mcm_va (Some 0) demo_mcm_vars = (Some (demo_mcm_vars ! 0), demo_mcm_vars)"
    by (simp add: indexed_def ngx_http_get_indexed_variable_def demo_mcm_vars_def)
  have esc: "ngx_escape_uri NGX_ESCAPE_MEMCACHED (vl_data (demo_mcm_vars ! 0)) = bs ''a%20b''" by code_simp
  have req: "ngx_http_mcm_create_request True demo_mcm_va (mc_key_index demo_mcm_conf) demo_mcm_vars =
      Some (NGX_OK, Some (bs ''get a%20b'' @ [CR, LF], bs ''a%20b''), demo_mcm_vars)"
    using create_request_ok [of demo_mcm_va "Some 0" demo_mcm_vars, OF i] esc by (simp add: demo_mcm_conf_def) (simp add: demo_mcm_vars_def)
  have p: "steady demo_mcm_va demo_mcm_vars 1 (bs ''('')" "steady demo_mcm_va demo_mcm_vars 2 (bs '')'')"
    by (simp_all add: steady_def demo_mcm_va_def demo_mcm_vars_def)
  have line: "reply_line (bs ''a%20b'') (bs ''0'') (length (bs ''hello'')) @ LF # bs ''he'' = bs ''VALUE a%20b 0 5'' @ [CR, LF] @ bs ''he''" by code_simp
  have "bs ''he'' @ concat ?reads = bs ''hello'' @ mc_end" by (simp add: mc_end_def)
  moreover have "mc_prefix_index demo_mcm_conf = Some 1" "mc_suffix_index demo_mcm_conf = Some 2" by (simp_all add: demo_mcm_conf_def)
  moreover have "list_all is_dec (bs ''0'')" by code_simp
  moreover have "length (bs ''('') + length (bs ''hello'') + length (bs '')'') + 7 < 2 ^ 63" by simp
  ultimately obtain h vars' st where "ngx_http_mcm_process_header demo_mcm_va demo_mcm_conf (bs ''a%20b'')
      (reply_line (bs ''a%20b'') (bs ''0'') (length (bs ''hello'')) @ LF # bs ''he'') (Some 0) demo_mcm_vars = Some (NGX_OK, Some h, vars')"
    "hd_length h = of_nat (length (bs ''('' @ bs ''hello'' @ bs '')''))"
    "mcm_send_response True demo_mcm_va demo_mcm_conf h ?reads vars' (of_nat MC_END_LEN) = (BodyDone, st)"
    "concat (ms_out st) = bs ''('' @ bs ''hello'' @ bs '')''"
    using mcm_reply_relayed [OF req p, of "bs ''0''" "bs ''hello''" "bs ''he''" ?reads "Some 0"] by blast
  then show ?thesis unfolding line length_mc_end by (intro exI [of _ h] exI [of _ vars'] exI [of _ st]) simp
qed

text \<open>A value that was set for the prefix is what the module reads.\<close>

lemma prefix_steady:
  assumes "value_set_handler ok junk i v (vars, ctx) = Some (vars', ctx')" and "\<not> vl_not_found (vars ! i)"
    and "\<And>w. value_get_handler ok junk ctx' w = Some (va_gh va i w)"
  shows "steady va vars' i (vl_data v)"
proof -
  obtain c where c: "ctx' = Some c" "cx_pre c = Some (vl_data v)" "i < length vars" "vars' = vars[i := (vars ! i)\<lparr>vl_valid := False\<rparr>]"
    using assms(1) by (auto simp: value_set_handler_def Let_def split: if_splits option.splits)
  have "va_gh va i w = (NGX_OK, w\<lparr>vl_data := vl_data v\<rparr>)" for w
    using assms(3) [of w] c(1,2) by (simp add: value_get_handler_def ngx_http_mcm_get_ctx_def)
  with c(3,4) assms(2) show ?thesis by (simp add: steady_def)
qed

section \<open>What goes wrong\<close>

text \<open>Without an index for the prefix the header cannot be processed.\<close>

lemma mcm_no_prefix:
  assumes "list_all (\<lambda>c. 0x20 < c) key" and "list_all is_dec flags" and "n < 2 ^ 63" and "mc_prefix_index lcf = None"
  shows "ngx_http_mcm_process_header va lcf key (reply_line key flags n @ LF # body) nxt vars = None"
proof -
  let ?l = "reply_line key flags n"
  have tw: "takeWhile (\<lambda>c. c \<noteq> LF) (?l @ LF # body) = ?l" using line_no_LF [OF assms(1,2)] by (intro takeWhile_stop) auto
  have mem: "(?l @ LF # body)[length ?l := 0] = ?l @ 0 # body" by simp
  let ?r = "[32] @ flags @ [32] @ dec_print n @ [CR] @ 0 # body"
  have "strncmp_eq (?l @ 0 # body) (bs ''VALUE '')" "strncmp_eq (drop 6 (?l @ 0 # body)) key"
    using strncmp_prefix [of "bs ''VALUE ''" "key @ ?r"] strncmp_prefix [of key ?r] by (simp_all add: reply_line_def)
  then show ?thesis
    unfolding ngx_http_mcm_process_header_def tw Let_def mem
    using fields_of_line [OF assms(2), of key n body] atoi_dec_print [of n] assms(3,4) of_nat63_not_error [of n]
    by (simp add: atoof_eq_atoi flushed_def)
qed

text \<open>A server that sends one byte more than it announced: the count of the trailer wraps around, the suffix is not sent and the response does not end.\<close>

lemma mcm_excess:
  assumes "length data + 8 < 2 ^ 63" and "data \<noteq> []" and "ms_length st = of_nat (length data + 7)" and "ms_rest st = 7"
  shows "ngx_http_mcm_filter True va lcf (data @ mc_end @ [x]) st =
    (NGX_OK, st\<lparr>ms_out := ms_out st @ [data], ms_rest := - 1, ms_length := - 1\<rparr>)"
  using filter_data [OF assms(3,4,2), of "data @ mc_end @ [x]" va lcf] assms(1) length_mc_end by (simp add: Let_def)

text \<open>A length that is not followed by a carriage return loses its last digit.\<close>

lemma mcm_length_cut: "mcm_fields (bs ''VALUE k 0 12'' @ [0]) 7 = Some (Some (bs ''1'', 12))"
  by code_simp

text \<open>The byte behind the buffer is tested: when it happens to be a line feed, an incomplete line is taken for a whole one and the position ends up behind the data.\<close>

lemma mcm_stale_line_feed:
  "ngx_http_mcm_process_header demo_mcm_va demo_mcm_conf (bs ''k'') (bs ''VALUE k 0 12'' @ [CR]) (Some LF) demo_mcm_vars = None"
  by code_simp

end
