(* ===== verification/Http_Request_Line.thy ===== *)
theory Http_Request_Line
  imports Ngx_Number
begin

text \<open>
  \<^verbatim>\<open>ngx_http_parse_request_line\<close> of \<^verbatim>\<open>src/http/ngx_http_parse.c\<close>: the state machine that reads the first
  line of a request, one byte at a time, and can stop at the end of the received data and be
  called again.

  A pointer into the request is an offset, and a pointer that may be \<^verbatim>\<open>NULL\<close> an \<open>nat option\<close>; the
  memory of the buffer is a byte list that covers at least the received bytes. The bit fields
  \<^verbatim>\<open>http_major\<close> and \<^verbatim>\<open>http_minor\<close> have 16 bits. The branches for \<^verbatim>\<open>NGX_WIN32\<close> are not compiled on the
  platforms of the model.
\<close>

section \<open>Data\<close>

datatype http_parse_rc =
    PARSE_OK
  | PARSE_AGAIN
  | PARSE_HEADER_DONE
  | PARSE_INVALID_METHOD
  | PARSE_INVALID_REQUEST
  | PARSE_INVALID_09_METHOD
  | PARSE_INVALID_HEADER

datatype http_method =
    NGX_HTTP_UNKNOWN | NGX_HTTP_GET | NGX_HTTP_HEAD | NGX_HTTP_POST | NGX_HTTP_PUT | NGX_HTTP_DELETE
  | NGX_HTTP_MKCOL | NGX_HTTP_COPY | NGX_HTTP_MOVE | NGX_HTTP_OPTIONS | NGX_HTTP_PROPFIND | NGX_HTTP_PROPPATCH
  | NGX_HTTP_LOCK | NGX_HTTP_UNLOCK | NGX_HTTP_TRACE

datatype rl_state =
    sw_start | sw_method | sw_spaces_before_uri | sw_schema | sw_schema_slash | sw_schema_slash_slash
  | sw_host | sw_port | sw_after_slash_in_uri | sw_check_uri | sw_uri | sw_http_09 | sw_http_H | sw_http_HT
  | sw_http_HTT | sw_http_HTTP | sw_first_major_digit | sw_major_digit | sw_first_minor_digit | sw_minor_digit
  | sw_spaces_after_digit | sw_almost_done

record request =
  r_state :: rl_state
  request_start :: "nat option"
  request_end :: "nat option"
  method_end :: "nat option"
  r_method :: http_method
  schema_start :: "nat option"
  schema_end :: "nat option"
  host_start :: "nat option"
  host_end :: "nat option"
  port_end :: "nat option"
  uri_start :: "nat option"
  uri_end :: "nat option"
  uri_ext :: "nat option"
  args_start :: "nat option"
  http_protocol :: "nat option"
  complex_uri :: bool
  quoted_uri :: bool
  plus_in_uri :: bool
  zero_in_uri :: bool
  http_minor :: "16 word"
  http_major :: "16 word"
  http_version :: nat

text \<open>The table of the bytes that need no attention in a URI.\<close>

definition usual :: "u32 list" where
  "usual = [0xffffdbfe, 0x7fff37d6, 0xffffffff, 0xffffffff, 0xffffffff, 0xffffffff, 0xffffffff, 0xffffffff]"

definition is_usual :: "byte \<Rightarrow> bool" where
  "is_usual ch \<longleftrightarrow> usual ! unat (drop_bit 5 ch) AND push_bit (unat (ch AND 0x1f)) 1 \<noteq> 0"

abbreviation SP :: byte where "SP \<equiv> cb (CHR '' '')"

definition is_upper :: "byte \<Rightarrow> bool" where
  "is_upper ch \<longleftrightarrow> \<not> (ch < cb (CHR ''A'') \<or> ch > cb (CHR ''Z''))"

definition is_alpha :: "byte \<Rightarrow> bool" where
  "is_alpha ch \<longleftrightarrow> ch OR 0x20 \<ge> cb (CHR ''a'') \<and> ch OR 0x20 \<le> cb (CHR ''z'')"

definition is_digit :: "byte \<Rightarrow> bool" where
  "is_digit ch \<longleftrightarrow> ch \<ge> cb (CHR ''0'') \<and> ch \<le> cb (CHR ''9'')"

section \<open>One byte\<close>

text \<open>A step goes on in a state, leaves to the label \<^verbatim>\<open>done\<close>, or returns an error.\<close>

datatype 'r outcome = Goto rl_state 'r | Finish 'r | Fail http_parse_rc 'r

text \<open>The switch on the length of the method.\<close>

definition method_of :: "bytes \<Rightarrow> http_method \<Rightarrow> http_method" where
  "method_of m old =
     (if length m = 3 then
        if m = bs ''GET'' then NGX_HTTP_GET else if m = bs ''PUT'' then NGX_HTTP_PUT else old
      else if length m = 4 then
        if m ! 1 = cb (CHR ''O'') then
          if m = bs ''POST'' then NGX_HTTP_POST else if m = bs ''COPY'' then NGX_HTTP_COPY
          else if m = bs ''MOVE'' then NGX_HTTP_MOVE else if m = bs ''LOCK'' then NGX_HTTP_LOCK else old
        else if m = bs ''HEAD'' then NGX_HTTP_HEAD else old
      else if length m = 5 then
        if m = bs ''MKCOL'' then NGX_HTTP_MKCOL else if m = bs ''TRACE'' then NGX_HTTP_TRACE else old
      else if length m = 6 then
        if m = bs ''DELETE'' then NGX_HTTP_DELETE else if m = bs ''UNLOCK'' then NGX_HTTP_UNLOCK else old
      else if length m = 7 then if m = bs ''OPTIONS'' then NGX_HTTP_OPTIONS else old
      else if length m = 8 then if m = bs ''PROPFIND'' then NGX_HTTP_PROPFIND else old
      else if length m = 9 then if m = bs ''PROPPATCH'' then NGX_HTTP_PROPPATCH else old
      else old)"

definition rl_method :: "bytes \<Rightarrow> nat \<Rightarrow> byte \<Rightarrow> request \<Rightarrow> request outcome" where
  "rl_method mem p ch r =
     (if ch = SP then
        let m = the (request_start r) in
        Goto sw_spaces_before_uri
          (r\<lparr>method_end := Some (p - 1), r_method := method_of (take (p - m) (drop m mem)) (r_method r)\<rparr>)
      else if \<not> is_upper ch then Fail PARSE_INVALID_METHOD r
      else Goto sw_method r)"

definition rl_before_uri :: "nat \<Rightarrow> byte \<Rightarrow> request \<Rightarrow> request outcome" where
  "rl_before_uri p ch r =
     (if ch = cb (CHR ''/'') then Goto sw_after_slash_in_uri (r\<lparr>uri_start := Some p\<rparr>)
      else if is_alpha ch then Goto sw_schema (r\<lparr>schema_start := Some p\<rparr>)
      else if ch = SP then Goto sw_spaces_before_uri r
      else Fail PARSE_INVALID_REQUEST r)"

definition rl_schema :: "nat \<Rightarrow> byte \<Rightarrow> request \<Rightarrow> request outcome" where
  "rl_schema p ch r =
     (if is_alpha ch then Goto sw_schema r
      else if ch = cb (CHR '':'') then Goto sw_schema_slash (r\<lparr>schema_end := Some p\<rparr>)
      else Fail PARSE_INVALID_REQUEST r)"

text \<open>The single slash of the request line that stands for a missing URI.\<close>

definition use_schema_slash :: "request \<Rightarrow> request" where
  "use_schema_slash r =
     r\<lparr>uri_start := map_option (\<lambda>e. e + 1) (schema_end r), uri_end := map_option (\<lambda>e. e + 2) (schema_end r)\<rparr>"

definition rl_host :: "nat \<Rightarrow> byte \<Rightarrow> request \<Rightarrow> request outcome" where
  "rl_host p ch r =
     (if is_alpha ch then Goto sw_host r
      else if is_digit ch \<or> ch = cb (CHR ''.'') \<or> ch = cb (CHR ''-'') then Goto sw_host r
      else
        let r = r\<lparr>host_end := Some p\<rparr> in
        if ch = cb (CHR '':'') then Goto sw_port r
        else if ch = cb (CHR ''/'') then Goto sw_after_slash_in_uri (r\<lparr>uri_start := Some p\<rparr>)
        else if ch = SP then Goto sw_http_09 (use_schema_slash r)
        else Fail PARSE_INVALID_REQUEST r)"

definition rl_port :: "nat \<Rightarrow> byte \<Rightarrow> request \<Rightarrow> request outcome" where
  "rl_port p ch r =
     (if is_digit ch then Goto sw_port r
      else if ch = cb (CHR ''/'') then Goto sw_after_slash_in_uri (r\<lparr>port_end := Some p, uri_start := Some p\<rparr>)
      else if ch = SP then Goto sw_http_09 (use_schema_slash (r\<lparr>port_end := Some p\<rparr>))
      else Fail PARSE_INVALID_REQUEST r)"

definition rl_after_slash :: "nat \<Rightarrow> byte \<Rightarrow> request \<Rightarrow> request outcome" where
  "rl_after_slash p ch r =
     (if is_usual ch then Goto sw_check_uri r
      else if ch = SP then Goto sw_http_09 (r\<lparr>uri_end := Some p\<rparr>)
      else if ch = CR then Goto sw_almost_done (r\<lparr>uri_end := Some p, http_minor := 9\<rparr>)
      else if ch = LF then Finish (r\<lparr>uri_end := Some p, http_minor := 9\<rparr>)
      else if ch = cb (CHR ''.'') then Goto sw_uri (r\<lparr>complex_uri := True\<rparr>)
      else if ch = cb (CHR ''%'') then Goto sw_uri (r\<lparr>quoted_uri := True\<rparr>)
      else if ch = cb (CHR ''/'') then Goto sw_uri (r\<lparr>complex_uri := True\<rparr>)
      else if ch = cb (CHR ''?'') then Goto sw_uri (r\<lparr>args_start := Some (p + 1)\<rparr>)
      else if ch = cb (CHR ''#'') then Goto sw_uri (r\<lparr>complex_uri := True\<rparr>)
      else if ch = cb (CHR ''+'') then Goto sw_after_slash_in_uri (r\<lparr>plus_in_uri := True\<rparr>)
      else if ch = 0 then Goto sw_after_slash_in_uri (r\<lparr>zero_in_uri := True\<rparr>)
      else Goto sw_check_uri r)"

definition rl_check_uri :: "nat \<Rightarrow> byte \<Rightarrow> request \<Rightarrow> request outcome" where
  "rl_check_uri p ch r =
     (if is_usual ch then Goto sw_check_uri r
      else if ch = cb (CHR ''/'') then Goto sw_after_slash_in_uri (r\<lparr>uri_ext := None\<rparr>)
      else if ch = cb (CHR ''.'') then Goto sw_check_uri (r\<lparr>uri_ext := Some (p + 1)\<rparr>)
      else if ch = SP then Goto sw_http_09 (r\<lparr>uri_end := Some p\<rparr>)
      else if ch = CR then Goto sw_almost_done (r\<lparr>uri_end := Some p, http_minor := 9\<rparr>)
      else if ch = LF then Finish (r\<lparr>uri_end := Some p, http_minor := 9\<rparr>)
      else if ch = cb (CHR ''%'') then Goto sw_uri (r\<lparr>quoted_uri := True\<rparr>)
      else if ch = cb (CHR ''?'') then Goto sw_uri (r\<lparr>args_start := Some (p + 1)\<rparr>)
      else if ch = cb (CHR ''#'') then Goto sw_uri (r\<lparr>complex_uri := True\<rparr>)
      else if ch = cb (CHR ''+'') then Goto sw_check_uri (r\<lparr>plus_in_uri := True\<rparr>)
      else if ch = 0 then Goto sw_check_uri (r\<lparr>zero_in_uri := True\<rparr>)
      else Goto sw_check_uri r)"

definition rl_uri :: "nat \<Rightarrow> byte \<Rightarrow> request \<Rightarrow> request outcome" where
  "rl_uri p ch r =
     (if is_usual ch then Goto sw_uri r
      else if ch = SP then Goto sw_http_09 (r\<lparr>uri_end := Some p\<rparr>)
      else if ch = CR then Goto sw_almost_done (r\<lparr>uri_end := Some p, http_minor := 9\<rparr>)
      else if ch = LF then Finish (r\<lparr>uri_end := Some p, http_minor := 9\<rparr>)
      else if ch = cb (CHR ''#'') then Goto sw_uri (r\<lparr>complex_uri := True\<rparr>)
      else if ch = 0 then Goto sw_uri (r\<lparr>zero_in_uri := True\<rparr>)
      else Goto sw_uri r)"

definition rl_http_09 :: "nat \<Rightarrow> byte \<Rightarrow> request \<Rightarrow> request outcome" where
  "rl_http_09 p ch r =
     (if ch = SP then Goto sw_http_09 r
      else if ch = CR then Goto sw_almost_done (r\<lparr>http_minor := 9\<rparr>)
      else if ch = LF then Finish (r\<lparr>http_minor := 9\<rparr>)
      else if ch = cb (CHR ''H'') then Goto sw_http_H (r\<lparr>http_protocol := Some p\<rparr>)
      else Fail PARSE_INVALID_REQUEST r)"

definition rl_expect :: "byte \<Rightarrow> rl_state \<Rightarrow> byte \<Rightarrow> request \<Rightarrow> request outcome" where
  "rl_expect c st ch r = (if ch = c then Goto st r else Fail PARSE_INVALID_REQUEST r)"

definition rl_major_digit :: "byte \<Rightarrow> request \<Rightarrow> request outcome" where
  "rl_major_digit ch r =
     (if ch = cb (CHR ''.'') then Goto sw_first_minor_digit r
      else if \<not> is_digit ch then Fail PARSE_INVALID_REQUEST r
      else Goto sw_major_digit (r\<lparr>http_major := http_major r * 10 + ucast ch - ucast (cb (CHR ''0''))\<rparr>))"

definition rl_minor_digit :: "byte \<Rightarrow> request \<Rightarrow> request outcome" where
  "rl_minor_digit ch r =
     (if ch = CR then Goto sw_almost_done r
      else if ch = LF then Finish r
      else if ch = SP then Goto sw_spaces_after_digit r
      else if \<not> is_digit ch then Fail PARSE_INVALID_REQUEST r
      else Goto sw_minor_digit (r\<lparr>http_minor := http_minor r * 10 + ucast ch - ucast (cb (CHR ''0''))\<rparr>))"

fun rl_step :: "bytes \<Rightarrow> nat \<Rightarrow> byte \<Rightarrow> rl_state \<Rightarrow> request \<Rightarrow> request outcome" where
  "rl_step mem p ch sw_start r =
     (let r = r\<lparr>request_start := Some p\<rparr> in
      if ch = CR \<or> ch = LF then Goto sw_start r
      else if \<not> is_upper ch then Fail PARSE_INVALID_METHOD r
      else Goto sw_method r)"
| "rl_step mem p ch sw_method r = rl_method mem p ch r"
| "rl_step mem p ch sw_spaces_before_uri r = rl_before_uri p ch r"
| "rl_step mem p ch sw_schema r = rl_schema p ch r"
| "rl_step mem p ch sw_schema_slash r = rl_expect (cb (CHR ''/'')) sw_schema_slash_slash ch r"
| "rl_step mem p ch sw_schema_slash_slash r =
     (if ch = cb (CHR ''/'') then Goto sw_host (r\<lparr>host_start := Some (p + 1)\<rparr>) else Fail PARSE_INVALID_REQUEST r)"
| "rl_step mem p ch sw_host r = rl_host p ch r"
| "rl_step mem p ch sw_port r = rl_port p ch r"
| "rl_step mem p ch sw_after_slash_in_uri r = rl_after_slash p ch r"
| "rl_step mem p ch sw_check_uri r = rl_check_uri p ch r"
| "rl_step mem p ch sw_uri r = rl_uri p ch r"
| "rl_step mem p ch sw_http_09 r = rl_http_09 p ch r"
| "rl_step mem p ch sw_http_H r = rl_expect (cb (CHR ''T'')) sw_http_HT ch r"
| "rl_step mem p ch sw_http_HT r = rl_expect (cb (CHR ''T'')) sw_http_HTT ch r"
| "rl_step mem p ch sw_http_HTT r = rl_expect (cb (CHR ''P'')) sw_http_HTTP ch r"
| "rl_step mem p ch sw_http_HTTP r = rl_expect (cb (CHR ''/'')) sw_first_major_digit ch r"
| "rl_step mem p ch sw_first_major_digit r =
     (if ch < cb (CHR ''1'') \<or> ch > cb (CHR ''9'') then Fail PARSE_INVALID_REQUEST r
      else Goto sw_major_digit (r\<lparr>http_major := ucast (ch - cb (CHR ''0''))\<rparr>))"
| "rl_step mem p ch sw_major_digit r = rl_major_digit ch r"
| "rl_step mem p ch sw_first_minor_digit r =
     (if \<not> is_digit ch then Fail PARSE_INVALID_REQUEST r
      else Goto sw_minor_digit (r\<lparr>http_minor := ucast (ch - cb (CHR ''0''))\<rparr>))"
| "rl_step mem p ch sw_minor_digit r = rl_minor_digit ch r"
| "rl_step mem p ch sw_spaces_after_digit r =
     (if ch = SP then Goto sw_spaces_after_digit r
      else if ch = CR then Goto sw_almost_done r
      else if ch = LF then Finish r
      else Fail PARSE_INVALID_REQUEST r)"
| "rl_step mem p ch sw_almost_done r =
     (let r = r\<lparr>request_end := Some (p - 1)\<rparr> in
      if ch = LF then Finish r else Fail PARSE_INVALID_REQUEST r)"

section \<open>The loop\<close>

text \<open>What follows the label \<^verbatim>\<open>done\<close>.\<close>

definition rl_done :: "nat \<Rightarrow> request \<Rightarrow> http_parse_rc \<times> request" where
  "rl_done p r =
     (let r = (if request_end r = None then r\<lparr>request_end := Some p\<rparr> else r);
          r = r\<lparr>http_version := unat (http_major r) * 1000 + unat (http_minor r), r_state := sw_start\<rparr>
      in (if http_version r = 9 \<and> r_method r \<noteq> NGX_HTTP_GET then PARSE_INVALID_09_METHOD else PARSE_OK, r))"

text \<open>
  The loop over the bytes from \<open>p\<close> on. The result is the status, the request and the new \<^verbatim>\<open>b->pos\<close>,
  \<open>None\<close> when an error return leaves it as it was.
\<close>

fun rl_loop :: "bytes \<Rightarrow> nat \<Rightarrow> bytes \<Rightarrow> rl_state \<Rightarrow> request \<Rightarrow> http_parse_rc \<times> request \<times> nat option" where
  "rl_loop mem p [] st r = (PARSE_AGAIN, r\<lparr>r_state := st\<rparr>, Some p)"
| "rl_loop mem p (ch # chs) st r =
     (case rl_step mem p ch st r of
        Goto st' r' \<Rightarrow> rl_loop mem (p + 1) chs st' r'
      | Finish r' \<Rightarrow> (case rl_done p r' of (rc, r'') \<Rightarrow> (rc, r'', Some (p + 1)))
      | Fail rc r' \<Rightarrow> (rc, r', None))"

definition ngx_http_parse_request_line ::
    "bytes \<Rightarrow> nat \<Rightarrow> nat \<Rightarrow> request \<Rightarrow> http_parse_rc \<times> request \<times> nat" where
  "ngx_http_parse_request_line mem pos lst r =
     (case rl_loop mem pos (take (lst - pos) (drop pos mem)) (r_state r) r of
        (rc, r', p) \<Rightarrow> (rc, r', case p of None \<Rightarrow> pos | Some p \<Rightarrow> p))"

section \<open>Calling the parser again\<close>

lemma rl_step_state:
  "rl_step mem p ch st (r\<lparr>r_state := s\<rparr>) =
     (case rl_step mem p ch st r of
        Goto st' r' \<Rightarrow> Goto st' (r'\<lparr>r_state := s\<rparr>)
      | Finish r' \<Rightarrow> Finish (r'\<lparr>r_state := s\<rparr>)
      | Fail rc r' \<Rightarrow> Fail rc (r'\<lparr>r_state := s\<rparr>))"
  by (cases st)
    (simp_all add: rl_method_def rl_before_uri_def rl_schema_def rl_host_def rl_port_def rl_after_slash_def
      rl_check_uri_def rl_uri_def rl_http_09_def rl_expect_def rl_major_digit_def rl_minor_digit_def
      use_schema_slash_def Let_def)

lemma rl_loop_state:
  "rl_loop mem p chs st (r\<lparr>r_state := s\<rparr>) =
     (case rl_loop mem p chs st r of (rc, r', q) \<Rightarrow> (rc, if q = None then r'\<lparr>r_state := s\<rparr> else r', q))"
proof (induction chs arbitrary: p st r)
  case (Cons ch chs)
  show ?case
  proof (cases "rl_step mem p ch st r")
    case (Goto st' r')
    with Cons.IH [of "p + 1" st' r'] show ?thesis using rl_step_state [where r = r and s = s] by simp
  next
    case (Finish r')
    then show ?thesis using rl_step_state [where r = r and s = s] by (simp add: rl_done_def Let_def)
  next
    case (Fail rc r')
    then show ?thesis using rl_step_state [where r = r and s = s] by simp
  qed
qed simp

lemma rl_step_keeps:
  "rl_step mem p ch st r = Goto st' r' \<Longrightarrow> r_state r' = r_state r"
  "rl_step mem p ch st r = Fail rc r' \<Longrightarrow> rc \<noteq> PARSE_AGAIN"
  by (cases st, auto simp: rl_method_def rl_before_uri_def rl_schema_def rl_host_def rl_port_def rl_after_slash_def
      rl_check_uri_def rl_uri_def rl_http_09_def rl_expect_def rl_major_digit_def rl_minor_digit_def
      use_schema_slash_def Let_def split: if_splits)+

lemma rl_done_final: "fst (rl_done p r) \<noteq> PARSE_AGAIN"
  by (simp add: rl_done_def Let_def)

lemma rl_loop_append:
  "rl_loop mem p (xs @ ys) st r =
     (case rl_loop mem p xs st r of
        (rc, r', q) \<Rightarrow>
          if rc = PARSE_AGAIN then
            (case rl_loop mem (p + length xs) ys (r_state r') r' of
               (rc2, r2, q2) \<Rightarrow> (rc2, if q2 = None then r2\<lparr>r_state := r_state r\<rparr> else r2, q2))
          else (rc, r', q))"
proof (induction xs arbitrary: p st r)
  case Nil
  have "snd (snd (rl_loop mem p ys st r)) = None \<Longrightarrow>
      (fst (snd (rl_loop mem p ys st r)))\<lparr>r_state := r_state r\<rparr> = fst (snd (rl_loop mem p ys st r))"
    using rl_loop_state [of mem p ys st "r_state r" r] by (simp split: prod.splits if_splits)
  then show ?case using rl_loop_state [of mem p ys st st r] by (auto split: prod.splits)
next
  case (Cons ch xs)
  show ?case
  proof (cases "rl_step mem p ch st r")
    case (Goto st' r')
    with Cons.IH [of "p + 1" st' r'] rl_step_keeps(1) [OF Goto] show ?thesis by (simp split: prod.splits)
  next
    case (Finish r')
    then show ?thesis using rl_done_final [of p r'] by (auto split: prod.splits)
  next
    case (Fail rc r')
    then show ?thesis using rl_step_keeps(2) [OF Fail] by simp
  qed
qed

lemma rl_step_mem: "take p mem = take p mem' \<Longrightarrow> rl_step mem p ch st r = rl_step mem' p ch st r"
proof -
  assume "take p mem = take p mem'"
  then have "take (p - m) (drop m mem) = take (p - m) (drop m mem')" for m by (metis drop_take)
  then show ?thesis by (cases st) (simp_all add: rl_method_def)
qed

lemma rl_loop_mem:
  "take (p + length chs) mem = take (p + length chs) mem' \<Longrightarrow> rl_loop mem p chs st r = rl_loop mem' p chs st r"
proof (induction chs arbitrary: p st r)
  case (Cons ch chs)
  from Cons.prems have "take p mem = take p mem'" by (metis take_take min.absorb1 le_add1)
  then have step: "rl_step mem p ch st r = rl_step mem' p ch st r" by (rule rl_step_mem)
  show ?case using Cons.IH [of "p + 1"] Cons.prems by (simp add: step split: outcome.split)
qed simp

lemma rl_again_state:
  "rl_loop mem p chs st r = (PARSE_AGAIN, r', q) \<Longrightarrow> q = Some (p + length chs)"
proof (induction chs arbitrary: p st r)
  case (Cons ch chs)
  show ?case
  proof (cases "rl_step mem p ch st r")
    case (Goto st' r1)
    with Cons.prems Cons.IH [of "p + 1" st' r1] show ?thesis by simp
  next
    case (Finish r1)
    with Cons.prems rl_done_final [of p r1] show ?thesis by (auto split: prod.splits)
  next
    case (Fail rc r1)
    with Cons.prems rl_step_keeps(2) [OF Fail] show ?thesis by simp
  qed
qed auto

lemma rl_fail_kind: "rl_step mem p ch st r = Fail rc r' \<Longrightarrow> rc \<in> {PARSE_INVALID_METHOD, PARSE_INVALID_REQUEST}"
  by (cases st, auto simp: rl_method_def rl_before_uri_def rl_schema_def rl_host_def rl_port_def rl_after_slash_def
      rl_check_uri_def rl_uri_def rl_http_09_def rl_expect_def rl_major_digit_def rl_minor_digit_def
      use_schema_slash_def Let_def split: if_splits)

lemma rl_none_failed:
  "rl_loop mem p chs st r = (rc, r', None) \<Longrightarrow> rc \<in> {PARSE_INVALID_METHOD, PARSE_INVALID_REQUEST}"
proof (induction chs arbitrary: p st r)
  case (Cons ch chs)
  then show ?case using rl_fail_kind by (auto split: outcome.splits prod.splits)
qed simp

text \<open>
  C19. The request line parser may be called on any part of the line first: if it asks for more
  data, calling it again once more bytes are there gives the status, the fields of the request
  and the position that one call on all the bytes gives.
\<close>

theorem request_line_resume:
  assumes "ngx_http_parse_request_line xs pos (length xs) r = (PARSE_AGAIN, r1, pos1)" and "pos \<le> length xs"
    and "ngx_http_parse_request_line (xs @ ys) pos1 (length (xs @ ys)) r1 = (rc, r2, pos2)"
    and "ngx_http_parse_request_line (xs @ ys) pos (length (xs @ ys)) r = (rc', r2', pos2')"
  shows "rc = rc' \<and> r2\<lparr>r_state := s\<rparr> = r2'\<lparr>r_state := s\<rparr> \<and>
    (rc \<in> {PARSE_OK, PARSE_AGAIN, PARSE_INVALID_09_METHOD} \<longrightarrow> r2 = r2' \<and> pos2 = pos2')"
proof -
  obtain q where one: "rl_loop xs pos (drop pos xs) (r_state r) r = (PARSE_AGAIN, r1, q)"
    using assms(1) by (auto simp: ngx_http_parse_request_line_def split: prod.splits)
  have q: "q = Some (length xs)" using rl_again_state [OF one] assms(2) by simp
  then have pos1: "pos1 = length xs" using assms(1) one by (simp add: ngx_http_parse_request_line_def)
  have "rl_loop (xs @ ys) pos (drop pos xs) (r_state r) r = (PARSE_AGAIN, r1, q)"
    using one rl_loop_mem [of pos "drop pos xs" xs "xs @ ys"] assms(2) by simp
  then have whole: "rl_loop (xs @ ys) pos (drop pos xs @ ys) (r_state r) r =
      (case rl_loop (xs @ ys) (length xs) ys (r_state r1) r1 of
         (rc2, r2, q2) \<Rightarrow> (rc2, if q2 = None then r2\<lparr>r_state := r_state r\<rparr> else r2, q2))"
    using assms(2) by (simp add: rl_loop_append)
  obtain rc2 r3 q2 where part: "rl_loop (xs @ ys) (length xs) ys (r_state r1) r1 = (rc2, r3, q2)"
    by (metis prod.exhaust)
  have "rc = rc2" "r2 = r3" "rc' = rc2" "r2' = (if q2 = None then r3\<lparr>r_state := r_state r\<rparr> else r3)"
    using assms(2-4) pos1 part whole by (auto simp: ngx_http_parse_request_line_def)
  moreover have "q2 = None \<Longrightarrow> rc2 \<notin> {PARSE_OK, PARSE_AGAIN, PARSE_INVALID_09_METHOD}"
    using rl_none_failed [of "xs @ ys" "length xs" ys "r_state r1" r1 rc2 r3] part by auto
  moreover have "pos2 = pos2'" if "q2 \<noteq> None"
    using that assms(2-4) pos1 part whole by (auto simp: ngx_http_parse_request_line_def split: option.splits)
  ultimately show ?thesis by auto
qed

section \<open>Well-formed request lines\<close>

lemma rl_loop_Goto:
  "rl_step mem p ch st r = Goto st' r' \<Longrightarrow> rl_loop mem p (ch # chs) st r = rl_loop mem (p + 1) chs st' r'"
  by simp

lemma usual_specials:
  "\<not> is_usual 0" "\<not> is_usual SP" "\<not> is_usual CR" "\<not> is_usual LF" "\<not> is_usual (cb (CHR ''.''))" "\<not> is_usual (cb (CHR ''/''))"
  "\<not> is_usual (cb (CHR ''%''))" "\<not> is_usual (cb (CHR ''?''))" "\<not> is_usual (cb (CHR ''#''))" "\<not> is_usual (cb (CHR ''+''))"
  by (simp_all add: is_usual_def usual_def)

text \<open>The method: upper case letters and a space.\<close>

lemma rl_loop_upper: "list_all is_upper xs \<Longrightarrow> rl_loop mem p (xs @ ys) sw_method r = rl_loop mem (p + length xs) ys sw_method r"
proof (induction xs arbitrary: p)
  case (Cons x xs)
  have "x \<noteq> SP" using Cons.prems by (auto simp: is_upper_def)
  then have "rl_step mem p x sw_method r = Goto sw_method r" using Cons.prems by (simp add: rl_method_def)
  then show ?case using Cons by simp
qed simp

lemma rl_loop_method:
  assumes "list_all is_upper m" and "m \<noteq> []" and "take (length m) (drop p mem) = m"
  shows "rl_loop mem p (m @ SP # ys) sw_start r =
    rl_loop mem (p + length m + 1) ys sw_spaces_before_uri
      (r\<lparr>request_start := Some p, method_end := Some (p + length m - 1), r_method := method_of m (r_method r)\<rparr>)"
proof -
  obtain c m' where m: "m = c # m'" using assms(2) by (cases m) auto
  let ?r = "r\<lparr>request_start := Some p\<rparr>"
  have c: "c \<noteq> CR" "c \<noteq> LF" "is_upper c" using assms(1) by (auto simp: m is_upper_def)
  have "rl_step mem p c sw_start r = Goto sw_method ?r" using c by simp
  then have "rl_loop mem p (m @ SP # ys) sw_start r = rl_loop mem (p + length m) (SP # ys) sw_method ?r"
    using rl_loop_upper [of m' mem "p + 1" "SP # ys" ?r] assms(1) by (simp add: m)
  then show ?thesis using assms(3) by (simp add: rl_method_def)
qed

text \<open>The URI: every byte but space and line ends is taken as it is.\<close>

definition uri_byte :: "byte \<Rightarrow> bool" where
  "uri_byte c \<longleftrightarrow> c \<noteq> SP \<and> c \<noteq> CR \<and> c \<noteq> LF"

definition uri_frame :: "request \<Rightarrow> request \<Rightarrow> bool" where
  "uri_frame r r' \<longleftrightarrow>
     (\<exists>e a c q pl z. r' = r\<lparr>uri_ext := e, args_start := a, complex_uri := c, quoted_uri := q, plus_in_uri := pl,
        zero_in_uri := z\<rparr>)"

definition in_uri :: "rl_state \<Rightarrow> bool" where
  "in_uri st \<longleftrightarrow> st = sw_after_slash_in_uri \<or> st = sw_check_uri \<or> st = sw_uri"

lemma uri_frame_refl: "uri_frame r r"
  unfolding uri_frame_def
  by (rule exI [of _ "uri_ext r"], rule exI [of _ "args_start r"], rule exI [of _ "complex_uri r"],
      rule exI [of _ "quoted_uri r"], rule exI [of _ "plus_in_uri r"], rule exI [of _ "zero_in_uri r"]) simp

lemma uri_frame_trans: "uri_frame r r' \<Longrightarrow> uri_frame r' r'' \<Longrightarrow> uri_frame r r''"
  unfolding uri_frame_def by (elim exE) (simp, blast)

lemma uri_frame_upd:
  "uri_frame r (r\<lparr>uri_ext := e\<rparr>)" "uri_frame r (r\<lparr>args_start := a\<rparr>)" "uri_frame r (r\<lparr>complex_uri := c\<rparr>)"
  "uri_frame r (r\<lparr>quoted_uri := q\<rparr>)" "uri_frame r (r\<lparr>plus_in_uri := pl\<rparr>)" "uri_frame r (r\<lparr>zero_in_uri := z\<rparr>)"
  unfolding uri_frame_def by (cases r; auto)+

lemma rl_step_uri:
  assumes "in_uri st" and "uri_byte ch"
  obtains st' r' where "rl_step mem p ch st r = Goto st' r'" and "in_uri st'" and "uri_frame r r'"
    and "zero_in_uri r' \<longleftrightarrow> zero_in_uri r \<or> ch = 0"
proof -
  have "\<exists>st' r'. rl_step mem p ch st r = Goto st' r' \<and> in_uri st' \<and> uri_frame r r' \<and>
      (zero_in_uri r' \<longleftrightarrow> zero_in_uri r \<or> ch = 0)"
    using assms usual_specials(1)
    by (auto simp: in_uri_def uri_byte_def rl_after_slash_def rl_check_uri_def rl_uri_def uri_frame_refl uri_frame_upd)
  then show thesis using that by blast
qed

lemma rl_loop_uri:
  "in_uri st \<Longrightarrow> list_all uri_byte xs \<Longrightarrow>
   \<exists>st' r'. rl_loop mem p (xs @ ys) st r = rl_loop mem (p + length xs) ys st' r' \<and> in_uri st' \<and> uri_frame r r' \<and>
     (zero_in_uri r' \<longleftrightarrow> zero_in_uri r \<or> 0 \<in> set xs)"
proof (induction xs arbitrary: p st r)
  case Nil
  then show ?case using uri_frame_refl by auto
next
  case (Cons x xs)
  obtain st1 r1 where 1: "rl_step mem p x st r = Goto st1 r1" "in_uri st1" "uri_frame r r1"
      "zero_in_uri r1 \<longleftrightarrow> zero_in_uri r \<or> x = 0"
    using rl_step_uri [of st x mem p r] Cons.prems by auto
  from Cons.IH [of st1 "p + 1" r1] 1(2) Cons.prems(2) obtain st2 r2 where
    2: "rl_loop mem (p + 1) (xs @ ys) st1 r1 = rl_loop mem (p + 1 + length xs) ys st2 r2" "in_uri st2" "uri_frame r1 r2"
      "zero_in_uri r2 \<longleftrightarrow> zero_in_uri r1 \<or> 0 \<in> set xs" by auto
  show ?case using 1 2 uri_frame_trans [OF 1(3) 2(3)] by (intro exI [of _ st2] exI [of _ r2]) auto
qed

text \<open>The protocol version.\<close>

lemma rl_loop_protocol:
  "rl_loop mem p (bs ''HTTP/'' @ ys) sw_http_09 r = rl_loop mem (p + 5) ys sw_first_major_digit (r\<lparr>http_protocol := Some p\<rparr>)"
proof -
  have five: "Suc (Suc (Suc (Suc (Suc p)))) = p + 5" by simp
  show ?thesis by (simp add: rl_http_09_def rl_expect_def five)
qed

lemma ucast16_of_byte: "(ucast (b :: byte) :: 16 word) = of_nat (unat b)"
  by (simp add: unsigned_of_nat unsigned_ucast_eq word_eq_iff_unsigned unat_of_nat take_bit_eq_mod
      order_less_trans [OF unat_byte_less])

lemma is_digit_dec: "is_digit c \<longleftrightarrow> is_dec c"
  by (simp add: is_digit_def is_dec_def)

lemma digit_bound: "is_dec c \<Longrightarrow> 48 \<le> unat c"
  by (simp add: is_dec_def word_le_nat_alt)

lemma digit16: "is_dec c \<Longrightarrow> w * 10 + ucast c - 48 = w * 10 + of_nat (unat c - 48)" for w :: "16 word"
  using digit_bound [of c] by (simp only: ucast16_of_byte of_nat_diff of_nat_numeral) simp

lemma rl_loop_major:
  "list_all is_dec ds \<Longrightarrow>
   rl_loop mem p (ds @ ys) sw_major_digit (r\<lparr>http_major := of_nat v\<rparr>) =
     rl_loop mem (p + length ds) ys sw_major_digit (r\<lparr>http_major := of_nat (dec_from v ds)\<rparr>)"
proof (induction ds arbitrary: p v)
  case (Cons d ds)
  have d: "is_dec d" "d \<noteq> cb (CHR ''.'')" using Cons.prems by (auto simp: is_dec_def)
  have "rl_step mem p d sw_major_digit (r\<lparr>http_major := of_nat v\<rparr>) =
      Goto sw_major_digit (r\<lparr>http_major := of_nat (v * 10 + (unat d - 48))\<rparr>)"
    using d digit16 [OF d(1), of "of_nat v"] by (simp add: rl_major_digit_def is_digit_dec)
  then show ?case using Cons by (simp del: of_nat_add of_nat_mult)
qed simp

lemma rl_loop_minor:
  "list_all is_dec ds \<Longrightarrow>
   rl_loop mem p (ds @ ys) sw_minor_digit (r\<lparr>http_minor := of_nat v\<rparr>) =
     rl_loop mem (p + length ds) ys sw_minor_digit (r\<lparr>http_minor := of_nat (dec_from v ds)\<rparr>)"
proof (induction ds arbitrary: p v)
  case (Cons d ds)
  have d: "is_dec d" "d \<noteq> CR" "d \<noteq> LF" "d \<noteq> SP" using Cons.prems by (auto simp: is_dec_def)
  have "rl_step mem p d sw_minor_digit (r\<lparr>http_minor := of_nat v\<rparr>) =
      Goto sw_minor_digit (r\<lparr>http_minor := of_nat (v * 10 + (unat d - 48))\<rparr>)"
    using d digit16 [OF d(1), of "of_nat v"] by (simp add: rl_minor_digit_def is_digit_dec)
  then show ?case using Cons by (simp del: of_nat_add of_nat_mult)
qed simp

lemma first_digit16: "is_dec c \<Longrightarrow> (ucast (c - 48) :: 16 word) = of_nat (unat c - 48)"
proof -
  assume c: "is_dec c"
  then have "unat (c - 48) = unat c - 48" by (simp add: unat_sub is_dec_def)
  then show ?thesis using ucast16_of_byte [of "c - 48"] by simp
qed

lemma dec_print_first: "0 < n \<Longrightarrow> hd (dec_print n) \<noteq> cb (CHR ''0'')"
proof (induction n rule: dec_print.induct)
  case (1 n)
  show ?case
  proof (cases "n < 10")
    case True
    have "\<forall>k \<in> set [1..<10]. (of_nat (48 + k) :: byte) \<noteq> 48" by (simp add: upt_rec del: set_upt)
    moreover have "n \<in> set [1..<10]" using 1 True by (simp only: set_upt atLeastLessThan_iff) simp
    ultimately have "(of_nat (48 + n) :: byte) \<noteq> 48" by blast
    then show ?thesis using True by (subst dec_print.simps) simp
  next
    case False
    then have "hd (dec_print n) = hd (dec_print (n div 10))"
      using dec_print_ok [of "n div 10"] by (subst dec_print.simps) simp
    then show ?thesis using 1(1) [OF False] False by simp
  qed
qed

lemma rl_loop_major_number:
  assumes "0 < n"
  shows "rl_loop mem p (dec_print n @ cb (CHR ''.'') # ys) sw_first_major_digit r =
    rl_loop mem (p + length (dec_print n) + 1) ys sw_first_minor_digit (r\<lparr>http_major := of_nat n\<rparr>)"
proof -
  obtain d ds where dd: "dec_print n = d # ds" using dec_print_ok [of n] by (cases "dec_print n") auto
  have d: "is_dec d" "list_all is_dec ds" "dec_from (unat d - 48) ds = n" "d \<noteq> 48"
    using dec_print_ok [of n] dec_print_first [OF assms] by (simp_all add: dd)
  have range: "49 \<le> d" "d \<le> 57" using d(1,4) by (auto simp: is_dec_def word_le_nat_alt word_unat_eq_iff)
  have "rl_step mem p d sw_first_major_digit r = Goto sw_major_digit (r\<lparr>http_major := of_nat (unat d - 48)\<rparr>)"
    using range first_digit16 [OF d(1)] by (simp add: not_less)
  then show ?thesis
    using rl_loop_major [OF d(2), where r = r and v = "unat d - 48" and p = "p + 1"] d(3)
    by (simp add: dd rl_major_digit_def)
qed

lemma rl_loop_minor_number:
  "rl_loop mem p (dec_print n @ ys) sw_first_minor_digit r =
     rl_loop mem (p + length (dec_print n)) ys sw_minor_digit (r\<lparr>http_minor := of_nat n\<rparr>)"
proof -
  obtain d ds where dd: "dec_print n = d # ds" using dec_print_ok [of n] by (cases "dec_print n") auto
  have d: "is_dec d" "list_all is_dec ds" "dec_from (unat d - 48) ds = n"
    using dec_print_ok [of n] by (simp_all add: dd)
  have "rl_step mem p d sw_first_minor_digit r = Goto sw_minor_digit (r\<lparr>http_minor := of_nat (unat d - 48)\<rparr>)"
    using first_digit16 [OF d(1)] d(1) by (simp add: is_digit_dec)
  then show ?thesis using rl_loop_minor [OF d(2), where r = r and v = "unat d - 48" and p = "p + 1"] d(3) by (simp add: dd)
qed

fun method_name :: "http_method \<Rightarrow> bytes" where
  "method_name NGX_HTTP_UNKNOWN = []"
| "method_name NGX_HTTP_GET = bs ''GET''"
| "method_name NGX_HTTP_HEAD = bs ''HEAD''"
| "method_name NGX_HTTP_POST = bs ''POST''"
| "method_name NGX_HTTP_PUT = bs ''PUT''"
| "method_name NGX_HTTP_DELETE = bs ''DELETE''"
| "method_name NGX_HTTP_MKCOL = bs ''MKCOL''"
| "method_name NGX_HTTP_COPY = bs ''COPY''"
| "method_name NGX_HTTP_MOVE = bs ''MOVE''"
| "method_name NGX_HTTP_OPTIONS = bs ''OPTIONS''"
| "method_name NGX_HTTP_PROPFIND = bs ''PROPFIND''"
| "method_name NGX_HTTP_PROPPATCH = bs ''PROPPATCH''"
| "method_name NGX_HTTP_LOCK = bs ''LOCK''"
| "method_name NGX_HTTP_UNLOCK = bs ''UNLOCK''"
| "method_name NGX_HTTP_TRACE = bs ''TRACE''"

lemma method_name_ok:
  assumes "m \<noteq> NGX_HTTP_UNKNOWN"
  shows "method_name m \<noteq> []" and "list_all is_upper (method_name m)" and "method_of (method_name m) old = m"
  using assms by (cases m; simp add: method_of_def is_upper_def)+

definition request_line :: "http_method \<Rightarrow> bytes \<Rightarrow> nat \<Rightarrow> nat \<Rightarrow> bytes" where
  "request_line m uri maj mnr =
     method_name m @ SP # uri @ SP # bs ''HTTP/'' @ dec_print maj @ cb (CHR ''.'') # dec_print mnr @ [CR, LF]"

lemma request_line_loop:
  assumes "m \<noteq> NGX_HTTP_UNKNOWN" and "list_all uri_byte path" and "0 < maj"
    and "take (length (method_name m)) (drop p mem) = method_name m"
  shows "\<exists>r1. uri_frame (r\<lparr>request_start := Some p, method_end := Some (p + length (method_name m) - 1), r_method := m,
      uri_start := Some (p + length (method_name m) + 1)\<rparr>) r1 \<and> (zero_in_uri r1 \<longleftrightarrow> zero_in_uri r \<or> 0 \<in> set path) \<and>
    rl_loop mem p (request_line m (cb (CHR ''/'') # path) maj mnr @ ys) sw_start r =
      rl_loop mem (p + length (request_line m (cb (CHR ''/'') # path) maj mnr) - 2) (CR # LF # ys) sw_minor_digit
        (r1\<lparr>uri_end := Some (p + length (method_name m) + 2 + length path),
           http_protocol := Some (p + length (method_name m) + 3 + length path),
           http_major := of_nat maj, http_minor := of_nat mnr\<rparr>)"
proof -
  note ok = method_name_ok [OF assms(1)]
  let ?k = "length (method_name m)"
  let ?v = "bs ''HTTP/'' @ dec_print maj @ cb (CHR ''.'') # dec_print mnr @ CR # LF # ys"
  let ?r0 = "r\<lparr>request_start := Some p, method_end := Some (p + ?k - 1), r_method := m, uri_start := Some (p + ?k + 1)\<rparr>"
  have "rl_loop mem p (request_line m (cb (CHR ''/'') # path) maj mnr @ ys) sw_start r =
      rl_loop mem (p + ?k + 2) (path @ SP # ?v) sw_after_slash_in_uri ?r0"
    using rl_loop_method [OF ok(2,1) assms(4)] ok(3) by (simp add: request_line_def rl_before_uri_def)
  moreover obtain st1 r1 where u: "rl_loop mem (p + ?k + 2) (path @ SP # ?v) sw_after_slash_in_uri ?r0 =
      rl_loop mem (p + ?k + 2 + length path) (SP # ?v) st1 r1" "in_uri st1" "uri_frame ?r0 r1"
      "zero_in_uri r1 \<longleftrightarrow> zero_in_uri r \<or> 0 \<in> set path"
    using rl_loop_uri [of sw_after_slash_in_uri path mem "p + ?k + 2" "SP # ?v" ?r0] assms(2) by (auto simp: in_uri_def)
  moreover have "rl_step mem q SP st1 r1 = Goto sw_http_09 (r1\<lparr>uri_end := Some q\<rparr>)" for q
    using u(2) usual_specials(2) by (auto simp: in_uri_def rl_after_slash_def rl_check_uri_def rl_uri_def)
  then have "rl_loop mem q (SP # ?v) st1 r1 =
      rl_loop mem (q + 1 + 5 + length (dec_print maj) + 1 + length (dec_print mnr)) (CR # LF # ys) sw_minor_digit
        (r1\<lparr>uri_end := Some q, http_protocol := Some (q + 1), http_major := of_nat maj, http_minor := of_nat mnr\<rparr>)" for q
    by (simp only: rl_loop_Goto rl_loop_protocol rl_loop_major_number [OF assms(3)] rl_loop_minor_number)
  moreover have "p + ?k + 2 + length path + 1 + 5 + length (dec_print maj) + 1 + length (dec_print mnr) =
      p + length (request_line m (cb (CHR ''/'') # path) maj mnr) - 2"
    by (simp add: request_line_def)
  moreover have "p + ?k + 2 + length path + 1 = p + ?k + 3 + length path" by simp
  ultimately show ?thesis by (intro exI [of _ r1]) (simp only: simp_thms)
qed

text \<open>
  C22. Every request line with a known method, a URI that starts with a slash and has no space or
  line end in it, and an HTTP version whose parts fit 16 bits is accepted: the method, the URI, the
  version and the bounds of the line are those that were sent, a NUL byte in the URI is reported,
  and the position is behind the line, whatever precedes and follows it in the buffer.
\<close>

theorem request_line_parsed:
  assumes "m \<noteq> NGX_HTTP_UNKNOWN" and "list_all uri_byte path" and "0 < maj" and "maj < 2 ^ 16" and "mnr < 2 ^ 16"
    and "r_state r = sw_start" and "request_end r = None"
    and "line = request_line m (cb (CHR ''/'') # path) maj mnr" and "mem = pre @ line @ post"
  shows "\<exists>r' us ue. ngx_http_parse_request_line mem (length pre) (length mem) r = (PARSE_OK, r', length pre + length line) \<and>
    r_method r' = m \<and> http_version r' = maj * 1000 + mnr \<and>
    uri_start r' = Some us \<and> uri_end r' = Some ue \<and> take (ue - us) (drop us mem) = cb (CHR ''/'') # path \<and>
    (zero_in_uri r' \<longleftrightarrow> zero_in_uri r \<or> 0 \<in> set path) \<and>
    request_start r' = Some (length pre) \<and> request_end r' = Some (length pre + length line - 2)"
proof -
  let ?k = "length (method_name m)" and ?p = "length pre"
  have "take ?k (drop ?p mem) = method_name m" by (simp add: assms(8,9) request_line_def)
  from request_line_loop [OF assms(1,2,3) this, of r mnr post] obtain r1 where
    frame: "uri_frame (r\<lparr>request_start := Some ?p, method_end := Some (?p + ?k - 1), r_method := m,
      uri_start := Some (?p + ?k + 1)\<rparr>) r1" and zero: "zero_in_uri r1 \<longleftrightarrow> zero_in_uri r \<or> 0 \<in> set path"
    and loop: "rl_loop mem ?p (line @ post) sw_start r = rl_loop mem (?p + length line - 2) (CR # LF # post) sw_minor_digit
      (r1\<lparr>uri_end := Some (?p + ?k + 2 + length path), http_protocol := Some (?p + ?k + 3 + length path),
         http_major := of_nat maj, http_minor := of_nat mnr\<rparr>)" unfolding assms(8) by blast
  let ?r2 = "r1\<lparr>uri_end := Some (?p + ?k + 2 + length path), http_protocol := Some (?p + ?k + 3 + length path),
         http_major := of_nat maj, http_minor := of_nat mnr\<rparr>"
  have len: "2 \<le> length line" by (simp add: assms(8) request_line_def)
  have r1: "r_method r1 = m" "uri_start r1 = Some (?p + ?k + 1)" "request_start r1 = Some ?p"
    using frame by (auto simp: uri_frame_def)
  have unats: "unat (of_nat maj :: 16 word) = maj" "unat (of_nat mnr :: 16 word) = mnr"
    using assms(4,5) by (simp_all add: unat_of_nat)
  let ?r' = "?r2\<lparr>request_end := Some (?p + length line - 2), http_version := maj * 1000 + mnr, r_state := sw_start\<rparr>"
  have "rl_loop mem ?p (line @ post) sw_start r = (PARSE_OK, ?r', Some (?p + length line))"
    using loop len unats assms(3) by (simp add: rl_minor_digit_def rl_done_def Let_def r1)
  then have "ngx_http_parse_request_line mem ?p (length mem) r = (PARSE_OK, ?r', ?p + length line)"
    using assms(6) by (simp add: ngx_http_parse_request_line_def assms(9))
  moreover have "take (?p + ?k + 2 + length path - (?p + ?k + 1)) (drop (?p + ?k + 1) mem) = cb (CHR ''/'') # path"
    by (simp add: assms(8,9) request_line_def)
  ultimately show ?thesis using r1 zero by (intro exI [of _ ?r']) simp
qed

definition fresh_request :: request where
  "fresh_request = \<lparr>r_state = sw_start, request_start = None, request_end = None, method_end = None,
     r_method = NGX_HTTP_UNKNOWN, schema_start = None, schema_end = None, host_start = None, host_end = None,
     port_end = None, uri_start = None, uri_end = None, uri_ext = None, args_start = None, http_protocol = None,
     complex_uri = False, quoted_uri = False, plus_in_uri = False, zero_in_uri = False, http_minor = 0, http_major = 0,
     http_version = 0\<rparr>"

definition demo_line :: bytes where
  "demo_line = bs ''GET /a?b HTTP/1.1'' @ [CR, LF]"

theorem request_line_parsed_witness:
  "\<exists>r' us ue. ngx_http_parse_request_line (demo_line @ [65]) 0 (length (demo_line @ [65])) fresh_request =
      (PARSE_OK, r', length demo_line) \<and>
    r_method r' = NGX_HTTP_GET \<and> http_version r' = 1001 \<and>
    uri_start r' = Some us \<and> uri_end r' = Some ue \<and> take (ue - us) (drop us (demo_line @ [65])) = bs ''/a?b''"
proof -
  have one: "dec_print (Suc 0) = bs ''1''" by (subst dec_print.simps) simp
  have line: "demo_line = request_line NGX_HTTP_GET (cb (CHR ''/'') # bs ''a?b'') 1 1"
    by (simp add: request_line_def one demo_line_def)
  have "list_all uri_byte (bs ''a?b'')" "r_state fresh_request = sw_start" "request_end fresh_request = None"
    by (simp_all add: uri_byte_def fresh_request_def)
  from request_line_parsed [OF _ this(1) _ _ _ this(2,3) line, of "demo_line @ [65]" "[]" "[65]"]
  show ?thesis by auto
qed

theorem request_line_resume_witness:
  "fst (ngx_http_parse_request_line (bs ''GET /'' @ [LF]) 2 6 (fresh_request\<lparr>r_state := sw_method, request_start := Some 0\<rparr>)) =
   fst (ngx_http_parse_request_line (bs ''GET /'' @ [LF]) 0 6 fresh_request)"
proof -
  let ?r1 = "fresh_request\<lparr>r_state := sw_method, request_start := Some 0\<rparr>"
  have first: "ngx_http_parse_request_line (bs ''GE'') 0 (length (bs ''GE'')) fresh_request = (PARSE_AGAIN, ?r1, 2)"
    by (simp add: ngx_http_parse_request_line_def fresh_request_def rl_method_def is_upper_def)
  obtain rc r2 p2 where a: "ngx_http_parse_request_line (bs ''GE'' @ bs ''T /'' @ [LF]) 2 (length (bs ''GE'' @ bs ''T /'' @ [LF])) ?r1 = (rc, r2, p2)"
    by (metis prod.exhaust)
  obtain rc' r2' p2' where b: "ngx_http_parse_request_line (bs ''GE'' @ bs ''T /'' @ [LF]) 0 (length (bs ''GE'' @ bs ''T /'' @ [LF])) fresh_request = (rc', r2', p2')"
    by (metis prod.exhaust)
  have "rc = rc'" using request_line_resume [OF first _ a b] by simp
  moreover have "length (bs ''GE'' @ bs ''T /'' @ [LF]) = 6" by simp
  ultimately show ?thesis using a b by (simp only:) (simp add: numeral_eq_Suc)
qed

text \<open>A version number wraps at 16 bits: version 65537.1 is taken for 1.1.\<close>

lemma http_version_wraps:
  "\<exists>r' p. ngx_http_parse_request_line (bs ''GET / HTTP/65537.1'' @ [LF]) 0 19 fresh_request = (PARSE_OK, r', p) \<and> http_version r' = 1001"
  by (simp add: ngx_http_parse_request_line_def fresh_request_def rl_method_def is_upper_def method_of_def rl_before_uri_def
      rl_after_slash_def is_usual_def usual_def rl_http_09_def rl_expect_def rl_major_digit_def rl_minor_digit_def is_digit_def
      rl_done_def Let_def)

end
