(* ===== verification/Http_Uri.thy ===== *)
theory Http_Uri
  imports Http_Request_Line "HOL-Library.Sublist"
begin

text \<open>
  \<^verbatim>\<open>ngx_http_parse_complex_uri\<close> and \<^verbatim>\<open>ngx_http_parse_unsafe_uri\<close> of \<^verbatim>\<open>src/http/ngx_http_parse.c\<close>: the machine that
  decodes a URI and removes \<^verbatim>\<open>//\<close>, \<^verbatim>\<open>/./\<close> and \<^verbatim>\<open>/../\<close> from it, and the check for unsafe URIs of
  subrequests.

  The URI is the list of its bytes. The write position \<^verbatim>\<open>u\<close> is the list of the bytes before it; what
  lies behind it is never read. A read before the start of that buffer is \<open>CUnderflow\<close>. The
  byte the loop holds in \<^verbatim>\<open>ch\<close> after a quoted pair is dispatched again in the state that was saved, which
  is what \<open>cu_second\<close> does at once. The branches for \<^verbatim>\<open>NGX_WIN32\<close> are not compiled.
\<close>

section \<open>Complex URIs\<close>

datatype cu_base = cu_usual | cu_slash | cu_dot | cu_dot_dot

datatype cu_state = Base cu_base | Quoted cu_base | QuotedSecond cu_base byte

record cuw =
  cu_out :: bytes
  cu_exten :: "nat option"
  cu_plus :: bool
  cu_quoted :: bool
  cu_zero :: bool

datatype cu_outcome = CNext cu_state cuw | CArgs cuw | CDone cuw | CInvalid | CUnderflow

abbreviation slash :: byte where "slash \<equiv> cb (CHR ''/'')"
abbreviation dot :: byte where "dot \<equiv> cb (CHR ''.'')"

definition cu_put :: "byte \<Rightarrow> cuw \<Rightarrow> cuw" where
  "cu_put ch c = c\<lparr>cu_out := cu_out c @ [ch]\<rparr>"

text \<open>\<^verbatim>\<open>while (*(u - 1) != '/') u--\<close>.\<close>

function back_to_slash :: "bytes \<Rightarrow> bytes option" where
  "back_to_slash u = (if u = [] then None else if last u = slash then Some u else back_to_slash (butlast u))"
  by pat_completeness auto
termination by (relation "measure length") auto

declare back_to_slash.simps [simp del]

text \<open>The cases \<^verbatim>\<open>?\<close>, \<^verbatim>\<open>#\<close>, \<^verbatim>\<open>+\<close> and \<^verbatim>\<open>default\<close>, which the four states share.\<close>

definition cu_other :: "byte \<Rightarrow> cuw \<Rightarrow> cu_outcome" where
  "cu_other ch c =
     (if ch = cb (CHR ''?'') then CArgs c
      else if ch = cb (CHR ''#'') then CDone c
      else if ch = cb (CHR ''+'') then CNext (Base cu_usual) (cu_put ch (c\<lparr>cu_plus := True\<rparr>))
      else CNext (Base cu_usual) (cu_put ch c))"

fun cu_base_step :: "bool \<Rightarrow> cu_base \<Rightarrow> byte \<Rightarrow> cuw \<Rightarrow> cu_outcome" where
  "cu_base_step merge_slashes cu_usual ch c =
     (if is_usual ch then CNext (Base cu_usual) (cu_put ch c)
      else if ch = slash then CNext (Base cu_slash) (cu_put ch (c\<lparr>cu_exten := None\<rparr>))
      else if ch = cb (CHR ''%'') then CNext (Quoted cu_usual) c
      else if ch = dot then CNext (Base cu_usual) (cu_put ch (c\<lparr>cu_exten := Some (length (cu_out c) + 1)\<rparr>))
      else cu_other ch c)"
| "cu_base_step merge_slashes cu_slash ch c =
     (if is_usual ch then CNext (Base cu_usual) (cu_put ch c)
      else if ch = slash then CNext (Base cu_slash) (if \<not> merge_slashes then cu_put ch c else c)
      else if ch = dot then CNext (Base cu_dot) (cu_put ch c)
      else if ch = cb (CHR ''%'') then CNext (Quoted cu_slash) c
      else cu_other ch c)"
| "cu_base_step merge_slashes cu_dot ch c =
     (if is_usual ch then CNext (Base cu_usual) (cu_put ch c)
      else if ch = slash then CNext (Base cu_slash) (c\<lparr>cu_out := butlast (cu_out c)\<rparr>)
      else if ch = dot then CNext (Base cu_dot_dot) (cu_put ch c)
      else if ch = cb (CHR ''%'') then CNext (Quoted cu_dot) c
      else cu_other ch c)"
| "cu_base_step merge_slashes cu_dot_dot ch c =
     (if is_usual ch then CNext (Base cu_usual) (cu_put ch c)
      else if ch = slash then
        if length (cu_out c) < 4 then CInvalid
        else (case back_to_slash (take (length (cu_out c) - 4) (cu_out c)) of
                None \<Rightarrow> CUnderflow
              | Some u \<Rightarrow> CNext (Base cu_slash) (c\<lparr>cu_out := u\<rparr>))
      else if ch = cb (CHR ''%'') then CNext (Quoted cu_dot_dot) c
      else cu_other ch c)"

definition cu_first :: "cu_base \<Rightarrow> byte \<Rightarrow> cuw \<Rightarrow> cu_outcome" where
  "cu_first b ch c =
     (let c = c\<lparr>cu_quoted := True\<rparr>; l = ch OR 0x20 in
      if is_digit ch then CNext (QuotedSecond b (ch - cb (CHR ''0''))) c
      else if l \<ge> cb (CHR ''a'') \<and> l \<le> cb (CHR ''f'') then CNext (QuotedSecond b (l - cb (CHR ''a'') + 10)) c
      else CInvalid)"

definition cu_second :: "bool \<Rightarrow> cu_base \<Rightarrow> byte \<Rightarrow> byte \<Rightarrow> cuw \<Rightarrow> cu_outcome" where
  "cu_second merge_slashes b decoded ch c =
     (let l = ch OR 0x20 in
      if is_digit ch then
        let ch = push_bit 4 decoded + ch - cb (CHR ''0'') in
        if ch = cb (CHR ''%'') then CNext (Base cu_usual) (cu_put ch c)
        else if ch = cb (CHR ''#'') then CNext (Base b) (cu_put ch c)
        else cu_base_step merge_slashes b ch (if ch = 0 then c\<lparr>cu_zero := True\<rparr> else c)
      else if l \<ge> cb (CHR ''a'') \<and> l \<le> cb (CHR ''f'') then
        let ch = push_bit 4 decoded + l - cb (CHR ''a'') + 10 in
        if ch = cb (CHR ''?'') then CNext (Base b) (cu_put ch c)
        else cu_base_step merge_slashes b ch (if ch = cb (CHR ''+'') then c\<lparr>cu_plus := True\<rparr> else c)
      else CInvalid)"

fun cu_step :: "bool \<Rightarrow> cu_state \<Rightarrow> byte \<Rightarrow> cuw \<Rightarrow> cu_outcome" where
  "cu_step merge_slashes (Base b) ch c = cu_base_step merge_slashes b ch c"
| "cu_step merge_slashes (Quoted b) ch c = cu_first b ch c"
| "cu_step merge_slashes (QuotedSecond b d) ch c = cu_second merge_slashes b d ch c"

text \<open>The result: the URI, the extension, the arguments when the fragment ends them, and where they start.\<close>

record cu_result =
  res_uri :: bytes
  res_exten :: "bytes option"
  res_args :: "bytes option"
  res_args_start :: "nat option"
  res_cu :: cuw

definition cu_finish :: "cuw \<Rightarrow> bytes option \<Rightarrow> nat option \<Rightarrow> cu_result" where
  "cu_finish c args start =
     \<lparr>res_uri = cu_out c, res_exten = map_option (\<lambda>e. drop e (cu_out c)) (cu_exten c), res_args = args,
      res_args_start = start, res_cu = c\<lparr>cu_exten := None\<rparr>\<rparr>"

text \<open>After \<^verbatim>\<open>args\<close>: \<open>p\<close> is the position behind the question mark, \<open>chs\<close> the bytes from there on.\<close>

definition cu_args :: "nat \<Rightarrow> bytes \<Rightarrow> cuw \<Rightarrow> cu_result" where
  "cu_args p chs c =
     (if cb (CHR ''#'') \<in> set chs then cu_finish c (Some (takeWhile (\<lambda>x. x \<noteq> cb (CHR ''#'')) chs)) None
      else cu_finish c None (Some p))"

text \<open>\<open>None\<close> is undefined behaviour; \<open>Inl\<close> a status other than \<^verbatim>\<open>NGX_OK\<close>.\<close>

fun cu_loop :: "bool \<Rightarrow> nat \<Rightarrow> bytes \<Rightarrow> cu_state \<Rightarrow> cuw \<Rightarrow> (http_parse_rc + cu_result) option" where
  "cu_loop merge_slashes p [] st c = Some (Inr (cu_finish c None None))"
| "cu_loop merge_slashes p (ch # chs) st c =
     (case cu_step merge_slashes st ch c of
        CNext st' c' \<Rightarrow> cu_loop merge_slashes (p + 1) chs st' c'
      | CArgs c' \<Rightarrow> Some (Inr (cu_args (p + 1) chs c'))
      | CDone c' \<Rightarrow> Some (Inr (cu_finish c' None None))
      | CInvalid \<Rightarrow> Some (Inl PARSE_INVALID_REQUEST)
      | CUnderflow \<Rightarrow> None)"

definition ngx_http_parse_complex_uri ::
    "bool \<Rightarrow> bytes \<Rightarrow> bool \<Rightarrow> bool \<Rightarrow> bool \<Rightarrow> (http_parse_rc + cu_result) option" where
  "ngx_http_parse_complex_uri merge_slashes uri plus_in quoted_in zero_in =
     cu_loop merge_slashes 0 uri (Base cu_usual)
       \<lparr>cu_out = [], cu_exten = None, cu_plus = plus_in, cu_quoted = quoted_in, cu_zero = zero_in\<rparr>"

section \<open>Unsafe URIs\<close>

text \<open>
  The loop of \<^verbatim>\<open>ngx_http_parse_unsafe_uri\<close> over the rest of the URI; \<open>beyond\<close> is the byte behind the URI,
  which the test for \<^verbatim>\<open>/../\<close> may read. The result is the path, the arguments and the flag for a NUL
  byte; \<open>None\<close> is \<^verbatim>\<open>NGX_ERROR\<close>.
\<close>

fun unsafe_loop :: "byte \<Rightarrow> bytes \<Rightarrow> bytes \<Rightarrow> bool \<Rightarrow> (bytes \<times> bytes option \<times> bool) option" where
  "unsafe_loop beyond seen [] zero = Some (seen, None, zero)"
| "unsafe_loop beyond seen (ch # p) zero =
     (if is_usual ch then unsafe_loop beyond (seen @ [ch]) p zero
      else if ch = cb (CHR ''?'') then Some (seen, Some p, zero)
      else if ch = 0 then unsafe_loop beyond (seen @ [ch]) p True
      else if ch = slash \<and> length (ch # p) > 2 \<and> p ! 0 = dot \<and> p ! 1 = dot \<and> (p @ [beyond]) ! 2 = slash then None
      else unsafe_loop beyond (seen @ [ch]) p zero)"

definition ngx_http_parse_unsafe_uri :: "byte \<Rightarrow> bytes \<Rightarrow> bool \<Rightarrow> (bytes \<times> bytes option \<times> bool) option" where
  "ngx_http_parse_unsafe_uri beyond uri zero =
     (if uri = [] \<or> uri ! 0 = cb (CHR ''?'') then None
      else if uri ! 0 = dot \<and> length uri = 3 \<and> uri ! 1 = dot \<and> uri ! 2 = slash then None
      else unsafe_loop beyond [] uri zero)"

section \<open>What the complex URI machine computes\<close>

text \<open>
  The two passes that the machine does at once: decode the bytes up to a raw question mark or number sign, the
  flag saying that no quoted pair was malformed, where a pair cut off by the end of the URI is dropped;
  then walk the segments, dropping empty ones and \<^verbatim>\<open>.\<close>, and removing the segment before a \<^verbatim>\<open>..\<close>, where the
  last segment is kept as it is. The normal form of a URI is \<open>normal_uri\<close> below.
\<close>

fun cu_decode :: "bytes \<Rightarrow> bytes \<times> bool" where
  "cu_decode [] = ([], True)"
| "cu_decode [c] = (if c \<in> {cb (CHR ''?''), cb (CHR ''#''), cb (CHR ''%'')} then ([], True) else ([c], True))"
| "cu_decode [c, x] =
     (if c \<in> {cb (CHR ''?''), cb (CHR ''#'')} then ([], True)
      else if c = cb (CHR ''%'') then ([], hex_digit x \<noteq> None)
      else apfst ((#) c) (cu_decode [x]))"
| "cu_decode (c # x # y # r) =
     (if c \<in> {cb (CHR ''?''), cb (CHR ''#'')} then ([], True)
      else if c = cb (CHR ''%'') then
        (case hex_digit x of
           None \<Rightarrow> ([], False)
         | Some h \<Rightarrow> (case hex_digit y of
                        None \<Rightarrow> ([], False)
                      | Some l \<Rightarrow> apfst ((#) (push_bit 4 h + l)) (cu_decode r)))
      else apfst ((#) c) (cu_decode (x # y # r)))"

fun walk_segments :: "bytes list \<Rightarrow> bytes list \<Rightarrow> bytes list option" where
  "walk_segments kept [] = Some kept"
| "walk_segments kept [s] = Some (kept @ [s])"
| "walk_segments kept (s # t # rest) =
     (if s = [] \<or> s = [dot] then walk_segments kept (t # rest)
      else if s = [dot, dot] then
        if kept = [] then None else walk_segments (butlast kept) (t # rest)
      else walk_segments (kept @ [s]) (t # rest))"

definition path_of :: "bytes list \<Rightarrow> bytes" where
  "path_of segs = concat (map ((#) slash) segs)"

definition walk_path :: "bytes list \<Rightarrow> bytes \<Rightarrow> bool \<Rightarrow> http_parse_rc + bytes" where
  "walk_path kept d ok =
     (case walk_segments kept (split_fields slash d) of
        None \<Rightarrow> Inl PARSE_INVALID_REQUEST
      | Some segs \<Rightarrow> if ok then Inr (path_of segs) else Inl PARSE_INVALID_REQUEST)"

lemma path_of_snoc [simp]: "path_of (segs @ [s]) = path_of segs @ slash # s"
  by (simp add: path_of_def)

lemma path_of_Nil [simp]: "path_of [] = []"
  by (simp add: path_of_def)

lemma walk_segments_Cons [simp]:
  "rest \<noteq> [] \<Longrightarrow> walk_segments kept (s # rest) =
     (if s = [] \<or> s = [dot] then walk_segments kept rest
      else if s = [dot, dot] then
        if kept = [] then None else walk_segments (butlast kept) rest
      else walk_segments (kept @ [s]) rest)"
  by (cases rest) simp_all

subsection \<open>Single steps\<close>

text \<open>The state after the slash of the last segment, from the bytes of that segment.\<close>

definition state_of :: "bytes \<Rightarrow> cu_base" where
  "state_of s =
     (if s = [] then cu_slash else if s = [dot] then cu_dot else if s = [dot, dot] then cu_dot_dot else cu_usual)"

lemma back_to_slash_snoc:
  "slash \<notin> set s \<Longrightarrow> back_to_slash (u @ slash # s) = Some (u @ [slash])"
proof (induction s rule: rev_induct)
  case Nil
  show ?case by (subst back_to_slash.simps) simp
next
  case (snoc x s)
  have "back_to_slash (u @ slash # s @ [x]) = back_to_slash (u @ slash # s)"
    using snoc.prems by (subst back_to_slash.simps) (simp add: butlast_append)
  with snoc show ?case by simp
qed

lemmas back_to_slash_byte [simp] = back_to_slash_snoc [simplified]

definition kept_ok :: "bytes list \<Rightarrow> bool" where
  "kept_ok kept \<longleftrightarrow> (\<forall>s \<in> set kept. s \<noteq> [] \<and> slash \<notin> set s)"

lemmas usual_bytes = usual_specials [simplified]

text \<open>An ordinary byte is appended to the current segment.\<close>

lemma base_step_byte:
  assumes "ch \<notin> {slash, cb (CHR ''%''), cb (CHR ''?''), cb (CHR ''#'')}"
  shows "\<exists>c'. cu_base_step m (state_of s) ch c = CNext (Base (state_of (s @ [ch]))) c' \<and> cu_out c' = cu_out c @ [ch]"
proof -
  have "is_usual ch \<Longrightarrow> ch \<noteq> dot" using usual_bytes by auto
  with assms show ?thesis
    by (cases "state_of s")
      (auto simp: state_of_def cu_put_def cu_other_def append_eq_Cons_conv Cons_eq_append_conv split: if_splits)
qed

text \<open>A slash ends the current segment: it is kept, dropped, or takes the one before it away.\<close>

definition close_segment :: "bytes list \<Rightarrow> bytes \<Rightarrow> bytes list option" where
  "close_segment kept s =
     (if s = [] \<or> s = [dot] then Some kept
      else if s = [dot, dot] then if kept = [] then None else Some (butlast kept)
      else Some (kept @ [s]))"

lemma base_step_slash:
  assumes out: "cu_out c = path_of kept @ slash # s" and kept: "kept_ok kept"
  shows "case close_segment kept s of
           None \<Rightarrow> cu_base_step True (state_of s) slash c = CInvalid
         | Some kept' \<Rightarrow> \<exists>c'. cu_base_step True (state_of s) slash c = CNext (Base cu_slash) c' \<and>
                              cu_out c' = path_of kept' @ [slash]"
proof (cases "s = [dot, dot]")
  case dots: True
  show ?thesis
  proof (cases kept rule: rev_cases)
    case Nil
    with dots out show ?thesis by (simp add: close_segment_def state_of_def usual_bytes)
  next
    case (snoc segs seg)
    from kept snoc obtain x xs where "seg = xs @ [x]" and "slash \<notin> set xs"
      by (cases seg rule: rev_cases) (auto simp: kept_ok_def)
    with dots out snoc show ?thesis by (simp add: close_segment_def state_of_def usual_bytes)
  qed
next
  case False
  with out show ?thesis
    by (auto simp: close_segment_def state_of_def usual_bytes cu_put_def butlast_append)
qed

text \<open>The second digit of a quoted pair: the low four bits tell which branch saw the byte.\<close>

lemma low_nibble: "unat (push_bit 4 (h :: byte) + l) mod 16 = unat l mod 16"
proof -
  have "unat (push_bit 4 h) mod 16 = 0"
    by (simp add: push_bit_eq_mult unat_word_ariths mod_mod_cancel)
  then have "(unat (push_bit 4 h) + unat l) mod 16 = unat l mod 16"
    by (metis add_0 mod_add_left_eq)
  then show ?thesis by (simp add: unat_word_ariths mod_mod_cancel)
qed

lemma hex_digit_cases:
  assumes "hex_digit ch = Some l"
  shows "is_digit ch \<and> l = ch - cb (CHR ''0'') \<and> l \<le> 9 \<or>
         \<not> is_digit ch \<and> l = (ch OR 0x20) - cb (CHR ''a'') + 10 \<and> 9 < l \<and> l \<le> 15 \<and>
           (ch OR 0x20) \<ge> cb (CHR ''a'') \<and> (ch OR 0x20) \<le> cb (CHR ''f'')"
proof -
  have "list_all (\<lambda>n. \<forall>l. hex_digit (of_nat n) = Some l \<longrightarrow> l \<le> 15 \<and> (is_digit (of_nat n) \<longleftrightarrow> l \<le> 9)) [0..<256]"
    by (simp add: upt_rec hex_digit_def is_digit_def Let_def word_le_nat_alt)
  then have "l \<le> 15 \<and> (is_digit ch \<longleftrightarrow> l \<le> 9)"
    using assms by (induction ch rule: byte_of_nat_cases) (simp add: list_all_iff)
  with assms show ?thesis
    by (auto simp: hex_digit_def is_digit_def Let_def not_le split: if_splits)
qed

lemma second_byte:
  assumes "hex_digit ch = Some l" and v: "v = push_bit 4 h + l" "v \<notin> {cb (CHR ''?''), cb (CHR ''#'')}"
  shows "\<exists>c'. cu_out c' = cu_out c \<and>
           cu_second m b h ch c =
             (if v = cb (CHR ''%'') then CNext (Base cu_usual) (cu_put v c') else cu_base_step m b v c')"
  using hex_digit_cases [OF assms(1)]
proof (elim disjE conjE)
  assume d: "is_digit ch" "l = ch - cb (CHR ''0'')"
  then have "push_bit 4 h + ch - cb (CHR ''0'') = v" using v by simp
  with d have "cu_second m b h ch c =
      (if v = cb (CHR ''%'') then CNext (Base cu_usual) (cu_put v c)
       else if v = cb (CHR ''#'') then CNext (Base b) (cu_put v c)
       else cu_base_step m b v (if v = 0 then c\<lparr>cu_zero := True\<rparr> else c))"
    by (simp only: cu_second_def Let_def if_True)
  with v(2) show ?thesis
    by (intro exI [of _ "if v = 0 then c\<lparr>cu_zero := True\<rparr> else c"]) simp
next
  assume l: "\<not> is_digit ch" "l = (ch OR 0x20) - cb (CHR ''a'') + 10" "9 < l" "l \<le> 15"
    "(ch OR 0x20) \<ge> cb (CHR ''a'')" "(ch OR 0x20) \<le> cb (CHR ''f'')"
  from l(3,4) have "9 < unat l" "unat l \<le> 15" by (simp_all add: word_less_nat_alt word_le_nat_alt)
  with low_nibble [of h l] v have np: "v \<noteq> cb (CHR ''%'')" by auto
  have "push_bit 4 h + (ch OR 0x20) - cb (CHR ''a'') + 10 = v" using v l(2) by simp
  with l have "cu_second m b h ch c =
      (if v = cb (CHR ''?'') then CNext (Base b) (cu_put v c)
       else cu_base_step m b v (if v = cb (CHR ''+'') then c\<lparr>cu_plus := True\<rparr> else c))"
    by (simp only: cu_second_def Let_def if_True if_False simp_thms)
  with v(2) np show ?thesis
    by (intro exI [of _ "if v = cb (CHR ''+'') then c\<lparr>cu_plus := True\<rparr> else c"]) simp
qed

lemma cu_first_hex:
  "cu_first b ch c = (case hex_digit ch of None \<Rightarrow> CInvalid | Some h \<Rightarrow> CNext (QuotedSecond b h) (c\<lparr>cu_quoted := True\<rparr>))"
  by (simp add: cu_first_def hex_digit_def is_digit_def Let_def)

lemma cu_second_bad: "hex_digit ch = None \<Longrightarrow> cu_second m b h ch c = CInvalid"
  by (auto simp: cu_second_def hex_digit_def is_digit_def Let_def split: if_splits)

subsection \<open>The whole machine\<close>

definition uri_outcome :: "(http_parse_rc + cu_result) option \<Rightarrow> (http_parse_rc + bytes) option" where
  "uri_outcome = map_option (map_sum id res_uri)"

lemma uri_outcome_simps [simp]:
  "uri_outcome (Some (Inr (cu_finish c a s))) = Some (Inr (cu_out c))"
  "uri_outcome (Some (Inr (cu_args p chs c))) = Some (Inr (cu_out c))"
  "uri_outcome (Some (Inl e)) = Some (Inl e)"
  by (simp_all add: uri_outcome_def cu_finish_def cu_args_def)

text \<open>
  The claim of the simulation, for the input \<open>uri\<close> in a state whose output is the kept segments and the
  bytes \<open>s\<close> of the current one.
\<close>

definition machine_ok :: "bytes \<Rightarrow> bool" where
  "machine_ok uri \<longleftrightarrow>
     (\<forall>kept s c p d ok.
        kept_ok kept \<longrightarrow> slash \<notin> set s \<longrightarrow> cu_out c = path_of kept @ slash # s \<longrightarrow> cu_decode uri = (d, ok) \<longrightarrow>
        set d \<inter> {cb (CHR ''?''), cb (CHR ''#'')} = {} \<longrightarrow>
        uri_outcome (cu_loop True p uri (Base (state_of s)) c) = Some (walk_path kept (s @ d) ok))"

lemma machine_okD:
  assumes "machine_ok uri" "cu_decode uri = (d, ok)" "set d \<inter> {cb (CHR ''?''), cb (CHR ''#'')} = {}"
    and "kept_ok kept" "slash \<notin> set s" "cu_out c = path_of kept @ slash # s"
  shows "uri_outcome (cu_loop True p uri (Base (state_of s)) c) = Some (walk_path kept (s @ d) ok)"
  using assms unfolding machine_ok_def by blast

lemma walk_path_slash:
  assumes "slash \<notin> set s"
  shows "walk_path kept (s @ slash # d) ok =
     (case close_segment kept s of None \<Rightarrow> Inl PARSE_INVALID_REQUEST | Some kept' \<Rightarrow> walk_path kept' d ok)"
  using assms by (simp add: walk_path_def close_segment_def)

lemma close_segment_ok:
  "\<lbrakk>close_segment kept s = Some kept'; kept_ok kept; slash \<notin> set s\<rbrakk> \<Longrightarrow> kept_ok kept'"
  by (auto simp: close_segment_def kept_ok_def split: if_splits dest: in_set_butlastD)

text \<open>One decoded byte, whatever bytes of the input it comes from.\<close>

lemma machine_byte:
  assumes rest: "machine_ok rest" and k: "kept_ok kept" "slash \<notin> set s" "cu_out c = path_of kept @ slash # s"
    and d: "cu_decode rest = (d, ok)" "set (v # d) \<inter> {cb (CHR ''?''), cb (CHR ''#'')} = {}"
    and step: "out = (if v = cb (CHR ''%'') then CNext (Base cu_usual) (cu_put v c) else cu_base_step True (state_of s) v c)"
  shows "uri_outcome (case out of
            CNext st' c' \<Rightarrow> cu_loop True (p + 1) rest st' c'
          | CArgs c' \<Rightarrow> Some (Inr (cu_args (p + 1) rest c'))
          | CDone c' \<Rightarrow> Some (Inr (cu_finish c' None None))
          | CInvalid \<Rightarrow> Some (Inl PARSE_INVALID_REQUEST)
          | CUnderflow \<Rightarrow> None) = Some (walk_path kept (s @ v # d) ok)"
proof -
  have special: "set d \<inter> {cb (CHR ''?''), cb (CHR ''#'')} = {}" using d(2) by auto
  show ?thesis
  proof (cases "v = slash")
    case True
    with step have st: "out = cu_base_step True (state_of s) slash c" by simp
    show ?thesis
    proof (cases "close_segment kept s")
      case None
      with base_step_slash [OF k(3,1)] st k(2) True show ?thesis by (simp add: walk_path_slash [simplified])
    next
      case (Some kept')
      with base_step_slash [OF k(3,1)] st obtain c' where
        out: "out = CNext (Base cu_slash) c'" "cu_out c' = path_of kept' @ [slash]" by auto
      moreover have "kept_ok kept'" using close_segment_ok [OF Some k(1,2)] .
      ultimately have "uri_outcome (cu_loop True (p + 1) rest (Base (state_of [])) c') = Some (walk_path kept' ([] @ d) ok)"
        by (intro machine_okD [OF rest d(1) special]) simp_all
      with out Some True k(2) show ?thesis by (simp add: walk_path_slash [simplified] state_of_def)
    qed
  next
    case False
    have "\<exists>c'. out = CNext (Base (state_of (s @ [v]))) c' \<and> cu_out c' = cu_out c @ [v]"
    proof (cases "v = cb (CHR ''%'')")
      case True
      then have "state_of (s @ [v]) = cu_usual" by (auto simp: state_of_def append_eq_Cons_conv)
      with True step show ?thesis by (simp add: cu_put_def)
    next
      case False
      with \<open>v \<noteq> slash\<close> d(2) step base_step_byte [of v True s c] show ?thesis by auto
    qed
    then obtain c' where out: "out = CNext (Base (state_of (s @ [v]))) c'" and "cu_out c' = path_of kept @ slash # (s @ [v])"
      using k(3) by auto
    moreover have "slash \<notin> set (s @ [v])" using k(2) False by simp
    ultimately have "uri_outcome (cu_loop True (p + 1) rest (Base (state_of (s @ [v]))) c') = Some (walk_path kept ((s @ [v]) @ d) ok)"
      by (intro machine_okD [OF rest d(1) special k(1)])
    with out show ?thesis by simp
  qed
qed

lemma machine_stop:
  assumes "ch \<in> {cb (CHR ''?''), cb (CHR ''#'')}"
  shows "uri_outcome (cu_loop m p (ch # chs) (Base b) c) = Some (Inr (cu_out c))"
  using assms by (cases b) (auto simp: cu_other_def usual_bytes)

lemma walk_path_end:
  "slash \<notin> set s \<Longrightarrow> walk_path kept s True = Inr (path_of kept @ slash # s)"
  by (simp add: walk_path_def)

lemma walk_path_bad: "walk_path kept d False = Inl PARSE_INVALID_REQUEST"
  by (simp add: walk_path_def split: option.split)

lemma base_step_percent: "cu_base_step m b (cb (CHR ''%'')) c = CNext (Quoted b) c"
  by (cases b) (simp_all add: usual_bytes)

lemma machine_ok_Nil: "machine_ok []"
  by (simp add: machine_ok_def walk_path_end [simplified])

lemma machine_ok_raw:
  assumes "machine_ok rest" and "c \<notin> {cb (CHR ''?''), cb (CHR ''#''), cb (CHR ''%'')}"
    and dec: "cu_decode (c # rest) = apfst ((#) c) (cu_decode rest)"
  shows "machine_ok (c # rest)"
  unfolding machine_ok_def
proof (intro allI impI)
  fix kept s p d ok and w :: cuw
  assume k: "kept_ok kept" "slash \<notin> set s" "cu_out w = path_of kept @ slash # s"
    and d: "cu_decode (c # rest) = (d, ok)" "set d \<inter> {cb (CHR ''?''), cb (CHR ''#'')} = {}"
  from d(1) dec obtain e where e: "cu_decode rest = (e, ok)" "d = c # e" by (cases "cu_decode rest") simp
  show "uri_outcome (cu_loop True p (c # rest) (Base (state_of s)) w) = Some (walk_path kept (s @ d) ok)"
    using machine_byte [OF assms(1) k e(1), of c "cu_base_step True (state_of s) c w" p] assms(2) d(2) e(2) by simp
qed

lemma machine_ok_stop:
  assumes "c \<in> {cb (CHR ''?''), cb (CHR ''#'')}"
  shows "machine_ok (c # rest)"
proof -
  have "cu_decode (c # rest) = ([], True)" using assms by (cases "(c, rest)" rule: prod.exhaust; cases rest; cases "tl rest") auto
  then show ?thesis
    using machine_stop [OF assms] by (simp add: machine_ok_def walk_path_end [simplified])
qed

lemma machine_ok_quoted:
  assumes "machine_ok rest"
  shows "machine_ok (cb (CHR ''%'') # x # y # rest)"
  unfolding machine_ok_def
proof (intro allI impI)
  fix kept s p d ok and w :: cuw
  assume k: "kept_ok kept" "slash \<notin> set s" "cu_out w = path_of kept @ slash # s"
    and d: "cu_decode (cb (CHR ''%'') # x # y # rest) = (d, ok)" "set d \<inter> {cb (CHR ''?''), cb (CHR ''#'')} = {}"
  let ?goal = "uri_outcome (cu_loop True p (cb (CHR ''%'') # x # y # rest) (Base (state_of s)) w) = Some (walk_path kept (s @ d) ok)"
  consider "hex_digit x = None \<or> hex_digit y = None" | h l where "hex_digit x = Some h" "hex_digit y = Some l"
    by (cases "hex_digit x"; cases "hex_digit y") auto
  then show ?goal
  proof cases
    case 1
    with d(1) have "\<not> ok" by (auto split: option.splits)
    with 1 show ?thesis
      by (auto simp: base_step_percent [simplified] cu_first_hex cu_second_bad walk_path_bad split: option.split)
  next
    case (2 h l)
    with d(1) obtain e where e: "cu_decode rest = (e, ok)" "d = (push_bit 4 h + l) # e"
      by (cases "cu_decode rest") (auto split: option.splits)
    let ?w = "w\<lparr>cu_quoted := True\<rparr>"
    obtain w' where w': "cu_out w' = cu_out w" "cu_second True (state_of s) h y ?w =
        (if push_bit 4 h + l = cb (CHR ''%'') then CNext (Base cu_usual) (cu_put (push_bit 4 h + l) w')
         else cu_base_step True (state_of s) (push_bit 4 h + l) w')"
      using second_byte [OF 2(2) refl, of h ?w True "state_of s"] d(2) e(2) by auto
    from k(3) w'(1) have "cu_out w' = path_of kept @ slash # s" by simp
    from machine_byte [OF assms k(1,2) this e(1) _ w'(2), of "Suc (Suc p)"] d(2) e(2)
    show ?thesis by (simp add: base_step_percent [simplified] cu_first_hex 2(1))
  qed
qed

lemma machine_ok_short: "length chs \<le> 1 \<Longrightarrow> machine_ok (cb (CHR ''%'') # chs)"
  by (cases chs)
    (auto simp: machine_ok_def base_step_percent [simplified] cu_first_hex walk_path_end [simplified] walk_path_bad
      split: option.split)

lemma machine_ok_all: "machine_ok uri"
proof (induction uri rule: length_induct)
  case (1 uri)
  show ?case
  proof (cases uri)
    case (Cons c rest)
    consider "c \<in> {cb (CHR ''?''), cb (CHR ''#'')}"
      | "c = cb (CHR ''%'')" "length rest \<le> 1"
      | x y r where "c = cb (CHR ''%'')" "rest = x # y # r"
      | "c \<notin> {cb (CHR ''?''), cb (CHR ''#''), cb (CHR ''%'')}"
      by (cases rest; cases "tl rest") auto
    then show ?thesis
    proof cases
      case 4
      moreover have "cu_decode (c # rest) = apfst ((#) c) (cu_decode rest)"
        using 4 by (cases rest; cases "tl rest") auto
      ultimately show ?thesis using 1 Cons machine_ok_raw [of rest c] by simp
    qed (use 1 Cons machine_ok_stop [of c rest] machine_ok_short [of rest] machine_ok_quoted in auto)
  qed (simp add: machine_ok_Nil)
qed

section \<open>The normal form\<close>

text \<open>
  The reference for a URI behind its first slash: the decoded bytes up to a raw question mark or number sign and
  whether every quoted pair is a percent sign and two hexadecimal digits; the segments between the slashes,
  without the empty ones and \<^verbatim>\<open>.\<close>, and without each \<^verbatim>\<open>..\<close> and the segment before it. A path that ends in a
  slash, \<^verbatim>\<open>.\<close> or \<^verbatim>\<open>..\<close> ends in a slash. There is none when a pair is malformed or a \<^verbatim>\<open>..\<close> leaves the root.
\<close>

fun uri_decode :: "bytes \<Rightarrow> bytes \<times> bool" where
  "uri_decode [] = ([], True)"
| "uri_decode (c # r) =
     (if c \<in> {cb (CHR ''?''), cb (CHR ''#'')} then ([], True)
      else if c = cb (CHR ''%'') then
        (case r of
           x # y # r' \<Rightarrow>
             (case (hex_digit x, hex_digit y) of
                (Some h, Some l) \<Rightarrow> apfst ((#) (push_bit 4 h + l)) (uri_decode r')
              | _ \<Rightarrow> ([], False))
         | _ \<Rightarrow> ([], False))
      else apfst ((#) c) (uri_decode r))"

fun normal_segments :: "bytes list \<Rightarrow> bytes list \<Rightarrow> bytes list option" where
  "normal_segments kept [] = Some kept"
| "normal_segments kept (s # rest) =
     (let tail = (if rest = [] then [[]] else []) in
      if s = [] \<or> s = [dot] then normal_segments (kept @ tail) rest
      else if s = [dot, dot] then
        if kept = [] then None else normal_segments (butlast kept @ tail) rest
      else normal_segments (kept @ [s]) rest)"

definition normal_uri :: "bytes \<Rightarrow> http_parse_rc + bytes" where
  "normal_uri uri =
     (case uri_decode uri of (d, ok) \<Rightarrow>
        (case normal_segments [] (split_fields slash d) of
           Some segs \<Rightarrow> if ok then Inr (path_of segs) else Inl PARSE_INVALID_REQUEST
         | None \<Rightarrow> Inl PARSE_INVALID_REQUEST))"

text \<open>Where the machine departs from it: a quoted pair that the end of the URI cuts off.\<close>

fun cut_pair :: "bytes \<Rightarrow> bool" where
  "cut_pair [] \<longleftrightarrow> False"
| "cut_pair (c # r) \<longleftrightarrow>
     c \<notin> {cb (CHR ''?''), cb (CHR ''#'')} \<and>
     (if c = cb (CHR ''%'') then (case r of x # y # r' \<Rightarrow> cut_pair r' | _ \<Rightarrow> True) else cut_pair r)"

lemma decode_uncut: "\<not> cut_pair uri \<Longrightarrow> cu_decode uri = uri_decode uri"
proof (induction uri rule: cu_decode.induct)
  case (4 c x y r)
  then show ?case
    by (cases "hex_digit x"; cases "hex_digit y") (auto split: if_splits)
qed (auto split: if_splits)

lemma walk_normal: "last segs \<notin> {[dot], [dot, dot]} \<Longrightarrow> walk_segments kept segs = normal_segments kept segs"
  by (induction kept segs rule: walk_segments.induct) (auto simp: Let_def)

section \<open>The properties\<close>

text \<open>
  The machine is the two passes, for a URI that starts with a slash and has no quoted number sign or question
  mark, and never reads before the buffer.
\<close>

lemma complex_uri_walk:
  assumes "cu_decode uri = (d, ok)" and "set d \<inter> {cb (CHR ''?''), cb (CHR ''#'')} = {}"
  shows "uri_outcome (ngx_http_parse_complex_uri True (slash # uri) plus_in quoted_in zero_in) = Some (walk_path [] d ok)"
proof -
  have "uri_outcome (cu_loop True 1 uri (Base (state_of []))
      \<lparr>cu_out = [slash], cu_exten = None, cu_plus = plus_in, cu_quoted = quoted_in, cu_zero = zero_in\<rparr>) =
      Some (walk_path [] ([] @ d) ok)"
    by (intro machine_okD [OF machine_ok_all assms]) (simp_all add: kept_ok_def)
  then show ?thesis
    by (simp add: ngx_http_parse_complex_uri_def usual_bytes cu_put_def state_of_def)
qed

text \<open>
  C5. \<^verbatim>\<open>ngx_http_parse_complex_uri\<close> with \<^verbatim>\<open>merge_slashes\<close> computes the normal form of a URI that starts with a slash: its
  path decoded, empty segments and \<^verbatim>\<open>.\<close> dropped, each \<^verbatim>\<open>..\<close> removed with the segment before it. It rejects the
  URI exactly when a quoted pair is malformed or a \<^verbatim>\<open>..\<close> leaves the root, and it never reads before the
  buffer. This is for the URIs whose path does not end in the middle of a quoted pair or with a segment \<^verbatim>\<open>.\<close> or
  \<^verbatim>\<open>..\<close>, both of which the code accepts and leaves as they are (\<open>complex_uri_cut_pair\<close>,
  \<open>complex_uri_keeps_last_dots\<close>), and without a quoted number sign or question mark, behind which the code can read
  before the buffer (\<open>complex_uri_underflow_quoted\<close>).
\<close>

theorem complex_uri_normal:
  assumes "uri_decode uri = (d, ok)" and "\<not> cut_pair uri" and "ok \<longrightarrow> last (split_fields slash d) \<notin> {[dot], [dot, dot]}"
    and "set d \<inter> {cb (CHR ''?''), cb (CHR ''#'')} = {}"
  shows "uri_outcome (ngx_http_parse_complex_uri True (slash # uri) plus_in quoted_in zero_in) = Some (normal_uri uri)"
proof -
  have "uri_outcome (ngx_http_parse_complex_uri True (slash # uri) plus_in quoted_in zero_in) = Some (walk_path [] d ok)"
    using assms by (intro complex_uri_walk) (simp_all add: decode_uncut)
  then show ?thesis
    using assms(3) by (cases ok) (simp_all add: assms(1) normal_uri_def walk_path_def walk_normal split: option.split)
qed

lemmas cu_eval = ngx_http_parse_complex_uri_def usual_bytes cu_put_def cu_other_def cu_first_def cu_second_def is_digit_def
  Let_def back_to_slash.simps uri_outcome_def cu_finish_def cu_args_def is_usual_def usual_def

theorem complex_uri_normal_witness:
  "normal_uri (bs ''a/.//%62/%2e./c?x'') = Inr (bs ''/a/c'') \<and> normal_uri (bs ''a/%2e%2e/../c'') = Inl PARSE_INVALID_REQUEST \<and>
   uri_outcome (ngx_http_parse_complex_uri True (bs ''/a/.//%62/%2e./c?x'') False False False) = Some (Inr (bs ''/a/c'')) \<and>
   uri_outcome (ngx_http_parse_complex_uri True (bs ''/a/%2e%2e/../c'') False False False) = Some (Inl PARSE_INVALID_REQUEST)"
proof -
  have d: "uri_decode (bs ''a/.//%62/%2e./c?x'') = (bs ''a/.//b/../c'', True)" "uri_decode (bs ''a/%2e%2e/../c'') = (bs ''a/../../c'', True)"
    by (simp_all add: hex_digit_def Let_def)
  then have n: "normal_uri (bs ''a/.//%62/%2e./c?x'') = Inr (bs ''/a/c'')" "normal_uri (bs ''a/%2e%2e/../c'') = Inl PARSE_INVALID_REQUEST"
    by (simp_all add: normal_uri_def path_of_def)
  moreover have "\<not> cut_pair (bs ''a/.//%62/%2e./c?x'')" "\<not> cut_pair (bs ''a/%2e%2e/../c'')" by simp_all
  ultimately show ?thesis
    using complex_uri_normal [OF d(1), of False False False] complex_uri_normal [OF d(2), of False False False] by simp
qed

text \<open>No segment of the result but the last one is empty, \<^verbatim>\<open>.\<close> or \<^verbatim>\<open>..\<close>.\<close>

lemma walk_segments_clean:
  assumes "walk_segments kept segs = Some res" and "segs \<noteq> []"
    and "set kept \<inter> {[], [dot], [dot, dot]} = {}"
  shows "set (butlast res) \<inter> {[], [dot], [dot, dot]} = {}"
  using assms
proof (induction kept segs rule: walk_segments.induct)
  case (3 kept s t rest)
  then show ?case by (auto split: if_splits dest: in_set_butlastD)
qed auto

text \<open>
  The hypotheses are needed. After a quoted number sign, or a second slash that is not merged, the
  walk back over one segment starts at the beginning of the buffer and reads before it.
\<close>

lemma complex_uri_underflow_quoted: "ngx_http_parse_complex_uri True (bs ''/%23../'') False False False = None"
  by (simp add: cu_eval)

lemma complex_uri_underflow_slashes: "ngx_http_parse_complex_uri False (bs ''//../'') False False False = None"
  by (simp add: cu_eval)

text \<open>A \<^verbatim>\<open>..\<close> at the end of the URI stays in the result.\<close>

lemma complex_uri_keeps_last_dots:
  "uri_outcome (ngx_http_parse_complex_uri True (bs ''/a/..'') False False False) = Some (Inr (bs ''/a/..''))"
  by (simp add: cu_eval)

text \<open>A quoted pair that the end of the URI cuts off is dropped, and the URI is accepted.\<close>

lemma complex_uri_cut_pair:
  "uri_outcome (ngx_http_parse_complex_uri True (bs ''/a%4'') False False False) = Some (Inr (bs ''/a''))"
  by (simp add: cu_eval)

subsection \<open>Unsafe URIs\<close>

definition uri_path :: "bytes \<Rightarrow> bytes" where
  "uri_path uri = takeWhile (\<lambda>c. c \<noteq> cb (CHR ''?'')) uri"

definition uri_args :: "bytes \<Rightarrow> bytes option" where
  "uri_args uri = (if cb (CHR ''?'') \<in> set uri then Some (tl (dropWhile (\<lambda>c. c \<noteq> cb (CHR ''?'')) uri)) else None)"

definition checked_path :: "byte \<Rightarrow> bytes \<Rightarrow> bytes" where
  "checked_path beyond uri = uri_path uri @ (if cb (CHR ''?'') \<in> set uri then [] else [beyond])"

lemma dots_prefix:
  "prefix (bs ''/../'') (checked_path beyond (ch # p)) \<longleftrightarrow>
     ch = slash \<and> length (ch # p) > 2 \<and> p ! 0 = dot \<and> p ! 1 = dot \<and> (p @ [beyond]) ! 2 = slash"
proof -
  consider "p = []" | a where "p = [a]" | a b where "p = [a, b]" | a b c r where "p = a # b # c # r"
    by (metis list.exhaust)
  then show ?thesis
    by cases (auto simp: checked_path_def uri_path_def)
qed

lemma checked_path_Cons:
  "ch \<noteq> cb (CHR ''?'') \<Longrightarrow> checked_path beyond (ch # p) = ch # checked_path beyond p"
  by (simp add: checked_path_def uri_path_def)

lemma unsafe_loop_spec:
  "unsafe_loop beyond seen p zero_in =
     (if sublist (bs ''/../'') (checked_path beyond p) then None
      else Some (seen @ uri_path p, uri_args p, zero_in \<or> 0 \<in> set (uri_path p)))"
proof (induction p arbitrary: seen zero_in)
  case Nil
  show ?case by (simp add: checked_path_def uri_path_def uri_args_def sublist_Cons_right)
next
  case (Cons ch p)
  show ?case
  proof (cases "ch = cb (CHR ''?'')")
    case True
    then show ?thesis by (simp add: checked_path_def uri_path_def uri_args_def usual_bytes)
  next
    case False
    then have "sublist (bs ''/../'') (checked_path beyond (ch # p)) \<longleftrightarrow>
        ch = slash \<and> length (ch # p) > 2 \<and> p ! 0 = dot \<and> p ! 1 = dot \<and> (p @ [beyond]) ! 2 = slash \<or>
        sublist (bs ''/../'') (checked_path beyond p)"
      unfolding dots_prefix [symmetric] by (simp add: checked_path_Cons [simplified] sublist_Cons_right)
    moreover have "uri_path (ch # p) = ch # uri_path p" "uri_args (ch # p) = uri_args p"
      using False by (simp_all add: uri_path_def uri_args_def)
    ultimately show ?thesis using False Cons.IH by (auto simp: usual_bytes)
  qed
qed

text \<open>
  C37. \<^verbatim>\<open>ngx_http_parse_unsafe_uri\<close> splits the URI at the first question mark and rejects it exactly when it is empty,
  starts with a question mark, is \<^verbatim>\<open>../\<close>, or \<^verbatim>\<open>/../\<close> occurs in the path, where a path that reaches the end of
  the URI is read one byte further. The flag tells of a NUL byte in the path.
\<close>

theorem unsafe_uri_outcome:
  "ngx_http_parse_unsafe_uri beyond uri zero_in =
     (if uri = [] \<or> hd uri = cb (CHR ''?'') \<or> uri = bs ''../'' \<or> sublist (bs ''/../'') (checked_path beyond uri) then None
      else Some (uri_path uri, uri_args uri, zero_in \<or> 0 \<in> set (uri_path uri)))"
proof -
  have "uri ! 0 = dot \<and> length uri = 3 \<and> uri ! 1 = dot \<and> uri ! 2 = slash \<longleftrightarrow> uri = bs ''../''"
    by (auto simp: length_Suc_conv numeral_eq_Suc)
  then show ?thesis
    unfolding ngx_http_parse_unsafe_uri_def unsafe_loop_spec
    by (cases uri) simp_all
qed

text \<open>The test for a leading \<^verbatim>\<open>../\<close> asks for a length of exactly three.\<close>

lemma unsafe_uri_leading_dots: "ngx_http_parse_unsafe_uri 0 (bs ''../etc/passwd'') False = Some (bs ''../etc/passwd'', None, False)"
  by (simp add: ngx_http_parse_unsafe_uri_def is_usual_def usual_def)

end
