(* ===== verification/Rand.thy ===== *)
theory Rand
  imports Variables
begin

text \<open>
  The module \<^verbatim>\<open>src/c/ngx_http_rand_module\<close>: \<^verbatim>\<open>random $name start end\<close> declares a variable whose value
  is a random number between the two bounds. The value \<^verbatim>\<open>random()\<close> returns is an argument.

  The data of the variable is \<open>None\<close> while it is a null pointer; an \<open>option\<close> around a result is
  \<open>None\<close> when a null pointer is used or a remainder by zero is taken.
\<close>

record rand_vctx =
  rv_start :: ngx_uint
  rv_end :: ngx_uint

text \<open>\<^verbatim>\<open>sprintf("%ld")\<close> of a \<^verbatim>\<open>long\<close>.\<close>

definition print_long :: "ngx_int \<Rightarrow> bytes" where
  "print_long w = (if sint w < 0 then bs ''-'' @ dec_print (nat (- sint w)) else dec_print (nat (sint w)))"

text \<open>\<^verbatim>\<open>sprintf("%d")\<close> of a \<^verbatim>\<open>long\<close> prints an \<^verbatim>\<open>int\<close>.\<close>

definition print_int :: "ngx_int \<Rightarrow> bytes" where
  "print_int w = print_long (scast (ucast w :: 32 word))"

definition ngx_http_rand_get_handler :: "bool \<Rightarrow> ngx_int \<Rightarrow> rand_vctx option \<Rightarrow> vvl \<Rightarrow> (ngx_rc \<times> vvl) option" where
  "ngx_http_rand_get_handler ok rnd ctx v =
     (case ctx of
        None \<Rightarrow> None
      | Some ctx \<Rightarrow>
          let span = 1 + rv_end ctx - rv_start ctx in
          if span = 0 \<or> \<not> ok then None
          else Some (NGX_OK, v\<lparr>vl_data := print_long (rnd mod span + rv_start ctx), vl_valid := True\<rparr>))"

definition ngx_http_rand_command ::
    "bool \<Rightarrow> bool \<Rightarrow> bytes list \<Rightarrow> rand_vctx option var_conf \<Rightarrow> (conf_result \<times> rand_vctx option var_conf) option" where
  "ngx_http_rand_command ok_var ok_ctx args vc =
     (case ngx_http_get_var_name_str (args ! 1) of
        Inl res \<Rightarrow> Some (Some res, vc)
      | Inr name \<Rightarrow>
          let startn = ngx_atoi (args ! 2) in
          if startn = NGX_ERROR_VAL then Some (Some ''arg 2 is not a number'', vc)
          else
            let endn = ngx_atoi (args ! 3) in
            if endn = NGX_ERROR_VAL then Some (Some ''arg 3 is not a number'', vc)
            else
              let (startn, endn) = (if sint startn > sint endn then (endn, startn) else (startn, endn)) in
              case ngx_http_add_variable ok_var vc name True of
                (None, vc) \<Rightarrow> None
              | (Some v, vc) \<Rightarrow>
                  if \<not> ok_ctx then Some (Some [], var_set_get_handler v None vc)
                  else Some (None, var_set_get_handler v (Some \<lparr>rv_start = startn, rv_end = endn\<rparr>) vc))"

section \<open>Properties\<close>

lemma atoi_nonneg: "ngx_atoi s \<noteq> NGX_ERROR_VAL \<Longrightarrow> unat (ngx_atoi s) < 2 ^ 63"
  by (auto simp: ngx_atoi_def sless_0_iff split: option.splits if_splits)

lemma print_int_small:
  assumes "n < 2 ^ 31"
  shows "print_int (of_nat n) = dec_print n"
proof -
  have "sint (of_nat n :: 32 word) = int n" using assms by (simp add: signed_of_nat signed_take_bit_int_eq_self)
  moreover have "(ucast (of_nat n :: ngx_int) :: 32 word) = of_nat n"
    by transfer simp
  ultimately have "(scast (ucast (of_nat n :: ngx_int) :: 32 word) :: ngx_int) = of_nat n" by (simp only: scast_eq of_int_of_nat_eq)
  moreover have "sint (of_nat n :: ngx_int) = int n" using assms by (simp add: signed_of_nat signed_take_bit_int_eq_self)
  ultimately have "sint (scast (ucast (of_nat n :: ngx_int) :: 32 word) :: ngx_int) = int n" by simp
  then show ?thesis by (simp add: print_int_def print_long_def)
qed

lemma mod_span: "lo \<le> hi \<Longrightarrow> lo + n mod (Suc hi - lo) \<le> hi" for n :: nat
  using mod_less_divisor [of "Suc hi - lo" n] by linarith

lemma rand_value:
  fixes a b rnd span :: ngx_uint
  assumes "unat a \<le> unat b" and "unat b < 2 ^ 63" and "span = 1 + b - a"
  shows "span \<noteq> 0" and "unat (rnd mod span + a) = unat a + unat rnd mod (Suc (unat b) - unat a)"
proof -
  have "unat (1 + b) = 1 + unat b" using assms by (simp add: unat_word_ariths)
  then have r: "unat span = Suc (unat b) - unat a"
    using assms by (simp add: unat_sub word_le_nat_alt)
  then show "span \<noteq> 0" using assms(1) unat_gt_0 [of span] by simp
  have m: "unat (rnd mod span) = unat rnd mod (Suc (unat b) - unat a)" by (simp add: unat_mod r)
  then have "unat (rnd mod span) + unat a \<le> unat b" using mod_span [OF assms(1), of "unat rnd"] by simp
  then have "unat (rnd mod span) + unat a < 2 ^ LENGTH(64)" using assms(2) by simp
  then have "unat (rnd mod span + a) = unat (rnd mod span) + unat a" by (rule unat_add_lem [THEN iffD1])
  then show "unat (rnd mod span + a) = unat a + unat rnd mod (Suc (unat b) - unat a)" by (simp only: m add.commute)
qed

lemma add_variable_found:
  assumes "ngx_http_add_variable ok vc name c = (Some i, vc')" and "0 \<notin> set name"
  shows "i < length (vc_keys vc') \<and> map ngx_tolower (var_name (vc_keys vc' ! i)) = map ngx_tolower name"
  using assms name_find_Some [of name "map var_name (vc_keys vc)"]
  by (auto simp: ngx_http_add_variable_def split: option.splits if_splits)

lemma var_set_get_handler_at:
  "i < length (vc_keys vc) \<Longrightarrow>
   vc_keys (var_set_get_handler i h vc) ! i = (vc_keys vc ! i)\<lparr>var_get_handler := Some h\<rparr> \<and>
   length (vc_keys (var_set_get_handler i h vc)) = length (vc_keys vc)"
  by (simp add: var_set_get_handler_def)

lemma rand_command_ctx:
  assumes "ngx_http_rand_command ok_var True [cmd, bs ''$'' @ name, s, t] vc = Some (None, vc')" and "0 \<notin> set name"
  defines "lo \<equiv> min (unat (ngx_atoi s)) (unat (ngx_atoi t))" and "hi \<equiv> max (unat (ngx_atoi s)) (unat (ngx_atoi t))"
  shows "\<exists>i < length (vc_keys vc'). map ngx_tolower (var_name (vc_keys vc' ! i)) = map ngx_tolower name \<and> hi < 2 ^ 63 \<and>
    var_get_handler (vc_keys vc' ! i) = Some (Some \<lparr>rv_start = of_nat lo, rv_end = of_nat hi\<rparr>)"
proof -
  have num: "ngx_atoi s \<noteq> NGX_ERROR_VAL" "ngx_atoi t \<noteq> NGX_ERROR_VAL"
    using assms(1) by (auto simp: ngx_http_rand_command_def ngx_http_get_var_name_str_def Let_def split: if_splits)
  note small = atoi_nonneg [OF num(1)] atoi_nonneg [OF num(2)]
  let ?ctx = "\<lparr>rv_start = of_nat lo, rv_end = of_nat hi\<rparr>"
  have swap: "(if sint (ngx_atoi s) > sint (ngx_atoi t) then (ngx_atoi t, ngx_atoi s) else (ngx_atoi s, ngx_atoi t)) =
      (of_nat lo, of_nat hi)"
    using small
    by (auto simp: sint_small lo_def hi_def min_def max_def word_le_nat_alt [symmetric] word_less_def [symmetric])
  obtain i vc1 where add: "ngx_http_add_variable ok_var vc name True = (Some i, vc1)"
    and vc': "vc' = var_set_get_handler i (Some ?ctx) vc1"
    using assms(1) num
    by (auto simp: ngx_http_rand_command_def ngx_http_get_var_name_str_def Let_def swap split: prod.splits option.splits)
  from add_variable_found [OF add assms(2)] have "i < length (vc_keys vc1)"
    "map ngx_tolower (var_name (vc_keys vc1 ! i)) = map ngx_tolower name" by auto
  moreover have "hi < 2 ^ 63" using small by (simp add: hi_def)
  ultimately show ?thesis using var_set_get_handler_at [of i vc1 "Some ?ctx"] unfolding vc' by auto
qed

text \<open>
  C39. After \<^verbatim>\<open>random $name s t\<close> the variable exists with a handler that, whatever \<^verbatim>\<open>random()\<close> returns,
  gives the decimal text of a number between the smaller and the larger argument, in either
  order; and when the arguments are less than \<open>2 ^ 31\<close> apart, every number between them is the
  value for some result of \<^verbatim>\<open>random()\<close>, which lies below \<open>2 ^ 31\<close>.
\<close>

theorem rand_in_range:
  assumes "ngx_http_rand_command ok_var True [cmd, bs ''$'' @ name, s, t] vc = Some (None, vc')" and "0 \<notin> set name"
  shows "\<exists>i ctx. i < length (vc_keys vc') \<and> map ngx_tolower (var_name (vc_keys vc' ! i)) = map ngx_tolower name \<and>
    var_get_handler (vc_keys vc' ! i) = Some (Some ctx) \<and>
    (\<forall>rnd v. \<exists>n \<in> {min (unat (ngx_atoi s)) (unat (ngx_atoi t)) .. max (unat (ngx_atoi s)) (unat (ngx_atoi t))}.
       ngx_http_rand_get_handler True rnd (Some ctx) v = Some (NGX_OK, v\<lparr>vl_data := dec_print n, vl_valid := True\<rparr>)) \<and>
    (\<forall>v. \<forall>n \<in> {min (unat (ngx_atoi s)) (unat (ngx_atoi t)) .. max (unat (ngx_atoi s)) (unat (ngx_atoi t))}.
       n < min (unat (ngx_atoi s)) (unat (ngx_atoi t)) + 2 ^ 31 \<longrightarrow>
       (\<exists>rnd. unat rnd < 2 ^ 31 \<and>
         ngx_http_rand_get_handler True rnd (Some ctx) v = Some (NGX_OK, v\<lparr>vl_data := dec_print n, vl_valid := True\<rparr>)))"
proof -
  let ?lo = "min (unat (ngx_atoi s)) (unat (ngx_atoi t))" and ?hi = "max (unat (ngx_atoi s)) (unat (ngx_atoi t))"
  let ?ctx = "\<lparr>rv_start = of_nat ?lo, rv_end = of_nat ?hi\<rparr>"
  obtain i where i: "i < length (vc_keys vc')" "map ngx_tolower (var_name (vc_keys vc' ! i)) = map ngx_tolower name"
    "?hi < 2 ^ 63" "var_get_handler (vc_keys vc' ! i) = Some (Some ?ctx)"
    using rand_command_ctx [OF assms] by blast
  have bounds: "?lo \<le> ?hi" "unat (of_nat ?lo :: ngx_uint) = ?lo" "unat (of_nat ?hi :: ngx_uint) = ?hi"
    using i(3) by (auto simp: unat_of_nat64 simp del: of_nat_unat)
  have val: "ngx_http_rand_get_handler True rnd (Some ?ctx) v =
      Some (NGX_OK, v\<lparr>vl_data := dec_print (?lo + unat rnd mod (Suc ?hi - ?lo)), vl_valid := True\<rparr>)" for rnd v
  proof -
    let ?w = "rnd mod (1 + of_nat ?hi - of_nat ?lo) + of_nat ?lo :: ngx_uint"
    have p: "unat (of_nat ?lo :: ngx_uint) \<le> unat (of_nat ?hi :: ngx_uint)" "unat (of_nat ?hi :: ngx_uint) < 2 ^ 63"
      using bounds i(3) by (simp_all only: bounds)
    have w: "unat ?w = ?lo + unat rnd mod (Suc ?hi - ?lo)" "1 + of_nat ?hi - of_nat ?lo \<noteq> (0 :: ngx_uint)"
      using rand_value(1) [OF p refl] rand_value(2) [OF p refl, of rnd] by (simp_all only: bounds not_False_eq_True)
    then have "unat ?w < 2 ^ 63" using i(3) mod_span [OF bounds(1), of "unat rnd"] by linarith
    then have "print_long ?w = dec_print (unat ?w)" by (simp add: print_long_def sint_small)
    with w show ?thesis by (simp add: ngx_http_rand_get_handler_def Let_def)
  qed
  have "?lo + unat rnd mod (Suc ?hi - ?lo) \<in> {?lo .. ?hi}" for rnd :: ngx_uint
    using mod_span [OF bounds(1), of "unat rnd"] by (simp only: atLeastAtMost_iff le_add1 simp_thms)
  moreover have "\<exists>rnd :: ngx_uint. unat rnd < 2 ^ 31 \<and> ?lo + unat rnd mod (Suc ?hi - ?lo) = n"
    if "n \<in> {?lo .. ?hi}" "n < ?lo + 2 ^ 31" for n
  proof -
    have "unat (of_nat (n - ?lo) :: ngx_uint) = n - ?lo" using that by (intro unat_of_nat64) auto
    moreover have "?lo + (n - ?lo) mod (Suc ?hi - ?lo) = n" "n - ?lo < 2 ^ 31"
      using that mod_less [of "n - ?lo" "Suc ?hi - ?lo"] by (auto simp only: atLeastAtMost_iff)
    ultimately show ?thesis by (intro exI [of _ "of_nat (n - ?lo)"]) (simp only: simp_thms)
  qed
  ultimately show ?thesis using i(1,2,4) val by (intro exI [of _ i] exI [of _ ?ctx]) metis
qed

theorem rand_in_range_witness:
  "\<exists>vc' i ctx. ngx_http_rand_command True True [bs ''random'', bs ''$r'', bs ''9'', bs ''7''] \<lparr>vc_keys = [], vc_indexed = []\<rparr> = Some (None, vc') \<and>
    var_get_handler (vc_keys vc' ! i) = Some (Some ctx) \<and>
    (\<forall>rnd v. \<exists>n \<in> {7..9}.
       ngx_http_rand_get_handler True rnd (Some ctx) v = Some (NGX_OK, v\<lparr>vl_data := dec_print n, vl_valid := True\<rparr>))"
proof -
  let ?vc = "\<lparr>vc_keys = [], vc_indexed = []\<rparr>"
  have num: "ngx_atoi (bs ''9'') = 9" "ngx_atoi (bs ''7'') = 7" by (simp_all add: ngx_atoi_def word_sless_alt)
  have "\<exists>vc'. ngx_http_rand_command True True [bs ''random'', bs ''$'' @ bs ''r'', bs ''9'', bs ''7''] ?vc = Some (None, vc')"
    using num by (simp add: ngx_http_rand_command_def ngx_http_get_var_name_str_def ngx_http_add_variable_def NGX_ERROR_VAL_def Let_def)
  then obtain vc' where c: "ngx_http_rand_command True True [bs ''random'', bs ''$'' @ bs ''r'', bs ''9'', bs ''7''] ?vc = Some (None, vc')" ..
  have b: "min (unat (ngx_atoi (bs ''9''))) (unat (ngx_atoi (bs ''7''))) = 7"
    "max (unat (ngx_atoi (bs ''9''))) (unat (ngx_atoi (bs ''7''))) = 9" by (simp_all only: num) simp_all
  show ?thesis using rand_in_range [OF c] c unfolding b by auto
qed

end
