(* ===== verification/Httpcheck.thy ===== *)
theory Httpcheck
  imports Memcached_More Http_Uri Rand
begin

text \<open>
  \<^verbatim>\<open>ngx_http_httpcheck_module\<close>: a location that asks another server first. The module requests the URI of a variable, reads the whole reply,
  puts its status and its body into two variables and redirects to the URI of another variable. The reply is parsed in
  the buffer of the upstream engine, which is memory of a fixed size: the searches read behind the bytes that have arrived. A read outside of the memory is undefined,
  \<open>None\<close>.
\<close>

section \<open>State\<close>

record 'u hc_loc_conf =
  hl_upstream :: "'u option"
  hl_schema :: bytes
  i_check_uri :: "nat option"
  i_redir_uri :: "nat option"
  i_code :: "nat option"
  i_res :: "nat option"
  hl_connect_timeout :: "ngx_uint option"
  hl_send_timeout :: "ngx_uint option"
  hl_read_timeout :: "ngx_uint option"
  hl_buffer_size :: "ngx_uint option"
  hl_next_upstream :: ngx_uint

record hc_ctx =
  hx_code :: ngx_int
  hx_content_len :: ngx_int
  hx_ischunk :: bool

text \<open>The memory of the buffer from its position to its end, and the number of bytes that have arrived.\<close>

record hc_buf =
  hb_mem :: bytes
  hb_last :: nat

text \<open>What is done to the request: the internal redirect, or the end with the status 404.\<close>

datatype hc_action = HcRedirect bytes bytes | HcNotFound

section \<open>The request\<close>

definition ngx_http_httpcheck_get_ctx :: "bool \<Rightarrow> hc_ctx option \<Rightarrow> hc_ctx option" where
  "ngx_http_httpcheck_get_ctx ok ctx =
     (case ctx of
        Some c \<Rightarrow> Some c
      | None \<Rightarrow> if ok then Some \<lparr>hx_code = 0, hx_content_len = 0, hx_ischunk = False\<rparr> else None)"

text \<open>The content handler; the context is used without a test.\<close>

definition ngx_http_httpcheck_handler ::
    "bool \<Rightarrow> ngx_rc \<Rightarrow> bool \<Rightarrow> bool \<Rightarrow> hc_ctx option \<Rightarrow> (ngx_rc \<times> hc_ctx option) option" where
  "ngx_http_httpcheck_handler get_or_head discard ok ctx_ok ctx =
     (if \<not> get_or_head then Some (NGX_HTTP 405, ctx)
      else if discard \<noteq> NGX_OK then Some (discard, ctx)
      else if \<not> ok then Some (NGX_HTTP 500, ctx)
      else
        case ngx_http_httpcheck_get_ctx ctx_ok ctx of
          None \<Rightarrow> None
        | Some c \<Rightarrow> Some (NGX_DONE, Some c))"

definition get_head :: bytes where
  "get_head = bs ''GET ''"

definition uri_loc :: bytes where
  "uri_loc = bs ''/sass/interface/sass_data_input_output.php?''"

definition sHTTP :: bytes where
  "sHTTP = bs '' HTTP/1.1'' @ [CR, LF]"

definition sHost :: bytes where
  "sHost = bs ''Host: localhost:4194'' @ [CR, LF]"

text \<open>\<open>ok 0\<close> and \<open>ok 1\<close> are the memory for the buffer and the chain. \<^verbatim>\<open>sprintf\<close> writes a zero behind the text.\<close>

definition ngx_http_httpcheck_create_request ::
    "(nat \<Rightarrow> bool) \<Rightarrow> var_env \<Rightarrow> 'u hc_loc_conf \<Rightarrow> vvl list \<Rightarrow> (ngx_rc \<times> bytes option \<times> vvl list) option" where
  "ngx_http_httpcheck_create_request ok va lcf vars =
     (case indexed va (i_check_uri lcf) vars of (vv, vars) \<Rightarrow>
        case vv of
          None \<Rightarrow> Some (NGX_ERROR, None, vars)
        | Some v \<Rightarrow>
            if vl_not_found v \<or> vl_data v = [] then Some (NGX_ERROR, None, vars)
            else
              let len = length get_head + length (vl_data v) + length uri_loc + 256 in
              if \<not> ok 0 then Some (NGX_ERROR, None, vars)
              else
                let req = get_head @ vl_data v @ sHTTP @ sHost @ [CR, LF] in
                if len < length req + 1 then None
                else if \<not> ok 1 then Some (NGX_ERROR, None, vars)
                else Some (NGX_OK, Some req, vars))"

section \<open>Searching in the buffer\<close>

text \<open>\<^verbatim>\<open>ngx_strncmp\<close> of the memory with a whole string: whether it returns 0.\<close>

fun strncmp_mem :: "bytes \<Rightarrow> bytes \<Rightarrow> bool option" where
  "strncmp_mem _ [] = Some True"
| "strncmp_mem [] (b # t) = None"
| "strncmp_mem (a # m) (b # t) = (if a \<noteq> b then Some False else if a = 0 then Some True else strncmp_mem m t)"

text \<open>The loop over \<open>k\<close> positions of the memory up to the first that compares equal; the result is the number of steps.\<close>

fun hc_find :: "bytes \<Rightarrow> bytes \<Rightarrow> nat \<Rightarrow> nat option" where
  "hc_find s mem 0 = Some 0"
| "hc_find s mem (Suc k) =
     Option.bind (strncmp_mem mem s) (\<lambda>eq. if eq then Some 0 else map_option Suc (hc_find s (tl mem) k))"

definition ngx_http_httpcheck_getcode :: "bytes \<Rightarrow> nat \<Rightarrow> ngx_int option" where
  "ngx_http_httpcheck_getcode mem n =
     (let c = length (takeWhile (\<lambda>b. b \<noteq> cb (CHR '' '')) (take n mem)) in
      if length mem \<le> c then None
      else if mem ! c \<noteq> cb (CHR '' '') then Some 0
      else Some (ngx_atoi (takeWhile (\<lambda>b. b \<noteq> cb (CHR '' '')) (drop (c + 1) (take n mem)))))"

definition hc_chunked :: bytes where
  "hc_chunked = bs ''Transfer-Encoding: chunked'' @ [CR, LF]"

definition ngx_http_httpcheck_ischunk :: "bytes \<Rightarrow> nat \<Rightarrow> bool option" where
  "ngx_http_httpcheck_ischunk mem e = map_option (\<lambda>c. c \<noteq> e) (hc_find hc_chunked mem e)"

definition hc_length_name :: bytes where
  "hc_length_name = bs ''Content-Length: ''"

text \<open>The loop over the value: up to a space or the end of the line, at most \<open>k\<close> bytes.\<close>

fun hc_value :: "bytes \<Rightarrow> nat \<Rightarrow> bytes option" where
  "hc_value mem 0 = Some []"
| "hc_value [] (Suc k) = None"
| "hc_value (b # mem) (Suc k) =
     (if b = cb (CHR '' '') then Some []
      else Option.bind (strncmp_mem (b # mem) [CR, LF]) (\<lambda>eq. if eq then Some [] else map_option (Cons b) (hc_value mem k)))"

definition ngx_http_httpcheck_getlen :: "bytes \<Rightarrow> nat \<Rightarrow> ngx_int option" where
  "ngx_http_httpcheck_getlen mem e =
     Option.bind (hc_find hc_length_name mem e) (\<lambda>c.
       if c = e then Some NGX_ERROR_VAL
       else let c = c + length hc_length_name in map_option ngx_atoi (hc_value (drop c mem) (e - c)))"

section \<open>The reply\<close>

definition hc_header_end :: bytes where
  "hc_header_end = [CR, LF, CR, LF]"

definition hc_chunkend :: bytes where
  "hc_chunkend = [CR, LF] @ bs ''0'' @ [CR, LF, CR, LF]"

text \<open>The loop back from the position before \<open>k\<close> to the start of a line end, not below \<open>p\<close>; the result is two behind it.\<close>

fun hc_back :: "bytes \<Rightarrow> nat \<Rightarrow> nat \<Rightarrow> nat" where
  "hc_back mem p 0 = 1"
| "hc_back mem p (Suc s) = (if p \<le> s \<and> \<not> (mem ! s = CR \<and> mem ! (s + 1) = LF) then hc_back mem p s else s + 2)"

text \<open>The start of the last line of a chunked body and the new end; \<open>Some None\<close> is a body that has not ended.\<close>

definition hc_chunk_line :: "bytes \<Rightarrow> nat \<Rightarrow> nat \<Rightarrow> (nat \<times> nat) option option" where
  "hc_chunk_line mem n p =
     (if n < length hc_chunkend then None
      else
        let e = n - length hc_chunkend in
        Option.bind (strncmp_mem (drop e mem) hc_chunkend) (\<lambda>eq. Some (if eq then Some (hc_back mem p e, e) else None)))"

text \<open>The loop that drops line ends before the position \<open>q\<close>; it does not look at the start of the line.\<close>

fun hc_trim :: "bytes \<Rightarrow> nat \<Rightarrow> nat option" where
  "hc_trim mem 0 = None"
| "hc_trim mem (Suc q) =
     (if length mem \<le> q then None else if mem ! q = CR \<or> mem ! q = LF then hc_trim mem q else Some (Suc q))"

text \<open>
  A variable gets a copy of data in new memory. When there is no memory, its pointer becomes null: undefined unless it has no bytes.
  Data whose length wrapped around is \<open>None\<close>.
\<close>

definition hc_set_var :: "bool \<Rightarrow> nat option \<Rightarrow> bytes option \<Rightarrow> vvl list \<Rightarrow> (bool \<times> vvl list) option" where
  "hc_set_var ok i d vars =
     (case i of
        None \<Rightarrow> None
      | Some i \<Rightarrow>
          if length vars \<le> i then None
          else if \<not> ok then if vl_data (vars ! i) = [] then Some (False, vars) else None
          else
            case d of
              None \<Rightarrow> None
            | Some d \<Rightarrow> Some (True, vars[i := (vars ! i)\<lparr>vl_data := d, vl_not_found := False, vl_valid := True\<rparr>]))"

text \<open>
  The end of the function, for the line from \<open>s\<close> to \<open>e\<close>: the variables and the redirect. \<open>alloc\<close> is the memory for the \<open>k\<close>-th variable, by its size, \<open>r_args\<close> the
  arguments of the request, \<open>beyond\<close> the byte behind the URI.
\<close>

definition hc_finish ::
    "(nat \<Rightarrow> ngx_uint \<Rightarrow> bool) \<Rightarrow> var_env \<Rightarrow> byte \<Rightarrow> bytes \<Rightarrow> 'u hc_loc_conf \<Rightarrow> bytes \<Rightarrow> nat \<Rightarrow> nat \<Rightarrow> ngx_int \<Rightarrow> vvl list \<Rightarrow>
      (ngx_rc \<times> hc_action option \<times> vvl list) option" where
  "hc_finish alloc va beyond r_args lcf mem s e code vars =
     Option.bind (hc_trim mem e) (\<lambda>q.
     Option.bind (hc_set_var (alloc 0 32) (i_code lcf) (Some (print_int code)) vars) (\<lambda>(ok, vars).
       if \<not> ok then Some (NGX_ERROR, None, vars)
       else
         Option.bind (hc_set_var (alloc 1 (of_int (int q - int s))) (i_res lcf) (if s \<le> q then Some (take (q - s) (drop s mem)) else None) vars) (\<lambda>(ok, vars).
           if \<not> ok then Some (NGX_ERROR, None, vars)
           else
             case indexed va (i_redir_uri lcf) vars of (vv, vars) \<Rightarrow>
               case vv of
                 None \<Rightarrow> Some (NGX_ERROR, None, vars)
               | Some v \<Rightarrow>
                   if vl_not_found v \<or> \<not> vl_valid v then Some (NGX_ERROR, None, vars)
                   else
                     case ngx_http_parse_unsafe_uri beyond (vl_data v) False of
                       None \<Rightarrow> Some (NGX_ERROR, Some HcNotFound, vars)
                     | Some (uri, args, zero) \<Rightarrow>
                         Some (NGX_DONE, Some (HcRedirect uri (case args of None \<Rightarrow> r_args | Some a \<Rightarrow> a)), vars))))"

definition ngx_http_httpcheck_process_header ::
    "(nat \<Rightarrow> ngx_uint \<Rightarrow> bool) \<Rightarrow> var_env \<Rightarrow> byte \<Rightarrow> bytes \<Rightarrow> 'u hc_loc_conf \<Rightarrow> hc_buf \<Rightarrow> hc_ctx \<Rightarrow> vvl list \<Rightarrow>
      (ngx_rc \<times> hc_action option \<times> hc_buf \<times> hc_ctx \<times> vvl list) option" where
  "ngx_http_httpcheck_process_header alloc va beyond r_args lcf b ctx vars =
     (let mem = hb_mem b; n = hb_last b in
      Option.bind (hc_find hc_header_end mem (n - 3)) (\<lambda>p.
        if p + 4 = n then Some (NGX_AGAIN, None, b, ctx, vars)
        else
          let p = p + length hc_header_end in
          Option.bind (if hx_code ctx = 0 then ngx_http_httpcheck_getcode mem n else Some (hx_code ctx)) (\<lambda>code.
            let ctx = ctx\<lparr>hx_code := code\<rparr> in
            if code = 0 then Some (NGX_ERROR, None, b, ctx, vars)
            else
              Option.bind (ngx_http_httpcheck_ischunk mem p) (\<lambda>chunk.
                let ctx = ctx\<lparr>hx_ischunk := chunk\<rparr> in
                if chunk then
                  Option.bind (hc_chunk_line mem n p) (\<lambda>l.
                    case l of
                      None \<Rightarrow> Some (NGX_AGAIN, None, b, ctx, vars)
                    | Some (s, e) \<Rightarrow>
                        map_option (\<lambda>(rc, act, vars). (rc, act, b\<lparr>hb_last := e\<rparr>, ctx, vars))
                          (hc_finish alloc va beyond r_args lcf mem s e code vars))
                else
                  Option.bind (if hx_content_len ctx = 0 then ngx_http_httpcheck_getlen mem p else Some (hx_content_len ctx)) (\<lambda>len.
                    let unset = (hx_content_len ctx = 0);
                        ctx = ctx\<lparr>hx_content_len := len\<rparr>
                    in if unset \<and> len = NGX_ERROR_VAL then Some (NGX_ERROR, None, b, ctx, vars)
                       else if of_int (int n - int p) <s len then Some (NGX_AGAIN, None, b, ctx, vars)
                       else
                         map_option (\<lambda>(rc, act, vars). (rc, act, b, ctx, vars))
                           (hc_finish alloc va beyond r_args lcf mem p n code vars))))))"

text \<open>The filters for a body: they set the length that remains to 0.\<close>

definition ngx_http_httpcheck_filter_init :: "ngx_uint \<Rightarrow> ngx_rc \<times> ngx_uint" where
  "ngx_http_httpcheck_filter_init len = (NGX_OK, 0)"

definition ngx_http_httpcheck_filter :: "ngx_uint \<Rightarrow> ngx_rc \<times> ngx_uint" where
  "ngx_http_httpcheck_filter len = (NGX_DONE, 0)"

section \<open>The upstream engine around the header\<close>

text \<open>
  \<^verbatim>\<open>ngx_http_upstream_process_header\<close> for the results of \<^verbatim>\<open>recv\<close>, none of which is an error. \<open>HcNext\<close> tries the next server: the connection was closed, or there is no
  room in the buffer. \<open>HcError\<close> ends the request with the status 500, after what the module did to it.
\<close>

datatype hc_end = HcDone "hc_action option" | HcError "hc_action option" | HcNext | HcWait

definition hc_recv :: "bytes \<Rightarrow> hc_buf \<Rightarrow> hc_buf" where
  "hc_recv c b =
     (let c = take (length (hb_mem b) - hb_last b) c in
      \<lparr>hb_mem = take (hb_last b) (hb_mem b) @ c @ drop (hb_last b + length c) (hb_mem b), hb_last = hb_last b + length c\<rparr>)"

fun hc_reads ::
    "(nat \<Rightarrow> ngx_uint \<Rightarrow> bool) \<Rightarrow> var_env \<Rightarrow> byte \<Rightarrow> bytes \<Rightarrow> 'u hc_loc_conf \<Rightarrow> bytes list \<Rightarrow> hc_buf \<Rightarrow> hc_ctx \<Rightarrow> vvl list \<Rightarrow>
      (hc_end \<times> vvl list) option" where
  "hc_reads alloc va beyond r_args lcf [] b ctx vars = Some (HcWait, vars)"
| "hc_reads alloc va beyond r_args lcf (c # cs) b ctx vars =
     (let room = length (hb_mem b) - hb_last b in
      if c = [] \<or> room = 0 then Some (HcNext, vars)
      else
        case ngx_http_httpcheck_process_header alloc va beyond r_args lcf (hc_recv c b) ctx vars of
          None \<Rightarrow> None
        | Some (rc, act, b, ctx, vars) \<Rightarrow>
            if rc = NGX_DONE then Some (HcDone act, vars)
            else if rc = NGX_AGAIN then
              if room < length c then Some (HcNext, vars) else hc_reads alloc va beyond r_args lcf cs b ctx vars
            else Some (HcError act, vars))"

section \<open>Configuration\<close>

definition ngx_http_httpcheck_create_loc_conf :: "bool \<Rightarrow> ngx_uint \<Rightarrow> 'u hc_loc_conf option" where
  "ngx_http_httpcheck_create_loc_conf ok pagesize =
     (if \<not> ok then None
      else
        Some \<lparr>hl_upstream = None, hl_schema = [], i_check_uri = None, i_redir_uri = None, i_code = None, i_res = None,
          hl_connect_timeout = Some 60000, hl_send_timeout = Some 60000, hl_read_timeout = Some 60000,
          hl_buffer_size = Some pagesize, hl_next_upstream = 0\<rparr>)"

definition ngx_http_httpcheck_merge_loc_conf :: "ngx_uint \<Rightarrow> 'u hc_loc_conf \<Rightarrow> 'u hc_loc_conf \<Rightarrow> 'u hc_loc_conf" where
  "ngx_http_httpcheck_merge_loc_conf pagesize prev conf =
     (let next_upstream =
            (if hl_next_upstream conf = 0 then if hl_next_upstream prev = 0 then 0x1 OR 0x2 OR 0x4 else hl_next_upstream prev
             else hl_next_upstream conf)
      in conf\<lparr>i_check_uri := or_prev (i_check_uri conf) (i_check_uri prev),
           i_redir_uri := or_prev (i_redir_uri conf) (i_redir_uri prev),
           i_code := or_prev (i_code conf) (i_code prev),
           i_res := or_prev (i_res conf) (i_res prev),
           hl_connect_timeout := merge_value (hl_connect_timeout conf) (hl_connect_timeout prev) 60000,
           hl_send_timeout := merge_value (hl_send_timeout conf) (hl_send_timeout prev) 60000,
           hl_read_timeout := merge_value (hl_read_timeout conf) (hl_read_timeout prev) 60000,
           hl_buffer_size := merge_value (hl_buffer_size conf) (hl_buffer_size prev) pagesize,
           hl_next_upstream := (if next_upstream AND NGX_HTTP_UPSTREAM_FT_OFF \<noteq> 0 then 0x1 OR NGX_HTTP_UPSTREAM_FT_OFF else next_upstream),
           hl_upstream := or_prev (hl_upstream conf) (hl_upstream prev),
           hl_schema := (if hl_upstream conf = None then hl_schema prev else hl_schema conf)\<rparr>)"

definition ngx_http_httpcheck_null_gethandler :: "vvl \<Rightarrow> ngx_rc \<times> vvl" where
  "ngx_http_httpcheck_null_gethandler v =
     (NGX_OK, \<lparr>vl_data = [], vl_valid = True, vl_no_cacheable = False, vl_not_found = False\<rparr>)"

text \<open>
  The command \<^verbatim>\<open>httpcheck_pass\<close>: \<open>add\<close> is \<^verbatim>\<open>ngx_http_upstream_add\<close>, \<open>hg\<close> the handler of the two variables, \<open>ok\<close> the memory for the \<open>k\<close>-th declaration. The location is its
  name and its flag \<^verbatim>\<open>auto_redirect\<close>. The first byte of a variable name is dropped.
\<close>

definition ngx_http_httpcheck_pass ::
    "(nat \<Rightarrow> bool) \<Rightarrow> (bytes \<Rightarrow> 'u option) \<Rightarrow> 'h \<Rightarrow> bytes list \<Rightarrow> bytes \<times> bool \<Rightarrow> 'u hc_loc_conf \<Rightarrow> 'h var_conf \<Rightarrow>
      (conf_result \<times> bool \<times> 'u hc_loc_conf \<times> 'h var_conf) option" where
  "ngx_http_httpcheck_pass ok add hg args clcf lcf vc =
     (let lcf = lcf\<lparr>hl_upstream := add (args ! 1)\<rparr> in
      if hl_upstream lcf = None then Some (Some [], snd clcf, lcf, vc)
      else if args ! 2 = [] then None
      else
        case ngx_http_get_variable_index (ok 0) vc (tl (args ! 2)) of (i, vc) \<Rightarrow>
          let lcf = lcf\<lparr>i_check_uri := i\<rparr> in
          if i = Some 0 then Some (Some ''uri variable is not set'', snd clcf, lcf, vc)
          else if args ! 3 = [] then None
          else
            case ngx_http_get_variable_index (ok 1) vc (tl (args ! 3)) of (i, vc) \<Rightarrow>
              let lcf = lcf\<lparr>i_redir_uri := i\<rparr> in
              if i = Some 0 then Some (Some ''redirect uri variable is not set'', snd clcf, lcf, vc)
              else
                case ngx_http_add_variable (ok 2) vc (bs ''hc_code'') True of
                  (None, vc) \<Rightarrow> Some (Some ''failed to add ht_code variable'', snd clcf, lcf, vc)
                | (Some v, vc) \<Rightarrow>
                    case ngx_http_get_variable_index (ok 3) (var_set_get_handler v hg vc) (bs ''hc_code'') of (i, vc) \<Rightarrow>
                      let lcf = lcf\<lparr>i_code := i\<rparr> in
                      case ngx_http_add_variable (ok 4) vc (bs ''hc_res'') True of
                        (None, vc) \<Rightarrow> Some (Some ''failed to add ht_res variable'', snd clcf, lcf, vc)
                      | (Some v, vc) \<Rightarrow>
                          case ngx_http_get_variable_index (ok 5) (var_set_get_handler v hg vc) (bs ''hc_res'') of (i, vc) \<Rightarrow>
                            let lcf = lcf\<lparr>i_res := i\<rparr> in
                            if fst clcf = [] then None
                            else Some (None, snd clcf \<or> last (fst clcf) = cb (CHR ''/''), lcf, vc))"

section \<open>What the searches find\<close>

lemma strncmp_mem_prefix: "0 \<notin> set s \<Longrightarrow> \<not> strict_prefix m s \<Longrightarrow> strncmp_mem m s = Some (prefix s m)"
  by (induction m s rule: strncmp_mem.induct) auto

lemma hc_find_at:
  assumes "0 \<notin> set s"
  shows "k \<le> e \<Longrightarrow> (\<And>c. c < k \<Longrightarrow> \<not> strict_prefix (drop c mem) s \<and> \<not> prefix s (drop c mem)) \<Longrightarrow> (k < e \<Longrightarrow> prefix s (drop k mem)) \<Longrightarrow>
    hc_find s mem e = Some k"
proof (induction e arbitrary: k mem)
  case 0
  then show ?case by simp
next
  case (Suc e)
  show ?case
  proof (cases k)
    case 0
    then have "prefix s mem" using Suc.prems(3) by simp
    moreover have "\<not> strict_prefix mem s" using calculation by (meson prefix_order.less_le_not_le)
    ultimately show ?thesis using 0 strncmp_mem_prefix [OF assms, of mem] by simp
  next
    case (Suc k')
    have "hc_find s (tl mem) e = Some k'"
      using Suc.prems Suc by (intro Suc.IH) (simp, metis Suc_mono drop_Suc, metis Suc_mono drop_Suc)
    moreover have "\<not> strict_prefix mem s" "\<not> prefix s mem" using Suc.prems(2) [of 0] Suc by simp_all
    ultimately show ?thesis using Suc strncmp_mem_prefix [OF assms, of mem] by simp
  qed
qed

text \<open>Where a string cannot occur: before its first occurrence, and where it would have to contain a line feed.\<close>

lemma no_match_before:
  assumes "\<not> sublist s x" and "c + length s \<le> length x"
  shows "\<not> strict_prefix (drop c (x @ y)) s \<and> \<not> prefix s (drop c (x @ y))"
proof -
  have "\<not> prefix s (drop c (x @ y))"
  proof
    assume "prefix s (drop c (x @ y))"
    then obtain z where "drop c (x @ y) = s @ z" by (auto simp: prefix_def)
    then have "take (length s) (drop c (x @ y)) = s" by (simp del: drop_append)
    then have "take (length s) (drop c x) = s" using assms(2) by simp
    then have "prefix s (drop c x)" by (metis take_is_prefix)
    then show False using assms(1) by (metis prefix_imp_sublist sublist_drop sublist_order.order_trans)
  qed
  moreover have "\<not> strict_prefix (drop c (x @ y)) s" using assms(2) by (auto dest: prefix_length_less)
  ultimately show ?thesis by simp
qed

lemma no_match_line:
  assumes "LF \<notin> set (butlast s)" and "c \<le> i" and "i < length mem" and "mem ! i = LF" and "i + 1 < c + length s"
  shows "\<not> strict_prefix (drop c mem) s \<and> \<not> prefix s (drop c mem)"
proof -
  have "s ! (i - c) \<noteq> LF" using assms(1,2,5) nth_mem [of "i - c" "butlast s"] by (fastforce simp: nth_butlast less_diff_conv)
  moreover have "drop c mem ! (i - c) = LF" using assms(2,3,4) by simp
  moreover have "xs ! j = ys ! j" if "prefix xs ys" "j < length xs" for xs ys :: bytes and j using that by (auto simp: prefix_def nth_append)
  moreover have "i - c < length (drop c mem)" "i - c < length s" using assms(2,3,5) by auto
  ultimately show ?thesis by (metis prefix_order.less_imp_le)
qed

section \<open>Replies\<close>

text \<open>The lines of a header; the status line; the header ends with an empty line.\<close>

definition hc_lines :: "bytes list \<Rightarrow> bytes" where
  "hc_lines ls = concat (map (\<lambda>l. l @ [CR, LF]) ls)"

definition hc_line_ok :: "bytes \<Rightarrow> bool" where
  "hc_line_ok l \<longleftrightarrow> l \<noteq> [] \<and> CR \<notin> set l \<and> LF \<notin> set l"

definition hc_status :: "bytes \<Rightarrow> nat \<Rightarrow> bytes \<Rightarrow> bytes" where
  "hc_status proto code phrase = proto @ [cb (CHR '' '')] @ dec_print code @ [cb (CHR '' '')] @ phrase"

definition hc_length_line :: "nat \<Rightarrow> bytes" where
  "hc_length_line n = hc_length_name @ dec_print n"

abbreviation hc_chunk_field :: bytes where
  "hc_chunk_field \<equiv> bs ''Transfer-Encoding: chunked''"

lemma hc_lines_simps [simp]: "hc_lines [] = []" "hc_lines (l # ls) = l @ CR # LF # hc_lines ls" "hc_lines (ls @ ls') = hc_lines ls @ hc_lines ls'"
  by (simp_all add: hc_lines_def)

lemma suffix_no_CR: "suffix xs l \<Longrightarrow> CR \<notin> set l \<Longrightarrow> CR \<notin> set xs"
  by (auto simp: suffix_def)

lemma sublist_line:
  assumes "CR \<notin> set s" and "LF \<notin> set s" and "s \<noteq> []"
  shows "sublist s (hc_lines ls) \<Longrightarrow> \<exists>l \<in> set ls. sublist s l"
proof (induction ls)
  case Nil
  then show ?case using assms(3) by simp
next
  case (Cons l ls)
  have "prefix s (CR # x) \<Longrightarrow> False" "prefix s (LF # x) \<Longrightarrow> False" for x using assms by (cases s; simp)+
  moreover have "sublist s l" if "s = xs1 @ xs2" "suffix xs1 l" "prefix xs2 (CR # x)" for xs1 xs2 x
    using that assms(1) by (cases xs2) (auto simp: suffix_imp_sublist)
  ultimately have "sublist s l \<or> sublist s (hc_lines ls)"
    using Cons.prems by (simp add: sublist_append sublist_Cons_right) blast
  then show ?case using Cons.IH by auto
qed

lemma no_empty_line: "list_all hc_line_ok ls \<Longrightarrow> \<not> sublist hc_header_end (hc_lines ls @ [CR])"
proof (induction ls)
  case Nil
  then show ?case by (simp add: hc_header_end_def sublist_Cons_right)
next
  case (Cons l ls)
  let ?t = "hc_lines ls @ [CR]"
  have l: "CR \<notin> set l" using Cons.prems by (simp add: hc_line_ok_def)
  have t: "\<not> prefix [CR, LF] ?t" using Cons.prems by (cases ls) (auto simp: hc_line_ok_def prefix_Cons neq_Nil_conv)
  have "\<not> sublist hc_header_end l" using l set_mono_sublist [of hc_header_end l] by (auto simp: hc_header_end_def)
  moreover have "\<not> sublist hc_header_end (CR # LF # ?t)" using t Cons by (simp add: hc_header_end_def sublist_Cons_right)
  moreover have "\<not> prefix xs2 (CR # LF # ?t)" if "hc_header_end = xs1 @ xs2" "suffix xs1 l" for xs1 xs2
    using that suffix_no_CR [OF that(2) l] t by (cases xs1) (auto simp: hc_header_end_def)
  ultimately show ?case by (auto simp: sublist_append)
qed

lemma sublist_line_end:
  assumes "CR \<notin> set s" and "LF \<notin> set s" and "s \<noteq> []"
  shows "list_all hc_line_ok ls \<Longrightarrow> sublist (s @ [CR, LF]) (hc_lines ls) \<Longrightarrow> \<exists>l \<in> set ls. suffix s l"
proof (induction ls)
  case Nil
  then show ?case by simp
next
  case (Cons l ls)
  have l: "CR \<notin> set l" using Cons.prems by (simp add: hc_line_ok_def)
  have "\<not> sublist (s @ [CR, LF]) l" using l set_mono_sublist [of "s @ [CR, LF]" l] by auto
  moreover have "\<not> prefix (s @ [CR, LF]) (CR # x)" "\<not> prefix (s @ [CR, LF]) (LF # x)" for x using assms by (cases s; simp)+
  moreover have "suffix s l" if "s @ [CR, LF] = xs1 @ xs2" "suffix xs1 l" "prefix xs2 (CR # LF # x)" for xs1 xs2 x
  proof -
    note split = that(1)
    have "CR \<notin> set xs1" using suffix_no_CR [OF that(2) l] .
    moreover obtain us where "s = xs1 @ us \<and> us @ [CR, LF] = xs2 \<or> s @ us = xs1 \<and> [CR, LF] = us @ xs2"
      using split by (auto simp: append_eq_append_conv2)
    ultimately have "s = xs1 @ us \<and> us @ [CR, LF] = xs2 \<or> s = xs1 \<and> us = []" by (cases us) auto
    then have us: "s = xs1 @ us" "xs2 = us @ [CR, LF]" using that(1) by auto
    then have "us = []" using that(3) assms(1) by (cases us) auto
    then show ?thesis using us that(2) by simp
  qed
  ultimately have "suffix s l \<or> sublist (s @ [CR, LF]) (hc_lines ls)"
    using Cons.prems(2) by (simp add: sublist_append [of _ l] sublist_Cons_right) blast
  then show ?case using Cons by auto
qed

section \<open>The fields of a reply\<close>

text \<open>\<open>hc_head\<close> is the header without the empty line that ends it; in the buffer, the body and other memory follow.\<close>

definition hc_head :: "bytes \<Rightarrow> nat \<Rightarrow> bytes \<Rightarrow> bytes list \<Rightarrow> bytes" where
  "hc_head proto code phrase ls = hc_lines (hc_status proto code phrase # ls)"

lemma dec_print_line: "CR \<notin> set (dec_print n)" "LF \<notin> set (dec_print n)" "32 \<notin> set (dec_print n)" "dec_print n \<noteq> []"
  using dec_bytes [of "dec_print n"] dec_print_ok [of n] by (auto simp: list_all_iff)

lemma length_line_ok: "hc_line_ok (hc_length_line n)"
  using dec_print_line [of n] by (auto simp: hc_line_ok_def hc_length_line_def hc_length_name_def)

lemma head_last: "ls \<noteq> [] \<Longrightarrow> \<exists>x. hc_lines ls = x @ [CR, LF]"
  by (cases ls rule: rev_cases) auto

lemma find_header_end:
  assumes "list_all hc_line_ok ls" and "ls \<noteq> []"
  shows "hc_find hc_header_end (hc_lines ls @ CR # LF # body @ mem) (length (hc_lines ls) + 2 + length body - 3) = Some (length (hc_lines ls) - 2)"
proof -
  obtain x where x: "hc_lines ls = x @ [CR, LF]" using head_last [OF assms(2)] by blast
  show ?thesis
  proof (rule hc_find_at)
    show "0 \<notin> set hc_header_end" by (simp add: hc_header_end_def)
    show "length (hc_lines ls) - 2 \<le> length (hc_lines ls) + 2 + length body - 3" using x by simp
    show "prefix hc_header_end (drop (length (hc_lines ls) - 2) (hc_lines ls @ CR # LF # body @ mem))"
      by (simp add: x hc_header_end_def)
    fix c
    assume "c < length (hc_lines ls) - 2"
    then show "\<not> strict_prefix (drop c (hc_lines ls @ CR # LF # body @ mem)) hc_header_end \<and>
        \<not> prefix hc_header_end (drop c (hc_lines ls @ CR # LF # body @ mem))"
      using no_match_before [OF no_empty_line [OF assms(1)], of c "LF # body @ mem"] x by (simp add: hc_header_end_def)
  qed
qed

lemma getcode_reply:
  assumes "32 \<notin> set proto" and "code < 2 ^ 63" and "length (hc_head proto code phrase ls) \<le> n"
  shows "ngx_http_httpcheck_getcode (hc_head proto code phrase ls @ mem) n = Some (of_nat code)"
proof -
  let ?r = "phrase @ CR # LF # hc_lines ls"
  have eq: "hc_head proto code phrase ls = proto @ 32 # dec_print code @ 32 # ?r" by (simp add: hc_head_def hc_status_def)
  have "take n (hc_head proto code phrase ls @ mem) = hc_head proto code phrase ls @ take (n - length (hc_head proto code phrase ls)) mem"
    using assms(3) by simp
  then obtain z where t: "take n (hc_head proto code phrase ls @ mem) = proto @ 32 # dec_print code @ 32 # ?r @ z"
    unfolding eq by simp
  have tw: "takeWhile (\<lambda>b. b \<noteq> 32) (proto @ 32 # y) = proto" "takeWhile (\<lambda>b. b \<noteq> 32) (dec_print code @ 32 # y) = dec_print code" for y
    using assms(1) dec_print_line [of code] by (auto intro!: takeWhile_stop simp: list_all_iff)
  show ?thesis unfolding ngx_http_httpcheck_getcode_def t Let_def by (simp add: tw eq nth_append atoi_dec_print [OF assms(2)])
qed

text \<open>Without the field, no position of the header matches it.\<close>

lemma ischunk_absent:
  assumes "list_all hc_line_ok ls" and "ls \<noteq> []" and "list_all (\<lambda>l. \<not> suffix hc_chunk_field l) ls"
  shows "ngx_http_httpcheck_ischunk (hc_lines ls @ CR # LF # mem) (length (hc_lines ls) + 2) = Some False"
proof -
  let ?m = "hc_lines ls @ CR # LF # mem"
  obtain x where x: "hc_lines ls = x @ [CR, LF]" using head_last [OF assms(2)] by blast
  have no: "\<not> sublist hc_chunked (hc_lines ls)"
    using sublist_line_end [of hc_chunk_field ls] assms(1,3) by (auto simp: hc_chunked_def list_all_iff)
  have "hc_find hc_chunked ?m (length (hc_lines ls) + 2) = Some (length (hc_lines ls) + 2)"
  proof (rule hc_find_at)
    show "0 \<notin> set hc_chunked" by (simp add: hc_chunked_def)
    fix c
    assume c: "c < length (hc_lines ls) + 2"
    have lf: "LF \<notin> set (butlast hc_chunked)" "length hc_chunked = 28" by (simp_all add: hc_chunked_def butlast_append)
    consider "c + length hc_chunked \<le> length (hc_lines ls)" | "length (hc_lines ls) < c + length hc_chunked" "c < length (hc_lines ls)"
      | "length (hc_lines ls) \<le> c" by linarith
    then show "\<not> strict_prefix (drop c ?m) hc_chunked \<and> \<not> prefix hc_chunked (drop c ?m)"
    proof cases
      case 1
      then show ?thesis by (rule no_match_before [OF no])
    next
      case 2
      then show ?thesis using no_match_line [OF lf(1), of c "length (hc_lines ls) - 1" ?m] by (simp add: x nth_append)
    next
      case 3
      then show ?thesis using no_match_line [OF lf(1), of c "length (hc_lines ls) + 1" ?m] c lf(2) by (simp add: nth_append)
    qed
  qed simp_all
  then show ?thesis by (simp add: ngx_http_httpcheck_ischunk_def)
qed

lemma value_of_line: "32 \<notin> set d \<Longrightarrow> CR \<notin> set d \<Longrightarrow> length d < k \<Longrightarrow> hc_value (d @ CR # LF # mem) k = Some d"
proof (induction d arbitrary: k)
  case Nil
  then show ?case by (cases k) simp_all
next
  case (Cons b d)
  then show ?case by (cases k) auto
qed

lemma getlen_reply:
  assumes "list_all (\<lambda>l. \<not> sublist hc_length_name l) ls" and "n < 2 ^ 63"
  shows "ngx_http_httpcheck_getlen (hc_lines (ls @ hc_length_line n # ls') @ CR # LF # mem) (length (hc_lines (ls @ hc_length_line n # ls')) + 2) =
    Some (of_nat n)"
proof -
  let ?x = "hc_lines ls @ butlast hc_length_name"
  let ?y = "dec_print n @ CR # LF # hc_lines ls' @ CR # LF # mem"
  let ?m = "hc_lines (ls @ hc_length_line n # ls') @ CR # LF # mem"
  have nm: "hc_length_name = butlast hc_length_name @ [32]" "length hc_length_name = 16" by (simp_all add: hc_length_name_def)
  have m: "?m = ?x @ 32 # ?y" "?m = hc_lines ls @ hc_length_name @ ?y" using nm(1) by (simp_all add: hc_length_line_def)
  have nl: "CR \<notin> set hc_length_name" "LF \<notin> set hc_length_name" "hc_length_name \<noteq> []" by (simp_all add: hc_length_name_def)
  have no: "\<not> sublist hc_length_name ?x"
  proof
    assume "sublist hc_length_name ?x"
    moreover have "\<not> sublist hc_length_name (hc_lines ls)" using sublist_line [OF nl] assms(1) by (auto simp: list_all_iff)
    moreover have "\<not> sublist hc_length_name (butlast hc_length_name)" using sublist_length_le [of hc_length_name "butlast hc_length_name"] nm(2) by auto
    ultimately obtain xs1 xs2 where xs: "hc_length_name = xs1 @ xs2" "suffix xs1 (hc_lines ls)" "prefix xs2 (butlast hc_length_name)"
      by (auto simp: sublist_append)
    then have "xs1 \<noteq> []" using prefix_length_le [of xs2 "butlast hc_length_name"] nm(2) by auto
    moreover from this have "ls \<noteq> []" using xs(2) by auto
    ultimately have "last xs1 = LF" using head_last [of ls] xs(2) by (auto simp: suffix_def append_eq_append_conv2 dest!: arg_cong [of _ _ last])
    then show False using nl(2) xs(1) \<open>xs1 \<noteq> []\<close> by (metis UnI1 last_in_set set_append)
  qed
  have "hc_find hc_length_name ?m (length (hc_lines (ls @ hc_length_line n # ls')) + 2) = Some (length (hc_lines ls))"
  proof (rule hc_find_at)
    show "0 \<notin> set hc_length_name" by (simp add: hc_length_name_def)
    show "prefix hc_length_name (drop (length (hc_lines ls)) ?m)" unfolding m(2) by simp
    fix c
    assume "c < length (hc_lines ls)"
    then show "\<not> strict_prefix (drop c ?m) hc_length_name \<and> \<not> prefix hc_length_name (drop c ?m)"
      unfolding m(1) using nm(2) by (intro no_match_before [OF no]) simp
  qed simp
  moreover have "drop (length (hc_lines ls) + 16) ?m = ?y" unfolding m(2) using nm(2) by simp
  moreover have "hc_value ?y (length (hc_lines (ls @ hc_length_line n # ls')) + 2 - (length (hc_lines ls) + 16)) = Some (dec_print n)"
    using nm(2) dec_print_line [of n] by (intro value_of_line) (simp_all add: hc_length_line_def)
  ultimately show ?thesis
    unfolding ngx_http_httpcheck_getlen_def using nm(2) atoi_dec_print [OF assms(2)] by (simp add: hc_length_line_def)
qed

section \<open>The end of a reply\<close>

definition hc_strip :: "bytes \<Rightarrow> bytes" where
  "hc_strip d = rev (dropWhile (\<lambda>c. c = CR \<or> c = LF) (rev d))"

lemma hc_strip_split: "\<exists>z. d = hc_strip d @ z"
proof -
  have "d = rev (takeWhile (\<lambda>c. c = CR \<or> c = LF) (rev d) @ dropWhile (\<lambda>c. c = CR \<or> c = LF) (rev d))" by simp
  then show ?thesis unfolding hc_strip_def rev_append by blast
qed

lemma trim_strip: "hc_strip d \<noteq> [] \<Longrightarrow> hc_trim (x @ d @ y) (length x + length d) = Some (length x + length (hc_strip d))"
proof (induction d arbitrary: y rule: rev_induct)
  case Nil
  then show ?case by (simp add: hc_strip_def)
next
  case (snoc c d)
  have "(x @ d @ c # y) ! (length x + length d) = c" by (metis append.assoc length_append nth_append_length)
  then show ?case using snoc.IH [of "c # y"] snoc.prems by (auto simp: hc_strip_def)
qed

lemma take_strip: "take (length (hc_strip d)) (d @ y) = hc_strip d"
  using hc_strip_split [of d] by (metis append_eq_conv_conj append.assoc)

text \<open>The variables of the location are there, and the one for the redirect has the value \<open>u\<close>.\<close>

definition hc_ready :: "'u hc_loc_conf \<Rightarrow> vvl list \<Rightarrow> bytes \<Rightarrow> bool" where
  "hc_ready lcf vars u \<longleftrightarrow>
     (case (i_code lcf, i_res lcf, i_redir_uri lcf) of
        (Some ic, Some ir, Some iu) \<Rightarrow>
          distinct [ic, ir, iu] \<and> ic < length vars \<and> ir < length vars \<and> iu < length vars \<and>
          vl_valid (vars ! iu) \<and> \<not> vl_not_found (vars ! iu) \<and> vl_data (vars ! iu) = u
      | _ \<Rightarrow> False)"

text \<open>What a later read of the variables gives.\<close>

definition hc_reads_as :: "var_env \<Rightarrow> nat option \<Rightarrow> vvl list \<Rightarrow> bytes \<Rightarrow> bool" where
  "hc_reads_as va i vars d \<longleftrightarrow> (case indexed va i vars of (v, vars') \<Rightarrow> vars' = vars \<and> map_option vl_data v = Some d)"

lemma hc_finish_ready:
  assumes "hc_ready lcf vars u" and "hc_strip d \<noteq> []" and "ngx_http_parse_unsafe_uri beyond u False = Some (uri, args, zero)"
  shows "\<exists>vars'. hc_finish (\<lambda>_ _. True) va beyond r_args lcf (x @ d @ y) (length x) (length x + length d) code vars =
      Some (NGX_DONE, Some (HcRedirect uri (case args of None \<Rightarrow> r_args | Some a \<Rightarrow> a)), vars') \<and>
    hc_reads_as va (i_code lcf) vars' (print_int code) \<and> hc_reads_as va (i_res lcf) vars' (hc_strip d)"
proof -
  obtain ic ir iu where i: "i_code lcf = Some ic" "i_res lcf = Some ir" "i_redir_uri lcf = Some iu" "distinct [ic, ir, iu]"
    "ic < length vars" "ir < length vars" "iu < length vars" "vl_valid (vars ! iu)" "\<not> vl_not_found (vars ! iu)" "vl_data (vars ! iu) = u"
    using assms(1) by (auto simp: hc_ready_def split: option.splits)
  show ?thesis
    using i assms(3) trim_strip [OF assms(2), of x y] take_strip [of d y]
    by (simp add: hc_finish_def hc_set_var_def indexed_def hc_reads_as_def ngx_http_get_indexed_variable_def)
qed

lemma process_length:
  assumes "list_all hc_line_ok (hc_status proto code phrase # ls1 @ ls2)" and "32 \<notin> set proto" and "0 < code" and "code < 2 ^ 31"
    and "list_all (\<lambda>l. \<not> sublist hc_length_name l) (hc_status proto code phrase # ls1)"
    and "list_all (\<lambda>l. \<not> suffix hc_chunk_field l) (hc_status proto code phrase # ls1 @ ls2)"
    and "body \<noteq> []" and "len < 2 ^ 63" and "length body < 2 ^ 63"
    and "hx_code ctx = 0 \<or> hx_code ctx = of_nat code" and "hx_content_len ctx = 0 \<or> hx_content_len ctx = of_nat len"
    and head: "head = hc_head proto code phrase (ls1 @ hc_length_line len # ls2) @ [CR, LF]"
    and b: "b = \<lparr>hb_mem = head @ body @ mem, hb_last = length head + length body\<rparr>"
    and ctx': "ctx' = ctx\<lparr>hx_code := of_nat code, hx_ischunk := False, hx_content_len := of_nat len\<rparr>"
  shows "ngx_http_httpcheck_process_header alloc va beyond r_args lcf b ctx vars =
    (if length body < len then Some (NGX_AGAIN, None, b, ctx', vars)
     else map_option (\<lambda>(rc, act, vars). (rc, act, b, ctx', vars))
       (hc_finish alloc va beyond r_args lcf (head @ body @ mem) (length head) (length head + length body) (of_nat code) vars))"
proof -
  let ?st = "hc_status proto code phrase"
  let ?ls = "?st # ls1 @ hc_length_line len # ls2"
  define h where h: "h = hc_lines ?ls"
  define p where p: "p = length h + 2"
  have hd: "head = h @ [CR, LF]" and m: "head @ body @ mem = h @ CR # LF # body @ mem" by (simp_all add: head hc_head_def h)
  have ok: "list_all hc_line_ok ?ls" using assms(1) length_line_ok by simp
  have "\<not> suffix hc_chunk_field (hc_length_line len)"
  proof
    assume "suffix hc_chunk_field (hc_length_line len)"
    then have "last (hc_length_line len) = last hc_chunk_field" by (auto simp: suffix_def)
    then have "last (dec_print len) = 100" using dec_print_line(4) [of len] by (simp add: hc_length_line_def)
    then show False using dec_print_ok [of len] last_in_set [of "dec_print len"] by (auto simp: list_all_iff is_dec_def)
  qed
  then have ch: "ngx_http_httpcheck_ischunk (h @ CR # LF # body @ mem) (p) = Some False"
    unfolding p h using assms(6) by (intro ischunk_absent [OF ok]) simp_all
  have gl: "ngx_http_httpcheck_getlen (h @ CR # LF # body @ mem) (p) = Some (of_nat len)"
    using getlen_reply [OF assms(5,8), of ls2 "body @ mem"] by (simp add: h p)
  have gc: "ngx_http_httpcheck_getcode (h @ CR # LF # body @ mem) (p + length body) = Some (of_nat code)"
    using getcode_reply [OF assms(2), of code phrase "ls1 @ hc_length_line len # ls2" "p + length body" "CR # LF # body @ mem"] assms(4)
    by (simp add: hc_head_def h p)
  have code: "(of_nat code :: ngx_int) \<noteq> 0" using of_nat_small_eq [of code 0] assms(3,4) by simp
  have len: "(of_nat len :: ngx_int) \<noteq> NGX_ERROR_VAL" by (rule of_nat63_not_error [OF assms(8)])
  have fe: "hc_find hc_header_end (h @ CR # LF # body @ mem) (p + length body - 3) = Some (p - 4)"
    unfolding p h using find_header_end [OF ok, of body mem] by simp
  have h4: "4 \<le> length h" by (simp add: h)
  have body: "0 < length body" using assms(7) by simp
  have hl: "hb_mem b = h @ CR # LF # body @ mem" "hb_last b = p + length body" using b m hd p by simp_all
  have sub: "p - 4 + 4 \<noteq> p + length body" "p - 4 + length hc_header_end = p"
    using body h4 by (simp_all add: hc_header_end_def p)
  have lt: "(of_int (int (p + length body) - int (p)) :: ngx_int) <s of_nat len \<longleftrightarrow> length body < len"
    using sless_small [OF assms(9,8)] by (simp only: of_nat_add) simp
  have cc: "(if hx_code ctx = 0 then Some (of_nat code) else Some (hx_code ctx)) = Some (of_nat code :: ngx_int)" using assms(10) by auto
  have ph: "p = length head" "h @ CR # LF # body @ mem = head @ body @ mem" by (simp_all add: hd p)
  show ?thesis
    unfolding ngx_http_httpcheck_process_header_def Let_def hl fe bind.bind_lunit sub(2) gc cc ch
    using sub(1) code len assms(11)
    by (cases "hx_content_len ctx = 0") (simp_all add: gl [unfolded ph(2)] lt ctx' ph(1) [symmetric] ph(2) del: of_int_diff of_nat_add)
qed

section \<open>Replies that arrive in pieces\<close>

lemma hc_recv_fits:
  assumes "length c \<le> length free"
  shows "hc_recv c \<lparr>hb_mem = x @ free, hb_last = length x\<rparr> = \<lparr>hb_mem = (x @ c) @ drop (length c) free, hb_last = length (x @ c)\<rparr>"
  using assms by (simp add: hc_recv_def)

text \<open>The reads that follow the first one.\<close>

lemma reads_length:
  assumes wf: "list_all hc_line_ok (hc_status proto code phrase # ls1 @ ls2)" "32 \<notin> set proto" "0 < code" "code < 2 ^ 31"
    "list_all (\<lambda>l. \<not> sublist hc_length_name l) (hc_status proto code phrase # ls1)"
    "list_all (\<lambda>l. \<not> suffix hc_chunk_field l) (hc_status proto code phrase # ls1 @ ls2)"
    and len: "length body < 2 ^ 63" and strip: "hc_strip body \<noteq> []"
    and ready: "hc_ready lcf vars u" and uri: "ngx_http_parse_unsafe_uri beyond u False = Some (uri, args, zero)"
    and head: "head = hc_head proto code phrase (ls1 @ hc_length_line (length body) # ls2) @ [CR, LF]"
  shows "length (concat (c # cs)) \<le> length free \<Longrightarrow> list_all (\<lambda>c. c \<noteq> []) (c # cs) \<Longrightarrow> x @ concat (c # cs) = head @ body \<Longrightarrow>
    length head < length (x @ c) \<Longrightarrow> hx_code ctx = 0 \<or> hx_code ctx = of_nat code \<Longrightarrow>
    hx_content_len ctx = 0 \<or> hx_content_len ctx = of_nat (length body) \<Longrightarrow>
    \<exists>vars'. hc_reads (\<lambda>_ _. True) va beyond r_args lcf (c # cs) \<lparr>hb_mem = x @ free, hb_last = length x\<rparr> ctx vars =
        Some (HcDone (Some (HcRedirect uri (case args of None \<Rightarrow> r_args | Some a \<Rightarrow> a))), vars') \<and>
      hc_reads_as va (i_code lcf) vars' (dec_print code) \<and> hc_reads_as va (i_res lcf) vars' (hc_strip body)"
proof (induction cs arbitrary: c x free ctx)
  case Nil
  define mem where "mem = drop (length c) free"
  have x: "x @ c = head @ body" and c: "c \<noteq> []" "length c \<le> length free" "free \<noteq> []" using Nil.prems by auto
  have body: "body \<noteq> []" using strip by (auto simp: hc_strip_def)
  let ?b = "\<lparr>hb_mem = head @ body @ mem, hb_last = length head + length body\<rparr>"
  have recv: "hc_recv c \<lparr>hb_mem = x @ free, hb_last = length x\<rparr> = ?b"
    unfolding hc_recv_fits [OF c(2)] x mem_def by simp
  note proc = process_length [OF wf body len len Nil.prems(5,6) head refl refl, where mem = mem and lcf = lcf]
  obtain vars' where f: "hc_finish (\<lambda>_ _. True) va beyond r_args lcf (head @ body @ mem) (length head) (length head + length body) (of_nat code) vars =
      Some (NGX_DONE, Some (HcRedirect uri (case args of None \<Rightarrow> r_args | Some a \<Rightarrow> a)), vars')"
    "hc_reads_as va (i_code lcf) vars' (print_int (of_nat code))" "hc_reads_as va (i_res lcf) vars' (hc_strip body)"
    using hc_finish_ready [OF ready strip uri] by blast
  have "hc_reads (\<lambda>_ _. True) va beyond r_args lcf [c] \<lparr>hb_mem = x @ free, hb_last = length x\<rparr> ctx vars =
      Some (HcDone (Some (HcRedirect uri (case args of None \<Rightarrow> r_args | Some a \<Rightarrow> a))), vars')"
    using c recv proc f(1) by (subst hc_reads.simps(2)) simp
  then show ?case using f(2,3) by (simp add: print_int_small [OF wf(4)] del: hc_reads.simps)
next
  case (Cons d cs)
  define mem where "mem = drop (length c) free"
  have c: "c \<noteq> []" "length c \<le> length free" "free \<noteq> []" "d \<noteq> []" using Cons.prems by auto
  define y where "y = drop (length head) (x @ c)"
  have cat: "(x @ c) @ concat (d # cs) = head @ body" using Cons.prems(3) by simp
  have "take (length head) (x @ c) = head" using arg_cong [OF cat, of "take (length head)"] Cons.prems(4) by simp
  then have y1: "x @ c = head @ y" unfolding y_def by (metis append_take_drop_id)
  have y: "x @ c = head @ y" "body = y @ concat (d # cs)" "y \<noteq> []"
    using y1 cat Cons.prems(4) unfolding y1 by simp_all
  have ylen: "length y < length body" "length y < 2 ^ 63" using y(2) c(4) len by (auto simp: neq_Nil_conv)
  let ?b = "\<lparr>hb_mem = head @ y @ mem, hb_last = length head + length y\<rparr>"
  let ?ctx = "ctx\<lparr>hx_code := of_nat code, hx_ischunk := False, hx_content_len := of_nat (length body)\<rparr>"
  have b: "?b = \<lparr>hb_mem = (x @ c) @ mem, hb_last = length (x @ c)\<rparr>" using arg_cong [OF y(1), of length] y(1) by simp
  have recv: "hc_recv c \<lparr>hb_mem = x @ free, hb_last = length x\<rparr> = ?b" using b hc_recv_fits [OF c(2), of x] unfolding mem_def by simp
  note proc = process_length [OF wf y(3) len ylen(2) Cons.prems(5,6) head refl refl, where mem = mem and lcf = lcf]
  have step: "hc_reads (\<lambda>_ _. True) va beyond r_args lcf (c # d # cs) \<lparr>hb_mem = x @ free, hb_last = length x\<rparr> ctx vars =
      hc_reads (\<lambda>_ _. True) va beyond r_args lcf (d # cs) ?b ?ctx vars"
    using c recv proc ylen(1) by (subst hc_reads.simps(2)) (simp del: hc_reads.simps)
  show ?case unfolding step b
    using Cons.prems c ylen by (intro Cons.IH) (auto simp: mem_def)
qed

text \<open>
  C9. A reply with a length that fits into the buffer is read to its end. Whatever the lines of the header, of which none announces chunks and the first length is that of
  the body, and however the reply is cut into pieces, provided that the first piece reaches into the body, the status (below \<^verbatim>\<open>2^31\<close>) and the body without the carriage
  returns and line feeds at its end (\<open>hc_strip\<close>), of which something is left, are put into the variables once the last piece has arrived, and the request is redirected
  to the URI of the variable of the location. The allocations succeed and that URI is a safe one.
\<close>

theorem httpcheck_reply_read:
  assumes "list_all hc_line_ok (hc_status proto code phrase # ls1 @ ls2)" and "32 \<notin> set proto" and "0 < code" and "code < 2 ^ 31"
    and "list_all (\<lambda>l. \<not> sublist hc_length_name l) (hc_status proto code phrase # ls1)"
    and "list_all (\<lambda>l. \<not> suffix hc_chunk_field l) (hc_status proto code phrase # ls1 @ ls2)"
    and "length body < 2 ^ 63" and "hc_strip body \<noteq> []"
    and "head = hc_head proto code phrase (ls1 @ hc_length_line (length body) # ls2) @ [CR, LF]"
    and "concat (c # cs) = head @ body" and "length head < length c" and "list_all (\<lambda>c. c \<noteq> []) cs" and "length (head @ body) \<le> length mem"
    and "hc_ready lcf vars u" and "ngx_http_parse_unsafe_uri beyond u False = Some (uri, args, zero)"
  shows "\<exists>vars'. hc_reads (\<lambda>_ _. True) va beyond r_args lcf (c # cs) \<lparr>hb_mem = mem, hb_last = 0\<rparr> (the (ngx_http_httpcheck_get_ctx True None)) vars =
      Some (HcDone (Some (HcRedirect uri (case args of None \<Rightarrow> r_args | Some a \<Rightarrow> a))), vars') \<and>
    hc_reads_as va (i_code lcf) vars' (dec_print code) \<and> hc_reads_as va (i_res lcf) vars' (hc_strip body)"
proof -
  have "c \<noteq> []" using assms(11) by auto
  moreover have "length (concat (c # cs)) \<le> length mem" unfolding assms(10) by (rule assms(13))
  ultimately show ?thesis
    using reads_length [OF assms(1-8,14,15,9), of c cs mem "[]" "the (ngx_http_httpcheck_get_ctx True None)" va r_args] assms(10-12)
    by (simp add: ngx_http_httpcheck_get_ctx_def del: hc_reads.simps)
qed

definition demo_hc_conf :: "unit hc_loc_conf" where
  "demo_hc_conf =
     (the (ngx_http_httpcheck_create_loc_conf True 4096))\<lparr>i_check_uri := Some 1, i_redir_uri := Some 2, i_code := Some 3, i_res := Some 4\<rparr>"

definition demo_hc_vars :: "vvl list" where
  "demo_hc_vars =
     (let v = (\<lambda>d. \<lparr>vl_data = d, vl_valid = True, vl_no_cacheable = False, vl_not_found = False\<rparr>) in
      [v [], v (bs ''/check''), v (bs ''/next?a=1''), v [], v []])"

abbreviation demo_hc_first :: bytes where
  "demo_hc_first \<equiv> hc_head (bs ''HTTP/1.1'') 200 (bs ''OK'') ([bs ''Server: x''] @ hc_length_line 6 # []) @ [CR, LF] @ bs ''ye''"

theorem httpcheck_reply_read_witness:
  "\<exists>vars'. hc_reads (\<lambda>_ _. True) demo_mcm_va 0 [] demo_hc_conf [demo_hc_first, bs ''s!'' @ [CR], [LF]] \<lparr>hb_mem = replicate 64 0, hb_last = 0\<rparr>
      (the (ngx_http_httpcheck_get_ctx True None)) demo_hc_vars = Some (HcDone (Some (HcRedirect (bs ''/next'') (bs ''a=1''))), vars') \<and>
    hc_reads_as demo_mcm_va (i_code demo_hc_conf) vars' (bs ''200'') \<and> hc_reads_as demo_mcm_va (i_res demo_hc_conf) vars' (bs ''yes!'')"
proof -
  have print: "dec_print 200 = bs ''200''" "dec_print (Suc (Suc (Suc (Suc (Suc (Suc 0)))))) = bs ''6''" "dec_print 6 = bs ''6''" by (simp_all add: dec_print.simps)
  have parse: "ngx_http_parse_unsafe_uri 0 (bs ''/next?a=1'') False = Some (bs ''/next'', Some (bs ''a=1''), False)" by code_simp
  have len: "list_all (\<lambda>l. \<not> sublist hc_length_name l) (hc_status (bs ''HTTP/1.1'') 200 (bs ''OK'') # [bs ''Server: x''])"
    "list_all (\<lambda>l. \<not> suffix hc_chunk_field l) (hc_status (bs ''HTTP/1.1'') 200 (bs ''OK'') # [bs ''Server: x''] @ [])"
    "list_all hc_line_ok (hc_status (bs ''HTTP/1.1'') 200 (bs ''OK'') # [bs ''Server: x''] @ [])"
    by (simp_all add: hc_status_def print hc_length_name_def hc_line_ok_def sublist_code suffix_def)
  show ?thesis
    using httpcheck_reply_read [OF len(3) _ _ _ len(1,2), of "bs ''yes!'' @ [CR, LF]" _ demo_hc_first "[bs ''s!'' @ [CR], [LF]]" "replicate 64 0" demo_hc_conf
      demo_hc_vars "bs ''/next?a=1''" 0 "bs ''/next''" "Some (bs ''a=1'')" False demo_mcm_va "[]"] parse
    by (simp add: print hc_strip_def hc_ready_def demo_hc_conf_def demo_hc_vars_def ngx_http_httpcheck_create_loc_conf_def
      hc_head_def hc_status_def hc_length_line_def hc_length_name_def del: hc_reads.simps)
qed

section \<open>Chunked replies\<close>

lemma no_strict_prefix_line:
  assumes "LF \<notin> set (butlast s)" and "c \<le> i" and "i < length mem" and "mem ! i = LF"
  shows "\<not> strict_prefix (drop c mem) s"
  using no_match_line [OF assms] prefix_length_less [of "drop c mem" s] assms(2,3) by (cases "i + 1 < c + length s") auto

lemma hc_find_before:
  assumes "0 \<notin> set s" and "\<And>c. c < e \<Longrightarrow> \<not> strict_prefix (drop c mem) s" and "j < e" and "prefix s (drop j mem)"
  shows "\<exists>k < e. hc_find s mem e = Some k"
proof -
  define k where "k = (LEAST k. prefix s (drop k mem))"
  have k: "prefix s (drop k mem)" "k \<le> j" using assms(4) unfolding k_def by (rule LeastI, rule Least_le)
  have "\<not> prefix s (drop c mem)" if "c < k" for c using not_less_Least that unfolding k_def by blast
  then have "hc_find s mem e = Some k" using k assms by (intro hc_find_at) auto
  then show ?thesis using k(2) assms(3) by auto
qed

lemma ischunk_present:
  assumes "l \<in> set ls" and "suffix hc_chunk_field l"
  shows "ngx_http_httpcheck_ischunk (hc_lines ls @ CR # LF # mem) (length (hc_lines ls) + 2) = Some True"
proof -
  let ?m = "hc_lines ls @ CR # LF # mem"
  obtain ls1 ls2 where ls: "ls = ls1 @ l # ls2" using split_list [OF assms(1)] by blast
  obtain z where z: "l = z @ hc_chunk_field" using assms(2) by (auto simp: suffix_def)
  have "\<exists>k < length (hc_lines ls) + 2. hc_find hc_chunked ?m (length (hc_lines ls) + 2) = Some k"
  proof (rule hc_find_before)
    show "0 \<notin> set hc_chunked" by (simp add: hc_chunked_def)
    show "prefix hc_chunked (drop (length (hc_lines ls1) + length z) ?m)" by (simp add: ls z hc_chunked_def)
    show "length (hc_lines ls1) + length z < length (hc_lines ls) + 2" by (simp add: ls z)
    fix c
    assume "c < length (hc_lines ls) + 2"
    then show "\<not> strict_prefix (drop c ?m) hc_chunked"
      using no_strict_prefix_line [of hc_chunked c "length (hc_lines ls) + 1" ?m] by (simp add: hc_chunked_def butlast_append nth_append)
  qed
  then show ?thesis by (auto simp: ngx_http_httpcheck_ischunk_def)
qed

text \<open>The search backwards finds the line end before the last line.\<close>

lemma back_line:
  assumes "p \<le> length x"
  shows "\<not> sublist [CR, LF] (data @ [z]) \<Longrightarrow> hc_back (x @ CR # LF # data @ z # y) p (length x + 2 + length data) = length x + 2"
proof (induction data arbitrary: z y rule: rev_induct)
  case Nil
  then show ?case using assms by (simp add: nth_append)
next
  case (snoc c data)
  let ?m = "x @ CR # LF # (data @ [c]) @ z # y"
  have at: "?m ! (length x + 2 + length data) = c" "?m ! (length x + 2 + length data + 1) = z"
    using nth_append_length [of "x @ CR # LF # data" c "z # y"] nth_append_length [of "x @ CR # LF # data @ [c]" z y] by simp_all
  have "\<not> sublist [CR, LF] (data @ [c])" using snoc.prems by (metis sublist_append)
  moreover have "\<not> (c = CR \<and> z = LF)" using snoc.prems by (auto simp: sublist_def)
  ultimately show ?case using snoc.IH [of c "z # y"] at assms by simp
qed

lemma chunk_line:
  assumes "\<not> sublist [CR, LF] data" and "p \<le> length x"
  shows "hc_chunk_line (x @ CR # LF # data @ hc_chunkend @ mem) (length x + 2 + length data + length hc_chunkend) p =
    Some (Some (length x + 2, length x + 2 + length data))"
proof -
  let ?m = "x @ CR # LF # data @ hc_chunkend @ mem"
  have "\<not> sublist [CR, LF] (data @ [CR])" using assms(1) by (auto simp: sublist_append prefix_Cons Cons_eq_append_conv suffix_imp_sublist sublist_Cons_right)
  then have "hc_back ?m p (length x + 2 + length data) = length x + 2"
    using back_line [OF assms(2), of data CR "tl hc_chunkend @ mem"] by (simp add: hc_chunkend_def)
  moreover have "drop (length x + 2 + length data) ?m = hc_chunkend @ mem" by simp
  moreover have "strncmp_mem (hc_chunkend @ mem) hc_chunkend = Some True" by (simp add: hc_chunkend_def)
  ultimately show ?thesis by (simp add: hc_chunk_line_def Let_def)
qed

text \<open>
  C17. A chunked reply of one chunk without a line end (carriage return and line feed) in it, in whatever form its size is written, which is in the buffer as a whole: the
  status and the chunk, without the carriage returns and line feeds at its end (\<open>hc_strip\<close>), are put into the variables and the request is redirected. The end of the data in
  the buffer is then the end of the chunk. Of a chunk of several lines only the last one would be kept.
\<close>

theorem httpcheck_chunk_read:
  assumes "list_all hc_line_ok (hc_status proto code phrase # ls)" and "32 \<notin> set proto" and "0 < code" and "code < 2 ^ 31"
    and "l \<in> set ls" and "suffix (bs ''Transfer-Encoding: chunked'') l"
    and "\<not> sublist [CR, LF] data" and "hc_strip data \<noteq> []" and "hx_code ctx = 0 \<or> hx_code ctx = of_nat code"
    and "x = hc_head proto code phrase ls @ [CR, LF] @ digits @ [CR, LF]"
    and "b = \<lparr>hb_mem = x @ data @ hc_chunkend @ mem, hb_last = length (x @ data @ hc_chunkend)\<rparr>"
    and "hc_ready lcf vars u" and "ngx_http_parse_unsafe_uri beyond u False = Some (uri, args, zero)"
  shows "\<exists>vars'. ngx_http_httpcheck_process_header (\<lambda>_ _. True) va beyond r_args lcf b ctx vars =
      Some (NGX_DONE, Some (HcRedirect uri (case args of None \<Rightarrow> r_args | Some a \<Rightarrow> a)), b\<lparr>hb_last := length (x @ data)\<rparr>,
        ctx\<lparr>hx_code := of_nat code, hx_ischunk := True\<rparr>, vars') \<and>
    hc_reads_as va (i_code lcf) vars' (dec_print code) \<and> hc_reads_as va (i_res lcf) vars' (hc_strip data)"
proof -
  let ?ls = "hc_status proto code phrase # ls"
  define h where h: "h = hc_lines ?ls"
  define body where body: "body = digits @ CR # LF # data @ hc_chunkend"
  define p where p: "p = length h + 2"
  have hl: "hb_mem b = h @ CR # LF # body @ mem" "hb_last b = p + length body"
    by (simp_all add: assms(10,11) hc_head_def h body p)
  have xh: "x = (h @ CR # LF # digits) @ [CR, LF]" by (simp add: assms(10) hc_head_def h)
  have fe: "hc_find hc_header_end (h @ CR # LF # body @ mem) (p + length body - 3) = Some (p - 4)"
    unfolding p h using find_header_end [OF assms(1), of body mem] by simp
  have h4: "2 \<le> length h" by (simp add: h)
  have sub: "p - 4 + 4 \<noteq> p + length body" "p - 4 + length hc_header_end = p"
    using h4 by (simp_all add: hc_header_end_def p body)
  have gc: "ngx_http_httpcheck_getcode (h @ CR # LF # body @ mem) (p + length body) = Some (of_nat code)"
    using getcode_reply [OF assms(2), of code phrase ls "p + length body" "CR # LF # body @ mem"] assms(4) by (simp add: hc_head_def h p)
  have cc: "(if hx_code ctx = 0 then Some (of_nat code) else Some (hx_code ctx)) = Some (of_nat code :: ngx_int)" using assms(9) by auto
  have ch: "ngx_http_httpcheck_ischunk (h @ CR # LF # body @ mem) p = Some True"
    unfolding p h by (rule ischunk_present [of l]) (use assms(5,6) in simp_all)
  have code: "(of_nat code :: ngx_int) \<noteq> 0" using of_nat_small_eq [of code 0] assms(3,4) by simp
  have mem: "h @ CR # LF # body @ mem = x @ data @ hc_chunkend @ mem" by (simp add: xh body)
  have cl: "hc_chunk_line (x @ data @ hc_chunkend @ mem) (p + length body) p = Some (Some (length x, length x + length data))"
    using chunk_line [OF assms(7), of p "h @ CR # LF # digits" mem] by (simp add: xh body p add.assoc)
  obtain vars' where f: "hc_finish (\<lambda>_ _. True) va beyond r_args lcf (x @ data @ hc_chunkend @ mem) (length x) (length x + length data) (of_nat code) vars =
      Some (NGX_DONE, Some (HcRedirect uri (case args of None \<Rightarrow> r_args | Some a \<Rightarrow> a)), vars')"
    "hc_reads_as va (i_code lcf) vars' (print_int (of_nat code))" "hc_reads_as va (i_res lcf) vars' (hc_strip data)"
    using hc_finish_ready [OF assms(12,8,13)] by blast
  have "ngx_http_httpcheck_process_header (\<lambda>_ _. True) va beyond r_args lcf b ctx vars =
      Some (NGX_DONE, Some (HcRedirect uri (case args of None \<Rightarrow> r_args | Some a \<Rightarrow> a)), b\<lparr>hb_last := length (x @ data)\<rparr>,
        ctx\<lparr>hx_code := of_nat code, hx_ischunk := True\<rparr>, vars')"
    unfolding ngx_http_httpcheck_process_header_def Let_def hl fe bind.bind_lunit sub(2) gc cc ch
    using sub(1) code by (simp add: mem cl f(1))
  then show ?thesis using f(2,3) by (simp add: print_int_small [OF assms(4)])
qed

theorem httpcheck_chunk_read_witness:
  "\<exists>vars'. ngx_http_httpcheck_process_header (\<lambda>_ _. True) demo_mcm_va 0 [] demo_hc_conf
      \<lparr>hb_mem = (hc_head (bs ''HTTP/1.1'') 404 (bs ''No'') [hc_chunk_field] @ [CR, LF] @ bs ''2'' @ [CR, LF]) @ bs ''no'' @ hc_chunkend @ [7],
        hb_last = length ((hc_head (bs ''HTTP/1.1'') 404 (bs ''No'') [hc_chunk_field] @ [CR, LF] @ bs ''2'' @ [CR, LF]) @ bs ''no'' @ hc_chunkend)\<rparr>
      \<lparr>hx_code = 0, hx_content_len = 0, hx_ischunk = False\<rparr> demo_hc_vars =
      Some (NGX_DONE, Some (HcRedirect (bs ''/next'') (bs ''a=1'')),
        \<lparr>hb_mem = (hc_head (bs ''HTTP/1.1'') 404 (bs ''No'') [hc_chunk_field] @ [CR, LF] @ bs ''2'' @ [CR, LF]) @ bs ''no'' @ hc_chunkend @ [7],
          hb_last = length ((hc_head (bs ''HTTP/1.1'') 404 (bs ''No'') [hc_chunk_field] @ [CR, LF] @ bs ''2'' @ [CR, LF]) @ bs ''no'')\<rparr>,
        \<lparr>hx_code = 404, hx_content_len = 0, hx_ischunk = True\<rparr>, vars') \<and>
    hc_reads_as demo_mcm_va (i_code demo_hc_conf) vars' (bs ''404'') \<and> hc_reads_as demo_mcm_va (i_res demo_hc_conf) vars' (bs ''no'')"
proof -
  have print: "dec_print 404 = bs ''404''" by (simp add: dec_print.simps)
  have parse: "ngx_http_parse_unsafe_uri 0 (bs ''/next?a=1'') False = Some (bs ''/next'', Some (bs ''a=1''), False)" by code_simp
  have wf: "list_all hc_line_ok (hc_status (bs ''HTTP/1.1'') 404 (bs ''No'') # [hc_chunk_field])"
    by (simp add: hc_status_def print hc_line_ok_def)
  have vars: "hc_ready demo_hc_conf demo_hc_vars (bs ''/next?a=1'')"
    by (simp add: hc_ready_def demo_hc_conf_def demo_hc_vars_def ngx_http_httpcheck_create_loc_conf_def)
  show ?thesis
    using httpcheck_chunk_read [OF wf _ _ _ _ _ _ _ _ refl refl vars parse, of hc_chunk_field "bs ''no''"
      "\<lparr>hx_code = 0, hx_content_len = 0, hx_ischunk = False\<rparr>" demo_mcm_va "[]" "bs ''2''" "[7]"]
    by (simp add: print hc_strip_def sublist_code del: hc_lines_simps)
qed

section \<open>What goes wrong\<close>

text \<open>A header whose last byte has arrived without any byte of a body is taken for an incomplete one: a reply with the length 0 is never read.\<close>

lemma httpcheck_no_body:
  assumes "list_all hc_line_ok ls" and "ls \<noteq> []"
    and "b = \<lparr>hb_mem = hc_lines ls @ CR # LF # mem, hb_last = length (hc_lines ls) + 2\<rparr>"
  shows "ngx_http_httpcheck_process_header alloc va beyond r_args lcf b ctx vars = Some (NGX_AGAIN, None, b, ctx, vars)"
proof -
  obtain x where "hc_lines ls = x @ [CR, LF]" using head_last [OF assms(2)] by blast
  then show ?thesis using find_header_end [OF assms(1,2), of "[]" mem]
    by (simp add: ngx_http_httpcheck_process_header_def assms(3) Let_def del: hc_find.simps)
qed

text \<open>A header of which only a part has arrived is an error.\<close>

lemma httpcheck_header_cut:
  "ngx_http_httpcheck_process_header (\<lambda>_ _. True) demo_mcm_va 0 [] demo_hc_conf
      \<lparr>hb_mem = bs ''HTTP/1.1 200 OK'' @ replicate 40 0, hb_last = 15\<rparr> \<lparr>hx_code = 0, hx_content_len = 0, hx_ischunk = False\<rparr> [] =
    Some (NGX_ERROR, None, \<lparr>hb_mem = bs ''HTTP/1.1 200 OK'' @ replicate 40 0, hb_last = 15\<rparr>, \<lparr>hx_code = 200, hx_content_len = - 1, hx_ischunk = False\<rparr>, [])"
  by code_simp

text \<open>Of several chunks, and of a chunk of several lines, only the last line is kept.\<close>

lemma httpcheck_last_line:
  "hc_chunk_line (bs ''3'' @ [CR, LF] @ bs ''one'' @ [CR, LF] @ bs ''3'' @ [CR, LF] @ bs ''two'' @ hc_chunkend) 21 0 = Some (Some (11, 14))"
  by code_simp

text \<open>An empty chunked body: the start of the line is behind its end, its length wraps around, and the status is stored before the request fails.\<close>

lemma httpcheck_empty_chunked:
  "hc_chunk_line (bs ''x'' @ hc_header_end @ bs ''0'' @ [CR, LF, CR, LF]) 10 5 = Some (Some (4, 3))"
  "hc_trim (bs ''x'' @ hc_header_end @ bs ''0'' @ [CR, LF, CR, LF]) 3 = Some 1"
  by code_simp+

text \<open>The index 0 is taken for an error: the command fails when its variable is the first that is used.\<close>

lemma httpcheck_first_variable:
  assumes "add (args ! 1) = Some u" and "args ! 2 = d # name" and "vc_indexed vc = []"
  shows "\<exists>lcf' vc'. ngx_http_httpcheck_pass (\<lambda>_. True) add hg args clcf lcf vc = Some (Some ''uri variable is not set'', snd clcf, lcf', vc')"
  using assms by (simp add: ngx_http_httpcheck_pass_def ngx_http_get_variable_index_def)

text \<open>The request always fits into its buffer.\<close>

lemma httpcheck_request_fits: "ngx_http_httpcheck_create_request ok va lcf vars \<noteq> None"
  by (simp add: ngx_http_httpcheck_create_request_def get_head_def uri_loc_def sHTTP_def sHost_def split: prod.splits option.splits)

end
