(* ===== verification/Ngx_Crc32.thy ===== *)
theory Ngx_Crc32
  imports Prelude
begin

text \<open>
  CRC-32 as \<^verbatim>\<open>src/core/ngx_crc32.c\<close> and \<^verbatim>\<open>ngx_crc32.h\<close> compute it: the loop with the table of 256
  entries, the loop with the table of 16 entries, and the incremental interface. The copy of the
  small table to an aligned address changes where it lies and not what it holds.
\<close>

section \<open>Tables and loops\<close>

definition ngx_crc32_table16 :: "u32 list" where
  "ngx_crc32_table16 =
    [0x00000000, 0x1db71064, 0x3b6e20c8, 0x26d930ac,
     0x76dc4190, 0x6b6b51f4, 0x4db26158, 0x5005713c,
     0xedb88320, 0xf00f9344, 0xd6d6a3e8, 0xcb61b38c,
     0x9b64c2b0, 0x86d3d2d4, 0xa00ae278, 0xbdbdf21c]"

definition ngx_crc32_table256 :: "u32 list" where
  "ngx_crc32_table256 =
    [0x00000000, 0x77073096, 0xee0e612c, 0x990951ba,
     0x076dc419, 0x706af48f, 0xe963a535, 0x9e6495a3,
     0x0edb8832, 0x79dcb8a4, 0xe0d5e91e, 0x97d2d988,
     0x09b64c2b, 0x7eb17cbd, 0xe7b82d07, 0x90bf1d91,
     0x1db71064, 0x6ab020f2, 0xf3b97148, 0x84be41de,
     0x1adad47d, 0x6ddde4eb, 0xf4d4b551, 0x83d385c7,
     0x136c9856, 0x646ba8c0, 0xfd62f97a, 0x8a65c9ec,
     0x14015c4f, 0x63066cd9, 0xfa0f3d63, 0x8d080df5,
     0x3b6e20c8, 0x4c69105e, 0xd56041e4, 0xa2677172,
     0x3c03e4d1, 0x4b04d447, 0xd20d85fd, 0xa50ab56b,
     0x35b5a8fa, 0x42b2986c, 0xdbbbc9d6, 0xacbcf940,
     0x32d86ce3, 0x45df5c75, 0xdcd60dcf, 0xabd13d59,
     0x26d930ac, 0x51de003a, 0xc8d75180, 0xbfd06116,
     0x21b4f4b5, 0x56b3c423, 0xcfba9599, 0xb8bda50f,
     0x2802b89e, 0x5f058808, 0xc60cd9b2, 0xb10be924,
     0x2f6f7c87, 0x58684c11, 0xc1611dab, 0xb6662d3d,
     0x76dc4190, 0x01db7106, 0x98d220bc, 0xefd5102a,
     0x71b18589, 0x06b6b51f, 0x9fbfe4a5, 0xe8b8d433,
     0x7807c9a2, 0x0f00f934, 0x9609a88e, 0xe10e9818,
     0x7f6a0dbb, 0x086d3d2d, 0x91646c97, 0xe6635c01,
     0x6b6b51f4, 0x1c6c6162, 0x856530d8, 0xf262004e,
     0x6c0695ed, 0x1b01a57b, 0x8208f4c1, 0xf50fc457,
     0x65b0d9c6, 0x12b7e950, 0x8bbeb8ea, 0xfcb9887c,
     0x62dd1ddf, 0x15da2d49, 0x8cd37cf3, 0xfbd44c65,
     0x4db26158, 0x3ab551ce, 0xa3bc0074, 0xd4bb30e2,
     0x4adfa541, 0x3dd895d7, 0xa4d1c46d, 0xd3d6f4fb,
     0x4369e96a, 0x346ed9fc, 0xad678846, 0xda60b8d0,
     0x44042d73, 0x33031de5, 0xaa0a4c5f, 0xdd0d7cc9,
     0x5005713c, 0x270241aa, 0xbe0b1010, 0xc90c2086,
     0x5768b525, 0x206f85b3, 0xb966d409, 0xce61e49f,
     0x5edef90e, 0x29d9c998, 0xb0d09822, 0xc7d7a8b4,
     0x59b33d17, 0x2eb40d81, 0xb7bd5c3b, 0xc0ba6cad,
     0xedb88320, 0x9abfb3b6, 0x03b6e20c, 0x74b1d29a,
     0xead54739, 0x9dd277af, 0x04db2615, 0x73dc1683,
     0xe3630b12, 0x94643b84, 0x0d6d6a3e, 0x7a6a5aa8,
     0xe40ecf0b, 0x9309ff9d, 0x0a00ae27, 0x7d079eb1,
     0xf00f9344, 0x8708a3d2, 0x1e01f268, 0x6906c2fe,
     0xf762575d, 0x806567cb, 0x196c3671, 0x6e6b06e7,
     0xfed41b76, 0x89d32be0, 0x10da7a5a, 0x67dd4acc,
     0xf9b9df6f, 0x8ebeeff9, 0x17b7be43, 0x60b08ed5,
     0xd6d6a3e8, 0xa1d1937e, 0x38d8c2c4, 0x4fdff252,
     0xd1bb67f1, 0xa6bc5767, 0x3fb506dd, 0x48b2364b,
     0xd80d2bda, 0xaf0a1b4c, 0x36034af6, 0x41047a60,
     0xdf60efc3, 0xa867df55, 0x316e8eef, 0x4669be79,
     0xcb61b38c, 0xbc66831a, 0x256fd2a0, 0x5268e236,
     0xcc0c7795, 0xbb0b4703, 0x220216b9, 0x5505262f,
     0xc5ba3bbe, 0xb2bd0b28, 0x2bb45a92, 0x5cb36a04,
     0xc2d7ffa7, 0xb5d0cf31, 0x2cd99e8b, 0x5bdeae1d,
     0x9b64c2b0, 0xec63f226, 0x756aa39c, 0x026d930a,
     0x9c0906a9, 0xeb0e363f, 0x72076785, 0x05005713,
     0x95bf4a82, 0xe2b87a14, 0x7bb12bae, 0x0cb61b38,
     0x92d28e9b, 0xe5d5be0d, 0x7cdcefb7, 0x0bdbdf21,
     0x86d3d2d4, 0xf1d4e242, 0x68ddb3f8, 0x1fda836e,
     0x81be16cd, 0xf6b9265b, 0x6fb077e1, 0x18b74777,
     0x88085ae6, 0xff0f6a70, 0x66063bca, 0x11010b5c,
     0x8f659eff, 0xf862ae69, 0x616bffd3, 0x166ccf45,
     0xa00ae278, 0xd70dd2ee, 0x4e048354, 0x3903b3c2,
     0xa7672661, 0xd06016f7, 0x4969474d, 0x3e6e77db,
     0xaed16a4a, 0xd9d65adc, 0x40df0b66, 0x37d83bf0,
     0xa9bcae53, 0xdebb9ec5, 0x47b2cf7f, 0x30b5ffe9,
     0xbdbdf21c, 0xcabac28a, 0x53b39330, 0x24b4a3a6,
     0xbad03605, 0xcdd70693, 0x54de5729, 0x23d967bf,
     0xb3667a2e, 0xc4614ab8, 0x5d681b02, 0x2a6f2b94,
     0xb40bbe37, 0xc30c8ea1, 0x5a05df1b, 0x2d02ef8d]"

definition crc32_short_step :: "u32 \<Rightarrow> byte \<Rightarrow> u32" where
  "crc32_short_step crc c =
     (let crc = ngx_crc32_table16 ! unat ((crc XOR ucast (c AND 0xf)) AND 0xf) XOR drop_bit 4 crc
      in ngx_crc32_table16 ! unat ((crc XOR ucast (drop_bit 4 c)) AND 0xf) XOR drop_bit 4 crc)"

definition ngx_crc32_short :: "bytes \<Rightarrow> u32" where
  "ngx_crc32_short p = foldl crc32_short_step 0xffffffff p XOR 0xffffffff"

definition crc32_long_step :: "u32 \<Rightarrow> byte \<Rightarrow> u32" where
  "crc32_long_step crc c = ngx_crc32_table256 ! unat ((crc XOR ucast c) AND 0xff) XOR drop_bit 8 crc"

definition ngx_crc32_long :: "bytes \<Rightarrow> u32" where
  "ngx_crc32_long p = foldl crc32_long_step 0xffffffff p XOR 0xffffffff"

definition ngx_crc32_init :: u32 where
  "ngx_crc32_init = 0xffffffff"

definition ngx_crc32_update :: "u32 \<Rightarrow> bytes \<Rightarrow> u32" where
  "ngx_crc32_update crc p = foldl crc32_long_step crc p"

definition ngx_crc32_final :: "u32 \<Rightarrow> u32" where
  "ngx_crc32_final crc = crc XOR 0xffffffff"

section \<open>The reference: one bit at a time\<close>

definition crc_bit :: "u32 \<Rightarrow> u32" where
  "crc_bit c = (if bit c 0 then drop_bit 1 c XOR 0xedb88320 else drop_bit 1 c)"

definition crc_byte :: "u32 \<Rightarrow> byte \<Rightarrow> u32" where
  "crc_byte c b = (crc_bit ^^ 8) (c XOR ucast b)"

definition crc32_reference :: "bytes \<Rightarrow> u32" where
  "crc32_reference p = foldl crc_byte 0xffffffff p XOR 0xffffffff"

lemma crc_bit_xor: "crc_bit (a XOR b) = crc_bit a XOR crc_bit b"
  by (simp add: crc_bit_def bit_xor_iff drop_bit_xor xor.assoc xor.left_commute xor.commute)

lemma crc_bits_xor: "(crc_bit ^^ n) (a XOR b) = (crc_bit ^^ n) a XOR (crc_bit ^^ n) b"
  by (induction n) (simp_all add: crc_bit_xor)

text \<open>Bits above the lowest \<open>n\<close> are only shifted by \<open>n\<close> steps.\<close>

lemma crc_bits_shift: "(crc_bit ^^ n) (push_bit n (drop_bit n c)) = drop_bit n c"
proof (induction n arbitrary: c)
  case (Suc n)
  have "\<not> bit (push_bit (Suc n) (drop_bit (Suc n) c)) 0" by (simp only: bit_push_bit_iff) simp
  then have "crc_bit (push_bit (Suc n) (drop_bit (Suc n) c)) = drop_bit 1 (push_bit (Suc n) (drop_bit (Suc n) c))"
    by (simp add: crc_bit_def)
  also have "\<dots> = push_bit n (drop_bit n (drop_bit 1 c))"
    by (rule bit_word_eqI) (auto simp: bit_simps simp del: push_bit_Suc dest: bit_imp_le_length)
  finally have "(crc_bit ^^ Suc n) (push_bit (Suc n) (drop_bit (Suc n) c)) =
      (crc_bit ^^ n) (push_bit n (drop_bit n (drop_bit 1 c)))" by (simp only: funpow_Suc_right comp_def)
  also have "\<dots> = drop_bit (Suc n) c" by (simp only: Suc.IH) (simp add: drop_bit_drop_bit)
  finally show ?case .
qed simp

lemma low_high: "c = take_bit n c XOR push_bit n (drop_bit n c)" for c :: u32
  by (rule bit_word_eqI) (auto simp: bit_simps)

lemma crc_bits_split: "(crc_bit ^^ n) c = (crc_bit ^^ n) (take_bit n c) XOR drop_bit n c"
  using crc_bits_xor [of n "take_bit n c" "push_bit n (drop_bit n c)"] low_high [of c n] crc_bits_shift [of n c]
  by simp

text \<open>The tables hold the steps of their indices; the large one is checked as rows of sixteen.\<close>

lemma crc_bits_unroll:
  "(crc_bit ^^ 4) c = crc_bit (crc_bit (crc_bit (crc_bit c)))" "(crc_bit ^^ 8) c = (crc_bit ^^ 4) ((crc_bit ^^ 4) c)"
  by (simp_all add: eval_nat_numeral)

lemma table16_entry:
  assumes "n < 16"
  shows "ngx_crc32_table16 ! n = (crc_bit ^^ 4) (of_nat n)"
proof -
  have "\<forall>n \<in> set [0..<16]. ngx_crc32_table16 ! n = (crc_bit ^^ 4) (of_nat n)"
    by (simp add: ngx_crc32_table16_def crc_bits_unroll crc_bit_def upt_rec del: set_upt)
  with assms show ?thesis by simp
qed

definition crc_rows :: "u32 list" where
  "crc_rows =
     [0, 0x1db71064, 0x3b6e20c8, 0x26d930ac, 0x76dc4190, 0x6b6b51f4, 0x4db26158, 0x5005713c,
      0xedb88320, 0xf00f9344, 0xd6d6a3e8, 0xcb61b38c, 0x9b64c2b0, 0x86d3d2d4, 0xa00ae278, 0xbdbdf21c]"

definition crc_cols :: "u32 list" where
  "crc_cols =
     [0, 0x77073096, 0xee0e612c, 0x990951ba, 0x076dc419, 0x706af48f, 0xe963a535, 0x9e6495a3,
      0x0edb8832, 0x79dcb8a4, 0xe0d5e91e, 0x97d2d988, 0x09b64c2b, 0x7eb17cbd, 0xe7b82d07, 0x90bf1d91]"

lemma table256_rows: "ngx_crc32_table256 = concat (map (\<lambda>r. map (\<lambda>c. r XOR c) crc_cols) crc_rows)"
  by (simp add: ngx_crc32_table256_def crc_rows_def crc_cols_def)

lemma crc_cols_entry: "\<forall>n \<in> set [0..<16]. crc_cols ! n = (crc_bit ^^ 8) (of_nat n)"
  by (simp add: crc_cols_def crc_bits_unroll crc_bit_def upt_rec del: set_upt)

lemma crc_rows_entry: "\<forall>n \<in> set [0..<16]. crc_rows ! n = (crc_bit ^^ 8) (of_nat (16 * n))"
  by (simp add: crc_rows_def crc_bits_unroll crc_bit_def upt_rec del: set_upt)

lemma table256_entry:
  assumes "n < 256"
  shows "ngx_crc32_table256 ! n = (crc_bit ^^ 8) (of_nat n)"
proof -
  let ?i = "n div 16" and ?j = "n mod 16"
  let ?rows = "map (\<lambda>r. map (\<lambda>c. r XOR c) crc_cols) crc_rows"
  have len: "length crc_cols = 16" "length crc_rows = 16" by (simp_all add: crc_cols_def crc_rows_def)
  have i: "?i < 16" using assms by (simp add: less_mult_imp_div_less)
  have "concat ?rows ! (?i * 16 + ?j) = ?rows ! ?i ! ?j"
    using len i by (intro concat_nth_rows [where step = 16]) auto
  then have "ngx_crc32_table256 ! n = crc_rows ! ?i XOR crc_cols ! ?j"
    using len i by (simp add: table256_rows)
  also have "\<dots> = (crc_bit ^^ 8) (of_nat (16 * ?i) XOR of_nat ?j)"
    using bspec [OF crc_rows_entry, of ?i] bspec [OF crc_cols_entry, of ?j] i by (simp add: crc_bits_xor)
  also have "of_nat (16 * ?i) XOR of_nat ?j = (of_nat n :: u32)"
  proof -
    have "16 * ?i = push_bit 4 (drop_bit 4 n)" by (simp add: push_bit_eq_mult drop_bit_eq_div mult.commute)
    moreover have "?j = take_bit 4 n" by (simp add: take_bit_eq_mod)
    moreover have "push_bit 4 (drop_bit 4 n) XOR take_bit 4 n = n"
      by (rule bit_eqI) (auto simp: bit_simps)
    ultimately show ?thesis by (metis of_nat_xor_eq)
  qed
  finally show ?thesis .
qed

lemma unat_take_bit_less: "unat (take_bit k w) < 2 ^ k" for w :: u32
  by (simp only: unsigned_take_bit_eq take_bit_nat_less_exp)

text \<open>A step of either loop, for a table whose entries are \<open>k\<close> steps of their index.\<close>

lemma table_step:
  assumes "\<And>n. n < 2 ^ k \<Longrightarrow> tab ! n = (crc_bit ^^ k) (of_nat n)" and "drop_bit k v = 0" and "k < 32"
  shows "tab ! unat (take_bit k (crc XOR v)) XOR drop_bit k crc = (crc_bit ^^ k) (crc XOR v)"
proof -
  from assms(1) [OF unat_take_bit_less [of k "crc XOR v"]] crc_bits_split [of k "crc XOR v"] assms(2) show ?thesis
    by (simp add: drop_bit_xor)
qed

lemma masks_take: "(c :: u32) AND 0xf = take_bit 4 c" "c AND 0xff = take_bit 8 c"
  by (simp_all add: take_bit_eq_mask mask_eq_exp_minus_1)

lemma byte_drop: "drop_bit 8 (ucast (b :: byte) :: u32) = 0" "drop_bit 4 (ucast (b AND 0xf) :: u32) = 0"
  "drop_bit 4 (ucast (drop_bit 4 b) :: u32) = 0"
proof -
  have m: "b AND 0xf = take_bit 4 b" by (simp add: take_bit_eq_mask mask_eq_exp_minus_1)
  show "drop_bit 8 (ucast b :: u32) = 0" by (rule bit_word_eqI) (simp add: bit_simps)
  show "drop_bit 4 (ucast (b AND 0xf) :: u32) = 0" unfolding m by (rule bit_word_eqI) (simp add: bit_simps)
  show "drop_bit 4 (ucast (drop_bit 4 b) :: u32) = 0" by (rule bit_word_eqI) (simp add: bit_simps)
qed

lemma long_step: "crc32_long_step crc b = crc_byte crc b"
  unfolding crc32_long_step_def crc_byte_def masks_take
  by (rule table_step) (simp_all add: table256_entry byte_drop)

lemma nibble_step:
  "drop_bit 4 v = 0 \<Longrightarrow> ngx_crc32_table16 ! unat (take_bit 4 (crc XOR v)) XOR drop_bit 4 crc = (crc_bit ^^ 4) (crc XOR v)"
  by (rule table_step) (simp_all add: table16_entry)

lemma short_step: "crc32_short_step crc b = crc_byte crc b"
proof -
  let ?lo = "ucast (b AND 0xf) :: u32" and ?hi = "ucast (drop_bit 4 b) :: u32"
  have m: "b AND 0xf = take_bit 4 b" by (simp add: take_bit_eq_mask mask_eq_exp_minus_1)
  have b: "ucast b = ?lo XOR push_bit 4 (drop_bit 4 (ucast b))"
    unfolding m by (rule bit_word_eqI) (auto simp: bit_simps dest: bit_imp_le_length)
  have hi: "drop_bit 4 (ucast b) = ?hi"
    by (rule bit_word_eqI) (auto simp: bit_simps dest: bit_imp_le_length)
  have "crc32_short_step crc b = (crc_bit ^^ 4) ((crc_bit ^^ 4) (crc XOR ?lo) XOR ?hi)"
    by (simp only: crc32_short_step_def masks_take nibble_step [OF byte_drop(2)] nibble_step [OF byte_drop(3)] Let_def)
  also have "(crc_bit ^^ 4) (crc XOR ?lo) XOR ?hi = (crc_bit ^^ 4) ((crc XOR ?lo) XOR push_bit 4 (drop_bit 4 (ucast b)))"
    by (simp only: crc_bits_xor crc_bits_shift) (simp only: hi)
  also have "(crc XOR ?lo) XOR push_bit 4 (drop_bit 4 (ucast b)) = crc XOR ucast b"
    by (simp only: xor.assoc b [symmetric])
  finally show ?thesis by (simp only: crc_byte_def crc_bits_unroll(2))
qed

lemma crc32_loops: "ngx_crc32_long p = crc32_reference p" "ngx_crc32_short p = crc32_reference p"
proof -
  have "crc32_long_step = crc_byte" "crc32_short_step = crc_byte" by (intro ext long_step short_step)+
  then show "ngx_crc32_long p = crc32_reference p" "ngx_crc32_short p = crc32_reference p"
    by (simp_all add: ngx_crc32_long_def ngx_crc32_short_def crc32_reference_def)
qed

text \<open>
  C26. The CRC loop with the 256-entry table and the one with the 16-entry table both compute
  the bit-by-bit CRC-32, so they agree on every input, and the incremental interface gives the
  same value however the data is cut into pieces.
\<close>

theorem crc32_correct:
  "ngx_crc32_long p = crc32_reference p \<and> ngx_crc32_short p = crc32_reference p \<and>
   ngx_crc32_final (ngx_crc32_update (ngx_crc32_update ngx_crc32_init p) q) = crc32_reference (p @ q)"
proof -
  have "crc32_long_step = crc_byte" by (intro ext long_step)
  then show ?thesis
    by (simp add: crc32_loops crc32_reference_def ngx_crc32_final_def ngx_crc32_update_def ngx_crc32_init_def)
qed

end
