(* ===== verification/Rv.thy ===== *)
theory Rv
  imports Memcached_More Rand Ngx_Crc32
begin

text \<open>
  The module \<^verbatim>\<open>src/c/ngx_http_rv_module\<close>, the first version of remote variables: a variable whose get handler reads a value from a memcached server and whose set
  handler writes it, or adds to it. The library libmemcache is a parameter: a record of its functions over a state of the servers. A connection is the text
  of the address of its server, \<open>None\<close> when the server could not be added. Undefined behaviour is \<open>None\<close>.
\<close>

section \<open>State\<close>

text \<open>
  \<open>lm_add4\<close> is \<^verbatim>\<open>mc_server_add4\<close> on a new connection. \<open>lm_aget\<close> returns no value, or the memory of one. The counters return the new
  value, 0 when they fail; \<open>lm_set\<close> returns 0 when it succeeds.
\<close>

record 's libmemcache =
  lm_add4 :: "bytes \<Rightarrow> bytes option"
  lm_aget :: "bytes option \<Rightarrow> bytes \<Rightarrow> 's \<Rightarrow> bytes option \<times> 's"
  lm_set :: "bytes option \<Rightarrow> bytes \<Rightarrow> bytes \<Rightarrow> 's \<Rightarrow> int \<times> 's"
  lm_incr :: "bytes option \<Rightarrow> bytes \<Rightarrow> u32 \<Rightarrow> 's \<Rightarrow> u32 \<times> 's"
  lm_decr :: "bytes option \<Rightarrow> bytes \<Rightarrow> u32 \<Rightarrow> 's \<Rightarrow> u32 \<times> 's"
  lm_delete :: "bytes option \<Rightarrow> bytes \<Rightarrow> 's \<Rightarrow> int \<times> 's"

datatype ngx_http_rv_op_t = RV_SET | RV_INCR | RV_DECR

record rv_vctx =
  us_name :: bytes
  mc_addrs :: "bytes list"
  mcs :: "bytes option list"
  mck_index :: "nat option"
  mcv_index :: "nat option"
  hashkey_index :: "nat option"
  rv_optype :: ngx_http_rv_op_t
  rv_v0 :: ngx_int

text \<open>
  The remote variables of the configuration, each with its name. The data of a variable are the position of its context in this list; \<open>RvOther\<close> is
  a handler of another module, whose data are no context.
\<close>

type_synonym rv_main_conf = "(bytes \<times> rv_vctx) list"

datatype 'h rv_handler = RvCtx nat | RvOther 'h

section \<open>Configuration\<close>

text \<open>The memory of the configuration is cleared without a test.\<close>

definition rv_create_main_conf :: "bool \<Rightarrow> bool \<Rightarrow> rv_main_conf option option" where
  "rv_create_main_conf ok arr_ok = (if \<not> ok then None else Some (if arr_ok then Some [] else None))"

text \<open>
  \<^verbatim>\<open>remote_var\<close>. \<open>behind nm\<close> is the memory behind a name; an argument is followed by a zero. The name of the upstream is read whether or not it is there, and the
  default is read from the argument for the operation. The variable is used without a test.
\<close>

definition ngx_http_rv_remote_var_command ::
    "(nat \<Rightarrow> bool) \<Rightarrow> (bytes \<Rightarrow> bytes) \<Rightarrow> bytes list \<Rightarrow> rv_main_conf \<Rightarrow> 'h rv_handler var_conf \<Rightarrow>
      (conf_result \<times> rv_main_conf \<times> 'h rv_handler var_conf) option" where
  "ngx_http_rv_remote_var_command ok behind args rvs vc =
     (if length args < 3 then Some (Some ''arguments number must not be less than 3'', rvs, vc)
      else
        case ngx_http_get_var_name_str (args ! 1) of
          Inl res \<Rightarrow> Some (Some res, rvs, vc)
        | Inr valname \<Rightarrow>
            (case ngx_http_get_var_name_str (args ! 2) of
               Inl res \<Rightarrow> Some (Some res, rvs, vc)
             | Inr keyname \<Rightarrow>
                 if length args < 4 then None
                 else
                   let ops = (if 4 < length args then Some (args ! 4) else None);
                       v0 = (if 5 < length args then ngx_atoi (args ! 4) else 0);
                       v0 = (if v0 = NGX_ERROR_VAL then 0 else v0);
                       v0 = (if v0 <s 0 then 0 else v0)
                   in if list_ex (\<lambda>(nm, ctx). strncmp_eq (nm @ behind nm) valname) rvs then Some (Some ''found duplicated RV name'', rvs, vc)
                      else
                        let op = RV_SET;
                            op = (if \<exists>o' \<in> set_option ops. strncmp_eq (o' @ [0]) (bs ''incr'') then RV_INCR else op);
                            op = (if \<exists>o' \<in> set_option ops. strncmp_eq (o' @ [0]) (bs ''decr'') then RV_DECR else op)
                        in if \<not> ok 0 then Some (Some ''create variable context failed'', rvs, vc)
                           else
                             case ngx_http_get_variable_index (ok 1) vc keyname of (ki, vc) \<Rightarrow>
                               case ngx_http_add_variable (ok 2) vc valname True of
                                 (None, vc) \<Rightarrow> None
                               | (Some v, vc) \<Rightarrow>
                                   case ngx_http_get_variable_index (ok 3) vc valname of (vi, vc) \<Rightarrow>
                                     let h = RvCtx (length rvs);
                                         vc = var_set_set_handler v h (var_set_get_handler v h vc);
                                         ctx = \<lparr>us_name = args ! 3, mc_addrs = [], mcs = [], mck_index = ki, mcv_index = vi, hashkey_index = ki,
                                           rv_optype = op, rv_v0 = v0\<rparr>
                                     in if \<not> ok 4 then Some (Some ''pushing remote variable to main conf failed'', rvs, vc)
                                        else Some (None, rvs @ [(var_name (vc_keys vc ! v), ctx)], vc)))"

text \<open>\<^verbatim>\<open>rv_hash_key\<close>: the data of the variable are used as a context, whoever set them.\<close>

definition ngx_http_rv_hash_key_command ::
    "(nat \<Rightarrow> bool) \<Rightarrow> bytes list \<Rightarrow> rv_main_conf \<Rightarrow> 'h rv_handler var_conf \<Rightarrow> (conf_result \<times> rv_main_conf \<times> 'h rv_handler var_conf) option" where
  "ngx_http_rv_hash_key_command ok args rvs vc =
     (if length args < 3 then Some (Some ''arguments number must not be less than 3'', rvs, vc)
      else
        case ngx_http_get_var_name_str (args ! 1) of
          Inl res \<Rightarrow> Some (Some res, rvs, vc)
        | Inr rvname \<Rightarrow>
            (case ngx_http_get_var_name_str (args ! 2) of
               Inl res \<Rightarrow> Some (Some res, rvs, vc)
             | Inr hashname \<Rightarrow>
                 (case ngx_http_add_variable (ok 0) vc rvname True of
                    (None, vc) \<Rightarrow> Some (Some ''cant find remote variable'', rvs, vc)
                  | (Some v, vc) \<Rightarrow>
                      (case var_get_handler (vc_keys vc ! v) of
                         None \<Rightarrow> Some (Some ''remote variable has no context object'', rvs, vc)
                       | Some (RvOther _) \<Rightarrow> None
                       | Some (RvCtx k) \<Rightarrow>
                           if length rvs \<le> k then None
                           else
                             case ngx_http_get_variable_index (ok 1) vc hashname of (hi, vc) \<Rightarrow>
                               let rvs = rvs[k := (fst (rvs ! k), (snd (rvs ! k))\<lparr>hashkey_index := hi\<rparr>)] in
                               if hi = None then Some (Some ''cant find hash key variable'', rvs, vc) else Some (None, rvs, vc)))))"

text \<open>
  The addresses of the servers of the upstream; an upstream is its name and the addresses, \<open>None\<close> without a list of servers.
\<close>

fun ngx_http_rv_init_var_mc :: "bool \<Rightarrow> (bytes \<times> bytes list option) list \<Rightarrow> rv_vctx \<Rightarrow> (ngx_rc \<times> rv_vctx) option" where
  "ngx_http_rv_init_var_mc ok [] ctx = Some (NGX_ERROR, ctx)"
| "ngx_http_rv_init_var_mc ok ((host, servers) # uss) ctx =
     (if us_name ctx = [] then Some (NGX_ERROR, ctx)
      else if \<not> ngx_str_eq (us_name ctx) host then ngx_http_rv_init_var_mc ok uss ctx
      else
        case servers of
          None \<Rightarrow> None
        | Some addrs \<Rightarrow> if \<not> ok then Some (NGX_ERROR, ctx) else Some (NGX_OK, ctx\<lparr>mc_addrs := addrs\<rparr>))"

fun ngx_http_rv_post_conf :: "bool \<Rightarrow> (bytes \<times> bytes list option) list \<Rightarrow> rv_main_conf \<Rightarrow> (ngx_rc \<times> rv_main_conf) option" where
  "ngx_http_rv_post_conf ok uss [] = Some (NGX_OK, [])"
| "ngx_http_rv_post_conf ok uss ((nm, ctx) # rvs) =
     Option.bind (ngx_http_rv_init_var_mc ok uss ctx) (\<lambda>(rc, ctx).
       if rc \<noteq> NGX_OK then Some (rc, (nm, ctx) # rvs)
       else map_option (\<lambda>(rc, rvs). (rc, (nm, ctx) # rvs)) (ngx_http_rv_post_conf ok uss rvs))"

text \<open>The connections, with a buffer of 256 bytes for an address; \<open>new\<close> is whether \<^verbatim>\<open>mc_new\<close> succeeds.\<close>

fun rv_connect :: "'s libmemcache \<Rightarrow> bool \<Rightarrow> bytes list \<Rightarrow> (bool \<times> bytes option list) option" where
  "rv_connect lib new [] = Some (True, [])"
| "rv_connect lib new (a # as) =
     (if \<not> new then Some (False, [None])
      else if 256 \<le> length a then None
      else if lm_add4 lib a = None then Some (False, [None])
      else map_option (\<lambda>(rc, cs). (rc, lm_add4 lib a # cs)) (rv_connect lib new as))"

definition ngx_http_rv_connet_mc :: "'s libmemcache \<Rightarrow> bool \<Rightarrow> bool \<Rightarrow> rv_vctx \<Rightarrow> (ngx_rc \<times> rv_vctx) option" where
  "ngx_http_rv_connet_mc lib ok new ctx =
     (if \<not> ok then Some (NGX_ERROR, ctx)
      else map_option (\<lambda>(rc, cs). (if rc then NGX_OK else NGX_ERROR, ctx\<lparr>mcs := cs\<rparr>)) (rv_connect lib new (mc_addrs ctx)))"

fun ngx_http_rv_init_proc :: "'s libmemcache \<Rightarrow> bool \<Rightarrow> bool \<Rightarrow> rv_main_conf \<Rightarrow> (ngx_rc \<times> rv_main_conf) option" where
  "ngx_http_rv_init_proc lib ok new [] = Some (NGX_OK, [])"
| "ngx_http_rv_init_proc lib ok new ((nm, ctx) # rvs) =
     Option.bind (ngx_http_rv_connet_mc lib ok new ctx) (\<lambda>(rc, ctx).
       if rc \<noteq> NGX_OK then Some (rc, (nm, ctx) # rvs)
       else map_option (\<lambda>(rc, rvs). (rc, (nm, ctx) # rvs)) (ngx_http_rv_init_proc lib ok new rvs))"

section \<open>The handlers\<close>

definition rv_slot :: "bytes \<Rightarrow> bytes option list \<Rightarrow> nat" where
  "rv_slot key cs = unat (ngx_crc32_long key) mod length cs"

definition get_mc :: "bytes option list \<Rightarrow> bytes \<Rightarrow> bytes option option" where
  "get_mc cs key = (if cs = [] then None else Some (cs ! rv_slot key cs))"

text \<open>A new connection for the address of the old one, printed into 256 bytes; its status is not looked at.\<close>

definition reconnect :: "'s libmemcache \<Rightarrow> bool \<Rightarrow> bytes option list \<Rightarrow> bytes \<Rightarrow> bytes option list option" where
  "reconnect lib new cs key =
     (if cs = [] then None
      else
        case cs ! rv_slot key cs of
          None \<Rightarrow> None
        | Some a \<Rightarrow> if 256 \<le> length a \<or> \<not> new then None else Some (cs[rv_slot key cs := lm_add4 lib a]))"

text \<open>A variable that is not there is a null pointer; the second component is \<open>None\<close> when it is not found or not valid.\<close>

definition rv_key :: "var_env \<Rightarrow> nat option \<Rightarrow> vvl list \<Rightarrow> (bytes option \<times> vvl list) option" where
  "rv_key va i vars =
     Option.bind (flushed va i vars) (\<lambda>(v, vars).
       map_option (\<lambda>v. (if vl_not_found v \<or> \<not> vl_valid v then None else Some (vl_data v), vars)) v)"

definition ngx_http_rv_get_handler ::
    "'s libmemcache \<Rightarrow> bool \<Rightarrow> bool \<Rightarrow> var_env \<Rightarrow> rv_vctx \<Rightarrow> vvl \<Rightarrow> vvl list \<Rightarrow> 's \<Rightarrow> (ngx_rc \<times> rv_vctx \<times> vvl \<times> vvl list \<times> 's) option" where
  "ngx_http_rv_get_handler lib new ok va ctx v vars s =
     Option.bind (rv_key va (mck_index ctx) vars) (\<lambda>(k, vars).
       if k = None then Some (NGX_ERROR, ctx, v, vars, s)
       else
         Option.bind (rv_key va (hashkey_index ctx) vars) (\<lambda>(h, vars).
           case h of
             None \<Rightarrow> Some (NGX_ERROR, ctx, v, vars, s)
           | Some h \<Rightarrow>
               let key = vl_data (vars ! the (mck_index ctx)) in
               Option.bind (get_mc (mcs ctx) h) (\<lambda>c.
                 case lm_aget lib c key s of
                   (None, s) \<Rightarrow>
                     map_option (\<lambda>cs. (NGX_OK, ctx\<lparr>mcs := cs\<rparr>, \<lparr>vl_data = [], vl_valid = True, vl_no_cacheable = False, vl_not_found = False\<rparr>, vars, s))
                       (reconnect lib new (mcs ctx) key)
                 | (Some mcv, s) \<Rightarrow>
                     if \<not> ok then Some (NGX_ERROR, ctx, v, vars, s)
                     else Some (NGX_OK, ctx, v\<lparr>vl_data := takeWhile (\<lambda>c. c \<noteq> 0) mcv, vl_valid := True\<rparr>, vars, s))))"

text \<open>The variable gets a value, or none. The last component of the result of the set handler is whether the bytes of the variable are in the frame of the handler.\<close>

definition rv_put :: "nat \<Rightarrow> bytes option \<Rightarrow> vvl list \<Rightarrow> vvl list" where
  "rv_put i d vars =
     vars[i := (vars ! i)\<lparr>vl_data := (case d of None \<Rightarrow> [] | Some d \<Rightarrow> d), vl_valid := (d \<noteq> None), vl_not_found := (d = None)\<rparr>]"

definition rv_store ::
    "'s libmemcache \<Rightarrow> bool \<Rightarrow> rv_vctx \<Rightarrow> nat \<Rightarrow> bytes option \<Rightarrow> bytes \<Rightarrow> bytes \<Rightarrow> bool \<Rightarrow> vvl list \<Rightarrow> 's \<Rightarrow> (rv_vctx \<times> vvl list \<times> 's \<times> bool) option" where
  "rv_store lib new ctx i c key d frame vars s =
     (case lm_set lib c key d s of (rc, s) \<Rightarrow>
        if rc \<noteq> 0 then map_option (\<lambda>cs. (ctx\<lparr>mcs := cs\<rparr>, rv_put i None vars, s, False)) (reconnect lib new (mcs ctx) key)
        else Some (ctx, rv_put i (Some d) vars, s, frame))"

text \<open>The amount of a counter: one byte is taken for a digit.\<close>

definition rv_amount :: "bytes \<Rightarrow> ngx_int" where
  "rv_amount v = (if length v = 1 then of_int (int (unat (v ! 0)) - 48) else ngx_atoi v)"

definition ngx_http_rv_set_handler ::
    "'s libmemcache \<Rightarrow> bool \<Rightarrow> bool \<Rightarrow> var_env \<Rightarrow> rv_vctx \<Rightarrow> bytes \<Rightarrow> vvl list \<Rightarrow> 's \<Rightarrow> (rv_vctx \<times> vvl list \<times> 's \<times> bool) option" where
  "ngx_http_rv_set_handler lib new ok va ctx v vars s =
     Option.bind (rv_key va (mck_index ctx) vars) (\<lambda>(k, vars).
       if k = None then Some (ctx, vars, s, False)
       else
         Option.bind (rv_key va (hashkey_index ctx) vars) (\<lambda>(h, vars).
           case h of
             None \<Rightarrow> Some (ctx, vars, s, False)
           | Some h \<Rightarrow>
               let key = vl_data (vars ! the (mck_index ctx)) in
               Option.bind (get_mc (mcs ctx) h) (\<lambda>c.
               Option.bind (case mcv_index ctx of None \<Rightarrow> None | Some i \<Rightarrow> if i < length vars then Some i else None) (\<lambda>i.
                 if v = [] then case lm_delete lib c key s of (rc, s) \<Rightarrow> Some (ctx, rv_put i None vars, s, False)
                 else if rv_optype ctx = RV_SET then rv_store lib new ctx i c key v False vars s
                 else
                   let d = rv_amount v in
                   if d = 0 then Some (ctx, vars, s, False)
                   else
                     case (if rv_optype ctx = RV_INCR then lm_incr lib c key (ucast d) s else lm_decr lib c key (ucast d) s) of (n, s) \<Rightarrow>
                       if n \<noteq> 0 then Some (ctx, rv_put i (if ok then Some (print_int (ucast n)) else None) vars, s, False)
                       else
                         let d = (if rv_optype ctx = RV_INCR then d else - d) + rv_v0 ctx;
                             d = (if d <s 0 then 0 else d)
                         in rv_store lib new ctx i c key (print_int d) True vars s))))"

section \<open>What the handlers do\<close>

text \<open>A variable with a value that is not evaluated again.\<close>

definition rv_held :: "vvl list \<Rightarrow> nat \<Rightarrow> bool" where
  "rv_held vars i \<longleftrightarrow> i < length vars \<and> vl_valid (vars ! i) \<and> \<not> vl_not_found (vars ! i) \<and> \<not> vl_no_cacheable (vars ! i)"

lemma rv_key_held: "rv_held vars i \<Longrightarrow> rv_key va (Some i) vars = Some (Some (vl_data (vars ! i)), vars)"
  by (simp add: rv_held_def rv_key_def flushed_def ngx_http_get_flushed_variable_def)

lemma rv_put_other: "j \<noteq> i \<Longrightarrow> rv_put i d vars ! j = vars ! j" and rv_put_length: "length (rv_put i d vars) = length vars"
  by (simp_all add: rv_put_def)

lemma rv_held_put: "rv_held vars j \<Longrightarrow> j \<noteq> i \<Longrightarrow> rv_held (rv_put i d vars) j"
  by (simp add: rv_held_def rv_put_other rv_put_length)

text \<open>The connection of a context for a request.\<close>

definition rv_conn :: "rv_vctx \<Rightarrow> vvl list \<Rightarrow> bytes option" where
  "rv_conn ctx vars = mcs ctx ! rv_slot (vl_data (vars ! the (hashkey_index ctx))) (mcs ctx)"

definition rv_ready :: "rv_vctx \<Rightarrow> vvl list \<Rightarrow> bool" where
  "rv_ready ctx vars \<longleftrightarrow>
     (case (mck_index ctx, hashkey_index ctx, mcv_index ctx) of
        (Some k, Some h, Some i) \<Rightarrow> rv_held vars k \<and> rv_held vars h \<and> i < length vars \<and> i \<noteq> k \<and> i \<noteq> h
      | _ \<Rightarrow> False) \<and> mcs ctx \<noteq> []"

lemma rv_set_ready:
  assumes "rv_ready ctx vars" and "v \<noteq> []"
  shows "ngx_http_rv_set_handler lib new ok va ctx v vars s =
    (let c = rv_conn ctx vars; key = vl_data (vars ! the (mck_index ctx)); i = the (mcv_index ctx); d = rv_amount v in
     if rv_optype ctx = RV_SET then rv_store lib new ctx i c key v False vars s
     else if d = 0 then Some (ctx, vars, s, False)
     else
       case (if rv_optype ctx = RV_INCR then lm_incr lib c key (ucast d) s else lm_decr lib c key (ucast d) s) of (n, s) \<Rightarrow>
         if n \<noteq> 0 then Some (ctx, rv_put i (if ok then Some (print_int (ucast n)) else None) vars, s, False)
         else
           let d = (if rv_optype ctx = RV_INCR then d else - d) + rv_v0 ctx in
           rv_store lib new ctx i c key (print_int (if d <s 0 then 0 else d)) True vars s)"
proof -
  obtain k h i where x: "mck_index ctx = Some k" "hashkey_index ctx = Some h" "mcv_index ctx = Some i" "rv_held vars k" "rv_held vars h"
    "i < length vars" "mcs ctx \<noteq> []"
    using assms(1) by (auto simp: rv_ready_def split: option.splits)
  show ?thesis
    using x(6,7) assms(2)
    by (simp add: ngx_http_rv_set_handler_def x(1-3) rv_key_held [OF x(4)] rv_key_held [OF x(5)] get_mc_def rv_conn_def Let_def split: prod.split)
qed

lemma rv_get_ready:
  assumes "rv_ready ctx vars"
  shows "ngx_http_rv_get_handler lib new ok va ctx v vars s =
    (let key = vl_data (vars ! the (mck_index ctx)) in
     case lm_aget lib (rv_conn ctx vars) key s of
       (None, s) \<Rightarrow>
         map_option (\<lambda>cs. (NGX_OK, ctx\<lparr>mcs := cs\<rparr>, \<lparr>vl_data = [], vl_valid = True, vl_no_cacheable = False, vl_not_found = False\<rparr>, vars, s))
           (reconnect lib new (mcs ctx) key)
     | (Some mcv, s) \<Rightarrow>
         if \<not> ok then Some (NGX_ERROR, ctx, v, vars, s)
         else Some (NGX_OK, ctx, v\<lparr>vl_data := takeWhile (\<lambda>c. c \<noteq> 0) mcv, vl_valid := True\<rparr>, vars, s))"
proof -
  obtain k h where x: "mck_index ctx = Some k" "hashkey_index ctx = Some h" "rv_held vars k" "rv_held vars h" "mcs ctx \<noteq> []"
    using assms(1) by (auto simp: rv_ready_def split: option.splits)
  show ?thesis
    using x(5) by (simp add: ngx_http_rv_get_handler_def x(1,2) rv_key_held [OF x(3)] rv_key_held [OF x(4)] get_mc_def rv_conn_def Let_def)
qed

text \<open>What a write does to the variable does not change the key or the server.\<close>

lemma rv_ready_put:
  assumes "rv_ready ctx vars"
  shows "rv_ready ctx (rv_put (the (mcv_index ctx)) d vars)" and "rv_conn ctx (rv_put (the (mcv_index ctx)) d vars) = rv_conn ctx vars"
    and "rv_put (the (mcv_index ctx)) d vars ! the (mck_index ctx) = vars ! the (mck_index ctx)"
proof -
  obtain k h i where x: "mck_index ctx = Some k" "hashkey_index ctx = Some h" "mcv_index ctx = Some i" "rv_held vars k" "rv_held vars h"
    "i < length vars" "i \<noteq> k" "i \<noteq> h" "mcs ctx \<noteq> []"
    using assms(1) by (auto simp: rv_ready_def split: option.splits)
  then show "rv_ready ctx (rv_put (the (mcv_index ctx)) d vars)" by (simp add: rv_ready_def rv_held_put rv_put_length)
  show "rv_conn ctx (rv_put (the (mcv_index ctx)) d vars) = rv_conn ctx vars" using x by (simp add: rv_conn_def rv_put_other)
  show "rv_put (the (mcv_index ctx)) d vars ! the (mck_index ctx) = vars ! the (mck_index ctx)" using x by (simp add: rv_put_other)
qed

text \<open>
  A value that was assigned to a remote variable and accepted by the server is in the variable itself, and reading the variable asks the same connection for the same key:
  when that still has the value, it is read again.
\<close>

lemma rv_set_get:
  assumes "lm_aget lib (rv_conn ctx vars) (vl_data (vars ! the (mck_index ctx))) s' = (Some v, s'')"
    and "rv_ready ctx vars" and "rv_optype ctx = RV_SET" and "v \<noteq> []" and "0 \<notin> set v"
    and "lm_set lib (rv_conn ctx vars) (vl_data (vars ! the (mck_index ctx))) v s = (0, s')"
  shows "\<exists>vars'. ngx_http_rv_set_handler lib new ok va ctx v vars s = Some (ctx, vars', s', False) \<and>
    vl_data (vars' ! the (mcv_index ctx)) = v \<and>
    ngx_http_rv_get_handler lib new True va ctx w vars' s' = Some (NGX_OK, ctx, w\<lparr>vl_data := v, vl_valid := True\<rparr>, vars', s'')"
proof -
  let ?vars = "rv_put (the (mcv_index ctx)) (Some v) vars"
  note put = rv_ready_put [OF assms(2), of "Some v"]
  have "ngx_http_rv_set_handler lib new ok va ctx v vars s = Some (ctx, ?vars, s', False)"
    using assms(3,6) by (simp add: rv_set_ready [OF assms(2,4)] rv_store_def)
  moreover have "vl_data (?vars ! the (mcv_index ctx)) = v" using assms(2) by (auto simp: rv_ready_def rv_put_def split: option.splits)
  moreover have "takeWhile (\<lambda>c. c \<noteq> 0) v = v" using assms(5) by (auto simp: takeWhile_eq_all_conv)
  then have "ngx_http_rv_get_handler lib new True va ctx w ?vars s' = Some (NGX_OK, ctx, w\<lparr>vl_data := v, vl_valid := True\<rparr>, ?vars, s'')"
    using assms(1) by (simp add: rv_get_ready [OF put(1)] put(2,3) Let_def)
  ultimately show ?thesis by blast
qed

text \<open>The addresses of a remote variable are the servers of the first upstream with its name.\<close>

lemma rv_addresses:
  assumes "ngx_http_rv_init_var_mc ok uss ctx = Some (NGX_OK, ctx')"
  shows "\<exists>uss1 host addrs uss2. uss = uss1 @ (host, Some addrs) # uss2 \<and> ngx_str_eq (us_name ctx) host \<and>
    list_all (\<lambda>(h, _). \<not> ngx_str_eq (us_name ctx) h) uss1 \<and> ctx' = ctx\<lparr>mc_addrs := addrs\<rparr>"
  using assms
proof (induction uss)
  case (Cons u uss)
  obtain host servers where u: "u = (host, servers)" by (cases u)
  show ?case
  proof (cases "ngx_str_eq (us_name ctx) host")
    case True
    then obtain addrs where "servers = Some addrs" "ctx' = ctx\<lparr>mc_addrs := addrs\<rparr>" using Cons.prems u by (auto split: if_splits option.splits)
    with True u show ?thesis by (intro exI [of _ "[]"] exI [of _ host] exI [of _ addrs] exI [of _ uss]) simp
  next
    case False
    then have "ngx_http_rv_init_var_mc ok uss ctx = Some (NGX_OK, ctx')" using Cons.prems u by (simp split: if_splits)
    then obtain uss1 host' addrs uss2 where "uss = uss1 @ (host', Some addrs) # uss2" "ngx_str_eq (us_name ctx) host'"
      "list_all (\<lambda>(h, _). \<not> ngx_str_eq (us_name ctx) h) uss1" "ctx' = ctx\<lparr>mc_addrs := addrs\<rparr>"
      using Cons.IH by blast
    with False u show ?thesis by (intro exI [of _ "u # uss1"] exI [of _ host'] exI [of _ addrs] exI [of _ uss2]) simp
  qed
qed simp

section \<open>What goes wrong\<close>

text \<open>The default of a counter is read from the argument for the operation, so it is 0.\<close>

lemma rv_default_ignored:
  assumes "ngx_http_rv_remote_var_command ok behind args rvs vc = Some (None, rvs', vc')" and "args ! 4 = bs ''incr'' \<or> args ! 4 = bs ''decr''"
  shows "rv_v0 (snd (last rvs')) = 0"
proof -
  have "ngx_atoi (args ! 4) = NGX_ERROR_VAL" using assms(2) by (auto simp: ngx_atoi_spec is_dec_def)
  then show ?thesis using assms(1)
    by (auto simp: ngx_http_rv_remote_var_command_def Let_def sless_0_iff split: if_splits sum.splits prod.splits option.splits)
qed

text \<open>Without the name of an upstream, which the number of arguments allows, the command reads behind its arguments.\<close>

lemma rv_no_upstream: "ngx_http_rv_remote_var_command ok behind [bs ''remote_var'', bs ''$v'', bs ''$k''] rvs vc = None"
  by (simp add: ngx_http_rv_remote_var_command_def ngx_http_get_var_name_str_def)

text \<open>A text that is no number changes a counter by the value of -1 as 32 bits.\<close>

lemma rv_counter_garbage:
  assumes "rv_ready ctx vars" and "rv_optype ctx = RV_INCR"
    and "lm_incr lib (rv_conn ctx vars) (vl_data (vars ! the (mck_index ctx))) 0xffffffff s = (n, s')" and "n \<noteq> 0"
  shows "ngx_http_rv_set_handler lib new True va ctx (bs ''abc'') vars s =
    Some (ctx, rv_put (the (mcv_index ctx)) (Some (print_int (ucast n))) vars, s', False)"
proof -
  have "rv_amount (bs ''abc'') = - 1" by code_simp
  moreover have "(ucast (- 1 :: ngx_int) :: u32) = 0xffffffff" by code_simp
  ultimately show ?thesis using assms(2-4) by (simp add: rv_set_ready [OF assms(1)] Let_def)
qed

text \<open>When a counter starts with the default, the variable is left with a pointer into the frame of the handler.\<close>

lemma rv_frame_value:
  assumes "rv_ready ctx vars" and "rv_optype ctx = RV_INCR" and "v \<noteq> []" and "rv_amount v \<noteq> 0" and "\<And>c k d s. lm_incr lib c k d s = (0, s)"
    and "\<And>c k d s. lm_set lib c k d s = (0, s)"
  shows "\<exists>vars'. ngx_http_rv_set_handler lib new ok va ctx v vars s = Some (ctx, vars', s, True)"
  using assms(2-6) by (simp add: rv_set_ready [OF assms(1)] rv_store_def Let_def)

text \<open>After a failed read, the connection for the key is renewed, not the one that was used, which is that for the hash key.\<close>

lemma rv_reconnects_other:
  assumes "rv_ready ctx vars" and "lm_aget lib (rv_conn ctx vars) (vl_data (vars ! the (mck_index ctx))) s = (None, s')"
    and "ngx_http_rv_get_handler lib new ok va ctx v vars s = Some (rc, ctx', v', vars', s'')"
    and "j \<noteq> rv_slot (vl_data (vars ! the (mck_index ctx))) (mcs ctx)"
  shows "mcs ctx' ! j = mcs ctx ! j"
  using assms(2-4) by (auto simp: rv_get_ready [OF assms(1)] Let_def reconnect_def split: if_splits option.splits)

end
