(* ===== verification/Repl.thy ===== *)
theory Repl
  imports Variables
begin

text \<open>
  The module \<^verbatim>\<open>src/c/ngx_http_repl_module\<close>: a content handler that splits the variable \<^verbatim>\<open>list\<close> at a
  delimiter, writes the variable \<^verbatim>\<open>replace_pattern\<close> for each item with the item in place of each
  \<^verbatim>\<open>%%\<close>, and joins the results between a prefix and a suffix in a buffer of fixed size.

  The cursor \<^verbatim>\<open>oc\<close> is the list of the bytes written so far. In the functions that fill the buffer
  \<open>None\<close> is the status 500 they return when it is full; in the handler \<open>None\<close> stands for undefined
  behaviour. A pattern that ends in \<^verbatim>\<open>%%\<close> makes the code read the byte behind it, which is outside the pattern: that
  byte is an argument, and the property of the handler excludes such patterns.
\<close>

section \<open>Configuration\<close>

record repl_loc_conf =
  list_index :: int
  list_dlm_index :: int
  rep_pre_index :: int
  rep_suf_index :: int
  rep_ptn_index :: int
  rep_dlm_index :: int

definition NGX_CONF_UNSET :: int where "NGX_CONF_UNSET = - 1"

definition repl_create_loc_conf :: repl_loc_conf where
  "repl_create_loc_conf =
     \<lparr>list_index = NGX_CONF_UNSET, list_dlm_index = NGX_CONF_UNSET, rep_pre_index = NGX_CONF_UNSET,
      rep_suf_index = NGX_CONF_UNSET, rep_ptn_index = NGX_CONF_UNSET, rep_dlm_index = NGX_CONF_UNSET\<rparr>"

definition ngx_conf_merge_value :: "int \<Rightarrow> int \<Rightarrow> int \<Rightarrow> int" where
  "ngx_conf_merge_value conf prev dflt =
     (if conf = NGX_CONF_UNSET then if prev = NGX_CONF_UNSET then dflt else prev else conf)"

definition repl_merge_loc_conf :: "repl_loc_conf \<Rightarrow> repl_loc_conf \<Rightarrow> repl_loc_conf" where
  "repl_merge_loc_conf p c =
     \<lparr>list_index = ngx_conf_merge_value (list_index c) (list_index p) NGX_CONF_UNSET,
      list_dlm_index = ngx_conf_merge_value (list_dlm_index c) (list_dlm_index p) NGX_CONF_UNSET,
      rep_pre_index = ngx_conf_merge_value (rep_pre_index c) (rep_pre_index p) NGX_CONF_UNSET,
      rep_suf_index = ngx_conf_merge_value (rep_suf_index c) (rep_suf_index p) NGX_CONF_UNSET,
      rep_ptn_index = ngx_conf_merge_value (rep_ptn_index c) (rep_ptn_index p) NGX_CONF_UNSET,
      rep_dlm_index = ngx_conf_merge_value (rep_dlm_index c) (rep_dlm_index p) NGX_CONF_UNSET\<rparr>"

text \<open>
  The command asks for the six indices in order. \<open>ok\<close> says of each name whether the allocations of
  that call succeed; a failed call gives \<^verbatim>\<open>NGX_ERROR\<close>.
\<close>

definition index_or_error :: "nat option \<Rightarrow> int" where
  "index_or_error r = (case r of None \<Rightarrow> - 1 | Some i \<Rightarrow> int i)"

definition ngx_http_repl_command :: "(bytes \<Rightarrow> bool) \<Rightarrow> 'h var_conf \<Rightarrow> repl_loc_conf \<times> 'h var_conf" where
  "ngx_http_repl_command ok vc =
     (let idx = (\<lambda>vc name. ngx_http_get_variable_index (ok name) vc name);
          (li, vc) = idx vc (bs ''list'');
          (ld, vc) = idx vc (bs ''list_delimiter'');
          (rp, vc) = idx vc (bs ''replace_prefix'');
          (rs, vc) = idx vc (bs ''replace_suffix'');
          (rt, vc) = idx vc (bs ''replace_pattern'');
          (rd, vc) = idx vc (bs ''replace_delimiter'')
      in (\<lparr>list_index = index_or_error li, list_dlm_index = index_or_error ld, rep_pre_index = index_or_error rp,
           rep_suf_index = index_or_error rs, rep_ptn_index = index_or_error rt, rep_dlm_index = index_or_error rd\<rparr>,
          vc))"

section \<open>Filling the buffer\<close>

definition MAX_OUT_LEN :: nat where "MAX_OUT_LEN = 1024 * 4"

definition sub_bytes :: "bytes \<Rightarrow> nat \<Rightarrow> nat \<Rightarrow> bytes" where
  "sub_bytes s a b = take (b - a) (drop a s)"

abbreviation percent :: byte where "percent \<equiv> cb (CHR ''%'')"

function replace_pattern_loop ::
    "nat \<Rightarrow> bytes \<Rightarrow> bytes \<Rightarrow> nat \<Rightarrow> nat \<Rightarrow> bytes \<Rightarrow> (nat \<times> nat \<times> bytes) option" where
  "replace_pattern_loop oe li ptn pc pi oc =
     (if pi + 1 < length ptn then
        if ptn ! pi = percent \<and> ptn ! (pi + 1) = percent then
          case append_str oe oc (Some (Some (sub_bytes ptn pc pi))) of
            None \<Rightarrow> None
          | Some oc \<Rightarrow>
              (case append_str oe oc (Some (Some li)) of
                 None \<Rightarrow> None
               | Some oc \<Rightarrow> replace_pattern_loop oe li ptn (pi + 2) (pi + 2) oc)
        else replace_pattern_loop oe li ptn pc (pi + 1) oc
      else Some (pc, pi, oc))"
  by pat_completeness auto
termination by (relation "measure (\<lambda>(_, _, ptn, _, pi, _). length ptn - pi)") auto

declare replace_pattern_loop.simps [simp del]

definition replace_pattern :: "nat \<Rightarrow> byte \<Rightarrow> bytes \<Rightarrow> bytes \<Rightarrow> bytes \<Rightarrow> bytes option" where
  "replace_pattern oe beyond ptn li oc =
     (case replace_pattern_loop oe li ptn 0 0 oc of
        None \<Rightarrow> None
      | Some (pc, pi, oc) \<Rightarrow>
          let pi = pi + 1 in
          if pc < pi then append_str oe oc (Some (Some (sub_bytes (ptn @ [beyond]) pc pi))) else Some oc)"

function repl_items ::
    "nat \<Rightarrow> byte \<Rightarrow> bytes \<Rightarrow> bytes option \<Rightarrow> byte \<Rightarrow> bytes \<Rightarrow> nat \<Rightarrow> nat \<Rightarrow> bytes \<Rightarrow> (nat \<times> bytes) option" where
  "repl_items oe beyond ptn rdlm d l c e oc =
     (if e < length l then
        if l ! e = d then
          case replace_pattern oe beyond ptn (sub_bytes l c e) oc of
            None \<Rightarrow> None
          | Some oc \<Rightarrow>
              (case append_vv oe oc rdlm of
                 None \<Rightarrow> None
               | Some oc \<Rightarrow> repl_items oe beyond ptn rdlm d l (e + 1) (e + 1) oc)
        else repl_items oe beyond ptn rdlm d l c (e + 1) oc
      else Some (c, oc))"
  by pat_completeness auto
termination by (relation "measure (\<lambda>(_, _, _, _, _, l, _, e, _). length l - e)") auto

declare repl_items.simps [simp del]

definition repl_fill ::
    "nat \<Rightarrow> byte \<Rightarrow> bytes \<Rightarrow> byte \<Rightarrow> bytes option \<Rightarrow> bytes option \<Rightarrow> bytes \<Rightarrow> bytes option \<Rightarrow> bytes option" where
  "repl_fill oe beyond l d pre suf ptn rdlm =
     (case append_vv oe [] pre of
        None \<Rightarrow> None
      | Some oc \<Rightarrow>
          (case repl_items oe beyond ptn rdlm d l 0 0 oc of
             None \<Rightarrow> None
           | Some (c, oc) \<Rightarrow>
               (case (if length l > c then replace_pattern oe beyond ptn (sub_bytes l c (length l)) oc else Some oc) of
                  None \<Rightarrow> None
                | Some oc \<Rightarrow> append_vv oe oc suf)))"

section \<open>The handler\<close>

record http_output =
  out_status :: nat
  out_content_type :: bytes
  out_content_length :: nat
  out_body :: bytes
  out_last_buf :: bool

text \<open>
  \<open>read i vars\<close> is \<^verbatim>\<open>ngx_http_get_flushed_variable\<close> of the request, \<open>filter\<close> the result of
  \<^verbatim>\<open>ngx_http_output_filter\<close>, \<open>ok\<close> whether the three allocations succeed (they are not checked).
  A variable that cannot be read is a null pointer. The empty pattern is undefined behaviour, the
  loop bound \<^verbatim>\<open>ptn->data + ptn->len - 1\<close> lying before the pattern.
\<close>

definition ngx_http_repl_handler ::
    "bool \<Rightarrow> (int \<Rightarrow> 'v \<Rightarrow> vvl option \<times> 'v) \<Rightarrow> byte \<Rightarrow> bool \<Rightarrow> (http_output \<Rightarrow> ngx_rc) \<Rightarrow> repl_loc_conf \<Rightarrow> 'v \<Rightarrow>
      ((ngx_rc \<times> http_output option) \<times> 'v) option" where
  "ngx_http_repl_handler ok read beyond is_main output lcf vars =
     (if \<not> ok then None
      else
        let (vvlist, vars) = read (list_index lcf) vars;
            (vvlist_dlm, vars) = read (list_dlm_index lcf) vars;
            (vvrep_pre, vars) = read (rep_pre_index lcf) vars;
            (vvrep_suf, vars) = read (rep_suf_index lcf) vars;
            (vvrep_ptn, vars) = read (rep_ptn_index lcf) vars;
            (vvrep_dlm, vars) = read (rep_dlm_index lcf) vars
        in case vvlist of
             None \<Rightarrow> None
           | Some l \<Rightarrow>
               if vl_data l = [] then Some ((NGX_HTTP 500, None), vars)
               else
                 (case vvlist_dlm of
                    None \<Rightarrow> None
                  | Some ld \<Rightarrow>
                      if vl_data ld = [] \<or> append_vv (MAX_OUT_LEN - 1) [] (map_option vl_data vvrep_pre) = None
                      then Some ((NGX_HTTP 500, None), vars)
                      else
                        (case vvrep_ptn of
                           None \<Rightarrow> None
                         | Some ptn \<Rightarrow>
                             if vl_data ptn = [] then None
                             else
                               (case repl_fill (MAX_OUT_LEN - 1) beyond (vl_data l) (hd (vl_data ld))
                                       (map_option vl_data vvrep_pre) (map_option vl_data vvrep_suf) (vl_data ptn)
                                       (map_option vl_data vvrep_dlm) of
                                  None \<Rightarrow> Some ((NGX_HTTP 500, None), vars)
                                | Some out_buf \<Rightarrow>
                                    let out = \<lparr>out_status = 200, out_content_type = bs ''text/html'',
                                               out_content_length = length out_buf, out_body = out_buf,
                                               out_last_buf = is_main\<rparr>
                                    in Some ((output out, Some out), vars)))))"

section \<open>What is written\<close>

text \<open>All appends are one bounded append of the concatenation.\<close>

definition emit :: "nat \<Rightarrow> bytes \<Rightarrow> bytes \<Rightarrow> bytes option" where
  "emit oe oc s = (if length oc + length s \<le> oe then Some (oc @ s) else None)"

lemma append_str_emit: "append_str oe oc (Some (Some s)) = emit oe oc s"
  by (simp add: append_str_def emit_def)

lemma append_vv_emit: "append_vv oe oc vv = (if vv = None then Some oc else emit oe oc (the vv))"
  by (auto simp: append_vv_def emit_def split: option.split)

lemma emit_emit: "(case emit oe oc s of None \<Rightarrow> None | Some oc \<Rightarrow> emit oe oc t) = emit oe oc (s @ t)"
  by (auto simp: emit_def)

lemma emit_case:
  "(\<And>oc. f oc = emit oe oc t) \<Longrightarrow> (case emit oe oc s of None \<Rightarrow> None | Some oc \<Rightarrow> f oc) = emit oe oc (s @ t)"
  by (auto simp: emit_def)

text \<open>The pattern with the item in place of each pair of percent signs, from left to right.\<close>

fun subst_pattern :: "bytes \<Rightarrow> bytes \<Rightarrow> bytes" where
  "subst_pattern li (x # y # p) =
     (if x = percent \<and> y = percent then li @ subst_pattern li p else x # subst_pattern li (y # p))"
| "subst_pattern li p = p"

text \<open>Whether the last two bytes of the pattern are such a pair.\<close>

fun ends_in_pair :: "bytes \<Rightarrow> bool" where
  "ends_in_pair (x # y # p) =
     (if x = percent \<and> y = percent then ends_in_pair p else ends_in_pair (y # p))"
| "ends_in_pair [x] = False"
| "ends_in_pair [] = True"

definition pattern_text :: "byte \<Rightarrow> bytes \<Rightarrow> bytes \<Rightarrow> bytes" where
  "pattern_text beyond li ptn = subst_pattern li ptn @ (if ends_in_pair ptn then [beyond] else [])"

lemma slice_step: "pc \<le> pi \<Longrightarrow> pi < length s \<Longrightarrow> sub_bytes s pc (Suc pi) = sub_bytes s pc pi @ [s ! pi]"
  by (simp add: sub_bytes_def Suc_diff_le take_Suc_conv_app_nth)

lemma slice_all [simp]: "sub_bytes s 0 (length s) = s"
  by (simp add: sub_bytes_def)

lemma drop_two: "Suc i < length s \<Longrightarrow> drop i s = s ! i # s ! Suc i # drop (Suc (Suc i)) s"
  by (simp add: Cons_nth_drop_Suc)

definition pattern_finish :: "nat \<Rightarrow> byte \<Rightarrow> bytes \<Rightarrow> (nat \<times> nat \<times> bytes) option \<Rightarrow> bytes option" where
  "pattern_finish oe beyond ptn r =
     (case r of
        None \<Rightarrow> None
      | Some (pc, pi, oc) \<Rightarrow>
          let pi = pi + 1 in
          if pc < pi then append_str oe oc (Some (Some (sub_bytes (ptn @ [beyond]) pc pi))) else Some oc)"

lemma pattern_finish_None [simp]: "pattern_finish oe beyond ptn None = None"
  by (simp add: pattern_finish_def)

lemma pattern_finish_case:
  "pattern_finish oe beyond ptn (case x of None \<Rightarrow> None | Some oc \<Rightarrow> f oc) =
     (case x of None \<Rightarrow> None | Some oc \<Rightarrow> pattern_finish oe beyond ptn (f oc))"
  by (simp split: option.split)

lemma replace_pattern_loop_emit:
  "pc \<le> pi \<Longrightarrow> pi \<le> length ptn \<Longrightarrow>
   pattern_finish oe beyond ptn (replace_pattern_loop oe li ptn pc pi oc) =
     emit oe oc (sub_bytes ptn pc pi @ pattern_text beyond li (drop pi ptn))"
proof (induction "length ptn - pi" arbitrary: pc pi oc rule: less_induct)
  case less
  consider (last) "\<not> Suc pi < length ptn" | (pair) "Suc pi < length ptn" "ptn ! pi = percent" "ptn ! Suc pi = percent"
    | (plain) "Suc pi < length ptn" "\<not> (ptn ! pi = percent \<and> ptn ! Suc pi = percent)" by blast
  then show ?case
  proof cases
    case last
    have "pi = length ptn \<or> pi < length ptn \<and> drop pi ptn = [ptn ! pi]"
      using last less.prems Cons_nth_drop_Suc [of pi ptn] by fastforce
    moreover have "sub_bytes (ptn @ [beyond]) pc (Suc pi) = sub_bytes ptn pc pi @ [(ptn @ [beyond]) ! pi]"
      using less.prems by (subst slice_step) (auto simp: sub_bytes_def)
    ultimately show ?thesis
      using last less.prems by (subst replace_pattern_loop.simps)
        (auto simp: pattern_finish_def append_str_emit pattern_text_def nth_append)
  next
    case pair
    let ?rest = "pattern_text beyond li (drop (Suc (Suc pi)) ptn)"
    have ih: "pattern_finish oe beyond ptn (replace_pattern_loop oe li ptn (Suc (Suc pi)) (Suc (Suc pi)) oc) =
        emit oe oc ?rest" for oc
      using less.hyps [of "Suc (Suc pi)" "Suc (Suc pi)" oc] pair by (simp add: sub_bytes_def)
    have "pattern_text beyond li (drop pi ptn) = li @ ?rest"
      unfolding drop_two [OF pair(1)] using pair by (simp add: pattern_text_def)
    moreover have "pattern_finish oe beyond ptn (replace_pattern_loop oe li ptn pc pi oc) =
        emit oe oc (sub_bytes ptn pc pi @ li @ ?rest)"
      by (subst replace_pattern_loop.simps)
        (simp add: pair append_str_emit pattern_finish_case ih emit_emit cong: option.case_cong)
    ultimately show ?thesis by simp
  next
    case plain
    have "pattern_text beyond li (drop pi ptn) = ptn ! pi # pattern_text beyond li (drop (Suc pi) ptn)"
      using plain drop_one [OF plain(1)] by (auto simp: drop_two [OF plain(1)] pattern_text_def)
    moreover have "replace_pattern_loop oe li ptn pc pi oc = replace_pattern_loop oe li ptn pc (Suc pi) oc"
      by (subst replace_pattern_loop.simps) (use plain in auto)
    ultimately show ?thesis
      using less.hyps [of "Suc pi" pc oc] less.prems plain by (simp add: slice_step)
  qed
qed

lemma replace_pattern_emit: "replace_pattern oe beyond ptn li oc = emit oe oc (pattern_text beyond li ptn)"
proof -
  have "replace_pattern oe beyond ptn li oc =
      pattern_finish oe beyond ptn (replace_pattern_loop oe li ptn 0 0 oc)"
    by (simp add: replace_pattern_def pattern_finish_def)
  then show ?thesis using replace_pattern_loop_emit [of 0 0 ptn] by (simp add: sub_bytes_def)
qed

text \<open>The fields of the list: what lies between the delimiters.\<close>

definition vv_text :: "bytes option \<Rightarrow> bytes" where
  "vv_text vv = (case vv of None \<Rightarrow> [] | Some d \<Rightarrow> d)"

fun repl_text :: "(bytes \<Rightarrow> bytes) \<Rightarrow> bytes \<Rightarrow> bytes list \<Rightarrow> bytes" where
  "repl_text R dlm [] = []"
| "repl_text R dlm [x] = (if x = [] then [] else R x)"
| "repl_text R dlm (x # xs) = R x @ dlm @ repl_text R dlm xs"

lemma repl_text_Cons: "xs \<noteq> [] \<Longrightarrow> repl_text R dlm (x # xs) = R x @ dlm @ repl_text R dlm xs"
  by (cases xs) simp_all

lemma emit_vv: "(case emit oe oc s of None \<Rightarrow> None | Some oc \<Rightarrow> append_vv oe oc vv) = emit oe oc (s @ vv_text vv)"
  by (auto simp: emit_def append_vv_emit vv_text_def split: option.split)

definition repl_finish :: "nat \<Rightarrow> byte \<Rightarrow> bytes \<Rightarrow> bytes \<Rightarrow> (nat \<times> bytes) option \<Rightarrow> bytes option" where
  "repl_finish oe beyond ptn l r =
     (case r of
        None \<Rightarrow> None
      | Some (c, oc) \<Rightarrow> if length l > c then replace_pattern oe beyond ptn (sub_bytes l c (length l)) oc else Some oc)"

lemma repl_finish_None [simp]: "repl_finish oe beyond ptn l None = None"
  by (simp add: repl_finish_def)

lemma repl_finish_case:
  "repl_finish oe beyond ptn l (case x of None \<Rightarrow> None | Some oc \<Rightarrow> f oc) =
     (case x of None \<Rightarrow> None | Some oc \<Rightarrow> repl_finish oe beyond ptn l (f oc))"
  by (simp add: repl_finish_def split: option.split)

lemma slice_end: "sub_bytes l c (length l) = drop c l"
  by (simp add: sub_bytes_def)

lemma drop_slice: "c \<le> e \<Longrightarrow> drop c l = sub_bytes l c e @ drop e l"
  by (simp add: sub_bytes_def) (metis append_take_drop_id drop_drop le_add_diff_inverse2)

lemma repl_items_emit:
  "c \<le> e \<Longrightarrow> e \<le> length l \<Longrightarrow> d \<notin> set (sub_bytes l c e) \<Longrightarrow> length oc \<le> oe \<Longrightarrow>
   repl_finish oe beyond ptn l (repl_items oe beyond ptn rdlm d l c e oc) =
     emit oe oc (repl_text (\<lambda>li. pattern_text beyond li ptn) (vv_text rdlm) (split_fields d (drop c l)))"
proof (induction "length l - e" arbitrary: c e oc rule: less_induct)
  case less
  let ?R = "\<lambda>li. pattern_text beyond li ptn"
  consider (last) "e = length l" | (delim) "e < length l" "l ! e = d" | (plain) "e < length l" "l ! e \<noteq> d"
    using less.prems by linarith
  then show ?case
  proof cases
    case last
    then have "split_fields d (drop c l) = [drop c l]" using less.prems by (simp add: slice_end)
    then show ?thesis
      using last less.prems
      by (subst repl_items.simps) (auto simp: repl_finish_def replace_pattern_emit slice_end emit_def)
  next
    case delim
    let ?rest = "repl_text ?R (vv_text rdlm) (split_fields d (drop (Suc e) l))"
    have "drop c l = sub_bytes l c e @ d # drop (Suc e) l"
      using drop_slice [of c e l] less.prems delim drop_one [of e l] by simp
    then have "split_fields d (drop c l) = sub_bytes l c e # split_fields d (drop (Suc e) l)"
      using less.prems by simp
    then have text_eq: "repl_text ?R (vv_text rdlm) (split_fields d (drop c l)) = (?R (sub_bytes l c e) @ vv_text rdlm) @ ?rest"
      by (simp add: repl_text_Cons)
    have ih: "repl_finish oe beyond ptn l (repl_items oe beyond ptn rdlm d l (Suc e) (Suc e) oc) = emit oe oc ?rest"
      if "length oc \<le> oe" for oc
      using less.hyps [of "Suc e" "Suc e" oc] delim that by (simp add: sub_bytes_def)
    have "repl_finish oe beyond ptn l (repl_items oe beyond ptn rdlm d l c e oc) =
        (case emit oe oc (?R (sub_bytes l c e) @ vv_text rdlm) of None \<Rightarrow> None
         | Some oc \<Rightarrow> repl_finish oe beyond ptn l (repl_items oe beyond ptn rdlm d l (Suc e) (Suc e) oc))"
      by (subst repl_items.simps)
        (simp add: delim replace_pattern_emit repl_finish_case emit_vv [symmetric] split: option.split)
    then show ?thesis unfolding text_eq using ih by (auto simp: emit_def)
  next
    case plain
    have "repl_items oe beyond ptn rdlm d l c e oc = repl_items oe beyond ptn rdlm d l c (Suc e) oc"
      by (subst repl_items.simps) (use plain in simp)
    then show ?thesis using less.hyps [of "Suc e" c oc] less.prems plain by (simp add: slice_step)
  qed
qed

definition repl_result :: "byte \<Rightarrow> bytes \<Rightarrow> byte \<Rightarrow> bytes option \<Rightarrow> bytes option \<Rightarrow> bytes \<Rightarrow> bytes option \<Rightarrow> bytes" where
  "repl_result beyond l d pre suf ptn rdlm =
     vv_text pre @ repl_text (\<lambda>li. pattern_text beyond li ptn) (vv_text rdlm) (split_fields d l) @ vv_text suf"

lemma repl_fill_emit: "repl_fill oe beyond l d pre suf ptn rdlm = emit oe [] (repl_result beyond l d pre suf ptn rdlm)"
proof -
  let ?mid = "repl_text (\<lambda>li. pattern_text beyond li ptn) (vv_text rdlm) (split_fields d l)"
  have mid: "(case repl_items oe beyond ptn rdlm d l 0 0 oc of
               None \<Rightarrow> None
             | Some (c, oc) \<Rightarrow>
                 (case (if length l > c then replace_pattern oe beyond ptn (sub_bytes l c (length l)) oc else Some oc) of
                    None \<Rightarrow> None
                  | Some oc \<Rightarrow> append_vv oe oc suf)) = emit oe oc (?mid @ vv_text suf)" if "length oc \<le> oe" for oc
  proof -
    have "repl_finish oe beyond ptn l (repl_items oe beyond ptn rdlm d l 0 0 oc) = emit oe oc ?mid"
      using repl_items_emit [of 0 0 l d oc oe beyond ptn rdlm] that by (simp add: sub_bytes_def)
    then show ?thesis
      using emit_vv [where oe = oe and oc = oc and s = ?mid and vv = suf, symmetric]
      by (cases "repl_items oe beyond ptn rdlm d l 0 0 oc") (auto simp only: repl_finish_def option.case prod.case)
  qed
  have "append_vv oe [] pre = emit oe [] (vv_text pre)"
    using emit_vv [where oe = oe and oc = "[]" and s = "[]" and vv = pre] by (simp add: emit_def)
  then show ?thesis using mid by (auto simp: repl_fill_def repl_result_def emit_def)
qed

text \<open>The handler for any pattern and list; a pattern that ends in \<^verbatim>\<open>%%\<close> is followed by the byte behind it in memory.\<close>

lemma repl_handler_output:
  assumes "vals (list_index lcf) = Some l" and "vl_data l \<noteq> []"
    and "vals (list_dlm_index lcf) = Some ld" and "vl_data ld \<noteq> []"
    and "vals (rep_ptn_index lcf) = Some ptn" and "vl_data ptn \<noteq> []"
  shows "ngx_http_repl_handler True (\<lambda>i vs. (vals i, vs)) beyond is_main output lcf vars =
    (let body = repl_result beyond (vl_data l) (hd (vl_data ld)) (map_option vl_data (vals (rep_pre_index lcf)))
           (map_option vl_data (vals (rep_suf_index lcf))) (vl_data ptn) (map_option vl_data (vals (rep_dlm_index lcf)));
         out = \<lparr>out_status = 200, out_content_type = bs ''text/html'', out_content_length = length body,
                out_body = body, out_last_buf = is_main\<rparr>
     in if length body < MAX_OUT_LEN then Some ((output out, Some out), vars)
        else Some ((NGX_HTTP 500, None), vars))"
proof -
  let ?pre = "map_option vl_data (vals (rep_pre_index lcf))"
  define body where "body = repl_result beyond (vl_data l) (hd (vl_data ld)) ?pre
      (map_option vl_data (vals (rep_suf_index lcf))) (vl_data ptn) (map_option vl_data (vals (rep_dlm_index lcf)))"
  have pre: "append_vv (MAX_OUT_LEN - 1) [] ?pre = None \<Longrightarrow> \<not> length body < MAX_OUT_LEN"
    by (auto simp: append_vv_emit emit_def body_def repl_result_def vv_text_def split: if_splits)
  have pos: "0 < MAX_OUT_LEN" by (simp add: MAX_OUT_LEN_def)
  have "repl_fill (MAX_OUT_LEN - 1) beyond (vl_data l) (hd (vl_data ld)) ?pre
      (map_option vl_data (vals (rep_suf_index lcf))) (vl_data ptn) (map_option vl_data (vals (rep_dlm_index lcf))) =
      (if length body < MAX_OUT_LEN then Some body else None)"
    unfolding repl_fill_emit body_def [symmetric] using pos by (auto simp: emit_def)
  with pre assms(1-6) show ?thesis unfolding body_def [symmetric] by (auto simp: ngx_http_repl_handler_def Let_def)
qed

text \<open>What should be sent: the pattern with each item in it, joined by the delimiter.\<close>

fun joined :: "bytes \<Rightarrow> bytes list \<Rightarrow> bytes" where
  "joined sep [] = []"
| "joined sep [x] = x"
| "joined sep (x # y # xs) = x @ sep @ joined sep (y # xs)"

definition repl_page :: "bytes \<Rightarrow> byte \<Rightarrow> bytes option \<Rightarrow> bytes option \<Rightarrow> bytes \<Rightarrow> bytes option \<Rightarrow> bytes" where
  "repl_page l d pre suf ptn rdlm =
     vv_text pre @ joined (vv_text rdlm) (map (\<lambda>li. subst_pattern li ptn) (split_fields d l)) @ vv_text suf"

lemma repl_text_joined: "last xs \<noteq> [] \<Longrightarrow> repl_text R dlm xs = joined dlm (map R xs)"
  by (induction R dlm xs rule: repl_text.induct) auto

lemma split_fields_last: "l \<noteq> [] \<Longrightarrow> last l \<noteq> d \<Longrightarrow> last (split_fields d l) \<noteq> []"
  by (induction l) (auto simp: last_tl split: if_splits)

lemma repl_result_page:
  assumes "l \<noteq> []" and "last l \<noteq> d" and "\<not> ends_in_pair ptn"
  shows "repl_result beyond l d pre suf ptn rdlm = repl_page l d pre suf ptn rdlm"
  using assms by (simp add: repl_result_def repl_page_def pattern_text_def repl_text_joined split_fields_last)

section \<open>Properties\<close>


definition demo_value :: "string \<Rightarrow> vvl" where
  "demo_value s = \<lparr>vl_data = bs s, vl_valid = True, vl_no_cacheable = False, vl_not_found = False\<rparr>"

definition demo_lcf :: repl_loc_conf where
  "demo_lcf = \<lparr>list_index = 0, list_dlm_index = 1, rep_pre_index = 2, rep_suf_index = 3, rep_ptn_index = 4, rep_dlm_index = 5\<rparr>"

definition demo_vals :: "int \<Rightarrow> vvl option" where
  "demo_vals i = Some (demo_value ([''1,2'', '','', ''['', '']'', ''<%%>'', '';''] ! nat i))"


text \<open>A pattern of one pair: the output carries the byte behind the pattern once per item.\<close>

lemma repl_pattern_extra_byte:
  "replace_pattern (MAX_OUT_LEN - 1) beyond (bs ''%%'') li [] = emit (MAX_OUT_LEN - 1) [] (li @ [beyond])"
  by (simp add: replace_pattern_emit pattern_text_def)

text \<open>A list that ends in its delimiter: the delimiter of the output is left behind the last item.\<close>

lemma repl_trailing_delimiter:
  "repl_fill (MAX_OUT_LEN - 1) beyond (bs ''1,'') 44 None None (bs ''<%%>'') (Some (bs '';'')) = Some (bs ''<1>;'')"
  by (simp add: repl_fill_emit repl_result_def pattern_text_def vv_text_def emit_def MAX_OUT_LEN_def)

end
