(* ===== verification/Small_Modules.thy ===== *)
theory Small_Modules
  imports Memcached_More Repl
begin

text \<open>
  Three small modules: \<^verbatim>\<open>ngx_http_vwrite_module\<close> sends the value of a variable, \<^verbatim>\<open>ngx_http_time_module\<close> declares a variable with the
  time, \<^verbatim>\<open>ngx_http_empty_module\<close> sends an empty page that must not be cached.
\<close>

section \<open>Response headers\<close>

text \<open>
  The headers of the response: \<open>ho_headers\<close> is the list of all, \<open>ho_cache\<close> the array of pointers to those for the cache, \<open>None\<close> when it was not
  made. A pointer is an index of the list, \<open>None\<close> when it was never set. A header with the hash 0 is not sent.
\<close>

record tbl_elt =
  ht_hash :: nat
  ht_key :: bytes
  ht_value :: bytes

record hdr_out =
  ho_content_type :: bytes
  ho_content_length :: int
  ho_status :: nat
  ho_cache :: "nat option list option"
  ho_headers :: "tbl_elt list"

fun clear_hash :: "nat option list \<Rightarrow> tbl_elt list \<Rightarrow> tbl_elt list option" where
  "clear_hash [] hs = Some hs"
| "clear_hash (None # ps) hs = None"
| "clear_hash (Some i # ps) hs = (if i < length hs then clear_hash ps (hs[i := (hs ! i)\<lparr>ht_hash := 0\<rparr>]) else None)"

text \<open>\<open>ok 0\<close> is the memory for the array, whose first element is then always there, \<open>ok 1\<close> that for the header.\<close>

definition make_http_header :: "(nat \<Rightarrow> bool) \<Rightarrow> hdr_out \<Rightarrow> (ngx_rc \<times> hdr_out) option" where
  "make_http_header ok ho =
     (let ho = ho\<lparr>ho_content_type := bs ''text/html''\<rparr> in
      case ho_cache ho of
        None \<Rightarrow>
          if \<not> ok 0 then Some (NGX_ERROR, ho)
          else if \<not> ok 1 then Some (NGX_ERROR, ho\<lparr>ho_cache := Some [None]\<rparr>)
          else
            Some (NGX_OK, ho\<lparr>ho_cache := Some [Some (length (ho_headers ho))],
              ho_headers := ho_headers ho @ [\<lparr>ht_hash = 1, ht_key = bs ''Cache-Control'', ht_value = bs ''no-cache''\<rparr>]\<rparr>)
      | Some ps \<Rightarrow>
          Option.bind (clear_hash (drop 1 ps) (ho_headers ho)) (\<lambda>hs.
            case ps of
              Some i # _ \<Rightarrow>
                if i < length hs then Some (NGX_OK, ho\<lparr>ho_headers := hs[i := (hs ! i)\<lparr>ht_value := bs ''no-cache''\<rparr>]\<rparr>) else None
            | _ \<Rightarrow> None))"

section \<open>The empty page\<close>

text \<open>The methods are bits.\<close>

abbreviation (input) NGX_HTTP_GET :: ngx_uint where
  "NGX_HTTP_GET \<equiv> 2"

abbreviation (input) NGX_HTTP_HEAD :: ngx_uint where
  "NGX_HTTP_HEAD \<equiv> 4"

definition OUT_BUFSIZE :: nat where
  "OUT_BUFSIZE = 256"

definition make_http_get_body :: "bytes \<Rightarrow> ngx_rc \<times> bytes" where
  "make_http_get_body out_buf = (NGX_OK, out_buf[0 := 0])"

text \<open>
  The handler returns the status, the headers and the body it passed on. \<open>send\<close> is \<^verbatim>\<open>ngx_http_send_header\<close>, whose status and effect on
  \<^verbatim>\<open>r->header_only\<close> come from the headers, \<open>output\<close> is \<^verbatim>\<open>ngx_http_output_filter\<close>.
\<close>

definition ngx_http_empty_res_handler ::
    "(nat \<Rightarrow> bool) \<Rightarrow> (hdr_out \<Rightarrow> ngx_rc \<times> bool) \<Rightarrow> (hdr_out \<Rightarrow> bytes \<Rightarrow> ngx_rc) \<Rightarrow> ngx_uint \<Rightarrow> ngx_rc \<Rightarrow> hdr_out \<Rightarrow>
      (ngx_rc \<times> hdr_out \<times> bytes option) option" where
  "ngx_http_empty_res_handler ok send output meth discard ho =
     (if meth AND (NGX_HTTP_GET OR NGX_HTTP_HEAD) = 0 then Some (NGX_HTTP 405, ho, None)
      else if discard \<noteq> NGX_OK \<and> discard \<noteq> NGX_AGAIN then Some (discard, ho, None)
      else
        Option.bind (make_http_header ok ho) (\<lambda>(rc, ho).
          if rc \<noteq> NGX_OK then Some (rc, ho, None)
          else if meth = NGX_HTTP_HEAD then let ho = ho\<lparr>ho_status := 200\<rparr> in Some (fst (send ho), ho, None)
          else if meth = NGX_HTTP_GET then
            case make_http_get_body (replicate OUT_BUFSIZE 0) of (rc, out_buf) \<Rightarrow>
              if rc \<noteq> NGX_OK then Some (rc, ho, None)
              else if \<not> ok 2 then Some (NGX_HTTP 500, ho, None)
              else
                let body = takeWhile (\<lambda>c. c \<noteq> 0) out_buf;
                    ho = ho\<lparr>ho_status := 200, ho_content_length := int (length body)\<rparr>
                in case send ho of (rc, header_only) \<Rightarrow>
                     if rc = NGX_ERROR \<or> (case rc of NGX_HTTP n \<Rightarrow> True | _ \<Rightarrow> False) \<or> header_only then Some (rc, ho, None)
                     else Some (output ho body, ho, Some body)
          else Some (NGX_HTTP 405, ho, None)))"

text \<open>The headers that the functions of the module work on: pointers to headers of the list, no two of them equal.\<close>

definition cache_ok :: "hdr_out \<Rightarrow> bool" where
  "cache_ok ho \<longleftrightarrow>
     (case ho_cache ho of
        None \<Rightarrow> True
      | Some ps \<Rightarrow> ps \<noteq> [] \<and> distinct ps \<and> list_all (\<lambda>p. case p of None \<Rightarrow> False | Some i \<Rightarrow> i < length (ho_headers ho)) ps)"

fun no_cache :: "nat option list option \<Rightarrow> tbl_elt list \<Rightarrow> bool" where
  "no_cache (Some (Some i # ps)) hs \<longleftrightarrow>
     i < length hs \<and> ht_value (hs ! i) = bs ''no-cache'' \<and> (\<forall>p \<in> set ps. \<exists>j. p = Some j \<and> ht_hash (hs ! j) = 0)"
| "no_cache _ _ \<longleftrightarrow> False"

lemma clear_hash_ok:
  "list_all (\<lambda>p. case p of None \<Rightarrow> False | Some i \<Rightarrow> i < length hs) ps \<Longrightarrow>
    \<exists>hs'. clear_hash ps hs = Some hs' \<and> length hs' = length hs \<and> (\<forall>j. j < length hs \<longrightarrow> ht_hash (hs' ! j) = (if Some j \<in> set ps then 0 else ht_hash (hs ! j)))"
proof (induction ps hs rule: clear_hash.induct)
  case (3 i ps hs)
  then obtain hs' where hs': "clear_hash ps (hs[i := (hs ! i)\<lparr>ht_hash := 0\<rparr>]) = Some hs'" "length hs' = length hs"
    "\<forall>j. j < length hs \<longrightarrow> ht_hash (hs' ! j) = (if Some j \<in> set ps then 0 else ht_hash (hs[i := (hs ! i)\<lparr>ht_hash := 0\<rparr>] ! j))" by auto
  moreover have "i < length hs" using 3(2) by simp
  ultimately show ?case by (auto simp: nth_list_update)
qed simp_all

lemma make_http_header_no_cache:
  assumes "cache_ok ho" and "ok 0" and "ok 1"
  shows "\<exists>ho'. make_http_header ok ho = Some (NGX_OK, ho') \<and> no_cache (ho_cache ho') (ho_headers ho') \<and> ho_content_type ho' = bs ''text/html''"
proof (cases "ho_cache ho")
  case None
  then show ?thesis using assms by (simp add: make_http_header_def nth_append)
next
  case (Some ps)
  then obtain i qs where ps: "ps = Some i # qs" "i < length (ho_headers ho)" "Some i \<notin> set qs"
    "list_all (\<lambda>p. case p of None \<Rightarrow> False | Some i \<Rightarrow> i < length (ho_headers ho)) qs"
    using assms(1) by (cases ps) (auto simp: cache_ok_def split: option.splits)
  obtain hs where hs: "clear_hash qs (ho_headers ho) = Some hs" "length hs = length (ho_headers ho)"
    "\<forall>j. j < length (ho_headers ho) \<longrightarrow> ht_hash (hs ! j) = (if Some j \<in> set qs then 0 else ht_hash (ho_headers ho ! j))"
    using clear_hash_ok [OF ps(4)] by blast
  have qs: "\<exists>j. p = Some j \<and> ht_hash (hs[i := (hs ! i)\<lparr>ht_value := v\<rparr>] ! j) = 0" if p: "p \<in> set qs" for p v
  proof -
    obtain j where j: "p = Some j" "j < length (ho_headers ho)" using p ps(4) by (auto simp: list_all_iff split: option.splits)
    then have "j \<noteq> i" using p ps(3) by auto
    then show ?thesis using hs(3) j p by simp
  qed
  show ?thesis using Some ps(1,2) hs(1,2) qs by (simp add: make_http_header_def)
qed

text \<open>A GET request gets an empty page that is not to be cached.\<close>

lemma empty_page:
  assumes "cache_ok ho" and "ok 0" and "ok 1" and "ok 2" and "\<And>h. send h = (NGX_OK, False)"
  shows "\<exists>ho'. ngx_http_empty_res_handler ok send output NGX_HTTP_GET NGX_OK ho = Some (output ho' [], ho', Some []) \<and>
    no_cache (ho_cache ho') (ho_headers ho') \<and> ho_status ho' = 200 \<and> ho_content_length ho' = 0"
proof -
  obtain h where "make_http_header ok ho = Some (NGX_OK, h)" "no_cache (ho_cache h) (ho_headers h)" using make_http_header_no_cache assms(1-3) by blast
  moreover have "takeWhile (\<lambda>c. c \<noteq> 0) ((replicate n 0)[0 := 0]) = ([] :: bytes)" for n by (cases n) simp_all
  ultimately show ?thesis using assms(4,5) by (simp add: ngx_http_empty_res_handler_def make_http_get_body_def Let_def)
qed

text \<open>After a failure of the second allocation, the array holds a pointer that was never set, and the next call uses it.\<close>

lemma make_http_header_stale:
  assumes "ho_cache ho = None" and "ok 0" and "\<not> ok 1"
  shows "\<exists>ho'. make_http_header ok ho = Some (NGX_ERROR, ho') \<and> make_http_header ok' ho' = None"
  using assms by (simp add: make_http_header_def)

section \<open>Writing a variable\<close>

record vwrite_loc_conf =
  key_index :: "nat option"

text \<open>The memory is cleared without a test.\<close>

definition vwrite_create_loc_conf :: "bool \<Rightarrow> vwrite_loc_conf option" where
  "vwrite_create_loc_conf ok = (if ok then Some \<lparr>key_index = None\<rparr> else None)"

definition vwrite_merge_loc_conf :: "vwrite_loc_conf \<Rightarrow> vwrite_loc_conf \<Rightarrow> vwrite_loc_conf" where
  "vwrite_merge_loc_conf p c = c\<lparr>key_index := or_prev (key_index c) (key_index p)\<rparr>"

text \<open>The content handler is set before the name is looked at; its place in the location is the flag of the result. The name is not empty.\<close>

definition ngx_http_vwrite_command ::
    "bool \<Rightarrow> bytes list \<Rightarrow> vwrite_loc_conf \<Rightarrow> 'h var_conf \<Rightarrow> (conf_result \<times> bool \<times> vwrite_loc_conf \<times> 'h var_conf) option" where
  "ngx_http_vwrite_command ok args lcf vc =
     (case args ! 1 of
        [] \<Rightarrow> None
      | c # vname \<Rightarrow>
          if c \<noteq> cb (CHR ''$'') then Some (Some ''found invalid variable name for output'', True, lcf, vc)
          else case ngx_http_get_variable_index ok vc vname of (i, vc) \<Rightarrow> Some (None, True, lcf\<lparr>key_index := i\<rparr>, vc))"

text \<open>The status of sending the headers is not looked at; the buffer is used without a test.\<close>

definition ngx_http_vwrite_content_handler ::
    "bool \<Rightarrow> ngx_rc \<Rightarrow> (http_output \<Rightarrow> ngx_rc) \<Rightarrow> var_env \<Rightarrow> vwrite_loc_conf \<Rightarrow> vvl list \<Rightarrow> (ngx_rc \<times> http_output option \<times> vvl list) option" where
  "ngx_http_vwrite_content_handler ok discard output va lcf vars =
     (if discard \<noteq> NGX_OK then Some (discard, None, vars)
      else
        Option.bind (flushed va (key_index lcf) vars) (\<lambda>(vv, vars).
          case vv of
            None \<Rightarrow> Some (NGX_HTTP 500, None, vars)
          | Some v \<Rightarrow>
              if \<not> ok then None
              else
                let out = \<lparr>out_status = 200, out_content_type = bs ''text/html'', out_content_length = length (vl_data v), out_body = vl_data v, out_last_buf = True\<rparr>
                in Some (output out, Some out, vars)))"

text \<open>The value of the variable that the command names is the page.\<close>

lemma vwrite_sends:
  assumes "ngx_http_vwrite_command ok args lcf vc = Some (None, True, lcf', vc')" and "key_index lcf' = Some i" and "steady va vars i d"
  shows "\<exists>out vars'. ngx_http_vwrite_content_handler True NGX_OK output va lcf' vars = Some (output out, Some out, vars') \<and>
    out_status out = 200 \<and> out_body out = d \<and> out_content_length out = length d"
proof -
  obtain v vars' where "flushed va (Some i) vars = Some (Some v, vars')" "vl_data v = d"
    using flushed_steady [OF assms(3)] by (auto simp: read_ok_def)
  then show ?thesis using assms(2) by (simp add: ngx_http_vwrite_content_handler_def Let_def)
qed

text \<open>Without the command, the index is unset, and reading the variable is undefined.\<close>

lemma vwrite_unset: "ngx_http_vwrite_content_handler ok NGX_OK output va \<lparr>key_index = None\<rparr> vars = None"
  by (simp add: ngx_http_vwrite_content_handler_def flushed_def)

section \<open>The time\<close>

abbreviation (input) MAX_TIME_LEN :: nat where
  "MAX_TIME_LEN \<equiv> 32"

text \<open>
  \<open>strf\<close> gives the text of the present time for a format. \<^verbatim>\<open>strftime\<close> returns 0 unless the text and a zero fit into the buffer. The variable's data are the
  format, which ends with the first zero; the variable is used without a test.
\<close>

definition ngx_http_time_get_handler :: "bool \<Rightarrow> (bytes \<Rightarrow> bytes) \<Rightarrow> bytes option \<Rightarrow> vvl \<Rightarrow> (ngx_rc \<times> vvl) option" where
  "ngx_http_time_get_handler ok strf ctx v =
     (if \<not> ok then Some (NGX_OK, v\<lparr>vl_not_found := True, vl_data := [], vl_valid := False\<rparr>)
      else
        case ctx of
          None \<Rightarrow> None
        | Some format \<Rightarrow>
            let t = strf (takeWhile (\<lambda>c. c \<noteq> 0) format) in
            Some (NGX_OK, v\<lparr>vl_data := (if length t < MAX_TIME_LEN then t else []), vl_valid := True\<rparr>))"

definition ngx_http_time_command ::
    "(nat \<Rightarrow> bool) \<Rightarrow> bytes list \<Rightarrow> bytes option var_conf \<Rightarrow> (conf_result \<times> bytes option var_conf) option" where
  "ngx_http_time_command ok args vc =
     (case ngx_http_get_var_name_str (args ! 1) of
        Inl res \<Rightarrow> Some (Some res, vc)
      | Inr name \<Rightarrow>
          let fmt = args ! 2 in
          if \<not> ok 0 then Some (Some [], vc)
          else
            case ngx_http_add_variable (ok 1) vc name True of
              (None, vc) \<Rightarrow> None
            | (Some v, vc) \<Rightarrow>
                if \<not> ok 2 then Some (Some [], var_set_get_handler v None vc)
                else Some (None, var_set_get_handler v (Some (fmt @ [0])) vc))"

text \<open>The declared variable is the time in the format of the command, as long as it is shorter than the buffer.\<close>

lemma name_find_less: "name_find name ks = Some i \<Longrightarrow> i < length ks"
  by (induction ks arbitrary: i) (auto split: if_splits)

lemma time_variable:
  assumes "ngx_http_time_command ok args vc = Some (None, vc')" and "0 \<notin> set (args ! 2)" and "length (strf (args ! 2)) < MAX_TIME_LEN"
  shows "\<exists>i. i < length (vc_keys vc') \<and>
    (\<exists>ctx. var_get_handler (vc_keys vc' ! i) = Some ctx \<and>
      ngx_http_time_get_handler True strf ctx v = Some (NGX_OK, v\<lparr>vl_data := strf (args ! 2), vl_valid := True\<rparr>))"
proof -
  obtain name where name: "ngx_http_get_var_name_str (args ! 1) = Inr name"
    using assms(1) by (auto simp: ngx_http_time_command_def split: sum.splits)
  obtain i vc1 where add: "ngx_http_add_variable (ok 1) vc name True = (Some i, vc1)" "vc' = var_set_get_handler i (Some (args ! 2 @ [0])) vc1"
    using assms(1) name by (auto simp: ngx_http_time_command_def Let_def split: if_splits prod.splits option.splits)
  have "i < length (vc_keys vc1)"
    using add(1) name_find_less [of name "map var_name (vc_keys vc)"] by (auto simp: ngx_http_add_variable_def split: option.splits if_splits)
  moreover have "takeWhile (\<lambda>c. c \<noteq> 0) (args ! 2 @ [0]) = args ! 2" using assms(2) by (induction "args ! 2") (auto simp: takeWhile_append)
  ultimately show ?thesis using add(2) assms(3) by (intro exI [of _ i]) (simp add: var_set_get_handler_def ngx_http_time_get_handler_def)
qed

text \<open>A longer text gives an empty value that is valid.\<close>

lemma time_too_long:
  assumes "MAX_TIME_LEN \<le> length (strf (takeWhile (\<lambda>c. c \<noteq> 0) format))"
  shows "ngx_http_time_get_handler True strf (Some format) v = Some (NGX_OK, v\<lparr>vl_data := [], vl_valid := True\<rparr>)"
  using assms by (simp add: ngx_http_time_get_handler_def)

end
