(* ===== verification/Mc_Protocal.thy ===== *)
theory Mc_Protocal
  imports Ngx_Util
begin

text \<open>
  The memcached protocol parser of \<^verbatim>\<open>src/c/ngx_util/mc_protocal.h\<close>: a table of states is interpreted
  against the bytes of one buffer.

  A position is the offset from the buffer's \<^verbatim>\<open>pos\<close>; the bytes up to \<^verbatim>\<open>last\<close> are the list \<open>buf\<close>, and
  \<open>post i\<close> is the byte \<open>i\<close> places after \<^verbatim>\<open>last\<close>, which the searching states read. The pointer \<^verbatim>\<open>st\<close> into
  the table is the rest of the table from there. The parser never leaves the first buffer of the
  chain, so \<^verbatim>\<open>cur\<close> and \<^verbatim>\<open>pre_cl\<close> are that buffer whenever they are set. \<open>None\<close> is a walk past the
  end of the table.
\<close>

section \<open>State\<close>

datatype mc_status =
    MC_ST_START
  | MC_ST_LINE_BREAK
  | MC_ST_CMD
  | MC_ST_KEY
  | MC_ST_VAL
  | MC_ST_EXP
  | MC_ST_FLAG
  | MC_ST_LEN
  | MC_ST_DELIM
  | MC_ST_END
  | MC_ST_UNTIL_DELIM
  | MC_ST_UNTIL_END
  | MC_ST_UNTIL_LB
  | MC_ST_NULL

datatype mc_p = MC_T_GET | MC_T_SET | MC_T_INCR | MC_T_DECR | MC_T_VALUE | MC_T_NULL

record mc_data =
  mc_type :: mc_p
  mc_sts :: "mc_status list"
  mc_st :: "mc_status list"
  mc_cur :: bool
  mc_c :: "nat option"
  mc_pre :: "nat option"
  mc_cmd :: ngx_str
  mc_key :: "(nat \<times> nat) option"
  mc_val :: "(nat \<times> nat) option"
  mc_exp :: "(nat \<times> nat) option"
  mc_flag :: "(nat \<times> nat) option"
  mc_len :: "(nat \<times> nat) option"

definition mc_get_req :: "mc_status list" where
  "mc_get_req =
     [MC_ST_START,
      MC_ST_CMD, MC_ST_DELIM, MC_ST_UNTIL_LB, MC_ST_KEY, MC_ST_LINE_BREAK,
      MC_ST_NULL]"

definition mc_get_v_req :: "mc_status list" where
  "mc_get_v_req =
     [MC_ST_START,
      MC_ST_CMD, MC_ST_DELIM,
      MC_ST_UNTIL_DELIM, MC_ST_KEY, MC_ST_DELIM,
      MC_ST_UNTIL_DELIM, MC_ST_FLAG, MC_ST_DELIM,
      MC_ST_UNTIL_DELIM, MC_ST_EXP, MC_ST_DELIM,
      MC_ST_UNTIL_LB, MC_ST_LEN, MC_ST_LINE_BREAK,
      MC_ST_UNTIL_LB, MC_ST_VAL, MC_ST_LINE_BREAK,
      MC_ST_END, MC_ST_LINE_BREAK,
      MC_ST_NULL]"

definition mc_cmd_linebreak :: bytes where "mc_cmd_linebreak = [CR, LF]"
definition mc_cmd_end :: bytes where "mc_cmd_end = bs ''END''"

primrec mc_cmds :: "mc_p \<Rightarrow> ngx_str" where
  "mc_cmds MC_T_GET = Some (bs ''get'')"
| "mc_cmds MC_T_SET = Some (bs ''set'')"
| "mc_cmds MC_T_INCR = Some (bs ''incr'')"
| "mc_cmds MC_T_DECR = Some (bs ''decr'')"
| "mc_cmds MC_T_VALUE = Some (bs ''VALUE'')"
| "mc_cmds MC_T_NULL = None"

text \<open>The allocation of \<^verbatim>\<open>mc_parse_init\<close> is commented out: without a structure it fails.\<close>

definition mc_parse_init :: "mc_data option \<Rightarrow> mc_status list \<Rightarrow> mc_p \<Rightarrow> ngx_rc \<times> mc_data option" where
  "mc_parse_init d sts tp =
     (case d of
        None \<Rightarrow> (NGX_ERROR, None)
      | Some _ \<Rightarrow>
          (NGX_OK, Some \<lparr>mc_type = tp, mc_sts = sts, mc_st = sts, mc_cur = False, mc_c = None, mc_pre = None,
             mc_cmd = mc_cmds tp, mc_key = None, mc_val = None, mc_exp = None, mc_flag = None, mc_len = None\<rparr>))"

section \<open>Moving along a chain\<close>

text \<open>\<^verbatim>\<open>ngx_chain_char_move\<close>: a chain is the lengths of its buffers; the loop over full or empty ones.\<close>

fun ngx_chain_char_move_loop :: "nat list \<Rightarrow> nat \<Rightarrow> ngx_rc \<times> nat list" where
  "ngx_chain_char_move_loop [] c = (NGX_ERROR, [])"
| "ngx_chain_char_move_loop (l # ls) c =
     (if c \<ge> l then
        (if ls = [] then (NGX_ERROR, l # ls) else ngx_chain_char_move_loop ls 0)
      else (NGX_OK, l # ls))"

definition ngx_chain_char_move :: "nat list \<Rightarrow> nat \<Rightarrow> nat \<Rightarrow> ngx_rc \<times> nat list" where
  "ngx_chain_char_move ch c n = ngx_chain_char_move_loop ch (c + n)"

section \<open>Tokens\<close>

definition mc_remember_cur :: "nat \<Rightarrow> mc_data \<Rightarrow> ngx_rc \<times> mc_data" where
  "mc_remember_cur c d =
     (case mc_pre d of None \<Rightarrow> (NGX_OK, d\<lparr>mc_pre := Some c\<rparr>) | Some _ \<Rightarrow> (NGX_ERROR, d))"

definition mc_release_pre :: "mc_data \<Rightarrow> ngx_rc \<times> mc_data" where
  "mc_release_pre d =
     (case mc_pre d of Some _ \<Rightarrow> (NGX_OK, d\<lparr>mc_pre := None\<rparr>) | None \<Rightarrow> (NGX_ERROR, d))"

text \<open>The string from the remembered position to \<open>c\<close>, stored by \<open>put\<close>.\<close>

definition mc_set_data_str ::
  "((nat \<times> nat) option \<Rightarrow> mc_data \<Rightarrow> mc_data) \<Rightarrow> nat \<Rightarrow> mc_data \<Rightarrow> ngx_rc \<times> mc_data" where
  "mc_set_data_str put c d =
     (case mc_pre d of
        None \<Rightarrow> (NGX_ERROR, d)
      | Some p \<Rightarrow> mc_release_pre (put (Some (p, c - p)) d))"

definition rdb :: "bytes \<Rightarrow> (nat \<Rightarrow> byte) \<Rightarrow> nat \<Rightarrow> byte" where
  "rdb buf post i = (if i < length buf then buf ! i else post (i - length buf))"

primrec mc_match :: "bytes \<Rightarrow> (nat \<Rightarrow> byte) \<Rightarrow> nat \<Rightarrow> bytes \<Rightarrow> bool" where
  "mc_match buf post c [] = True"
| "mc_match buf post c (p # ps) = (rdb buf post c = p \<and> mc_match buf post (Suc c) ps)"

text \<open>The search loops: \<open>n\<close> positions from \<open>c\<close>, the position reached and whether the test held there.\<close>

primrec mc_find :: "(nat \<Rightarrow> bool) \<Rightarrow> nat \<Rightarrow> nat \<Rightarrow> nat \<times> bool" where
  "mc_find p c 0 = (c, False)"
| "mc_find p c (Suc n) = (if p c then (c, True) else mc_find p (Suc c) n)"

section \<open>The parser\<close>

text \<open>One round of the loop: either the next state with the structure, or a return.\<close>

datatype mc_round = Next mc_data | Return ngx_rc mc_data

definition mc_expect :: "bytes \<Rightarrow> (nat \<Rightarrow> byte) \<Rightarrow> bytes \<Rightarrow> nat \<Rightarrow> mc_data \<Rightarrow> mc_round" where
  "mc_expect buf post pat c d =
     (if length buf < c + length pat then Return NGX_AGAIN d
      else if mc_match buf post c pat then Next (d\<lparr>mc_c := Some (c + length pat)\<rparr>)
      else Return NGX_ERROR d)"

definition mc_store :: "((nat \<times> nat) option \<Rightarrow> mc_data \<Rightarrow> mc_data) \<Rightarrow> nat \<Rightarrow> mc_data \<Rightarrow> mc_round" where
  "mc_store put c d =
     (case mc_set_data_str put c d of (rc, d) \<Rightarrow> if rc \<noteq> NGX_OK then Return rc d else Next d)"

definition mc_until :: "bytes \<Rightarrow> (nat \<Rightarrow> byte) \<Rightarrow> bytes \<Rightarrow> nat \<Rightarrow> mc_data \<Rightarrow> mc_round" where
  "mc_until buf post pat c d =
     (case mc_remember_cur c d of (rc, d) \<Rightarrow>
        if rc \<noteq> NGX_OK then Return rc d
        else
          case mc_find (\<lambda>i. mc_match buf post i pat) c (length buf - c) of (c, found) \<Rightarrow>
            let d = d\<lparr>mc_c := Some c\<rparr> in if found then Next d else Return NGX_AGAIN d)"

definition mc_until_delim :: "bytes \<Rightarrow> (nat \<Rightarrow> byte) \<Rightarrow> nat \<Rightarrow> mc_data \<Rightarrow> mc_round" where
  "mc_until_delim buf post c d =
     (case mc_remember_cur c d of (rc, d) \<Rightarrow>
        if rc \<noteq> NGX_OK then Return rc d
        else
          case mc_find (\<lambda>i. rdb buf post i = cb (CHR '' '')) c (length buf - c) of (c, _) \<Rightarrow>
            let d = d\<lparr>mc_c := Some c\<rparr> in
            if rdb buf post c = cb (CHR '' '') then Next d else Return NGX_AGAIN d)"

definition mc_round :: "bytes \<Rightarrow> (nat \<Rightarrow> byte) \<Rightarrow> mc_status \<Rightarrow> nat \<Rightarrow> mc_data \<Rightarrow> mc_round" where
  "mc_round buf post st c d =
     (case st of
        MC_ST_START \<Rightarrow> Next d
      | MC_ST_LINE_BREAK \<Rightarrow> mc_expect buf post mc_cmd_linebreak c d
      | MC_ST_CMD \<Rightarrow>
          (case mc_cmd d of None \<Rightarrow> Return NGX_ERROR d | Some cmd \<Rightarrow> mc_expect buf post cmd c d)
      | MC_ST_KEY \<Rightarrow> mc_store (\<lambda>s d. d\<lparr>mc_key := s\<rparr>) c d
      | MC_ST_VAL \<Rightarrow> mc_store (\<lambda>s d. d\<lparr>mc_val := s\<rparr>) c d
      | MC_ST_EXP \<Rightarrow> mc_store (\<lambda>s d. d\<lparr>mc_exp := s\<rparr>) c d
      | MC_ST_FLAG \<Rightarrow> mc_store (\<lambda>s d. d\<lparr>mc_flag := s\<rparr>) c d
      | MC_ST_LEN \<Rightarrow> mc_store (\<lambda>s d. d\<lparr>mc_len := s\<rparr>) c d
      | MC_ST_DELIM \<Rightarrow> mc_expect buf post [cb (CHR '' '')] c d
      | MC_ST_END \<Rightarrow> mc_expect buf post mc_cmd_end c d
      | MC_ST_UNTIL_DELIM \<Rightarrow> mc_until_delim buf post c d
      | MC_ST_UNTIL_END \<Rightarrow> mc_until buf post mc_cmd_end c d
      | MC_ST_UNTIL_LB \<Rightarrow> mc_until buf post mc_cmd_linebreak c d
      | MC_ST_NULL \<Rightarrow> Return NGX_OK d)"

primrec mc_parse_loop :: "bytes \<Rightarrow> (nat \<Rightarrow> byte) \<Rightarrow> mc_status list \<Rightarrow> mc_data \<Rightarrow> (ngx_rc \<times> mc_data) option" where
  "mc_parse_loop buf post [] d = None"
| "mc_parse_loop buf post (st # sts) d =
     (case mc_round buf post st ((case mc_c d of None \<Rightarrow> 0 | Some c \<Rightarrow> c)) (d\<lparr>mc_st := st # sts\<rparr>) of
        Return rc d \<Rightarrow> Some (rc, d)
      | Next d \<Rightarrow> mc_parse_loop buf post sts d)"

text \<open>
  \<^verbatim>\<open>mc_parse\<close>; \<open>None\<close> as the chain is \<^verbatim>\<open>NULL\<close> or a chain link without a buffer. Otherwise \<open>buf\<close> is what the buffer of \<^verbatim>\<open>d->cur\<close>
  holds at the call: on the first call that is the link passed in, on a later call the link that was remembered, which a
  caller passes again with more data in it.
\<close>

definition mc_parse :: "mc_data \<Rightarrow> (bytes \<times> (nat \<Rightarrow> byte)) option \<Rightarrow> (ngx_rc \<times> mc_data) option" where
  "mc_parse d ch =
     (case ch of
        None \<Rightarrow> Some (NGX_ERROR, d)
      | Some (buf, post) \<Rightarrow>
          let d = (if \<not> mc_cur d then d\<lparr>mc_cur := True\<rparr> else d);
              d = (if mc_c d = None then d\<lparr>mc_c := Some 0\<rparr> else d)
          in mc_parse_loop buf post (mc_st d) d)"

section \<open>What the parser accepts\<close>

lemma rdb_append: "rdb (xs @ ys) post (length xs + i) = rdb ys post i"
  by (simp add: rdb_def nth_append)

lemma mc_match_append: "mc_match (xs @ ys) post (length xs + i) pat = mc_match ys post i pat"
proof (induction pat arbitrary: i)
  case (Cons p pat)
  then show ?case using Cons [of "Suc i"] by (simp add: rdb_append)
qed simp

lemma mc_match_prefix: "mc_match (pat @ ys) post 0 pat"
proof (induction pat)
  case (Cons p pat)
  then show ?case using mc_match_append [of "[p]" "pat @ ys" post 0 pat] by (simp add: rdb_def)
qed simp

lemma mc_match_here: "mc_match (xs @ pat @ ys) post (length xs) pat"
  using mc_match_append [of xs "pat @ ys" post 0 pat] by (simp add: mc_match_prefix)

lemma mc_find_skip:
  "(\<And>i. c \<le> i \<Longrightarrow> i < c + k \<Longrightarrow> \<not> p i) \<Longrightarrow> mc_find p c (k + n) = mc_find p (c + k) n"
proof (induction k arbitrary: c)
  case (Suc k)
  then show ?case using Suc.IH [of "Suc c"] by simp
qed simp

lemma mc_find_at:
  assumes "\<And>i. c \<le> i \<Longrightarrow> i < e \<Longrightarrow> \<not> p i" and "p e" and "c \<le> e" and "e < c + n"
  shows "mc_find p c n = (e, True)"
proof -
  obtain m where "n - (e - c) = Suc m" using assms(3,4) by (cases "n - (e - c)") auto
  then have "n = (e - c) + Suc m" by simp
  with mc_find_skip [of c "e - c" p "Suc m"] assms show ?thesis by simp
qed

lemma mc_find_none:
  assumes "\<And>i. c \<le> i \<Longrightarrow> i < c + n \<Longrightarrow> \<not> p i"
  shows "mc_find p c n = (c + n, False)"
  using mc_find_skip [of c n p 0] assms by simp

lemma expect_here:
  "mc_expect (pre @ pat @ rest) post pat (length pre) d = Next (d\<lparr>mc_c := Some (length pre + length pat)\<rparr>)"
  by (simp add: mc_expect_def mc_match_here)

lemma nth_token:
  "length pre \<le> i \<Longrightarrow> i < length pre + length tok \<Longrightarrow> (pre @ tok @ r) ! i \<in> set tok"
proof -
  assume "length pre \<le> i" "i < length pre + length tok"
  moreover from this have "i - length pre < length tok" by arith
  ultimately show ?thesis by (simp add: nth_append)
qed

lemma until_here:
  assumes "pat \<noteq> []" and "hd pat \<notin> set tok" and "mc_pre d = None"
  shows "mc_until (pre @ tok @ pat @ rest) post pat (length pre) d =
    Next (d\<lparr>mc_pre := Some (length pre), mc_c := Some (length pre + length tok)\<rparr>)"
proof -
  let ?buf = "pre @ tok @ pat @ rest"
  have "mc_find (\<lambda>i. mc_match ?buf post i pat) (length pre) (length ?buf - length pre) = (length pre + length tok, True)"
  proof (rule mc_find_at)
    show "mc_match ?buf post (length pre + length tok) pat"
      using mc_match_here [of "pre @ tok" pat rest post] by simp
    fix i assume i: "length pre \<le> i" "i < length pre + length tok"
    from nth_token [OF i, of "pat @ rest"] i assms(2) have "rdb ?buf post i \<noteq> hd pat" by (auto simp: rdb_def)
    then show "\<not> mc_match ?buf post i pat" using assms(1) by (cases pat) auto
  qed (use assms(1) in auto)
  then show ?thesis using assms(3) by (simp add: mc_until_def mc_remember_cur_def)
qed

lemma until_delim_here:
  assumes "32 \<notin> set tok" and "mc_pre d = None"
  shows "mc_until_delim (pre @ tok @ 32 # rest) post (length pre) d =
    Next (d\<lparr>mc_pre := Some (length pre), mc_c := Some (length pre + length tok)\<rparr>)"
proof -
  let ?buf = "pre @ tok @ 32 # rest"
  have at: "rdb ?buf post (length pre + length tok) = 32" by (simp add: rdb_def nth_append)
  have "mc_find (\<lambda>i. rdb ?buf post i = 32) (length pre) (length ?buf - length pre) = (length pre + length tok, True)"
  proof (rule mc_find_at)
    fix i assume i: "length pre \<le> i" "i < length pre + length tok"
    from nth_token [OF i, of "32 # rest"] i assms(1) show "rdb ?buf post i \<noteq> 32" by (auto simp: rdb_def)
  qed (use at in auto)
  then show ?thesis using assms(2) at by (simp add: mc_until_delim_def mc_remember_cur_def)
qed

text \<open>The bytes of a stored string.\<close>

definition mc_token :: "bytes \<Rightarrow> (nat \<times> nat) option \<Rightarrow> bytes option" where
  "mc_token buf s = map_option (\<lambda>(p, n). take n (drop p buf)) s"

definition mc_init :: "mc_status list \<Rightarrow> mc_p \<Rightarrow> mc_data" where
  "mc_init sts tp = \<lparr>mc_type = tp, mc_sts = sts, mc_st = sts, mc_cur = False, mc_c = None, mc_pre = None,
     mc_cmd = mc_cmds tp, mc_key = None, mc_val = None, mc_exp = None, mc_flag = None, mc_len = None\<rparr>"

lemma mc_parse_init_some: "mc_parse_init (Some d) sts tp = (NGX_OK, Some (mc_init sts tp))"
  by (simp add: mc_parse_init_def mc_init_def)

text \<open>The rounds at an explicit position, for the tables to be run by rewriting.\<close>

lemma round_expect:
  "buf = pre @ pat @ rest \<Longrightarrow> c = length pre \<Longrightarrow>
     mc_expect buf post pat c d = Next (d\<lparr>mc_c := Some (length (pre @ pat))\<rparr>)"
  by (simp add: expect_here)

lemma round_until_lb:
  "buf = pre @ tok @ CR # LF # rest \<Longrightarrow> c = length pre \<Longrightarrow> CR \<notin> set tok \<Longrightarrow> mc_pre d = None \<Longrightarrow>
     mc_until buf post mc_cmd_linebreak c d =
       Next (d\<lparr>mc_pre := Some (length pre), mc_c := Some (length (pre @ tok))\<rparr>)"
  using until_here [of mc_cmd_linebreak tok d pre rest post] by (simp add: mc_cmd_linebreak_def)

lemma round_until_delim:
  "buf = pre @ tok @ 32 # rest \<Longrightarrow> c = length pre \<Longrightarrow> 32 \<notin> set tok \<Longrightarrow> mc_pre d = None \<Longrightarrow>
     mc_until_delim buf post c d =
       Next (d\<lparr>mc_pre := Some (length pre), mc_c := Some (length (pre @ tok))\<rparr>)"
  using until_delim_here [of tok d pre rest post] by simp

lemma round_store:
  assumes "mc_pre d = Some p" and "\<And>s d. mc_pre (put s d) = mc_pre d"
  shows "mc_store put c d = Next ((put (Some (p, c - p)) d)\<lparr>mc_pre := None\<rparr>)"
  using assms by (simp add: mc_store_def mc_set_data_str_def mc_release_pre_def)

lemma loop_next:
  "mc_c d = Some c \<Longrightarrow> mc_round buf post st c (d\<lparr>mc_st := st # sts\<rparr>) = Next d' \<Longrightarrow>
   mc_parse_loop buf post (st # sts) d = mc_parse_loop buf post sts d'"
  by simp

lemma mc_parse_start:
  "mc_st d = MC_ST_START # sts \<Longrightarrow> mc_c d = None \<Longrightarrow> \<not> mc_cur d \<Longrightarrow>
   mc_parse d (Some (buf, post)) = mc_parse_loop buf post sts (d\<lparr>mc_cur := True, mc_c := Some 0, mc_st := MC_ST_START # sts\<rparr>)"
  by (simp add: mc_parse_def mc_round_def)

text \<open>A field and its end marker: search, store, and step over the marker.\<close>

fun mc_put :: "mc_status \<Rightarrow> (nat \<times> nat) option \<Rightarrow> mc_data \<Rightarrow> mc_data" where
  "mc_put MC_ST_KEY s d = d\<lparr>mc_key := s\<rparr>"
| "mc_put MC_ST_VAL s d = d\<lparr>mc_val := s\<rparr>"
| "mc_put MC_ST_EXP s d = d\<lparr>mc_exp := s\<rparr>"
| "mc_put MC_ST_FLAG s d = d\<lparr>mc_flag := s\<rparr>"
| "mc_put MC_ST_LEN s d = d\<lparr>mc_len := s\<rparr>"
| "mc_put _ s d = d"

definition storing :: "mc_status \<Rightarrow> bool" where
  "storing st \<longleftrightarrow> st \<in> {MC_ST_KEY, MC_ST_VAL, MC_ST_EXP, MC_ST_FLAG, MC_ST_LEN}"

lemma round_storing: "storing st \<Longrightarrow> mc_round buf post st c d = mc_store (mc_put st) c d"
  by (auto simp: storing_def mc_round_def intro!: arg_cong [where f = "\<lambda>p. mc_store p c d"] ext)

lemma mc_put_sel: "mc_pre (mc_put st s d) = mc_pre d" "mc_c (mc_put st s d) = mc_c d"
  by (cases st; simp)+

text \<open>What is known of the structure after a field: its position, and every other field as before.\<close>

definition after_field :: "mc_status \<Rightarrow> nat \<Rightarrow> nat \<Rightarrow> nat \<Rightarrow> mc_data \<Rightarrow> mc_data \<Rightarrow> bool" where
  "after_field st p n c d d' \<longleftrightarrow>
     (\<exists>s. d' = (mc_put st (Some (p, n)) d)\<lparr>mc_c := Some c, mc_pre := None, mc_st := s\<rparr>)"

lemma mc_put_update:
  "mc_put st s (d\<lparr>mc_pre := a\<rparr>) = (mc_put st s d)\<lparr>mc_pre := a\<rparr>"
  "mc_put st s (d\<lparr>mc_c := b\<rparr>) = (mc_put st s d)\<lparr>mc_c := b\<rparr>"
  "mc_put st s (d\<lparr>mc_st := e\<rparr>) = (mc_put st s d)\<lparr>mc_st := e\<rparr>"
  by (cases st; simp)+

lemma field_run:
  assumes "mc_round buf post u (length pre) (d\<lparr>mc_st := u # st # m # sts\<rparr>) =
      Next (d\<lparr>mc_st := u # st # m # sts, mc_pre := Some (length pre), mc_c := Some (length (pre @ tok))\<rparr>)"
    and "\<And>d. mc_round buf post m (length (pre @ tok)) d = Next (d\<lparr>mc_c := Some e\<rparr>)"
    and "mc_c d = Some (length pre)" and "storing st"
  shows "\<exists>d'. mc_parse_loop buf post (u # st # m # sts) d = mc_parse_loop buf post sts d' \<and>
    after_field st (length pre) (length tok) e d d'"
proof -
  let ?d1 = "d\<lparr>mc_st := u # st # m # sts, mc_pre := Some (length pre), mc_c := Some (length (pre @ tok))\<rparr>"
  let ?d2 = "(mc_put st (Some (length pre, length tok)) (?d1\<lparr>mc_st := st # m # sts\<rparr>))\<lparr>mc_pre := None\<rparr>"
  have c: "mc_c ?d1 = Some (length (pre @ tok))" "mc_c ?d2 = Some (length (pre @ tok))"
    by (simp_all add: mc_put_sel)
  have "mc_round buf post st (length (pre @ tok)) (?d1\<lparr>mc_st := st # m # sts\<rparr>) = Next ?d2"
    by (simp add: round_storing [OF assms(4)] round_store [where p = "length pre"] mc_put_sel)
  from loop_next [OF assms(3,1)] loop_next [OF c(1) this] loop_next [OF c(2) assms(2)]
  have "mc_parse_loop buf post (u # st # m # sts) d =
      mc_parse_loop buf post sts (?d2\<lparr>mc_st := m # sts, mc_c := Some e\<rparr>)" by (simp only:)
  moreover have "after_field st (length pre) (length tok) e d (?d2\<lparr>mc_st := m # sts, mc_c := Some e\<rparr>)"
    unfolding after_field_def by (intro exI [of _ "m # sts"]) (simp add: mc_put_update)
  ultimately show ?thesis by blast
qed

lemma field_delim:
  assumes "buf = pre @ tok @ 32 # rest" and "mc_c d = Some (length pre)" and "mc_pre d = None"
    and "32 \<notin> set tok" and "storing st"
  shows "\<exists>d'. mc_parse_loop buf post (MC_ST_UNTIL_DELIM # st # MC_ST_DELIM # sts) d = mc_parse_loop buf post sts d' \<and>
    after_field st (length pre) (length tok) (length (pre @ tok @ [32])) d d'"
proof (rule field_run [OF _ _ assms(2,5)])
  show "mc_round buf post MC_ST_DELIM (length (pre @ tok)) d = Next (d\<lparr>mc_c := Some (length (pre @ tok @ [32]))\<rparr>)" for d
    using round_expect [of buf "pre @ tok" "[32]" rest "length (pre @ tok)"] assms(1) by (simp add: mc_round_def)
qed (simp add: mc_round_def round_until_delim [OF assms(1) refl assms(4)] assms(3))

lemma field_lb:
  assumes "buf = pre @ tok @ CR # LF # rest" and "mc_c d = Some (length pre)" and "mc_pre d = None"
    and "CR \<notin> set tok" and "storing st"
  shows "\<exists>d'. mc_parse_loop buf post (MC_ST_UNTIL_LB # st # MC_ST_LINE_BREAK # sts) d = mc_parse_loop buf post sts d' \<and>
    after_field st (length pre) (length tok) (length (pre @ tok @ [CR, LF])) d d'"
proof (rule field_run [OF _ _ assms(2,5)])
  show "mc_round buf post MC_ST_LINE_BREAK (length (pre @ tok)) d =
      Next (d\<lparr>mc_c := Some (length (pre @ tok @ [CR, LF]))\<rparr>)" for d
    using round_expect [of buf "pre @ tok" "[CR, LF]" rest "length (pre @ tok)"] assms(1)
    by (simp add: mc_round_def mc_cmd_linebreak_def)
qed (simp add: mc_round_def round_until_lb [OF assms(1) refl assms(4)] assms(3))

lemma head_run:
  assumes "mc_cmds tp = Some cmd" and "buf = cmd @ 32 # r"
  shows "mc_parse (mc_init (MC_ST_START # MC_ST_CMD # MC_ST_DELIM # sts) tp) (Some (buf, post)) =
    mc_parse_loop buf post sts
      ((mc_init (MC_ST_START # MC_ST_CMD # MC_ST_DELIM # sts) tp)
        \<lparr>mc_cur := True, mc_c := Some (length (cmd @ [32])), mc_st := MC_ST_DELIM # sts\<rparr>)"
proof -
  have "mc_expect buf post cmd 0 d = Next (d\<lparr>mc_c := Some (length cmd)\<rparr>)" for d
    using round_expect [of buf "[]" cmd "32 # r" 0] assms(2) by simp
  moreover have "mc_expect buf post [32] (length cmd) d = Next (d\<lparr>mc_c := Some (length (cmd @ [32]))\<rparr>)" for d
    using round_expect [of buf cmd "[32]" r "length cmd"] assms(2) by simp
  ultimately show ?thesis using assms(1) by (simp add: mc_parse_def mc_init_def mc_round_def)
qed

text \<open>
  The parser accepts every \<^verbatim>\<open>get\<close> request whose key has no carriage return: it returns
  \<^verbatim>\<open>NGX_OK\<close>, the key is the bytes between the command and the line break, and the position is
  after the line break, whatever follows.
\<close>

theorem mc_parse_get:
  assumes "CR \<notin> set key"
  shows "\<exists>d. mc_parse (mc_init mc_get_req MC_T_GET) (Some (bs ''get '' @ key @ [CR, LF] @ rest, post)) = Some (NGX_OK, d) \<and>
    mc_token (bs ''get '' @ key @ [CR, LF] @ rest) (mc_key d) = Some key \<and>
    mc_c d = Some (length (bs ''get '' @ key @ [CR, LF]))"
proof -
  let ?buf = "bs ''get '' @ key @ CR # LF # rest"
  let ?d = "(mc_init mc_get_req MC_T_GET)\<lparr>mc_cur := True, mc_c := Some (length (bs ''get '')),
     mc_st := MC_ST_DELIM # [MC_ST_UNTIL_LB, MC_ST_KEY, MC_ST_LINE_BREAK, MC_ST_NULL]\<rparr>"
  have "mc_parse (mc_init mc_get_req MC_T_GET) (Some (?buf, post)) =
      mc_parse_loop ?buf post [MC_ST_UNTIL_LB, MC_ST_KEY, MC_ST_LINE_BREAK, MC_ST_NULL] ?d"
    using head_run [of MC_T_GET "bs ''get''" ?buf "key @ CR # LF # rest"] by (simp add: mc_get_req_def)
  moreover obtain d' where
    "mc_parse_loop ?buf post [MC_ST_UNTIL_LB, MC_ST_KEY, MC_ST_LINE_BREAK, MC_ST_NULL] ?d =
       mc_parse_loop ?buf post [MC_ST_NULL] d'"
    "after_field MC_ST_KEY (length (bs ''get '')) (length key) (length (bs ''get '' @ key @ [CR, LF])) ?d d'"
    using field_lb [of ?buf "bs ''get ''" key rest ?d MC_ST_KEY post "[MC_ST_NULL]"] assms
    by (auto simp: storing_def mc_init_def)
  ultimately show ?thesis by (auto simp: after_field_def mc_round_def mc_token_def)
qed

theorem mc_parse_get_witness:
  "\<exists>d. mc_parse (mc_init mc_get_req MC_T_GET) (Some (bs ''get a1'' @ [CR, LF], \<lambda>_. 0)) = Some (NGX_OK, d) \<and>
     mc_token (bs ''get a1'' @ [CR, LF]) (mc_key d) = Some (bs ''a1'')"
  using mc_parse_get [of "bs ''a1''" "[]" "\<lambda>_. 0"] by auto

definition value_reply :: "bytes \<Rightarrow> bytes \<Rightarrow> bytes \<Rightarrow> bytes \<Rightarrow> bytes \<Rightarrow> bytes" where
  "value_reply key flag ex len val =
     bs ''VALUE '' @ key @ [32] @ flag @ [32] @ ex @ [32] @ len @ [CR, LF] @ val @ [CR, LF] @ bs ''END'' @ [CR, LF]"

lemma after_field_sel:
  assumes "after_field st p n c d d'"
  shows "mc_c d' = Some c" and "mc_pre d' = None"
  using assms by (auto simp: after_field_def)

text \<open>
  C35. The parser accepts every \<^verbatim>\<open>VALUE\<close> reply of the four-field form the table describes (fields
  without spaces, length and value without carriage returns), returns \<^verbatim>\<open>NGX_OK\<close> and stores the five
  fields as they were sent.
\<close>

theorem mc_parse_value:
  assumes "32 \<notin> set key" and "32 \<notin> set flag" and "32 \<notin> set ex" and "CR \<notin> set len" and "CR \<notin> set val"
  shows "\<exists>d. mc_parse (mc_init mc_get_v_req MC_T_VALUE) (Some (value_reply key flag ex len val @ rest, post)) =
      Some (NGX_OK, d) \<and>
    mc_token (value_reply key flag ex len val @ rest) (mc_key d) = Some key \<and>
    mc_token (value_reply key flag ex len val @ rest) (mc_flag d) = Some flag \<and>
    mc_token (value_reply key flag ex len val @ rest) (mc_exp d) = Some ex \<and>
    mc_token (value_reply key flag ex len val @ rest) (mc_len d) = Some len \<and>
    mc_token (value_reply key flag ex len val @ rest) (mc_val d) = Some val \<and>
    mc_c d = Some (length (value_reply key flag ex len val))"
proof -
  let ?buf = "value_reply key flag ex len val @ rest"
  let ?t5 = "[MC_ST_END, MC_ST_LINE_BREAK, MC_ST_NULL]"
  let ?t4 = "MC_ST_UNTIL_LB # MC_ST_VAL # MC_ST_LINE_BREAK # ?t5"
  let ?t3 = "MC_ST_UNTIL_LB # MC_ST_LEN # MC_ST_LINE_BREAK # ?t4"
  let ?t2 = "MC_ST_UNTIL_DELIM # MC_ST_EXP # MC_ST_DELIM # ?t3"
  let ?t1 = "MC_ST_UNTIL_DELIM # MC_ST_FLAG # MC_ST_DELIM # ?t2"
  let ?t0 = "MC_ST_UNTIL_DELIM # MC_ST_KEY # MC_ST_DELIM # ?t1"
  let ?p0 = "bs ''VALUE ''"
  let ?p1 = "?p0 @ key @ [32]" let ?p2 = "?p1 @ flag @ [32]" let ?p3 = "?p2 @ ex @ [32]"
  let ?p4 = "?p3 @ len @ [CR, LF]" let ?p5 = "?p4 @ val @ [CR, LF]"
  let ?r5 = "bs ''END'' @ CR # LF # rest" let ?r4 = "val @ CR # LF # ?r5" let ?r3 = "len @ CR # LF # ?r4"
  let ?r2 = "ex @ 32 # ?r3" let ?r1 = "flag @ 32 # ?r2"
  have b: "?buf = ?p0 @ key @ 32 # ?r1" "?buf = ?p1 @ flag @ 32 # ?r2" "?buf = ?p2 @ ex @ 32 # ?r3"
    "?buf = ?p3 @ len @ CR # LF # ?r4" "?buf = ?p4 @ val @ CR # LF # ?r5"
    by (simp_all add: value_reply_def)
  have st: "storing MC_ST_KEY" "storing MC_ST_FLAG" "storing MC_ST_EXP" "storing MC_ST_LEN" "storing MC_ST_VAL"
    by (simp_all add: storing_def)
  define d0 where "d0 = (mc_init mc_get_v_req MC_T_VALUE)
    \<lparr>mc_cur := True, mc_c := Some (length ?p0), mc_st := MC_ST_DELIM # ?t0\<rparr>"
  have d0: "mc_c d0 = Some (length ?p0)" "mc_pre d0 = None" by (simp_all add: d0_def mc_init_def)
  have r0: "mc_parse (mc_init mc_get_v_req MC_T_VALUE) (Some (?buf, post)) = mc_parse_loop ?buf post ?t0 d0"
    using head_run [of MC_T_VALUE "bs ''VALUE''" ?buf "key @ 32 # ?r1" ?t0 post]
    by (simp add: mc_get_v_req_def d0_def value_reply_def del: mc_parse_loop.simps)
  obtain d1 where d1: "mc_parse_loop ?buf post ?t0 d0 = mc_parse_loop ?buf post ?t1 d1"
    "after_field MC_ST_KEY (length ?p0) (length key) (length ?p1) d0 d1"
    using field_delim [OF b(1) d0 assms(1) st(1)] by blast
  obtain d2 where d2: "mc_parse_loop ?buf post ?t1 d1 = mc_parse_loop ?buf post ?t2 d2"
    "after_field MC_ST_FLAG (length ?p1) (length flag) (length ?p2) d1 d2"
    using field_delim [OF b(2) after_field_sel [OF d1(2)] assms(2) st(2)] by blast
  obtain d3 where d3: "mc_parse_loop ?buf post ?t2 d2 = mc_parse_loop ?buf post ?t3 d3"
    "after_field MC_ST_EXP (length ?p2) (length ex) (length ?p3) d2 d3"
    using field_delim [OF b(3) after_field_sel [OF d2(2)] assms(3) st(3)] by blast
  obtain d4 where d4: "mc_parse_loop ?buf post ?t3 d3 = mc_parse_loop ?buf post ?t4 d4"
    "after_field MC_ST_LEN (length ?p3) (length len) (length ?p4) d3 d4"
    using field_lb [OF b(4) after_field_sel [OF d3(2)] assms(4) st(4)] by blast
  obtain d5 where d5: "mc_parse_loop ?buf post ?t4 d4 = mc_parse_loop ?buf post ?t5 d5"
    "after_field MC_ST_VAL (length ?p4) (length val) (length ?p5) d4 d5"
    using field_lb [OF b(5) after_field_sel [OF d4(2)] assms(5) st(5)] by blast
  have e1: "mc_expect ?buf post mc_cmd_end (length ?p5) d = Next (d\<lparr>mc_c := Some (length (?p5 @ bs ''END''))\<rparr>)" for d
    using round_expect [of ?buf ?p5 "bs ''END''" "CR # LF # rest" "length ?p5"]
    by (simp add: value_reply_def mc_cmd_end_def)
  have e2: "mc_expect ?buf post mc_cmd_linebreak (length (?p5 @ bs ''END'')) d =
      Next (d\<lparr>mc_c := Some (length (?p5 @ bs ''END'' @ [CR, LF]))\<rparr>)" for d
    using round_expect [of ?buf "?p5 @ bs ''END''" "[CR, LF]" rest "length (?p5 @ bs ''END'')"]
    by (simp add: value_reply_def mc_cmd_linebreak_def)
  obtain s where run: "mc_parse_loop ?buf post ?t5 d5 =
      Some (NGX_OK, d5\<lparr>mc_c := Some (length (?p5 @ bs ''END'' @ [CR, LF])), mc_st := s\<rparr>)"
    using e1 e2 after_field_sel(1) [OF d5(2)] by (simp add: mc_round_def)
  have f: "mc_key d5 = Some (length ?p0, length key)" "mc_flag d5 = Some (length ?p1, length flag)"
    "mc_exp d5 = Some (length ?p2, length ex)" "mc_len d5 = Some (length ?p3, length len)"
    "mc_val d5 = Some (length ?p4, length val)"
    using d1(2) d2(2) d3(2) d4(2) d5(2) by (auto simp: after_field_def)
  have tok: "mc_token ?buf (Some (length p, length k)) = Some k" if "?buf = p @ k @ r" for p k r
    using that by (simp add: mc_token_def)
  show ?thesis
    using r0 d1(1) d2(1) d3(1) d4(1) d5(1) run f tok [OF b(1)] tok [OF b(2)] tok [OF b(3)] tok [OF b(4)] tok [OF b(5)]
    by (intro exI [of _ "d5\<lparr>mc_c := Some (length (?p5 @ bs ''END'' @ [CR, LF])), mc_st := s\<rparr>"])
      (simp add: value_reply_def del: mc_parse_loop.simps)
qed

theorem mc_parse_value_witness:
  "\<exists>d. mc_parse (mc_init mc_get_v_req MC_T_VALUE)
       (Some (value_reply (bs ''k'') (bs ''0'') (bs ''9'') (bs ''2'') (bs ''hi''), \<lambda>_. 0)) = Some (NGX_OK, d) \<and>
     mc_token (value_reply (bs ''k'') (bs ''0'') (bs ''9'') (bs ''2'') (bs ''hi'')) (mc_val d) = Some (bs ''hi'')"
  using mc_parse_value [of "bs ''k''" "bs ''0''" "bs ''9''" "bs ''2''" "bs ''hi''" "[]" "\<lambda>_. 0"] by auto

section \<open>Requests that arrive in pieces\<close>

lemma head_short:
  assumes "n < 4"
  shows "\<exists>d. mc_parse (mc_init mc_get_req MC_T_GET) (Some (take n (bs ''get ''), post)) = Some (NGX_AGAIN, d)"
proof -
  consider "n = 0" | "n = 1" | "n = 2" | "n = 3" using assms by linarith
  then show ?thesis
    by cases (simp_all add: mc_parse_def mc_init_def mc_get_req_def mc_round_def mc_expect_def rdb_def)
qed

lemma no_linebreak:
  assumes "CR \<notin> set tok" and "length pre \<le> i" and "i < length pre + length tok"
  shows "\<not> mc_match (pre @ tok @ r) post i mc_cmd_linebreak"
  using nth_token [OF assms(2,3), of r] assms by (auto simp: rdb_def mc_cmd_linebreak_def)

text \<open>A request cut inside the key stops in the searching state, with the start of the key remembered.\<close>

lemma get_cut_in_key:
  assumes "CR \<notin> set part"
  shows "\<exists>d. mc_parse (mc_init mc_get_req MC_T_GET) (Some (bs ''get '' @ part, post)) = Some (NGX_AGAIN, d) \<and>
    mc_st d = drop 3 mc_get_req \<and> mc_pre d = Some 4"
proof -
  let ?buf = "bs ''get '' @ part"
  let ?sts = "[MC_ST_UNTIL_LB, MC_ST_KEY, MC_ST_LINE_BREAK, MC_ST_NULL]"
  let ?d = "(mc_init mc_get_req MC_T_GET)\<lparr>mc_cur := True, mc_c := Some (length (bs ''get '')), mc_st := MC_ST_DELIM # ?sts\<rparr>"
  have "mc_parse (mc_init mc_get_req MC_T_GET) (Some (?buf, post)) = mc_parse_loop ?buf post ?sts ?d"
    using head_run [of MC_T_GET "bs ''get''" ?buf part ?sts post] by (simp add: mc_get_req_def)
  moreover have "mc_find (\<lambda>i. mc_match ?buf post i mc_cmd_linebreak) (length (bs ''get '')) (length part) =
      (length (bs ''get '') + length part, False)"
    using no_linebreak [OF assms, of "bs ''get ''" _ "[]"] by (intro mc_find_none) simp
  ultimately show ?thesis
    by (simp add: mc_round_def mc_until_def mc_remember_cur_def mc_init_def mc_get_req_def)
qed

lemma get_cut_in_linebreak:
  assumes "CR \<notin> set key"
  shows "\<exists>d. mc_parse (mc_init mc_get_req MC_T_GET) (Some (bs ''get '' @ key @ [CR], post)) = Some (NGX_AGAIN, d)"
proof -
  let ?buf = "bs ''get '' @ key @ [CR]"
  let ?sts = "[MC_ST_UNTIL_LB, MC_ST_KEY, MC_ST_LINE_BREAK, MC_ST_NULL]"
  let ?d = "(mc_init mc_get_req MC_T_GET)\<lparr>mc_cur := True, mc_c := Some (length (bs ''get '')), mc_st := MC_ST_DELIM # ?sts\<rparr>"
  let ?m = "\<lambda>i. mc_match ?buf post i mc_cmd_linebreak"
  have run: "mc_parse (mc_init mc_get_req MC_T_GET) (Some (?buf, post)) = mc_parse_loop ?buf post ?sts ?d"
    using head_run [of MC_T_GET "bs ''get''" ?buf "key @ [CR]" ?sts post] by (simp add: mc_get_req_def)
  let ?k = "length (bs ''get '')"
  have "mc_find ?m ?k (length key + 1) = mc_find ?m (?k + length key) 1"
    using no_linebreak [OF assms, of "bs ''get ''" _ "[CR]"] by (intro mc_find_skip) simp
  moreover obtain c f where "mc_find ?m (?k + length key) 1 = (c, f)" "f \<longrightarrow> c = ?k + length key"
    by (cases "?m (?k + length key)") auto
  ultimately have cf: "mc_find ?m ?k (length key + 1) = (c, f)" "f \<longrightarrow> c = ?k + length key" by simp_all
  show ?thesis
    unfolding run using cf
    by (cases f) (simp_all add: mc_round_def mc_until_def mc_remember_cur_def mc_init_def mc_get_req_def
        mc_store_def mc_set_data_str_def mc_release_pre_def mc_expect_def mc_cmd_linebreak_def)
qed

text \<open>
  The searching states refuse to be entered twice: after \<^verbatim>\<open>NGX_AGAIN\<close> in one of them the position
  is still remembered, and the next call fails whatever the buffer holds.
\<close>

lemma mc_resume_fails:
  assumes "mc_st d = st # sts" and "st \<in> {MC_ST_UNTIL_DELIM, MC_ST_UNTIL_END, MC_ST_UNTIL_LB}" and "mc_pre d = Some p"
  shows "\<exists>d'. mc_parse d (Some (buf, post)) = Some (NGX_ERROR, d')"
  using assms
  by (auto simp: mc_parse_def Let_def mc_round_def mc_until_def mc_until_delim_def mc_remember_cur_def)

lemma prefix_cases:
  assumes "n < length (a @ key @ [CR, LF])"
  obtains "n < length a" "take n (a @ key @ [CR, LF]) = take n a"
  | m where "m \<le> length key" "take n (a @ key @ [CR, LF]) = a @ take m key"
  | "take n (a @ key @ [CR, LF]) = a @ key @ [CR]"
proof -
  consider "n < length a" | "length a \<le> n" "n \<le> length a + length key" | "n = length a + length key + 1"
    using assms by fastforce
  then show thesis
  proof cases
    case 2
    then show thesis using that(2) [of "n - length a"] by simp
  qed (use that in auto)
qed

text \<open>
  Every proper prefix of a \<^verbatim>\<open>get\<close> request (key without carriage return) makes the parser ask for
  more, whatever bytes lie beyond the data received; it neither accepts nor rejects early.
\<close>

theorem mc_parse_get_incomplete:
  assumes "CR \<notin> set key" and "n < length (bs ''get '' @ key @ [CR, LF])"
  shows "\<exists>d. mc_parse (mc_init mc_get_req MC_T_GET) (Some (take n (bs ''get '' @ key @ [CR, LF]), post)) =
    Some (NGX_AGAIN, d)"
  using assms(2)
proof (cases rule: prefix_cases)
  case 1
  then show ?thesis using head_short [of n post] by (simp only:) simp
next
  case (2 m)
  have "CR \<notin> set (take m key)" using assms(1) by (meson in_set_takeD)
  from get_cut_in_key [OF this, of post] 2 show ?thesis by (simp only:) blast
next
  case 3
  then show ?thesis using get_cut_in_linebreak [OF assms(1), of post] by (simp only:)
qed

theorem mc_parse_get_incomplete_witness:
  "\<exists>d. mc_parse (mc_init mc_get_req MC_T_GET) (Some (take 5 (bs ''get ab'' @ [CR, LF]), \<lambda>_. 0)) = Some (NGX_AGAIN, d)"
  using mc_parse_get_incomplete [of "bs ''ab''" 5 "\<lambda>_. 0"] by auto

text \<open>
  A \<^verbatim>\<open>get\<close> request that arrives in two pieces, the first ending inside the key, is never
  parsed: the first call returns \<^verbatim>\<open>NGX_AGAIN\<close> and the second one, with any data, \<^verbatim>\<open>NGX_ERROR\<close>.
\<close>

theorem mc_parse_get_resume:
  assumes "CR \<notin> set part"
  shows "\<exists>d d'. mc_parse (mc_init mc_get_req MC_T_GET) (Some (bs ''get '' @ part, post)) = Some (NGX_AGAIN, d) \<and>
    mc_parse d (Some (buf, post')) = Some (NGX_ERROR, d')"
proof -
  obtain d where "mc_parse (mc_init mc_get_req MC_T_GET) (Some (bs ''get '' @ part, post)) = Some (NGX_AGAIN, d)"
    "mc_st d = drop 3 mc_get_req" "mc_pre d = Some 4" using get_cut_in_key [OF assms] by blast
  with mc_resume_fails [of d MC_ST_UNTIL_LB "[MC_ST_KEY, MC_ST_LINE_BREAK, MC_ST_NULL]" 4 buf post'] show ?thesis
    by (auto simp: mc_get_req_def)
qed

theorem mc_parse_get_resume_witness:
  "\<exists>d d'. mc_parse (mc_init mc_get_req MC_T_GET) (Some (bs ''get a'', \<lambda>_. 0)) = Some (NGX_AGAIN, d) \<and>
    mc_parse d (Some (bs ''get ab'' @ [CR, LF], \<lambda>_. 0)) = Some (NGX_ERROR, d')"
  using mc_parse_get_resume [of "bs ''a''" "\<lambda>_. 0" "bs ''get ab'' @ [CR, LF]" "\<lambda>_. 0"] by auto

end
