(* ===== verification/Upstream_Hash.thy ===== *)
theory Upstream_Hash
  imports Ngx_Number Ngx_Crc32 Hash_Util
begin

text \<open>
  The load balancer of \<^verbatim>\<open>src/c/nginx_upstream_hash-0.2/ngx_http_upstream_hash_module.c\<close>: it hashes
  a variable of the request to choose an upstream server and, when the server fails, rehashes
  until it meets a server that has not failed yet or the tries are used up.

  Every step returns an \<open>option\<close>, \<open>None\<close> standing for a division by zero or an access outside an
  allocated block. \<open>ok\<close> arguments say whether a pool allocation succeeds. The results of
  \<^verbatim>\<open>ngx_http_script_compile\<close> and \<^verbatim>\<open>ngx_http_script_run\<close> are arguments. The platform is
  little-endian, which matters for the bytes of the hash that are hashed again.
\<close>

section \<open>Data\<close>

record hash_peer =
  hp_sockaddr :: bytes
  hp_socklen :: u32
  hp_name :: bytes

record hash_peers =
  ps_number :: ngx_uint
  ps_peer :: "hash_peer list"

record hash_peer_data =
  hpd_hash :: ngx_uint
  hpd_peers :: hash_peers
  hpd_tried :: "ngx_uint list"

record upstream_server =
  server_addrs :: "hash_peer list"

datatype hash_fn = HashKey | HashCrc32 | HashCrc32Short | Hash5381

record 's upstream_srv_conf =
  us_servers :: "upstream_server list option"
  us_peer_data :: "hash_peers option"
  us_values :: "'s option"
  us_retries :: ngx_uint
  us_hash_function :: "hash_fn option"

record peer_connection =
  pc_tries :: ngx_uint
  pc_cached :: bool
  pc_peer :: "hash_peer option"

definition ngx_bitvector_index :: "ngx_uint \<Rightarrow> nat" where
  "ngx_bitvector_index i = unat (i div 64)"

definition ngx_bitvector_bit :: "ngx_uint \<Rightarrow> ngx_uint" where
  "ngx_bitvector_bit i = push_bit (unat (i mod 64)) 1"

definition NGX_PEER_FAILED :: ngx_uint where "NGX_PEER_FAILED = 4"

section \<open>The hash functions\<close>

definition ngx_http_upstream_hash_crc32 :: "bytes \<Rightarrow> ngx_uint" where
  "ngx_http_upstream_hash_crc32 data = ucast (ngx_crc32_long data AND 0x7fff)"

definition ngx_http_upstream_hash_crc32_short :: "bytes \<Rightarrow> ngx_uint" where
  "ngx_http_upstream_hash_crc32_short data = ucast (ngx_crc32_short data AND 0x7fff)"

definition ngx_http_upstream_hash_5381 :: "bytes \<Rightarrow> ngx_uint" where
  "ngx_http_upstream_hash_5381 data =
     foldl (\<lambda>hash c. hash + (push_bit 5 hash + ucast c)) 5381 data AND 0x7fff"

fun run_hash :: "hash_fn \<Rightarrow> bytes \<Rightarrow> ngx_uint" where
  "run_hash HashKey data = ngx_hash_key data"
| "run_hash HashCrc32 data = ngx_http_upstream_hash_crc32 data"
| "run_hash HashCrc32Short data = ngx_http_upstream_hash_crc32_short data"
| "run_hash Hash5381 data = ngx_http_upstream_hash_5381 data"

section \<open>Setting up\<close>

text \<open>The peers are counted, a zeroed block is allocated and then filled address by address.\<close>

definition count_addrs :: "upstream_server list \<Rightarrow> ngx_uint" where
  "count_addrs servers = foldl (\<lambda>n s. n + of_nat (length (server_addrs s))) 0 servers"

fun fill_addrs :: "hash_peer list \<Rightarrow> nat \<Rightarrow> hash_peer list \<Rightarrow> (hash_peer list \<times> nat) option" where
  "fill_addrs [] n peer = Some (peer, n)"
| "fill_addrs (a # addrs) n peer =
     (if n < length peer then fill_addrs addrs (Suc n) (peer[n := a]) else None)"

fun fill_servers :: "upstream_server list \<Rightarrow> nat \<Rightarrow> hash_peer list \<Rightarrow> hash_peer list option" where
  "fill_servers [] n peer = Some peer"
| "fill_servers (s # servers) n peer =
     (case fill_addrs (server_addrs s) n peer of
        None \<Rightarrow> None
      | Some (peer', n') \<Rightarrow> fill_servers servers n' peer')"

definition zero_peer :: hash_peer where
  "zero_peer = \<lparr>hp_sockaddr = [], hp_socklen = 0, hp_name = []\<rparr>"

definition ngx_http_upstream_init_hash ::
    "bool \<Rightarrow> 's upstream_srv_conf \<Rightarrow> (ngx_rc \<times> 's upstream_srv_conf) option" where
  "ngx_http_upstream_init_hash ok us =
     (case us_servers us of
        None \<Rightarrow> Some (NGX_ERROR, us)
      | Some servers \<Rightarrow>
          let n = count_addrs servers in
          if \<not> ok then Some (NGX_ERROR, us)
          else (case fill_servers servers 0 (replicate (unat n) zero_peer) of
                  None \<Rightarrow> None
                | Some peer \<Rightarrow>
                    Some (NGX_OK, us\<lparr>us_peer_data := Some \<lparr>ps_number = n, ps_peer = peer\<rparr>\<rparr>)))"

text \<open>
  The block of the request has \<open>24 + 8 * number / 64\<close> bytes, of which the first \<open>16\<close> hold the hash
  and the pointer to the peers; the rest is the bit vector of the peers that were tried.
\<close>

definition peer_data_size :: "ngx_uint \<Rightarrow> ngx_uint" where
  "peer_data_size number = 24 + 8 * number div 64"

definition ngx_http_upstream_init_hash_peer ::
    "bool \<Rightarrow> bytes option \<Rightarrow> 's upstream_srv_conf \<Rightarrow>
      (ngx_rc \<times> (hash_peer_data \<times> peer_connection) option) option" where
  "ngx_http_upstream_init_hash_peer ok val us =
     (case val of
        None \<Rightarrow> Some (NGX_ERROR, None)
      | Some v \<Rightarrow>
          (case us_peer_data us of
             None \<Rightarrow> None
           | Some peers \<Rightarrow>
               if \<not> ok then Some (NGX_ERROR, None)
               else (case us_hash_function us of
                       None \<Rightarrow> None
                     | Some f \<Rightarrow>
                         Some (NGX_OK, Some
                           (\<lparr>hpd_hash = run_hash f v, hpd_peers = peers,
                             hpd_tried = replicate ((unat (peer_data_size (ps_number peers)) - 16) div 8) 0\<rparr>,
                            \<lparr>pc_tries = us_retries us + 1, pc_cached = False, pc_peer = None\<rparr>)))))"

section \<open>Choosing and giving up a peer\<close>

definition peer_index :: "hash_peer_data \<Rightarrow> ngx_uint option" where
  "peer_index d =
     (if ps_number (hpd_peers d) = 0 then None else Some (hpd_hash d mod ps_number (hpd_peers d)))"

definition ngx_http_upstream_get_hash_peer ::
    "hash_peer_data \<Rightarrow> peer_connection \<Rightarrow> (ngx_rc \<times> peer_connection) option" where
  "ngx_http_upstream_get_hash_peer d pc =
     (case peer_index d of
        None \<Rightarrow> None
      | Some i \<Rightarrow>
          if unat i < length (ps_peer (hpd_peers d))
          then Some (NGX_OK, pc\<lparr>pc_cached := False, pc_peer := Some (ps_peer (hpd_peers d) ! unat i)\<rparr>)
          else None)"

definition word_bytes :: "ngx_uint \<Rightarrow> bytes" where
  "word_bytes w = map (\<lambda>i. ucast (drop_bit (8 * i) w)) [0..<8]"

definition rehash :: "hash_peer_data \<Rightarrow> hash_peer_data" where
  "rehash d = d\<lparr>hpd_hash := ngx_hash_key (word_bytes (hpd_hash d))\<rparr>"

definition is_tried :: "hash_peer_data \<Rightarrow> ngx_uint \<Rightarrow> bool option" where
  "is_tried d i =
     (if ngx_bitvector_index i < length (hpd_tried d)
      then Some (hpd_tried d ! ngx_bitvector_index i AND ngx_bitvector_bit i \<noteq> 0)
      else None)"

definition mark_tried :: "hash_peer_data \<Rightarrow> ngx_uint \<Rightarrow> hash_peer_data option" where
  "mark_tried d i =
     (let j = ngx_bitvector_index i in
      if j < length (hpd_tried d)
      then Some (d\<lparr>hpd_tried := (hpd_tried d)[j := hpd_tried d ! j OR ngx_bitvector_bit i]\<rparr>)
      else None)"

lemma unat_dec: "w \<noteq> 0 \<Longrightarrow> unat (w - 1) = unat w - 1" for w :: ngx_uint
  by (simp add: unat_minus_one)

lemma tries_measure: "tries \<noteq> 1 \<Longrightarrow> unat (tries - 2) < unat (tries - 1)" for tries :: ngx_uint
  using unat_dec [of "tries - 1"] unat_gt_0 [of "tries - 1"] by simp

text \<open>The \<^verbatim>\<open>do\<close> loop ends for every value of the counter, since it is decremented in each round.\<close>

function (sequential) rehash_loop :: "hash_peer_data \<Rightarrow> ngx_uint \<Rightarrow> (hash_peer_data \<times> ngx_uint) option" where
  "rehash_loop d tries =
     (let d' = rehash d in
      case peer_index d' of
        None \<Rightarrow> None
      | Some current \<Rightarrow>
          (case is_tried d' current of
             None \<Rightarrow> None
           | Some b \<Rightarrow>
               if b then
                 if tries - 1 \<noteq> 0 then rehash_loop d' (tries - 1) else Some (d', tries - 1)
               else Some (d', tries)))"
  by pat_completeness auto
termination
  by (relation "measure (\<lambda>(d, tries). unat (tries - 1))") (auto simp: tries_measure)

declare rehash_loop.simps [simp del]

definition ngx_http_upstream_free_hash_peer ::
    "hash_peer_data \<Rightarrow> peer_connection \<Rightarrow> ngx_uint \<Rightarrow> (hash_peer_data \<times> peer_connection) option" where
  "ngx_http_upstream_free_hash_peer d pc state =
     (if state AND NGX_PEER_FAILED \<noteq> 0 then
        let tries = pc_tries pc - 1 in
        if tries \<noteq> 0 then
          (case peer_index d of
             None \<Rightarrow> None
           | Some current \<Rightarrow>
               (case mark_tried d current of
                  None \<Rightarrow> None
                | Some d' \<Rightarrow>
                    (case rehash_loop d' tries of
                       None \<Rightarrow> None
                     | Some (d'', tries') \<Rightarrow> Some (d'', pc\<lparr>pc_tries := tries'\<rparr>))))
        else Some (d, pc\<lparr>pc_tries := tries\<rparr>)
      else Some (d, pc))"

section \<open>Commands\<close>

definition ngx_http_upstream_hash ::
    "'s option \<Rightarrow> 's upstream_srv_conf \<Rightarrow> conf_result \<times> 's upstream_srv_conf" where
  "ngx_http_upstream_hash compiled uscf =
     (case compiled of
        None \<Rightarrow> (Some [], uscf)
      | Some script \<Rightarrow>
          (None, uscf\<lparr>us_values := Some script,
                      us_hash_function :=
                        (if us_hash_function uscf = None then Some HashKey else us_hash_function uscf)\<rparr>))"

definition ngx_http_upstream_hash_method ::
    "bytes \<Rightarrow> 's upstream_srv_conf \<Rightarrow> conf_result \<times> 's upstream_srv_conf" where
  "ngx_http_upstream_hash_method value uscf =
     (if value = bs ''crc32'' then (None, uscf\<lparr>us_hash_function := Some HashCrc32\<rparr>)
      else if value = bs ''crc32s'' then (None, uscf\<lparr>us_hash_function := Some HashCrc32Short\<rparr>)
      else if value = bs ''5381'' then (None, uscf\<lparr>us_hash_function := Some Hash5381\<rparr>)
      else if value = bs ''simple'' then (None, uscf\<lparr>us_hash_function := Some HashKey\<rparr>)
      else (Some ''invalid hash method'', uscf))"

definition ngx_http_upstream_hash_again ::
    "bytes \<Rightarrow> 's upstream_srv_conf \<Rightarrow> conf_result \<times> 's upstream_srv_conf" where
  "ngx_http_upstream_hash_again value uscf =
     (let n = ngx_atoi value in
      if n = NGX_ERROR_VAL \<or> sint n < 0 then (Some ''invalid number'', uscf)
      else (None, uscf\<lparr>us_retries := n\<rparr>))"

section \<open>The list of peers\<close>

definition all_addrs :: "upstream_server list \<Rightarrow> hash_peer list" where
  "all_addrs servers = concat (map server_addrs servers)"

lemma count_addrs_from:
  "foldl (\<lambda>n s. n + of_nat (length (server_addrs s))) (of_nat k) servers =
     (of_nat (k + length (all_addrs servers)) :: ngx_uint)"
proof (induction servers arbitrary: k)
  case (Cons s servers)
  from Cons.IH [of "k + length (server_addrs s)"] show ?case by (simp add: all_addrs_def algebra_simps)
qed (simp add: all_addrs_def)

lemma count_addrs_eq: "count_addrs servers = of_nat (length (all_addrs servers))"
  using count_addrs_from [of 0 servers] by (simp add: count_addrs_def)

lemma fill_addrs_eq:
  "length new = length addrs \<Longrightarrow>
   fill_addrs addrs (length done) (done @ new @ rest) = Some (done @ addrs @ rest, length done + length addrs)"
proof (induction addrs arbitrary: "done" new)
  case (Cons a addrs)
  then obtain b new' where new: "new = b # new'" "length new' = length addrs" by (cases new) auto
  from Cons.IH [OF new(2), of "done @ [a]"] show ?case by (simp add: new(1))
qed simp

lemma fill_servers_eq:
  "length new = length (all_addrs servers) \<Longrightarrow>
   fill_servers servers (length done) (done @ new) = Some (done @ all_addrs servers)"
proof (induction servers arbitrary: "done" new)
  case (Cons s servers)
  let ?k = "length (server_addrs s)"
  from Cons.prems have len: "length (take ?k new) = ?k" "length (drop ?k new) = length (all_addrs servers)"
    by (simp_all add: all_addrs_def)
  have "fill_addrs (server_addrs s) (length done) (done @ new) =
      Some (done @ server_addrs s @ drop ?k new, length done + ?k)"
    using fill_addrs_eq [OF len(1), of "done" "drop ?k new"] by simp
  then show ?case
    using Cons.IH [OF len(2), of "done @ server_addrs s"] by (simp add: all_addrs_def)
qed (simp add: all_addrs_def)

lemma init_hash_ok:
  assumes "us_servers us = Some servers" and "length (all_addrs servers) < 2 ^ 64"
  shows "ngx_http_upstream_init_hash True us =
    Some (NGX_OK, us\<lparr>us_peer_data :=
      Some \<lparr>ps_number = of_nat (length (all_addrs servers)), ps_peer = all_addrs servers\<rparr>\<rparr>)"
  using assms fill_servers_eq [of "replicate (length (all_addrs servers)) zero_peer" servers "[]"]
  by (simp add: ngx_http_upstream_init_hash_def count_addrs_eq unat_of_nat64 Let_def)

section \<open>The bit vector\<close>

definition hpd_ok :: "hash_peer_data \<Rightarrow> bool" where
  "hpd_ok d \<longleftrightarrow>
     ps_number (hpd_peers d) \<noteq> 0 \<and> length (ps_peer (hpd_peers d)) = unat (ps_number (hpd_peers d)) \<and>
     length (hpd_tried d) = 1 + unat (ps_number (hpd_peers d)) div 64"

abbreviation current_peer :: "hash_peer_data \<Rightarrow> ngx_uint" where
  "current_peer d \<equiv> hpd_hash d mod ps_number (hpd_peers d)"

abbreviation tried_peer :: "hash_peer_data \<Rightarrow> ngx_uint \<Rightarrow> bool" where
  "tried_peer d i \<equiv> is_tried d i = Some True"

lemma peer_data_words:
  assumes "unat number < 2 ^ 60"
  shows "(unat (peer_data_size number) - 16) div 8 = 1 + unat number div 64"
proof -
  have "unat (8 * number) = 8 * unat number" using assms by (simp add: unat_word_ariths)
  then have "unat (8 * number div 64) = unat number div 8" by (simp add: unat_div)
  with assms have "unat (peer_data_size number) = 24 + unat number div 8"
    by (simp add: peer_data_size_def unat_word_ariths)
  then have "(unat (peer_data_size number) - 16) div 8 = (8 + unat number div 8) div 8" by simp
  also have "\<dots> = 1 + unat number div 64" by (simp add: div_mult2_eq [symmetric])
  finally show ?thesis .
qed

lemma bitvector_bit_iff: "w AND ngx_bitvector_bit i \<noteq> 0 \<longleftrightarrow> bit w (unat (i mod 64))"
  by (simp add: ngx_bitvector_bit_def bit_iff_and_push_bit_not_eq_0)

lemma bit_bitvector_bit: "bit (ngx_bitvector_bit i) (unat (j mod 64)) \<longleftrightarrow> i mod 64 = j mod 64"
proof -
  have "unat (j mod 64) < 64" by (simp add: unat_mod)
  then show ?thesis
    by (auto simp: ngx_bitvector_bit_def bit_simps word_unat_eq_iff)
qed

lemma bitvector_index_inj: "ngx_bitvector_index i = ngx_bitvector_index j \<Longrightarrow> i mod 64 = j mod 64 \<Longrightarrow> i = j"
  by (metis ngx_bitvector_index_def word_unat_eq_iff div_mult_mod_eq)

lemma index_ok:
  assumes "hpd_ok d"
  shows "unat (current_peer d) < unat (ps_number (hpd_peers d))"
    and "ngx_bitvector_index (current_peer d) < length (hpd_tried d)"
proof -
  show lt: "unat (current_peer d) < unat (ps_number (hpd_peers d))"
    using assms by (simp add: hpd_ok_def unat_mod unat_gt_0)
  have "unat (current_peer d) div 64 \<le> unat (ps_number (hpd_peers d)) div 64"
    using lt by (intro div_le_mono) simp
  then show "ngx_bitvector_index (current_peer d) < length (hpd_tried d)"
    using assms by (simp add: hpd_ok_def ngx_bitvector_index_def unat_div)
qed

lemma tried_peer_iff:
  "tried_peer d j \<longleftrightarrow>
     ngx_bitvector_index j < length (hpd_tried d) \<and> bit (hpd_tried d ! ngx_bitvector_index j) (unat (j mod 64))"
  using bitvector_bit_iff [of "hpd_tried d ! ngx_bitvector_index j" j] by (simp add: is_tried_def)

lemma mark_tried_ok:
  assumes "hpd_ok d"
  obtains d' where "mark_tried d (current_peer d) = Some d'" and "hpd_ok d'" and "hpd_peers d' = hpd_peers d"
    and "hpd_hash d' = hpd_hash d"
    and "\<And>j. tried_peer d' j \<longleftrightarrow> j = current_peer d \<or> tried_peer d j"
proof -
  let ?i = "current_peer d" and ?j = "ngx_bitvector_index (current_peer d)"
  let ?d = "d\<lparr>hpd_tried := (hpd_tried d)[?j := hpd_tried d ! ?j OR ngx_bitvector_bit ?i]\<rparr>"
  have sel: "hpd_tried ?d = (hpd_tried d)[?j := hpd_tried d ! ?j OR ngx_bitvector_bit ?i]" by simp
  have "tried_peer ?d j \<longleftrightarrow> j = ?i \<or> tried_peer d j" for j
  proof (cases "ngx_bitvector_index j = ?j")
    case True
    note idx = index_ok(2) [OF assms]
    have "tried_peer ?d j \<longleftrightarrow> bit (hpd_tried d ! ?j OR ngx_bitvector_bit ?i) (unat (j mod 64))"
      using idx by (simp only: tried_peer_iff True sel nth_list_update_eq length_list_update simp_thms)
    also have "\<dots> \<longleftrightarrow> ?i mod 64 = j mod 64 \<or> tried_peer d j"
      using idx by (auto simp only: bit_or_iff bit_bitvector_bit tried_peer_iff True)
    also have "?i mod 64 = j mod 64 \<longleftrightarrow> j = ?i" using bitvector_index_inj [OF True] by auto
    finally show ?thesis .
  next
    case False
    then show ?thesis by (auto simp: tried_peer_iff)
  qed
  moreover have "mark_tried d ?i = Some ?d" using index_ok(2) [OF assms] by (simp add: mark_tried_def Let_def)
  moreover have "hpd_ok ?d" using assms by (simp add: hpd_ok_def)
  ultimately show thesis using that [of ?d] by simp
qed

section \<open>Retrying\<close>

lemma rehash_simps [simp]:
  "hpd_peers (rehash d) = hpd_peers d" "hpd_ok (rehash d) = hpd_ok d" "is_tried (rehash d) i = is_tried d i"
  by (simp_all add: rehash_def hpd_ok_def is_tried_def)

lemma peer_index_ok: "hpd_ok d \<Longrightarrow> peer_index d = Some (current_peer d)"
  by (simp add: peer_index_def hpd_ok_def)

lemma is_tried_current: "hpd_ok d \<Longrightarrow> \<exists>b. is_tried d (current_peer d) = Some b"
  using index_ok(2) by (auto simp: is_tried_def)

lemma rehash_loop_ok:
  "hpd_ok d \<Longrightarrow> tries \<noteq> 0 \<Longrightarrow>
   \<exists>d' t. rehash_loop d tries = Some (d', t) \<and> hpd_ok d' \<and> hpd_peers d' = hpd_peers d \<and> is_tried d' = is_tried d \<and>
     unat t \<le> unat tries \<and> (t \<noteq> 0 \<longrightarrow> \<not> tried_peer d' (current_peer d'))"
proof (induction d tries rule: rehash_loop.induct)
  case (1 d tries)
  let ?d = "rehash d"
  have ok: "hpd_ok ?d" using 1 by simp
  obtain b where b: "is_tried ?d (current_peer ?d) = Some b" using is_tried_current [OF ok] by auto
  have unfold: "rehash_loop d tries =
      (if b then if tries - 1 \<noteq> 0 then rehash_loop ?d (tries - 1) else Some (?d, tries - 1) else Some (?d, tries))"
    using b by (subst rehash_loop.simps) (simp add: peer_index_ok [OF ok] Let_def)
  have same: "is_tried ?d = is_tried d" by (intro ext) simp
  have dec: "unat (tries - 1) = unat tries - 1" using 1 by (intro unat_dec)
  show ?case
  proof (cases "b \<and> tries - 1 \<noteq> 0")
    case True
    from 1(1) [OF refl peer_index_ok [OF ok] b] True ok show ?thesis
      unfolding unfold using dec same by fastforce
  next
    case False
    then show ?thesis unfolding unfold using b ok dec same by auto
  qed
qed

inductive hash_attempts ::
    "hash_peer_data \<Rightarrow> peer_connection \<Rightarrow> ngx_uint list \<Rightarrow> hash_peer_data \<Rightarrow> peer_connection \<Rightarrow> bool"
  for d0 pc0 where
  start: "hash_attempts d0 pc0 [] d0 pc0"
| failed: "\<lbrakk>hash_attempts d0 pc0 ps d pc; pc_tries pc \<noteq> 0;
            ngx_http_upstream_get_hash_peer d pc = Some (NGX_OK, pc'); peer_index d = Some i;
            state AND NGX_PEER_FAILED \<noteq> 0;
            ngx_http_upstream_free_hash_peer d pc' state = Some (d', pc'')\<rbrakk>
     \<Longrightarrow> hash_attempts d0 pc0 (ps @ [i]) d' pc''"

lemma get_hash_peer_ok:
  "hpd_ok d \<Longrightarrow> ngx_http_upstream_get_hash_peer d pc =
     Some (NGX_OK, pc\<lparr>pc_cached := False, pc_peer := Some (ps_peer (hpd_peers d) ! unat (current_peer d))\<rparr>)"
  using index_ok(1) [of d] by (simp add: ngx_http_upstream_get_hash_peer_def peer_index_ok hpd_ok_def)

lemma free_hash_peer_ok:
  assumes "hpd_ok d" and "pc_tries pc \<noteq> 0" and "state AND NGX_PEER_FAILED \<noteq> 0"
  shows "\<exists>d' t. ngx_http_upstream_free_hash_peer d pc state = Some (d', pc\<lparr>pc_tries := t\<rparr>) \<and>
    hpd_ok d' \<and> hpd_peers d' = hpd_peers d \<and> unat t < unat (pc_tries pc) \<and>
    (t \<noteq> 0 \<longrightarrow> (\<forall>j. tried_peer d' j \<longleftrightarrow> j = current_peer d \<or> tried_peer d j) \<and> \<not> tried_peer d' (current_peer d'))"
proof -
  have dec: "unat (pc_tries pc - 1) < unat (pc_tries pc)"
    using assms(2) unat_dec [of "pc_tries pc"] unat_gt_0 [of "pc_tries pc"] by simp
  show ?thesis
  proof (cases "pc_tries pc - 1 = 0")
    case True
    with assms dec show ?thesis by (auto simp: ngx_http_upstream_free_hash_peer_def Let_def)
  next
    case False
    obtain d1 where m: "mark_tried d (current_peer d) = Some d1" and d1: "hpd_ok d1" "hpd_peers d1 = hpd_peers d"
      and tr: "\<And>j. tried_peer d1 j \<longleftrightarrow> j = current_peer d \<or> tried_peer d j"
      using mark_tried_ok [OF assms(1)] by metis
    obtain d2 t where l: "rehash_loop d1 (pc_tries pc - 1) = Some (d2, t)" and d2: "hpd_ok d2"
        "hpd_peers d2 = hpd_peers d1" "is_tried d2 = is_tried d1" "unat t \<le> unat (pc_tries pc - 1)"
        "t \<noteq> 0 \<longrightarrow> \<not> tried_peer d2 (current_peer d2)"
      using rehash_loop_ok [OF d1(1) False] by auto
    have "ngx_http_upstream_free_hash_peer d pc state = Some (d2, pc\<lparr>pc_tries := t\<rparr>)"
      using False assms(3) m l
      by (simp add: ngx_http_upstream_free_hash_peer_def peer_index_ok [OF assms(1)] Let_def)
    then show ?thesis using d1 d2 dec tr by auto
  qed
qed

definition attempts_inv :: "hash_peers \<Rightarrow> nat \<Rightarrow> ngx_uint list \<Rightarrow> hash_peer_data \<Rightarrow> peer_connection \<Rightarrow> bool" where
  "attempts_inv peers n ps d pc \<longleftrightarrow>
     hpd_ok d \<and> hpd_peers d = peers \<and> distinct ps \<and> (\<forall>i \<in> set ps. i < ps_number peers) \<and>
     length ps + unat (pc_tries pc) \<le> n \<and>
     (pc_tries pc \<noteq> 0 \<longrightarrow> (\<forall>i. tried_peer d i \<longleftrightarrow> i \<in> set ps) \<and> current_peer d \<notin> set ps)"

lemma attempts_inv_reached:
  assumes "hash_attempts d0 pc0 ps d pc" and "attempts_inv peers n [] d0 pc0"
  shows "attempts_inv peers n ps d pc"
  using assms(1)
proof (induction rule: hash_attempts.induct)
  case start
  show ?case by (rule assms(2))
next
  case (failed ps d pc pc' i state d' pc'')
  have ok: "hpd_ok d" and tries: "pc_tries pc' = pc_tries pc" and i: "i = current_peer d"
    using failed get_hash_peer_ok [of d pc] peer_index_ok [of d] by (auto simp: attempts_inv_def)
  obtain t where t: "pc'' = pc'\<lparr>pc_tries := t\<rparr>" "hpd_ok d'" "hpd_peers d' = hpd_peers d" "unat t < unat (pc_tries pc)"
      "t \<noteq> 0 \<longrightarrow> (\<forall>j. tried_peer d' j \<longleftrightarrow> j = current_peer d \<or> tried_peer d j) \<and> \<not> tried_peer d' (current_peer d')"
    using free_hash_peer_ok [OF ok, of pc' state] failed tries by auto
  have "current_peer d < ps_number (hpd_peers d)" using index_ok(1) [OF ok] by (simp add: word_less_nat_alt)
  with t failed i show ?case by (auto simp: attempts_inv_def)
qed

section \<open>Properties\<close>

lemma init_hash_peer_ok:
  assumes "us_peer_data us = Some peers" and "us_hash_function us = Some f"
    and "ps_number peers = of_nat (length (ps_peer peers))" "ps_peer peers \<noteq> []" "length (ps_peer peers) < 2 ^ 60"
    and "unat (us_retries us) < 2 ^ 63"
  obtains d pc where "ngx_http_upstream_init_hash_peer True (Some v) us = Some (NGX_OK, Some (d, pc))"
    and "hpd_hash d = run_hash f v" and "attempts_inv peers (unat (us_retries us) + 1) [] d pc"
proof -
  have n: "unat (ps_number peers) = length (ps_peer peers)" using assms by (simp add: unat_of_nat64)
  then have "ps_number peers \<noteq> 0" using assms(4) unat_gt_0 [of "ps_number peers"] by simp
  let ?d = "\<lparr>hpd_hash = run_hash f v, hpd_peers = peers,
      hpd_tried = replicate ((unat (peer_data_size (ps_number peers)) - 16) div 8) 0\<rparr>"
  let ?pc = "\<lparr>pc_tries = us_retries us + 1, pc_cached = False, pc_peer = None\<rparr>"
  have "\<not> tried_peer ?d i" for i by (auto simp: tried_peer_iff)
  moreover have "unat (us_retries us + 1) = unat (us_retries us) + 1" using assms(6) by (simp add: unat_word_ariths)
  ultimately have "attempts_inv peers (unat (us_retries us) + 1) [] ?d ?pc"
    using n \<open>ps_number peers \<noteq> 0\<close> assms(5) by (simp add: attempts_inv_def hpd_ok_def peer_data_words)
  then show thesis using assms(1,2) that [of ?d ?pc] by (simp add: ngx_http_upstream_init_hash_peer_def)
qed

lemma hash_configured_peers:
  assumes "us_servers us = Some servers" and "all_addrs servers \<noteq> []" and "length (all_addrs servers) < 2 ^ 60"
    and "us_hash_function us = Some f" and "unat (us_retries us) < 2 ^ 63"
  obtains us' d pc where "ngx_http_upstream_init_hash True us = Some (NGX_OK, us')"
    and "ngx_http_upstream_init_hash_peer True (Some v) us' = Some (NGX_OK, Some (d, pc))"
    and "hpd_hash d = run_hash f v"
    and "attempts_inv \<lparr>ps_number = of_nat (length (all_addrs servers)), ps_peer = all_addrs servers\<rparr>
           (unat (us_retries us) + 1) [] d pc"
proof -
  let ?ps = "\<lparr>ps_number = of_nat (length (all_addrs servers)), ps_peer = all_addrs servers\<rparr>"
  let ?us = "us\<lparr>us_peer_data := Some ?ps\<rparr>"
  have i: "ngx_http_upstream_init_hash True us = Some (NGX_OK, ?us)"
    by (rule init_hash_ok) (use assms in simp_all)
  obtain d pc where "ngx_http_upstream_init_hash_peer True (Some v) ?us = Some (NGX_OK, Some (d, pc))"
    "hpd_hash d = run_hash f v" "attempts_inv ?ps (unat (us_retries ?us) + 1) [] d pc"
    by (rule init_hash_peer_ok [of ?us ?ps f v]) (use assms in simp_all)
  with i that [of ?us d pc] show thesis by simp
qed

lemma mod_of_nat64: "n < 2 ^ 64 \<Longrightarrow> unat (w mod of_nat n) = unat w mod n" for w :: ngx_uint
  by (simp add: unat_mod unat_of_nat64)

text \<open>
  C34. The peers of an upstream are all addresses of its servers in order; the first peer that
  is chosen for a request is the one at the hash of the configured value modulo their number,
  for every hash function and every value.
\<close>

theorem upstream_hash_choice:
  assumes "us_servers us = Some servers" and "all_addrs servers \<noteq> []" and "length (all_addrs servers) < 2 ^ 60"
    and "us_hash_function us = Some f" and "unat (us_retries us) < 2 ^ 63"
  shows "\<exists>us' d pc pc'. ngx_http_upstream_init_hash True us = Some (NGX_OK, us') \<and>
    ngx_http_upstream_init_hash_peer True (Some v) us' = Some (NGX_OK, Some (d, pc)) \<and>
    ngx_http_upstream_get_hash_peer d pc = Some (NGX_OK, pc') \<and>
    pc_peer pc' = Some (all_addrs servers ! (unat (run_hash f v) mod length (all_addrs servers)))"
proof -
  obtain us' d pc where *: "ngx_http_upstream_init_hash True us = Some (NGX_OK, us')"
    "ngx_http_upstream_init_hash_peer True (Some v) us' = Some (NGX_OK, Some (d, pc))"
    "hpd_hash d = run_hash f v"
    "attempts_inv \<lparr>ps_number = of_nat (length (all_addrs servers)), ps_peer = all_addrs servers\<rparr>
           (unat (us_retries us) + 1) [] d pc" by (rule hash_configured_peers [OF assms])
  then show ?thesis using get_hash_peer_ok [of d pc] assms(3) by (simp add: attempts_inv_def mod_of_nat64)
qed

text \<open>
  C18. However many of the chosen peers fail, no peer is tried twice for one request, there are
  never more than \<^verbatim>\<open>hash_again + 1\<close> attempts, every access stays inside the allocated blocks, and
  as long as tries are left the next peer exists and differs from all that failed.
\<close>

theorem upstream_hash_retries:
  assumes "us_servers us = Some servers" and "all_addrs servers \<noteq> []" and "length (all_addrs servers) < 2 ^ 60"
    and "us_hash_function us = Some f" and "unat (us_retries us) < 2 ^ 63"
    and "ngx_http_upstream_init_hash True us = Some (NGX_OK, us')"
    and "ngx_http_upstream_init_hash_peer True (Some v) us' = Some (NGX_OK, Some (d0, pc0))"
    and "hash_attempts d0 pc0 ps d pc"
  shows "distinct ps \<and> (\<forall>i \<in> set ps. unat i < length (all_addrs servers)) \<and>
    length ps + unat (pc_tries pc) \<le> unat (us_retries us) + 1 \<and>
    (pc_tries pc \<noteq> 0 \<longrightarrow>
       (\<exists>i pc'. peer_index d = Some i \<and> i \<notin> set ps \<and>
          ngx_http_upstream_get_hash_peer d pc = Some (NGX_OK, pc') \<and>
          pc_peer pc' = Some (all_addrs servers ! unat i) \<and>
          (\<forall>state. ngx_http_upstream_free_hash_peer d pc' state \<noteq> None)))"
proof -
  let ?ps = "\<lparr>ps_number = of_nat (length (all_addrs servers)), ps_peer = all_addrs servers\<rparr>"
  have "attempts_inv ?ps (unat (us_retries us) + 1) [] d0 pc0"
    by (rule hash_configured_peers [OF assms(1-5), of v]) (use assms(6,7) in auto)
  from attempts_inv_reached [OF assms(8) this]
  have inv: "attempts_inv ?ps (unat (us_retries us) + 1) ps d pc" .
  then have ok: "hpd_ok d" by (simp add: attempts_inv_def)
  have free: "\<exists>a b. ngx_http_upstream_free_hash_peer d pc' state = Some (a, b)"
    if "pc_tries pc' \<noteq> 0" for pc' state
    using free_hash_peer_ok [OF ok that, of state]
    by (cases "state AND NGX_PEER_FAILED = 0") (auto simp: ngx_http_upstream_free_hash_peer_def)
  have "unat (of_nat (length (all_addrs servers)) :: ngx_uint) = length (all_addrs servers)"
    using assms(3) by (simp add: unat_of_nat64)
  with inv show ?thesis
    using get_hash_peer_ok [OF ok, of pc] peer_index_ok [OF ok] by (auto simp: attempts_inv_def word_less_nat_alt free)
qed

text \<open>An upstream with two servers of two addresses each, hashed by \<^verbatim>\<open>ngx_hash_key\<close> with two retries.\<close>

definition demo_addr :: "byte \<Rightarrow> hash_peer" where
  "demo_addr n = \<lparr>hp_sockaddr = [n], hp_socklen = 16, hp_name = [n]\<rparr>"

definition demo_servers :: "upstream_server list" where
  "demo_servers = [\<lparr>server_addrs = [demo_addr 1, demo_addr 2]\<rparr>, \<lparr>server_addrs = [demo_addr 3, demo_addr 4]\<rparr>]"

definition demo_us :: "unit upstream_srv_conf" where
  "demo_us = \<lparr>us_servers = Some demo_servers, us_peer_data = None, us_values = Some (), us_retries = 2,
     us_hash_function = Some HashKey\<rparr>"

definition demo_peers :: hash_peers where
  "demo_peers = \<lparr>ps_number = 4, ps_peer = [demo_addr 1, demo_addr 2, demo_addr 3, demo_addr 4]\<rparr>"

definition demo_hpd :: "ngx_uint \<Rightarrow> ngx_uint \<Rightarrow> hash_peer_data" where
  "demo_hpd h b = \<lparr>hpd_hash = h, hpd_peers = demo_peers, hpd_tried = [b]\<rparr>"

definition demo_pc :: "ngx_uint \<Rightarrow> hash_peer option \<Rightarrow> peer_connection" where
  "demo_pc t p = \<lparr>pc_tries = t, pc_cached = False, pc_peer = p\<rparr>"

lemmas demo_defs = demo_us_def demo_servers_def demo_peers_def demo_hpd_def demo_pc_def demo_addr_def

lemma demo_side:
  "us_servers demo_us = Some demo_servers" "all_addrs demo_servers = ps_peer demo_peers"
  "ps_peer demo_peers \<noteq> []" "length (ps_peer demo_peers) < 2 ^ 60" "length (ps_peer demo_peers) = 4"
  "us_hash_function demo_us = Some HashKey" "unat (us_retries demo_us) < 2 ^ 63"
  "run_hash HashKey [97] = 97"
  by (simp_all add: demo_defs all_addrs_def ngx_hash_key_def ngx_hash_def)

lemma demo_init:
  "ngx_http_upstream_init_hash True demo_us = Some (NGX_OK, demo_us\<lparr>us_peer_data := Some demo_peers\<rparr>)"
  "ngx_http_upstream_init_hash_peer True (Some [97]) (demo_us\<lparr>us_peer_data := Some demo_peers\<rparr>) =
     Some (NGX_OK, Some (demo_hpd 97 0, demo_pc 3 None))"
  by code_simp+

lemma demo_fail:
  "ngx_http_upstream_get_hash_peer (demo_hpd 97 0) (demo_pc 3 None) = Some (NGX_OK, demo_pc 3 (Some (demo_addr 2)))"
  "peer_index (demo_hpd 97 0) = Some 1"
  "ngx_http_upstream_free_hash_peer (demo_hpd 97 0) (demo_pc 3 (Some (demo_addr 2))) 4 =
     Some (demo_hpd 2668723568767 2, demo_pc 2 (Some (demo_addr 2)))"
  by code_simp+

theorem upstream_hash_choice_witness:
  "\<exists>us' d pc pc'. ngx_http_upstream_init_hash True demo_us = Some (NGX_OK, us') \<and>
    ngx_http_upstream_init_hash_peer True (Some [97]) us' = Some (NGX_OK, Some (d, pc)) \<and>
    ngx_http_upstream_get_hash_peer d pc = Some (NGX_OK, pc') \<and> pc_peer pc' = Some (demo_addr 2)"
  using upstream_hash_choice [OF demo_side(1), of HashKey "[97]"] demo_side by (simp add: demo_peers_def)

lemma demo_attempts: "hash_attempts (demo_hpd 97 0) (demo_pc 3 None) [1] (demo_hpd 2668723568767 2) (demo_pc 2 (Some (demo_addr 2)))"
  using hash_attempts.failed [OF hash_attempts.start _ demo_fail(1,2), of 4] demo_fail(3)
  by (simp add: NGX_PEER_FAILED_def demo_pc_def)

theorem upstream_hash_retries_witness:
  "\<exists>i pc'. peer_index (demo_hpd 2668723568767 2) = Some i \<and> i \<noteq> 1 \<and>
     ngx_http_upstream_get_hash_peer (demo_hpd 2668723568767 2) (demo_pc 2 (Some (demo_addr 2))) = Some (NGX_OK, pc') \<and>
     pc_peer pc' = Some (all_addrs demo_servers ! unat i)"
proof -
  have "pc_tries (demo_pc 2 (Some (demo_addr 2))) \<noteq> 0" by (simp add: demo_pc_def)
  with upstream_hash_retries [OF demo_side(1) _ _ demo_side(6,7) demo_init demo_attempts] demo_side(2-4)
  show ?thesis by auto
qed

section \<open>A rehash that changes nothing\<close>

text \<open>
  Both \<open>31\<close> and \<open>256\<close> leave remainder \<open>1\<close> modulo \<open>15\<close>, and the hash of eight bytes does not wrap.
  The hash of the bytes of a number therefore has the remainder of the number itself.
\<close>

fun key_nat :: "nat \<Rightarrow> bytes \<Rightarrow> nat" where
  "key_nat k [] = k"
| "key_nat k (c # cs) = key_nat (k * 31 + unat c) cs"

lemma key_nat_bound: "key_nat k cs \<le> (k + 255 * length cs) * 31 ^ length cs"
proof (induction cs arbitrary: k)
  case (Cons c cs)
  have c: "unat c \<le> 255" using unat_byte_less [of c] by linarith
  have "key_nat (k * 31 + unat c) cs \<le> (k * 31 + unat c + 255 * length cs) * 31 ^ length cs" by (rule Cons.IH)
  also have "\<dots> \<le> ((k + 255 * length (c # cs)) * 31) * 31 ^ length cs"
    by (rule mult_right_mono) (use c in simp_all)
  finally show ?case by (simp add: algebra_simps)
qed simp

lemma hash_key_of_nat: "foldl ngx_hash (of_nat k) cs = of_nat (key_nat k cs)"
proof (induction cs arbitrary: k)
  case (Cons c cs)
  have "ngx_hash (of_nat k) c = of_nat (k * 31 + unat c)" 
    by (simp only: ngx_hash_def ucast_of_byte of_nat_add of_nat_mult of_nat_numeral)
  with Cons.IH [of "k * 31 + unat c"] show ?case by (simp only: foldl_Cons key_nat.simps)
qed simp

lemma key_nat_8: "length cs = 8 \<Longrightarrow> key_nat 0 cs < 2 ^ 64"
  by (rule le_less_trans [OF key_nat_bound]) simp

lemma hash_key_unat: "length cs = 8 \<Longrightarrow> unat (ngx_hash_key cs) = key_nat 0 cs"
  using hash_key_of_nat [of 0 cs] unat_of_nat64 [OF key_nat_8] by (simp add: ngx_hash_key_def)

lemma key_nat_mod_15: "key_nat k cs mod 15 = (k + sum_list (map unat cs)) mod 15"
proof (induction cs arbitrary: k)
  case (Cons c cs)
  let ?s = "sum_list (map unat cs)"
  have "k * 31 + unat c + ?s = (k + unat c + ?s) + 15 * (2 * k)" by simp
  then have "(k * 31 + unat c + ?s) mod 15 = (k + unat c + ?s) mod 15" by (simp only: mod_mult_self2)
  with Cons.IH [of "k * 31 + unat c"] show ?case by (simp only: key_nat.simps list.map sum_list.Cons add.assoc)
qed simp

fun le_value :: "bytes \<Rightarrow> nat" where
  "le_value [] = 0"
| "le_value (c # cs) = unat c + 256 * le_value cs"

lemma le_value_mod_15: "le_value cs mod 15 = sum_list (map unat cs) mod 15"
proof (induction cs)
  case (Cons c cs)
  have "unat c + 256 * le_value cs = (unat c + le_value cs) + 15 * (17 * le_value cs)" by simp
  then have "(unat c + 256 * le_value cs) mod 15 = (unat c + le_value cs) mod 15" by (simp only: mod_mult_self2)
  also have "\<dots> = (unat c + sum_list (map unat cs)) mod 15" using Cons.IH by (rule mod_add_cong [OF refl])
  finally show ?case by (simp only: le_value.simps list.map sum_list.Cons)
qed simp

lemma unat_low_byte: "unat (ucast w :: byte) = unat w mod 256" for w :: ngx_uint
  by (simp add: unsigned_ucast_eq take_bit_eq_mod)

lemma le_value_word_bytes: "le_value (map (\<lambda>i. ucast (drop_bit (8 * i) w)) [k..<k + n]) =
    unat (drop_bit (8 * k) w) mod 256 ^ n" for w :: ngx_uint
proof (induction n arbitrary: k)
  case (Suc n)
  have "[k..<k + Suc n] = k # [Suc k..<Suc k + n]" by (simp add: upt_rec)
  then have "le_value (map (\<lambda>i. ucast (drop_bit (8 * i) w)) [k..<k + Suc n]) =
      unat (drop_bit (8 * k) w) mod 256 + 256 * (unat (drop_bit (8 * Suc k) w) mod 256 ^ n)"
    using Suc.IH [of "Suc k"] by (simp only: list.map le_value.simps unat_low_byte)
  also have "drop_bit (8 * Suc k) w = drop_bit 8 (drop_bit (8 * k) w)" by (simp add: drop_bit_drop_bit add.commute)
  also have "unat (drop_bit 8 (drop_bit (8 * k) w)) = unat (drop_bit (8 * k) w) div 256"
    by (simp add: drop_bit_eq_div unat_div)
  finally show ?case by (simp add: mod_mult2_eq add.commute)
qed simp

lemma rehash_mod_15: "unat (ngx_hash_key (word_bytes w)) mod 15 = unat w mod 15"
proof -
  have "le_value (word_bytes w) = unat w"
    using le_value_word_bytes [of w 0 8] unat_u64_less [of w] by (simp add: word_bytes_def)
  moreover have "unat (ngx_hash_key (word_bytes w)) = key_nat 0 (word_bytes w)"
    by (rule hash_key_unat) (simp add: word_bytes_def)
  ultimately show ?thesis by (metis key_nat_mod_15 le_value_mod_15 add_0)
qed

lemma rehash_same_peer:
  assumes "hpd_ok d" and "unat (ps_number (hpd_peers d)) dvd 15"
  shows "current_peer (rehash d) = current_peer d"
proof -
  let ?n = "unat (ps_number (hpd_peers d))"
  have "unat (ngx_hash_key (word_bytes (hpd_hash d))) mod 15 mod ?n = unat (hpd_hash d) mod 15 mod ?n"
    by (simp only: rehash_mod_15)
  then show ?thesis using assms(2) by (simp add: rehash_def mod_mod_cancel word_unat_eq_iff unat_mod)
qed

lemma rehash_loop_stuck:
  "hpd_ok d \<Longrightarrow> unat (ps_number (hpd_peers d)) dvd 15 \<Longrightarrow> tried_peer d (current_peer d) \<Longrightarrow> tries \<noteq> 0 \<Longrightarrow>
   \<exists>d'. rehash_loop d tries = Some (d', 0)"
proof (induction d tries rule: rehash_loop.induct)
  case (1 d tries)
  let ?d = "rehash d"
  have ok: "hpd_ok ?d" using 1 by simp
  have b: "is_tried ?d (current_peer ?d) = Some True" using rehash_same_peer [of d] 1 by simp
  have unfold: "rehash_loop d tries = (if tries - 1 \<noteq> 0 then rehash_loop ?d (tries - 1) else Some (?d, tries - 1))"
    using b by (subst rehash_loop.simps) (simp add: peer_index_ok [OF ok] Let_def)
  show ?case
  proof (cases "tries - 1 = 0")
    case False
    from 1(1) [OF refl peer_index_ok [OF ok] b TrueI False] ok b 1 False show ?thesis unfolding unfold by auto
  next
    case True
    then show ?thesis unfolding unfold by simp
  qed
qed

text \<open>
  With three, five or fifteen peers a failed peer is never replaced: the rehash of a
  hash always selects the same peer again, so giving a peer up uses up all tries whatever
  \<^verbatim>\<open>hash_again\<close> is set to.
\<close>

theorem upstream_hash_never_moves:
  assumes "hpd_ok d" and "unat (ps_number (hpd_peers d)) dvd 15"
    and "pc_tries pc \<noteq> 0" and "state AND NGX_PEER_FAILED \<noteq> 0"
  shows "\<exists>d'. ngx_http_upstream_free_hash_peer d pc state = Some (d', pc\<lparr>pc_tries := 0\<rparr>)"
proof (cases "pc_tries pc - 1 = 0")
  case True
  with assms(4) show ?thesis by (simp add: ngx_http_upstream_free_hash_peer_def Let_def)
next
  case False
  obtain d1 where m: "mark_tried d (current_peer d) = Some d1" and d1: "hpd_ok d1" "hpd_peers d1 = hpd_peers d"
      "hpd_hash d1 = hpd_hash d" and tr: "\<And>j. tried_peer d1 j \<longleftrightarrow> j = current_peer d \<or> tried_peer d j"
    using mark_tried_ok [OF assms(1)] by metis
  obtain d2 where "rehash_loop d1 (pc_tries pc - 1) = Some (d2, 0)"
    using rehash_loop_stuck [OF d1(1) _ _ False] assms(2) d1 tr by auto
  with False assms(4) m show ?thesis
    by (simp add: ngx_http_upstream_free_hash_peer_def peer_index_ok [OF assms(1)] Let_def)
qed

definition demo_three :: hash_peer_data where
  "demo_three = \<lparr>hpd_hash = 7, hpd_peers = \<lparr>ps_number = 3, ps_peer = [demo_addr 1, demo_addr 2, demo_addr 3]\<rparr>, hpd_tried = [0]\<rparr>"

theorem upstream_hash_never_moves_witness:
  "\<exists>d'. ngx_http_upstream_free_hash_peer demo_three (demo_pc 9 None) 4 = Some (d', demo_pc 0 None)"
  using upstream_hash_never_moves [of demo_three "demo_pc 9 None" 4]
  by (simp add: demo_three_def demo_pc_def hpd_ok_def NGX_PEER_FAILED_def dvd_def)

end
