(* ===== verification/List_Item.thy ===== *)
theory List_Item
  imports Variables
begin

text \<open>
  The module \<^verbatim>\<open>src/c/ngx_http_list_module\<close>: \<^verbatim>\<open>setlist\<close> declares a list variable, \<^verbatim>\<open>getitem\<close> and
  \<^verbatim>\<open>getranditem\<close> declare variables that hold one item of it.

  The context of a list variable lives in the configuration and keeps the last text that was
  assigned. Results are \<open>None\<close> when a null pointer is used or a loop does not end. The reads of
  the byte before and of the byte behind the list, which the loops do before they test the index,
  do not change what the loops do and are left out. Lists are shorter than \<open>2 ^ 31\<close>, so that the
  \<^verbatim>\<open>int\<close> indices of the random choice do not overflow.
\<close>

section \<open>Handlers\<close>

record list_ctx =
  lc_idx :: nat
  lc_delim :: byte
  lc_raw :: bytes

record listitem_ctx =
  li_vi :: "nat option"
  li_ii :: "nat option"
  li_list :: "nat option"
  li_is_rand :: bool

definition ngx_http_list_get_handler :: "vvl \<Rightarrow> ngx_rc \<times> vvl" where
  "ngx_http_list_get_handler v = (NGX_OK, v)"

definition ngx_http_list_set_handler :: "vvl list \<Rightarrow> vvl \<Rightarrow> list_ctx \<Rightarrow> list_ctx \<times> vvl list" where
  "ngx_http_list_set_handler vars v ctx =
     (ctx\<lparr>lc_raw := vl_data v\<rparr>,
      vars[lc_idx ctx := (vars ! lc_idx ctx)\<lparr>vl_data := vl_data v, vl_valid := True, vl_not_found := False\<rparr>])"

text \<open>The ends of the item around a position, and the random choice: \<open>rnd k\<close> is the \<open>k\<close>-th result of \<^verbatim>\<open>random()\<close>.\<close>

fun item_start :: "bytes \<Rightarrow> byte \<Rightarrow> nat \<Rightarrow> nat" where
  "item_start raw delim 0 = 0"
| "item_start raw delim (Suc a) = (if raw ! a \<noteq> delim then item_start raw delim a else Suc a)"

partial_function (option) rand_item_loop :: "(nat \<Rightarrow> nat) \<Rightarrow> nat \<Rightarrow> bytes \<Rightarrow> byte \<Rightarrow> (nat \<times> nat) option" where
  "rand_item_loop rnd k raw delim =
     (let p = rnd k mod length raw;
          a = item_start raw delim p;
          b = next_tok raw delim p
      in if a = b then rand_item_loop rnd (Suc k) raw delim else Some (a, b))"

text \<open>Skipping delimiters, and the search for the item with the index \<open>ii\<close>.\<close>

function skip_delims :: "bytes \<Rightarrow> byte \<Rightarrow> nat \<Rightarrow> nat" where
  "skip_delims raw delim i = (if i < length raw \<and> raw ! i = delim then skip_delims raw delim (Suc i) else i)"
  by pat_completeness auto
termination by (relation "measure (\<lambda>(raw, _, i). length raw - i)") auto

declare skip_delims.simps [simp del]

lemma next_tok_le: "i \<le> next_tok raw delim i"
  by (induction raw delim i rule: next_tok.induct) (subst next_tok.simps, auto)

lemma skip_delims_le: "i \<le> skip_delims raw delim i"
  by (induction raw delim i rule: skip_delims.induct) (subst skip_delims.simps, auto)

lemma item_advances: "i < length raw \<Longrightarrow> i < skip_delims raw delim (next_tok raw delim i)"
proof -
  assume i: "i < length raw"
  show ?thesis
  proof (cases "raw ! i = delim")
    case True
    then have "next_tok raw delim i = i" by (subst next_tok.simps) simp
    moreover have "skip_delims raw delim i = skip_delims raw delim (Suc i)"
      using True i by (subst skip_delims.simps) simp
    ultimately show ?thesis using skip_delims_le [of "Suc i" raw delim] by simp
  next
    case False
    then have "next_tok raw delim i = next_tok raw delim (Suc i)" using i by (subst next_tok.simps) simp
    then show ?thesis
      using next_tok_le [of "Suc i" raw delim] skip_delims_le [of "next_tok raw delim i" raw delim] by simp
  qed
qed

function find_item :: "bytes \<Rightarrow> byte \<Rightarrow> nat \<Rightarrow> nat \<Rightarrow> nat \<Rightarrow> (nat \<times> nat) option" where
  "find_item raw delim ii i j =
     (if i < length raw then
        let e = next_tok raw delim i in
        if ii = j then Some (i, e) else find_item raw delim ii (skip_delims raw delim e) (Suc j)
      else None)"
  by pat_completeness auto
termination
  by (relation "measure (\<lambda>(raw, _, _, i, _). length raw - i)") (auto intro: diff_less_mono2 item_advances)

declare find_item.simps [simp del]

definition item_value :: "bytes \<Rightarrow> bool \<Rightarrow> vvl \<Rightarrow> vvl" where
  "item_value d valid v = v\<lparr>vl_data := d, vl_valid := valid, vl_not_found := False\<rparr>"

text \<open>
  The get handler of an item: \<open>iiv\<close> is the value of the index variable, \<open>lctx\<close> the data of the list
  variable, a null pointer when no \<^verbatim>\<open>setlist\<close> set it.
\<close>

definition ngx_http_listitem_get_handler ::
    "(nat \<Rightarrow> nat) \<Rightarrow> nat \<Rightarrow> bool \<Rightarrow> vvl option \<Rightarrow> list_ctx option \<Rightarrow> vvl \<Rightarrow> (ngx_rc \<times> vvl) option" where
  "ngx_http_listitem_get_handler rnd k is_rand iiv lctx v =
     (case iiv of
        None \<Rightarrow> Some (NGX_OK, item_value [] False v)
      | Some iiv \<Rightarrow>
          let ii = ngx_atoi (vl_data iiv);
              ii = (if ii = NGX_ERROR_VAL then 0 else ii)
          in (case lctx of
                None \<Rightarrow> None
              | Some lctx \<Rightarrow>
                  let delim = lc_delim lctx; raw = lc_raw lctx in
                  if raw = [] then Some (NGX_OK, item_value [] True v)
                  else if is_rand then
                    (case rand_item_loop rnd k raw delim of
                       None \<Rightarrow> None
                     | Some (a, b) \<Rightarrow> Some (NGX_OK, item_value (take (b - a) (drop a raw)) True v))
                  else
                    let i = skip_delims raw delim 0 in
                    if i = length raw then Some (NGX_OK, item_value [] True v)
                    else (case find_item raw delim (unat ii) i 0 of
                            None \<Rightarrow> Some (NGX_OK, item_value [] True v)
                          | Some (a, e) \<Rightarrow> Some (NGX_OK, item_value (take (e - a) (drop a raw)) True v))))"

section \<open>Commands\<close>

datatype list_handler = ListVar "list_ctx option" | ItemVar "listitem_ctx option"

definition ngx_http_set_list_command ::
    "bool \<Rightarrow> bool \<Rightarrow> bytes list \<Rightarrow> list_handler var_conf \<Rightarrow> (conf_result \<times> list_handler var_conf) option" where
  "ngx_http_set_list_command ok_var ok_ctx args vc =
     (if 2 > length args then Some (Some ''not enough list arguments'', vc)
      else
        case ngx_http_get_var_name_str (args ! 1) of
          Inl res \<Rightarrow> Some (Some res, vc)
        | Inr listname \<Rightarrow>
            (case (if length args = 3 \<or> args ! 2 = [] then Inr (cb (CHR '' ''))
                   else if length (args ! 2) \<noteq> 1 then Inl ''delimiter too long'' else Inr (hd (args ! 2))) of
               Inl res \<Rightarrow> Some (Some res, vc)
             | Inr delim \<Rightarrow>
                 (case ngx_http_add_variable ok_var vc listname True of
                    (None, vc) \<Rightarrow> None
                  | (Some v, vc) \<Rightarrow>
                      if \<not> ok_ctx then
                        Some (Some ''alloc ctx failed'',
                              var_set_set_handler v (ListVar None) (var_set_get_handler v (ListVar None) vc))
                      else
                        let h = ListVar (Some \<lparr>lc_idx = 0, lc_delim = delim, lc_raw = []\<rparr>)
                        in Some (None, var_set_set_handler v h (var_set_get_handler v h vc)))))"

definition ngx_http_list_getitem_command ::
    "bool \<Rightarrow> bool \<Rightarrow> bytes list \<Rightarrow> list_handler var_conf \<Rightarrow> (conf_result \<times> list_handler var_conf) option" where
  "ngx_http_list_getitem_command ok_var ok_ctx argvalues vc =
     (if length argvalues \<noteq> 4 then Some (Some ''not enough arguments, need 3'', vc)
      else
        case (ngx_http_get_var_name_str (argvalues ! 1), ngx_http_get_var_name_str (argvalues ! 2),
              ngx_http_get_var_name_str (argvalues ! 3)) of
          (Inl res, _, _) \<Rightarrow> Some (Some res, vc)
        | (_, Inl res, _) \<Rightarrow> Some (Some res, vc)
        | (_, _, Inl res) \<Rightarrow> Some (Some res, vc)
        | (Inr vname, Inr lname, Inr iname) \<Rightarrow>
            (case ngx_http_add_variable ok_var vc vname True of
               (None, vc) \<Rightarrow> None
             | (Some v, vc) \<Rightarrow>
                 if \<not> ok_ctx then None
                 else
                   let (vi, vc) = ngx_http_get_variable_index ok_var vc vname;
                       (lv, vc) = ngx_http_add_variable ok_var vc lname True;
                       (ii, vc) = ngx_http_get_variable_index ok_var vc iname
                   in Some (None, var_set_get_handler v
                        (ItemVar (Some \<lparr>li_vi = vi, li_ii = ii, li_list = lv,
                           li_is_rand = (take 11 (argvalues ! 0) = bs ''getranditem'')\<rparr>)) vc)))"

section \<open>The items of a list\<close>

definition items :: "byte \<Rightarrow> bytes \<Rightarrow> bytes list" where
  "items d s = filter (\<lambda>x. x \<noteq> []) (split_fields d s)"

lemma split_fields_join: "split_fields d (x @ d # y) = split_fields d x @ split_fields d y"
  by (induction x) (auto simp: neq_Nil_conv)

lemma items_delim [simp]: "items d (d # s) = items d s"
  by (simp add: items_def)

lemma items_skip: "items d (dropWhile (\<lambda>c. c = d) s) = items d s"
  by (induction s) (auto simp: items_def)

lemma items_Cons:
  assumes "s \<noteq> []" and "hd s \<noteq> d"
  shows "items d s = takeWhile (\<lambda>c. c \<noteq> d) s # items d (dropWhile (\<lambda>c. c \<noteq> d) s)"
proof -
  let ?t = "takeWhile (\<lambda>c. c \<noteq> d) s" and ?r = "dropWhile (\<lambda>c. c \<noteq> d) s"
  have t: "?t \<noteq> []" "d \<notin> set ?t" using assms by (cases s, auto dest: set_takeWhileD)
  have s: "s = ?t @ ?r" by simp
  show ?thesis
  proof (cases ?r)
    case Nil
    with s have "items d s = items d ?t" by simp
    then show ?thesis unfolding Nil using t by (simp add: items_def)
  next
    case (Cons c r)
    then have "c = d" using hd_dropWhile [of "\<lambda>c. c \<noteq> d" s] by simp
    with s Cons have "items d s = items d (?t @ d # r)" by simp
    then show ?thesis using t Cons \<open>c = d\<close> by (simp add: items_def)
  qed
qed

lemma next_tok_takeWhile: "next_tok raw d i = i + length (takeWhile (\<lambda>c. c \<noteq> d) (drop i raw))"
proof (induction raw d i rule: next_tok.induct)
  case (1 raw d i)
  then show ?case by (cases "i < length raw") (subst next_tok.simps, auto simp: drop_one)+
qed

lemma skip_delims_takeWhile: "skip_delims raw d i = i + length (takeWhile (\<lambda>c. c = d) (drop i raw))"
proof (induction raw d i rule: skip_delims.induct)
  case (1 raw d i)
  then show ?case by (cases "i < length raw") (subst skip_delims.simps, auto simp: drop_one)+
qed

lemma drop_next_tok: "drop (next_tok raw d i) raw = dropWhile (\<lambda>c. c \<noteq> d) (drop i raw)"
  unfolding next_tok_takeWhile by (rule drop_takeWhile)

lemma drop_skip_delims: "drop (skip_delims raw d i) raw = dropWhile (\<lambda>c. c = d) (drop i raw)"
  unfolding skip_delims_takeWhile by (rule drop_takeWhile)

lemma item_text: "take (next_tok raw d i - i) (drop i raw) = takeWhile (\<lambda>c. c \<noteq> d) (drop i raw)"
  by (simp add: next_tok_takeWhile takeWhile_eq_take [symmetric])

lemma hd_skip: "drop (skip_delims raw d i) raw \<noteq> [] \<Longrightarrow> hd (drop (skip_delims raw d i) raw) \<noteq> d"
  unfolding drop_skip_delims by (rule hd_dropWhile)

lemma find_item_spec:
  "(i < length raw \<Longrightarrow> raw ! i \<noteq> d) \<Longrightarrow> j \<le> ii \<Longrightarrow>
   (case find_item raw d ii i j of None \<Rightarrow> [] | Some (a, e) \<Rightarrow> take (e - a) (drop a raw)) =
     (if ii - j < length (items d (drop i raw)) then items d (drop i raw) ! (ii - j) else [])"
proof (induction raw d ii i j rule: find_item.induct)
  case (1 raw d ii i j)
  show ?case
  proof (cases "i < length raw")
    case False
    then show ?thesis by (subst find_item.simps) (simp add: items_def)
  next
    case True
    let ?e = "next_tok raw d i"
    let ?i = "skip_delims raw d ?e"
    have "drop i raw \<noteq> []" "hd (drop i raw) \<noteq> d" using 1 True by (auto simp: hd_drop_conv_nth)
    then have items_eq: "items d (drop i raw) = takeWhile (\<lambda>c. c \<noteq> d) (drop i raw) # items d (drop ?i raw)"
      by (simp add: items_Cons drop_skip_delims drop_next_tok items_skip)
    show ?thesis
    proof (cases "ii = j")
      case eq: True
      then show ?thesis using True by (subst find_item.simps) (simp add: items_eq item_text Let_def)
    next
      case False
      then have "Suc j \<le> ii" using 1 by simp
      moreover have "?i < length raw \<Longrightarrow> raw ! ?i \<noteq> d"
        using hd_skip [of raw d ?e] by (simp add: hd_drop_conv_nth)
      ultimately have "(case find_item raw d ii ?i (Suc j) of None \<Rightarrow> [] | Some (a, e) \<Rightarrow> take (e - a) (drop a raw)) =
          (if ii - Suc j < length (items d (drop ?i raw)) then items d (drop ?i raw) ! (ii - Suc j) else [])"
        using 1(1) [OF True refl False] by simp
      moreover have "find_item raw d ii i j = find_item raw d ii ?i (Suc j)"
        using True False by (subst find_item.simps) (simp add: Let_def)
      moreover have "ii - j = Suc (ii - Suc j)" using \<open>Suc j \<le> ii\<close> by simp
      ultimately show ?thesis by (simp add: items_eq)
    qed
  qed
qed

text \<open>
  \<^verbatim>\<open>getitem\<close> gives the item whose number is the value of the index variable among the
  non-empty fields of the list, the empty value when there are not that many, and the first
  item when the index is not a number.
\<close>

theorem list_getitem:
  "ngx_http_listitem_get_handler rnd k False (Some iiv) (Some lctx) v =
     (let n = (if ngx_atoi (vl_data iiv) = NGX_ERROR_VAL then 0 else unat (ngx_atoi (vl_data iiv)));
          its = items (lc_delim lctx) (lc_raw lctx)
      in Some (NGX_OK, item_value (if n < length its then its ! n else []) True v))"
proof -
  let ?raw = "lc_raw lctx" and ?d = "lc_delim lctx"
  let ?i = "skip_delims ?raw ?d 0"
  define n where "n = (if ngx_atoi (vl_data iiv) = NGX_ERROR_VAL then 0 else unat (ngx_atoi (vl_data iiv)))"
  have same: "items ?d (drop ?i ?raw) = items ?d ?raw" by (simp add: drop_skip_delims items_skip)
  have "?i < length ?raw \<Longrightarrow> ?raw ! ?i \<noteq> ?d" using hd_skip [of ?raw ?d 0] by (simp add: hd_drop_conv_nth)
  from find_item_spec [OF this, of 0 n]
  have spec: "(case find_item ?raw ?d n ?i 0 of None \<Rightarrow> [] | Some (a, e) \<Rightarrow> take (e - a) (drop a ?raw)) =
      (if n < length (items ?d ?raw) then items ?d ?raw ! n else [])" by (simp add: same)
  have unat_n: "unat (if ngx_atoi (vl_data iiv) = NGX_ERROR_VAL then 0 else ngx_atoi (vl_data iiv)) = n"
    by (simp add: n_def)
  have empty: "items ?d ?raw = []" if "?raw = [] \<or> ?i = length ?raw" using that same by (auto simp: items_def)
  show ?thesis
  proof (cases "?raw = [] \<or> ?i = length ?raw")
    case True
    with empty show ?thesis by (auto simp: ngx_http_listitem_get_handler_def Let_def)
  next
    case False
    then have "ngx_http_listitem_get_handler rnd k False (Some iiv) (Some lctx) v =
        Some (NGX_OK, item_value (case find_item ?raw ?d n ?i 0 of None \<Rightarrow> [] | Some (a, e) \<Rightarrow> take (e - a) (drop a ?raw)) True v)"
      by (simp add: ngx_http_listitem_get_handler_def Let_def unat_n split: option.split prod.split)
    then show ?thesis unfolding spec by (simp add: n_def Let_def)
  qed
qed

section \<open>The random item\<close>

definition item_at :: "bytes \<Rightarrow> byte \<Rightarrow> nat \<Rightarrow> nat \<times> nat" where
  "item_at raw d p = (item_start raw d p, next_tok raw d p)"

lemma item_start_props:
  assumes "p \<le> length raw"
  shows "item_start raw d p \<le> p \<and> (\<forall>i. item_start raw d p \<le> i \<and> i < p \<longrightarrow> raw ! i \<noteq> d) \<and>
    (item_start raw d p = 0 \<or> raw ! (item_start raw d p - 1) = d)"
  using assms by (induction p) (auto simp: less_Suc_eq)

lemma next_tok_props:
  assumes "p \<le> length raw"
  shows "p \<le> next_tok raw d p \<and> next_tok raw d p \<le> length raw \<and>
    (\<forall>i. p \<le> i \<and> i < next_tok raw d p \<longrightarrow> raw ! i \<noteq> d) \<and>
    (next_tok raw d p < length raw \<longrightarrow> raw ! next_tok raw d p = d)"
  using assms
proof (induction raw d p rule: next_tok.induct)
  case (1 raw d p)
  show ?case
  proof (cases "p < length raw \<and> raw ! p \<noteq> d")
    case True
    with 1 have "next_tok raw d p = next_tok raw d (Suc p)" by (subst next_tok.simps) simp
    moreover have H: "Suc p \<le> next_tok raw d (Suc p) \<and> next_tok raw d (Suc p) \<le> length raw \<and>
        (\<forall>i. Suc p \<le> i \<and> i < next_tok raw d (Suc p) \<longrightarrow> raw ! i \<noteq> d) \<and>
        (next_tok raw d (Suc p) < length raw \<longrightarrow> raw ! next_tok raw d (Suc p) = d)"
      using 1(1) [OF True] True by simp
    moreover have "raw ! i \<noteq> d" if "p \<le> i" "i < next_tok raw d (Suc p)" for i
      using that H True by (cases "i = p") auto
    ultimately show ?thesis by simp
  next
    case False
    then have "next_tok raw d p = p" by (subst next_tok.simps) auto
    with 1 False show ?thesis by auto
  qed
qed

lemma item_at_in_items:
  assumes "p \<le> length raw" and "item_at raw d p = (a, b)" and "a \<noteq> b"
  shows "take (b - a) (drop a raw) \<in> set (items d raw)"
proof -
  have a: "a \<le> p" "\<forall>i. a \<le> i \<and> i < p \<longrightarrow> raw ! i \<noteq> d" "a = 0 \<or> raw ! (a - 1) = d"
    using item_start_props [OF assms(1), of d] assms(2) by (auto simp: item_at_def)
  have b: "p \<le> b" "b \<le> length raw" "\<forall>i. p \<le> i \<and> i < b \<longrightarrow> raw ! i \<noteq> d" "b < length raw \<longrightarrow> raw ! b = d"
    using next_tok_props [OF assms(1), of d] assms(2) by (auto simp: item_at_def)
  let ?t = "take (b - a) (drop a raw)"
  have no: "d \<notin> set ?t"
  proof
    assume "d \<in> set ?t"
    then obtain i where "i < b - a" "raw ! (a + i) = d" using b by (auto simp: in_set_conv_nth)
    then show False using a b by (cases "a + i < p") auto
  qed
  have raw: "raw = take a raw @ ?t @ drop b raw"
    using a b by (metis append_take_drop_id drop_drop le_add_diff_inverse2 order_trans)
  have "?t \<noteq> []" using assms(3) a b by simp
  have "drop b raw = [] \<or> (\<exists>r. drop b raw = d # r)" using b by (cases "b < length raw") (auto simp: drop_one)
  then have tail: "?t \<in> set (split_fields d (?t @ drop b raw))" using no by auto
  have "take a raw = [] \<or> (\<exists>q. take a raw = q @ [d])"
    using a b by (cases a) (auto simp: take_Suc_conv_app_nth)
  then have "?t \<in> set (split_fields d (take a raw @ ?t @ drop b raw))"
    using tail by (auto simp: split_fields_join)
  then show ?thesis using raw \<open>?t \<noteq> []\<close> by (simp add: items_def)
qed

lemma rand_item_returned:
  assumes "rand_item_loop rnd k raw d = Some y"
  shows "\<exists>k' \<ge> k. item_at raw d (rnd k' mod length raw) = y \<and> fst y \<noteq> snd y"
proof (rule rand_item_loop.raw_induct [where P = "\<lambda>rnd k raw d y.
    \<exists>k' \<ge> k. item_at raw d (rnd k' mod length raw) = y \<and> fst y \<noteq> snd y", OF _ assms])
  fix loop rnd k raw d and y :: "nat \<times> nat"
  assume ih: "\<And>rnd k raw d y. loop rnd k raw d = Some y \<Longrightarrow>
      \<exists>k' \<ge> k. item_at raw d (rnd k' mod length raw) = y \<and> fst y \<noteq> snd y"
    and step: "(let p = rnd k mod length raw; a = item_start raw d p; b = next_tok raw d p
      in if a = b then loop rnd (Suc k) raw d else Some (a, b)) = Some y"
  show "\<exists>k' \<ge> k. item_at raw d (rnd k' mod length raw) = y \<and> fst y \<noteq> snd y"
  proof (cases "item_start raw d (rnd k mod length raw) = next_tok raw d (rnd k mod length raw)")
    case True
    with step have "loop rnd (Suc k) raw d = Some y" by (simp add: Let_def)
    from ih [OF this] show ?thesis using Suc_leD by blast
  next
    case False
    with step show ?thesis by (intro exI [of _ k]) (auto simp: Let_def item_at_def)
  qed
qed

lemma rand_item_reached:
  "item_at raw d (rnd (k + n) mod length raw) = (a, b) \<Longrightarrow> a \<noteq> b \<Longrightarrow> \<exists>y. rand_item_loop rnd k raw d = Some y"
proof (induction n arbitrary: k)
  case 0
  then show ?case by (subst rand_item_loop.simps) (simp add: item_at_def Let_def)
next
  case (Suc n)
  then show ?case using Suc.IH [of "Suc k"] by (subst rand_item_loop.simps) (simp add: Let_def)
qed

lemma items_none: "set raw \<subseteq> {d} \<Longrightarrow> items d raw = []"
  by (induction raw) (auto simp: items_def)

lemma item_at_inside: "p < length raw \<Longrightarrow> raw ! p \<noteq> d \<Longrightarrow> fst (item_at raw d p) \<noteq> snd (item_at raw d p)"
  using item_start_props [of p raw d] next_tok_le [of "Suc p" raw d]
  by (simp add: item_at_def next_tok.simps [of raw d p])

text \<open>
  C38. \<^verbatim>\<open>getranditem\<close> on a list with at least one item returns one of its items, provided the random
  source keeps hitting every position; on a list of delimiters only it never returns, whatever
  the random source does.
\<close>

theorem list_getranditem:
  assumes "lc_raw lctx \<noteq> []"
  shows "(items (lc_delim lctx) (lc_raw lctx) = [] \<longrightarrow>
      ngx_http_listitem_get_handler rnd k True (Some iiv) (Some lctx) v = None) \<and>
    (items (lc_delim lctx) (lc_raw lctx) \<noteq> [] \<and>
      (\<forall>p < length (lc_raw lctx). \<exists>n. rnd (k + n) mod length (lc_raw lctx) = p) \<longrightarrow>
      (\<exists>x \<in> set (items (lc_delim lctx) (lc_raw lctx)).
        ngx_http_listitem_get_handler rnd k True (Some iiv) (Some lctx) v = Some (NGX_OK, item_value x True v)))"
proof -
  let ?raw = "lc_raw lctx" and ?d = "lc_delim lctx"
  have pos: "rnd n mod length ?raw < length ?raw" for n using assms by simp
  have handler: "ngx_http_listitem_get_handler rnd k True (Some iiv) (Some lctx) v =
      map_option (\<lambda>(a, b). (NGX_OK, item_value (take (b - a) (drop a ?raw)) True v)) (rand_item_loop rnd k ?raw ?d)"
    using assms by (simp add: ngx_http_listitem_get_handler_def Let_def split: option.split)
  have "rand_item_loop rnd k ?raw ?d = None" if none: "items ?d ?raw = []"
  proof (rule ccontr)
    assume "rand_item_loop rnd k ?raw ?d \<noteq> None"
    then obtain a b n where "item_at ?raw ?d (rnd n mod length ?raw) = (a, b)" "a \<noteq> b"
      using rand_item_returned by fastforce
    with item_at_in_items [OF less_imp_le [OF pos]] none show False by fastforce
  qed
  moreover have "\<exists>a b. rand_item_loop rnd k ?raw ?d = Some (a, b) \<and> take (b - a) (drop a ?raw) \<in> set (items ?d ?raw)"
    if some: "items ?d ?raw \<noteq> []" and hits: "\<forall>p < length ?raw. \<exists>n. rnd (k + n) mod length ?raw = p"
  proof -
    have "\<not> set ?raw \<subseteq> {?d}" using some items_none by blast
    then obtain c where "c \<in> set ?raw" "c \<noteq> ?d" by blast
    then obtain p where p: "p < length ?raw" "?raw ! p \<noteq> ?d" by (auto simp: in_set_conv_nth)
    with hits obtain n where n: "rnd (k + n) mod length ?raw = p" by blast
    obtain a b where "item_at ?raw ?d p = (a, b)" "a \<noteq> b"
      using item_at_inside [OF p] by (cases "item_at ?raw ?d p") auto
    then obtain y where y: "rand_item_loop rnd k ?raw ?d = Some y"
      using rand_item_reached [of ?raw ?d rnd k n] n by blast
    then obtain a' b' m where "y = (a', b')" "item_at ?raw ?d (rnd m mod length ?raw) = (a', b')" "a' \<noteq> b'"
      using rand_item_returned [OF y] by (cases y) auto
    with y item_at_in_items [OF less_imp_le [OF pos]] show ?thesis by blast
  qed
  ultimately show ?thesis unfolding handler by auto
qed

definition demo_list :: "string \<Rightarrow> list_ctx" where
  "demo_list s = \<lparr>lc_idx = 0, lc_delim = cb (CHR '',''), lc_raw = bs s\<rparr>"

definition demo_iv :: vvl where
  "demo_iv = \<lparr>vl_data = bs ''1'', vl_valid = True, vl_no_cacheable = False, vl_not_found = False\<rparr>"

theorem list_getranditem_witness:
  "(\<exists>x \<in> {bs ''ab'', bs ''c''}.
      ngx_http_listitem_get_handler (\<lambda>n. n) 0 True (Some demo_iv) (Some (demo_list '',ab,,c'')) demo_iv = Some (NGX_OK, item_value x True demo_iv)) \<and>
   ngx_http_listitem_get_handler (\<lambda>n. n) 0 True (Some demo_iv) (Some (demo_list '',,'')) demo_iv = None"
proof -
  have hit: "\<forall>p < n. \<exists>m. (0 + m) mod n = p" for n :: nat using mod_less by (metis add_0)
  have "items (cb (CHR '','')) (bs '',ab,,c'') = [bs ''ab'', bs ''c'']" "items (cb (CHR '','')) (bs '',,'') = []"
    by (simp_all add: items_def)
  then show ?thesis
    using list_getranditem [of "demo_list '',ab,,c''" "\<lambda>n. n" 0 demo_iv demo_iv] hit [of "length (bs '',ab,,c'')"]
      list_getranditem [of "demo_list '',,''" "\<lambda>n. n" 0 demo_iv demo_iv]
    by (simp add: demo_list_def)
qed

end
