(* ===== verification/Http_Header_Line.thy ===== *)
theory Http_Header_Line
  imports Http_Request_Line Hash_Util Variables
begin

text \<open>
  \<^verbatim>\<open>ngx_http_parse_header_line\<close> of \<^verbatim>\<open>src/http/ngx_http_parse.c\<close>: the state machine that reads one header
  line and computes the hash and the lower case form of its name.

  Pointers are offsets, as for the request line. The local variables \<^verbatim>\<open>hash\<close> and \<^verbatim>\<open>i\<close> are arguments
  of the loop. A write outside \<^verbatim>\<open>lowcase_header\<close> is the outcome \<open>HUndef\<close>.
\<close>

section \<open>Header lines\<close>

datatype hl_state =
    hs_start | hs_name | hs_space_before_value | hs_value | hs_space_after_value | hs_ignore_line
  | hs_almost_done | hs_header_almost_done

definition NGX_HTTP_LC_HEADER_LEN :: nat where "NGX_HTTP_LC_HEADER_LEN = 32"

record header_request =
  h_state :: hl_state
  header_hash :: ngx_uint
  lowcase_index :: ngx_uint
  invalid_header :: bool
  header_name_start :: "nat option"
  header_name_end :: "nat option"
  header_start :: "nat option"
  header_end :: "nat option"
  lowcase_header :: bytes
  is_upstream :: bool

definition lowcase :: bytes where
  "lowcase =
     replicate 32 0 @
     replicate 13 0 @ bs ''-'' @ replicate 2 0 @ bs ''0123456789'' @ replicate 6 0 @
     0 # bs ''abcdefghijklmnopqrstuvwxyz'' @ replicate 5 0 @
     0 # bs ''abcdefghijklmnopqrstuvwxyz'' @ replicate 5 0 @
     replicate 128 0"

datatype 'r hl_outcome = HGoto hl_state ngx_uint ngx_uint 'r | HDone ngx_uint ngx_uint 'r | HHeaderDone 'r | HFail 'r | HUndef

definition hl_start :: "nat \<Rightarrow> byte \<Rightarrow> ngx_uint \<Rightarrow> ngx_uint \<Rightarrow> header_request \<Rightarrow> header_request hl_outcome" where
  "hl_start p ch hash i r =
     (let r = r\<lparr>invalid_header := False\<rparr> in
      if ch = CR then HGoto hs_header_almost_done hash i (r\<lparr>header_end := Some p\<rparr>)
      else if ch = LF then HHeaderDone (r\<lparr>header_end := Some p\<rparr>)
      else
        let r = r\<lparr>header_name_start := Some p\<rparr>; c = lowcase ! unat ch in
        if c \<noteq> 0 then HGoto hs_name (ngx_hash 0 c) 1 (r\<lparr>lowcase_header := (lowcase_header r)[0 := c]\<rparr>)
        else HGoto hs_name hash i (r\<lparr>invalid_header := True\<rparr>))"

definition hl_name :: "bytes \<Rightarrow> nat \<Rightarrow> byte \<Rightarrow> ngx_uint \<Rightarrow> ngx_uint \<Rightarrow> header_request \<Rightarrow> header_request hl_outcome" where
  "hl_name mem p ch hash i r =
     (let c = lowcase ! unat ch in
      if c \<noteq> 0 then
        if unat i < length (lowcase_header r)
        then HGoto hs_name (ngx_hash hash c) ((i + 1) AND of_nat (NGX_HTTP_LC_HEADER_LEN - 1))
               (r\<lparr>lowcase_header := (lowcase_header r)[unat i := c]\<rparr>)
        else HUndef
      else if ch = cb (CHR '':'') then HGoto hs_space_before_value hash i (r\<lparr>header_name_end := Some p\<rparr>)
      else if ch = CR then
        HGoto hs_almost_done hash i (r\<lparr>header_name_end := Some p, header_start := Some p, header_end := Some p\<rparr>)
      else if ch = LF then HDone hash i (r\<lparr>header_name_end := Some p, header_start := Some p, header_end := Some p\<rparr>)
      else if ch = cb (CHR ''/'') \<and> is_upstream r \<and> p - the (header_name_start r) = 4 \<and>
          take 4 (drop (the (header_name_start r)) mem) = bs ''HTTP''
      then HGoto hs_ignore_line hash i r
      else HGoto hs_name hash i (r\<lparr>invalid_header := True\<rparr>))"

definition hl_before_value :: "nat \<Rightarrow> byte \<Rightarrow> ngx_uint \<Rightarrow> ngx_uint \<Rightarrow> header_request \<Rightarrow> header_request hl_outcome" where
  "hl_before_value p ch hash i r =
     (if ch = SP then HGoto hs_space_before_value hash i r
      else if ch = CR then HGoto hs_almost_done hash i (r\<lparr>header_start := Some p, header_end := Some p\<rparr>)
      else if ch = LF then HDone hash i (r\<lparr>header_start := Some p, header_end := Some p\<rparr>)
      else HGoto hs_value hash i (r\<lparr>header_start := Some p\<rparr>))"

definition hl_value :: "nat \<Rightarrow> byte \<Rightarrow> ngx_uint \<Rightarrow> ngx_uint \<Rightarrow> header_request \<Rightarrow> header_request hl_outcome" where
  "hl_value p ch hash i r =
     (if ch = SP then HGoto hs_space_after_value hash i (r\<lparr>header_end := Some p\<rparr>)
      else if ch = CR then HGoto hs_almost_done hash i (r\<lparr>header_end := Some p\<rparr>)
      else if ch = LF then HDone hash i (r\<lparr>header_end := Some p\<rparr>)
      else HGoto hs_value hash i r)"

definition hl_after_value :: "byte \<Rightarrow> ngx_uint \<Rightarrow> ngx_uint \<Rightarrow> header_request \<Rightarrow> header_request hl_outcome" where
  "hl_after_value ch hash i r =
     (if ch = SP then HGoto hs_space_after_value hash i r
      else if ch = CR then HGoto hs_almost_done hash i r
      else if ch = LF then HDone hash i r
      else HGoto hs_value hash i r)"

fun hl_step ::
    "bytes \<Rightarrow> nat \<Rightarrow> byte \<Rightarrow> hl_state \<Rightarrow> ngx_uint \<Rightarrow> ngx_uint \<Rightarrow> header_request \<Rightarrow> header_request hl_outcome" where
  "hl_step mem p ch hs_start hash i r = hl_start p ch hash i r"
| "hl_step mem p ch hs_name hash i r = hl_name mem p ch hash i r"
| "hl_step mem p ch hs_space_before_value hash i r = hl_before_value p ch hash i r"
| "hl_step mem p ch hs_value hash i r = hl_value p ch hash i r"
| "hl_step mem p ch hs_space_after_value hash i r = hl_after_value ch hash i r"
| "hl_step mem p ch hs_ignore_line hash i r =
     (if ch = LF then HGoto hs_start hash i r else HGoto hs_ignore_line hash i r)"
| "hl_step mem p ch hs_almost_done hash i r =
     (if ch = LF then HDone hash i r else if ch = CR then HGoto hs_almost_done hash i r else HFail r)"
| "hl_step mem p ch hs_header_almost_done hash i r = (if ch = LF then HHeaderDone r else HFail r)"

fun hl_loop ::
    "bytes \<Rightarrow> nat \<Rightarrow> bytes \<Rightarrow> hl_state \<Rightarrow> ngx_uint \<Rightarrow> ngx_uint \<Rightarrow> header_request \<Rightarrow>
      (http_parse_rc \<times> header_request \<times> nat option) option" where
  "hl_loop mem p [] st hash i r =
     Some (PARSE_AGAIN, r\<lparr>h_state := st, header_hash := hash, lowcase_index := i\<rparr>, Some p)"
| "hl_loop mem p (ch # chs) st hash i r =
     (case hl_step mem p ch st hash i r of
        HGoto st' hash' i' r' \<Rightarrow> hl_loop mem (p + 1) chs st' hash' i' r'
      | HDone hash' i' r' \<Rightarrow>
          Some (PARSE_OK, r'\<lparr>h_state := hs_start, header_hash := hash', lowcase_index := i'\<rparr>, Some (p + 1))
      | HHeaderDone r' \<Rightarrow> Some (PARSE_HEADER_DONE, r'\<lparr>h_state := hs_start\<rparr>, Some (p + 1))
      | HFail r' \<Rightarrow> Some (PARSE_INVALID_HEADER, r', None)
      | HUndef \<Rightarrow> None)"

definition ngx_http_parse_header_line ::
    "bytes \<Rightarrow> nat \<Rightarrow> nat \<Rightarrow> header_request \<Rightarrow> (http_parse_rc \<times> header_request \<times> nat) option" where
  "ngx_http_parse_header_line mem pos lst r =
     map_option (\<lambda>(rc, r', p). (rc, r', case p of None \<Rightarrow> pos | Some p \<Rightarrow> p))
       (hl_loop mem pos (take (lst - pos) (drop pos mem)) (h_state r) (header_hash r) (lowcase_index r) r)"

section \<open>Safety and calling the parser again\<close>

lemma lc_mask: "unat ((w :: ngx_uint) AND of_nat (NGX_HTTP_LC_HEADER_LEN - 1)) < NGX_HTTP_LC_HEADER_LEN"
proof -
  have "w AND of_nat (NGX_HTTP_LC_HEADER_LEN - 1) = take_bit 5 w"
    by (simp add: NGX_HTTP_LC_HEADER_LEN_def take_bit_eq_mask mask_eq_exp_minus_1)
  then have "unat (w AND of_nat (NGX_HTTP_LC_HEADER_LEN - 1)) = take_bit 5 (unat w)"
    by (simp only: unsigned_take_bit_eq)
  also have "\<dots> < 2 ^ 5" by (rule take_bit_nat_less_exp)
  finally show ?thesis by (simp add: NGX_HTTP_LC_HEADER_LEN_def)
qed

definition hl_inv :: "ngx_uint \<Rightarrow> header_request \<Rightarrow> bool" where
  "hl_inv i r \<longleftrightarrow> unat i < NGX_HTTP_LC_HEADER_LEN \<and> length (lowcase_header r) = NGX_HTTP_LC_HEADER_LEN"

lemmas hl_step_defs = hl_start_def hl_name_def hl_before_value_def hl_value_def hl_after_value_def

lemma hl_step_inv:
  assumes "hl_inv i r"
  shows "case hl_step mem p ch st hash i r of
      HGoto st' hash' i' r' \<Rightarrow> hl_inv i' r' | HDone hash' i' r' \<Rightarrow> hl_inv i' r'
    | HHeaderDone r' \<Rightarrow> length (lowcase_header r') = NGX_HTTP_LC_HEADER_LEN | HFail r' \<Rightarrow> True | HUndef \<Rightarrow> False"
  using assms lc_mask [of "i + 1"]
  by (cases st) (auto simp: hl_step_defs hl_inv_def Let_def NGX_HTTP_LC_HEADER_LEN_def split: hl_outcome.split)

lemma hl_loop_safe:
  "hl_inv i r \<Longrightarrow> \<exists>rc r' q. hl_loop mem p chs st hash i r = Some (rc, r', q) \<and>
     (rc = PARSE_OK \<or> rc = PARSE_AGAIN \<longrightarrow> hl_inv (lowcase_index r') r')"
proof (induction chs arbitrary: p st hash i r)
  case (Cons ch chs)
  show ?case
    using hl_step_inv [OF Cons.prems, of mem p ch st hash] Cons.IH
    by (cases "hl_step mem p ch st hash i r") (auto simp: hl_inv_def)
qed (simp add: hl_inv_def)

lemma header_line_safe_any:
  assumes "unat (lowcase_index r) < NGX_HTTP_LC_HEADER_LEN" and "length (lowcase_header r) = NGX_HTTP_LC_HEADER_LEN"
  shows "\<exists>rc r' q. ngx_http_parse_header_line mem pos lst r = Some (rc, r', q)"
  using hl_loop_safe [of "lowcase_index r" r mem pos "take (lst - pos) (drop pos mem)" "h_state r" "header_hash r"] assms
  by (auto simp: ngx_http_parse_header_line_def hl_inv_def)

text \<open>
  C21. The header parser never writes outside the buffer for the lower case name, whatever the
  input and the state it is called in, and leaves the saved index in range for the next call.
\<close>

theorem header_line_safe:
  assumes "unat (lowcase_index r) < NGX_HTTP_LC_HEADER_LEN" and "length (lowcase_header r) = NGX_HTTP_LC_HEADER_LEN"
  shows "\<exists>rc r' q. ngx_http_parse_header_line mem pos lst r = Some (rc, r', q) \<and>
    (rc = PARSE_OK \<or> rc = PARSE_AGAIN \<longrightarrow>
       unat (lowcase_index r') < NGX_HTTP_LC_HEADER_LEN \<and> length (lowcase_header r') = NGX_HTTP_LC_HEADER_LEN)"
  using hl_loop_safe [of "lowcase_index r" r mem pos "take (lst - pos) (drop pos mem)" "h_state r" "header_hash r"] assms
  by (auto simp: ngx_http_parse_header_line_def hl_inv_def)

definition hl_norm :: "header_request \<Rightarrow> header_request" where
  "hl_norm r = r\<lparr>h_state := hs_start, header_hash := 0, lowcase_index := 0\<rparr>"

text \<open>The three fields the loop keeps in local variables do not matter while it runs.\<close>

definition hl_set :: "hl_state \<Rightarrow> ngx_uint \<Rightarrow> ngx_uint \<Rightarrow> header_request \<Rightarrow> header_request" where
  "hl_set s h l r = r\<lparr>h_state := s, header_hash := h, lowcase_index := l\<rparr>"

lemma hl_norm_set [simp]: "hl_norm (hl_set s h l r) = hl_norm r"
  by (simp add: hl_norm_def hl_set_def)

lemma hl_step_set:
  "hl_step mem p ch st hash i (hl_set s h l r) = map_hl_outcome (hl_set s h l) (hl_step mem p ch st hash i r)"
  by (cases st) (simp_all add: hl_step_defs hl_set_def Let_def)

definition hl_result :: "hl_state \<Rightarrow> ngx_uint \<Rightarrow> ngx_uint \<Rightarrow> http_parse_rc \<times> header_request \<times> nat option \<Rightarrow>
    http_parse_rc \<times> header_request \<times> nat option" where
  "hl_result s h l res =
     (case res of (rc, r, q) \<Rightarrow>
        (rc, if rc = PARSE_OK \<or> rc = PARSE_AGAIN then r
             else if rc = PARSE_HEADER_DONE then hl_set hs_start h l r else hl_set s h l r, q))"

lemma hl_loop_set:
  "hl_loop mem p chs st hash i (hl_set s h l r) = map_option (hl_result s h l) (hl_loop mem p chs st hash i r)"
proof (induction chs arbitrary: p st hash i r)
  case (Cons ch chs)
  show ?case
    using Cons.IH hl_step_set [of mem p ch st hash i s h l r]
    by (cases "hl_step mem p ch st hash i r") (auto simp: hl_result_def hl_set_def)
qed (simp add: hl_result_def hl_set_def)

lemma hl_loop_append:
  "hl_loop mem p xs st hash i r = Some (PARSE_AGAIN, r1, q) \<Longrightarrow>
   hl_loop mem p (xs @ ys) st hash i r =
     map_option (hl_result (h_state r) (header_hash r) (lowcase_index r))
       (hl_loop mem (p + length xs) ys (h_state r1) (header_hash r1) (lowcase_index r1) r1)"
proof (induction xs arbitrary: p st hash i r)
  case Nil
  then have r1: "r1 = hl_set st hash i r" by (simp add: hl_set_def)
  have "hl_loop mem p ys st hash i r = hl_loop mem p ys st hash i (hl_set (h_state r) (header_hash r) (lowcase_index r) r1)"
    by (simp add: r1 hl_set_def)
  then show ?case by (simp add: hl_loop_set) (simp add: r1 hl_set_def)
next
  case (Cons ch xs)
  then obtain st' hash' i' r' where step: "hl_step mem p ch st hash i r = HGoto st' hash' i' r'"
    by (cases "hl_step mem p ch st hash i r") auto
  have keep: "h_state r' = h_state r" "header_hash r' = header_hash r" "lowcase_index r' = lowcase_index r"
    using step by (cases st; auto simp: hl_step_defs Let_def split: if_splits)+
  from Cons.IH [of "p + 1" st' hash' i' r'] Cons.prems step keep show ?case by simp
qed

lemma hl_step_mem: "take p mem = take p mem' \<Longrightarrow> hl_step mem p ch st hash i r = hl_step mem' p ch st hash i r"
proof -
  assume eq: "take p mem = take p mem'"
  have "take 4 (drop s mem) = take 4 (drop s mem')" if "p - s = 4" for s
    using eq that by (metis drop_take)
  then show ?thesis by (cases st) (auto simp: hl_name_def Let_def)
qed

lemma hl_loop_mem:
  "take (p + length chs) mem = take (p + length chs) mem' \<Longrightarrow>
   hl_loop mem p chs st hash i r = hl_loop mem' p chs st hash i r"
proof (induction chs arbitrary: p st hash i r)
  case (Cons ch chs)
  from Cons.prems have "take p mem = take p mem'" by (metis take_take min.absorb1 le_add1)
  then have step: "hl_step mem p ch st hash i r = hl_step mem' p ch st hash i r" by (rule hl_step_mem)
  show ?case using Cons.IH [of "p + 1"] Cons.prems by (simp add: step split: hl_outcome.split)
qed simp

lemma hl_again: "hl_loop mem p chs st hash i r = Some (PARSE_AGAIN, r', q) \<Longrightarrow> q = Some (p + length chs)"
proof (induction chs arbitrary: p st hash i r)
  case (Cons ch chs)
  show ?case
    using Cons.prems Cons.IH [of "p + 1"] by (cases "hl_step mem p ch st hash i r") auto
qed auto

lemma hl_no_position: "hl_loop mem p chs st hash i r = Some (rc, r', None) \<Longrightarrow> rc = PARSE_INVALID_HEADER"
proof (induction chs arbitrary: p st hash i r)
  case (Cons ch chs)
  then show ?case by (cases "hl_step mem p ch st hash i r") auto
qed simp

text \<open>
  C20. The header parser may be called on any part of a line first: if it asks for more data,
  calling it again once more bytes are there gives the status and the header that one call on
  all the bytes gives, and the same position unless the line is invalid.
\<close>

theorem header_line_resume:
  assumes "ngx_http_parse_header_line xs pos (length xs) r = Some (PARSE_AGAIN, r1, pos1)" and "pos \<le> length xs"
    and "ngx_http_parse_header_line (xs @ ys) pos1 (length (xs @ ys)) r1 = Some (rc, r2, pos2)"
    and "ngx_http_parse_header_line (xs @ ys) pos (length (xs @ ys)) r = Some (rc', r2', pos2')"
  shows "rc = rc' \<and> hl_norm r2 = hl_norm r2' \<and> (rc = PARSE_OK \<or> rc = PARSE_AGAIN \<longrightarrow> r2 = r2') \<and>
    (rc \<noteq> PARSE_INVALID_HEADER \<longrightarrow> pos2 = pos2')"
proof -
  obtain q where one: "hl_loop xs pos (drop pos xs) (h_state r) (header_hash r) (lowcase_index r) r = Some (PARSE_AGAIN, r1, q)"
    using assms(1) by (auto simp: ngx_http_parse_header_line_def)
  have q: "q = Some (length xs)" using hl_again [OF one] assms(2) by simp
  then have pos1: "pos1 = length xs" using assms(1) one by (simp add: ngx_http_parse_header_line_def)
  have "hl_loop (xs @ ys) pos (drop pos xs) (h_state r) (header_hash r) (lowcase_index r) r = Some (PARSE_AGAIN, r1, q)"
    using one hl_loop_mem [of pos "drop pos xs" xs "xs @ ys"] assms(2) by simp
  from hl_loop_append [OF this, of ys] assms(2)
  have whole: "hl_loop (xs @ ys) pos (drop pos xs @ ys) (h_state r) (header_hash r) (lowcase_index r) r =
      map_option (hl_result (h_state r) (header_hash r) (lowcase_index r))
        (hl_loop (xs @ ys) (length xs) ys (h_state r1) (header_hash r1) (lowcase_index r1) r1)" by simp
  obtain q2 where part: "hl_loop (xs @ ys) (length xs) ys (h_state r1) (header_hash r1) (lowcase_index r1) r1 = Some (rc, r2, q2)"
    "pos2 = (case q2 of None \<Rightarrow> pos1 | Some p \<Rightarrow> p)"
    using assms(3) pos1 by (auto simp: ngx_http_parse_header_line_def)
  have "rc' = rc" "pos2' = (case q2 of None \<Rightarrow> pos | Some p \<Rightarrow> p)"
    "r2' = fst (snd (hl_result (h_state r) (header_hash r) (lowcase_index r) (rc, r2, q2)))"
    using assms(2,4) whole part(1) by (auto simp: ngx_http_parse_header_line_def hl_result_def)
  moreover have "q2 = None \<Longrightarrow> rc = PARSE_INVALID_HEADER" using hl_no_position part(1) by blast
  ultimately show ?thesis using part(2) by (cases q2) (auto simp: hl_result_def)
qed

section \<open>Well-formed header lines\<close>

definition low :: "byte \<Rightarrow> byte" where
  "low c = lowcase ! unat c"

lemma low_specials: "low CR = 0" "low LF = 0" "low (cb (CHR '':'')) = 0"
  by code_simp+

lemma hl_loop_name:
  "list_all (\<lambda>c. low c \<noteq> 0) cs \<Longrightarrow> hl_inv i r \<Longrightarrow>
   \<exists>i' buf. hl_loop mem p (cs @ ys) hs_name hash i r =
       hl_loop mem (p + length cs) ys hs_name (foldl ngx_hash hash (map low cs)) i' (r\<lparr>lowcase_header := buf\<rparr>) \<and>
     hl_inv i' (r\<lparr>lowcase_header := buf\<rparr>) \<and>
     (unat i + length cs \<le> NGX_HTTP_LC_HEADER_LEN \<longrightarrow>
        buf = take (unat i) (lowcase_header r) @ map low cs @ drop (unat i + length cs) (lowcase_header r))"
proof (induction cs arbitrary: p hash i r)
  case Nil
  then show ?case by (intro exI [of _ i] exI [of _ "lowcase_header r"]) (simp add: hl_inv_def)
next
  case (Cons c cs)
  let ?i = "(i + 1) AND of_nat (NGX_HTTP_LC_HEADER_LEN - 1)"
  let ?b = "(lowcase_header r)[unat i := low c]"
  let ?r = "r\<lparr>lowcase_header := ?b\<rparr>"
  have i: "unat i < 32" "length (lowcase_header r) = 32" using Cons.prems(2) by (simp_all add: hl_inv_def NGX_HTTP_LC_HEADER_LEN_def)
  have step: "hl_loop mem p ((c # cs) @ ys) hs_name hash i r = hl_loop mem (p + 1) (cs @ ys) hs_name (ngx_hash hash (low c)) ?i ?r"
    using Cons.prems i by (simp add: hl_name_def low_def Let_def)
  have inv: "hl_inv ?i ?r" using lc_mask [of "i + 1"] i by (simp add: hl_inv_def NGX_HTTP_LC_HEADER_LEN_def)
  from Cons.IH [OF _ inv, of "p + 1" "ngx_hash hash (low c)"] Cons.prems(1) obtain i' buf where
    ih: "hl_loop mem (p + 1) (cs @ ys) hs_name (ngx_hash hash (low c)) ?i ?r =
        hl_loop mem (p + 1 + length cs) ys hs_name (foldl ngx_hash (ngx_hash hash (low c)) (map low cs)) i' (r\<lparr>lowcase_header := buf\<rparr>)"
      "hl_inv i' (r\<lparr>lowcase_header := buf\<rparr>)"
      "unat ?i + length cs \<le> NGX_HTTP_LC_HEADER_LEN \<Longrightarrow> buf = take (unat ?i) ?b @ map low cs @ drop (unat ?i + length cs) ?b"
    by auto
  have "buf = take (unat i) (lowcase_header r) @ map low (c # cs) @ drop (unat i + length (c # cs)) (lowcase_header r)"
    if len: "unat i + length (c # cs) \<le> NGX_HTTP_LC_HEADER_LEN"
  proof (cases "unat i + 1 < 32")
    case True
    have "?i = take_bit 5 (i + 1)" by (simp add: NGX_HTTP_LC_HEADER_LEN_def take_bit_eq_mask mask_eq_exp_minus_1)
    then have "unat ?i = take_bit 5 (unat (i + 1))" by (simp only: unsigned_take_bit_eq)
    also have "unat (i + 1) = unat i + 1" using True by (simp add: unat_word_ariths)
    also have "take_bit 5 (unat i + 1) = unat i + 1" using True by (simp add: take_bit_nat_eq_self)
    finally have ui: "unat ?i = unat i + 1" .
    then have "buf = take (Suc (unat i)) ?b @ map low cs @ drop (Suc (unat i) + length cs) ?b"
      using ih(3) len by simp
    also have "take (Suc (unat i)) ?b = take (unat i) (lowcase_header r) @ [low c]"
      using i by (simp add: take_Suc_conv_app_nth)
    finally show ?thesis using i by simp
  next
    case False
    then have "length cs = 0" "unat i = 31" using len i unfolding NGX_HTTP_LC_HEADER_LEN_def by (simp_all del: length_0_conv)
    then have "cs = []" by simp
    then have "unat ?i + length cs \<le> NGX_HTTP_LC_HEADER_LEN"
      using lc_mask [of "i + 1"] by (simp only: list.size add_0_right less_imp_le)
    from ih(3) [OF this] \<open>cs = []\<close> have "buf = ?b" by simp
    also have "?b = take 31 (lowcase_header r) @ [low c]"
      using i \<open>unat i = 31\<close> by (simp add: list_update_append1 upd_conv_take_nth_drop)
    finally show ?thesis using \<open>cs = []\<close> \<open>unat i = 31\<close> i by simp
  qed
  with step ih(1,2) show ?case by (intro exI [of _ i'] exI [of _ buf]) auto
qed

lemma hl_loop_spaces: "hl_loop mem p (replicate k SP @ ys) hs_space_before_value hash i r = hl_loop mem (p + k) ys hs_space_before_value hash i r"
  by (induction k arbitrary: p) (simp_all add: hl_before_value_def)

lemma hl_loop_value:
  "CR \<notin> set v \<Longrightarrow> LF \<notin> set v \<Longrightarrow> st = hs_value \<or> st = hs_space_after_value \<Longrightarrow>
   \<exists>e st'. hl_loop mem p (v @ ys) st hash i r = hl_loop mem (p + length v) ys st' hash i (r\<lparr>header_end := e\<rparr>) \<and>
     (v \<noteq> [] \<and> last v \<noteq> SP \<longrightarrow> st' = hs_value) \<and> (v = [] \<longrightarrow> st' = st) \<and> (st' = hs_value \<or> st' = hs_space_after_value)"
proof (induction v arbitrary: p st r)
  case Nil
  then show ?case by (intro exI [of _ "header_end r"] exI [of _ st]) auto
next
  case (Cons c v)
  have "\<exists>e1 st1. hl_step mem p c st hash i r = HGoto st1 hash i (r\<lparr>header_end := e1\<rparr>) \<and>
      (st1 = hs_value \<or> st1 = hs_space_after_value) \<and> (c \<noteq> SP \<longrightarrow> st1 = hs_value)"
  proof (cases "c = SP \<and> st = hs_value")
    case True
    then show ?thesis by (intro exI [of _ "Some p"] exI [of _ hs_space_after_value]) (simp add: hl_value_def)
  next
    case False
    then show ?thesis using Cons.prems
      by (intro exI [of _ "header_end r"] exI [of _ "if c = SP then hs_space_after_value else hs_value"])
        (auto simp: hl_value_def hl_after_value_def)
  qed
  then obtain e1 st1 where 1: "hl_step mem p c st hash i r = HGoto st1 hash i (r\<lparr>header_end := e1\<rparr>)"
    "st1 = hs_value \<or> st1 = hs_space_after_value" "c \<noteq> SP \<longrightarrow> st1 = hs_value" by blast
  from Cons.IH [OF _ _ 1(2), of "p + 1" "r\<lparr>header_end := e1\<rparr>"] Cons.prems obtain e st' where
    "hl_loop mem (p + 1) (v @ ys) st1 hash i (r\<lparr>header_end := e1\<rparr>) =
      hl_loop mem (p + 1 + length v) ys st' hash i (r\<lparr>header_end := e\<rparr>)"
    "v \<noteq> [] \<and> last v \<noteq> SP \<longrightarrow> st' = hs_value" "v = [] \<longrightarrow> st' = st1" "st' = hs_value \<or> st' = hs_space_after_value" by auto
  with 1 show ?case by (intro exI [of _ e] exI [of _ st']) (cases "v = []"; simp)
qed

lemma hl_loop_after: "hl_loop mem p (replicate j SP @ CR # LF # ys) hs_space_after_value hash i r =
    Some (PARSE_OK, r\<lparr>h_state := hs_start, header_hash := hash, lowcase_index := i\<rparr>, Some (p + j + 2))"
  by (induction j arbitrary: p) (simp_all add: hl_after_value_def)

lemma hl_loop_tail:
  "hl_loop mem p (replicate j SP @ CR # LF # ys) hs_value hash i r =
    Some (PARSE_OK, r\<lparr>header_end := Some p, h_state := hs_start, header_hash := hash, lowcase_index := i\<rparr>, Some (p + j + 2))"
proof (cases j)
  case (Suc n)
  then show ?thesis using hl_loop_after [of mem "p + 1" n ys hash i "r\<lparr>header_end := Some p\<rparr>"] by (simp add: hl_value_def)
qed (simp add: hl_value_def)

definition header_line :: "bytes \<Rightarrow> nat \<Rightarrow> bytes \<Rightarrow> nat \<Rightarrow> bytes" where
  "header_line name k v j = name @ cb (CHR '':'') # replicate k SP @ v @ replicate j SP @ [CR, LF]"

text \<open>
  C23. Every header line \<open>name:\<close>, spaces, \<open>value\<close>, spaces and line end, with a name of letters, digits
  and hyphens and a value without line ends that neither starts nor ends with a space, is
  accepted: the name and the value found are those that were sent, the hash is \<^verbatim>\<open>ngx_hash_key\<close> of the
  lower case name, and the lower case name is stored when it has at most 32 bytes.
\<close>

theorem header_line_parsed:
  assumes "name \<noteq> []" and "list_all (\<lambda>c. low c \<noteq> 0) name"
    and "v \<noteq> []" and "hd v \<noteq> SP" and "last v \<noteq> SP" and "CR \<notin> set v" and "LF \<notin> set v"
    and "h_state r = hs_start" and "unat (lowcase_index r) < NGX_HTTP_LC_HEADER_LEN"
    and "length (lowcase_header r) = NGX_HTTP_LC_HEADER_LEN"
    and "line = header_line name k v j" and "mem = pre @ line @ post"
  shows "\<exists>r' ns ne vs ve. ngx_http_parse_header_line mem (length pre) (length mem) r = Some (PARSE_OK, r', length pre + length line) \<and>
    header_name_start r' = Some ns \<and> header_name_end r' = Some ne \<and> take (ne - ns) (drop ns mem) = name \<and>
    header_start r' = Some vs \<and> header_end r' = Some ve \<and> take (ve - vs) (drop vs mem) = v \<and>
    header_hash r' = ngx_hash_key (map low name) \<and> \<not> invalid_header r' \<and>
    (length name \<le> NGX_HTTP_LC_HEADER_LEN \<longrightarrow> take (length name) (lowcase_header r') = map low name)"
proof -
  let ?p = "length pre" and ?n = "length name"
  obtain c cs where name: "name = c # cs" using assms(1) by (cases name) auto
  obtain w vs where v: "v = w # vs" using assms(3) by (cases v) auto
  let ?b0 = "(lowcase_header r)[0 := low c]"
  let ?r0 = "r\<lparr>invalid_header := False, header_name_start := Some ?p, lowcase_header := ?b0\<rparr>"
  let ?tail = "cb (CHR '':'') # replicate k SP @ v @ replicate j SP @ CR # LF # post"
  have c: "low c \<noteq> 0" using assms(2) name by simp
  have nl: "c \<noteq> CR" "c \<noteq> LF" using c low_specials by auto
  have inv: "hl_inv 1 ?r0" using assms(10) by (simp add: hl_inv_def NGX_HTTP_LC_HEADER_LEN_def)
  have first: "hl_loop mem ?p (name @ ?tail) hs_start (header_hash r) (lowcase_index r) r =
      hl_loop mem (?p + 1) (cs @ ?tail) hs_name (ngx_hash 0 (low c)) 1 ?r0"
    using c nl by (simp add: name hl_start_def low_def Let_def)
  from hl_loop_name [OF _ inv, of cs mem "?p + 1" ?tail "ngx_hash 0 (low c)"] assms(2) name obtain i' buf where
    nm: "hl_loop mem (?p + 1) (cs @ ?tail) hs_name (ngx_hash 0 (low c)) 1 ?r0 =
        hl_loop mem (?p + ?n) ?tail hs_name (foldl ngx_hash (ngx_hash 0 (low c)) (map low cs)) i' (?r0\<lparr>lowcase_header := buf\<rparr>)"
      "1 + length cs \<le> NGX_HTTP_LC_HEADER_LEN \<Longrightarrow> buf = take 1 ?b0 @ map low cs @ drop (1 + length cs) ?b0" by auto
  let ?h = "ngx_hash_key (map low name)"
  have hash: "foldl ngx_hash (ngx_hash 0 (low c)) (map low cs) = ?h" by (simp add: ngx_hash_key_def name)
  let ?r1 = "?r0\<lparr>lowcase_header := buf, header_name_end := Some (?p + ?n)\<rparr>"
  let ?vs = "?p + ?n + 1 + k"
  have colon: "hl_loop mem (?p + ?n) ?tail hs_name ?h i' (?r0\<lparr>lowcase_header := buf\<rparr>) =
      hl_loop mem ?vs (v @ replicate j SP @ CR # LF # post) hs_space_before_value ?h i' ?r1"
    using hl_loop_spaces [of mem "?p + ?n + 1" k "v @ replicate j SP @ CR # LF # post" ?h i' ?r1]
      low_specials(3) by (simp add: hl_name_def low_def Let_def)
  have "hl_loop mem ?vs (v @ replicate j SP @ CR # LF # post) hs_space_before_value ?h i' ?r1 =
      hl_loop mem (?vs + 1) (vs @ replicate j SP @ CR # LF # post) hs_value ?h i' (?r1\<lparr>header_start := Some ?vs\<rparr>)"
    using assms(4,6,7) by (simp add: v hl_before_value_def)
  moreover obtain e where "hl_loop mem (?vs + 1) (vs @ replicate j SP @ CR # LF # post) hs_value ?h i' (?r1\<lparr>header_start := Some ?vs\<rparr>) =
      hl_loop mem (?vs + 1 + length vs) (replicate j SP @ CR # LF # post) hs_value ?h i' (?r1\<lparr>header_start := Some ?vs, header_end := e\<rparr>)"
    using hl_loop_value [of vs hs_value mem "?vs + 1" "replicate j SP @ CR # LF # post" ?h i' "?r1\<lparr>header_start := Some ?vs\<rparr>"]
      assms(5-7) by (auto simp: v split: if_splits)
  moreover have "?vs + 1 + length vs = ?vs + length v" by (simp add: v)
  ultimately have val: "hl_loop mem ?vs (v @ replicate j SP @ CR # LF # post) hs_space_before_value ?h i' ?r1 =
      Some (PARSE_OK, ?r1\<lparr>header_start := Some ?vs, header_end := Some (?vs + length v), h_state := hs_start,
        header_hash := ?h, lowcase_index := i'\<rparr>, Some (?vs + length v + j + 2))"
    by (simp only: hl_loop_tail) simp
  let ?r' = "?r1\<lparr>header_start := Some ?vs, header_end := Some (?vs + length v), h_state := hs_start,
        header_hash := ?h, lowcase_index := i'\<rparr>"
  have mem: "drop ?p mem = name @ ?tail" by (simp add: assms(11,12) header_line_def)
  have "hl_loop mem ?p (drop ?p mem) (h_state r) (header_hash r) (lowcase_index r) r =
      Some (PARSE_OK, ?r', Some (?vs + length v + j + 2))"
    unfolding mem assms(8) first nm(1) hash colon val ..
  then have "ngx_http_parse_header_line mem ?p (length mem) r = Some (PARSE_OK, ?r', ?p + length line)"
    by (simp add: ngx_http_parse_header_line_def assms(11) header_line_def)
  moreover have "take (length name) buf = map low name" if "length name \<le> NGX_HTTP_LC_HEADER_LEN"
    using nm(2) that assms(10) by (simp add: name NGX_HTTP_LC_HEADER_LEN_def take_Suc hd_conv_nth length_0_conv [symmetric] del: length_0_conv)
  moreover have "take (length name) (drop ?p mem) = name" "take (length v) (drop ?vs mem) = v"
    by (simp_all add: assms(11,12) header_line_def)
  ultimately show ?thesis
    by (intro exI [of _ ?r'] exI [of _ ?p] exI [of _ "?p + ?n"] exI [of _ ?vs] exI [of _ "?vs + length v"]) simp
qed

definition fresh_header :: header_request where
  "fresh_header = \<lparr>h_state = hs_start, header_hash = 0, lowcase_index = 0, invalid_header = False, header_name_start = None,
     header_name_end = None, header_start = None, header_end = None, lowcase_header = replicate 32 0, is_upstream = False\<rparr>"

lemma fresh_header_ok:
  "h_state fresh_header = hs_start" "unat (lowcase_index fresh_header) < NGX_HTTP_LC_HEADER_LEN"
  "length (lowcase_header fresh_header) = NGX_HTTP_LC_HEADER_LEN"
  by (simp_all add: fresh_header_def NGX_HTTP_LC_HEADER_LEN_def)

theorem header_line_safe_witness:
  "\<exists>rc r' q. ngx_http_parse_header_line (bs ''X-Y: z'' @ [LF]) 0 7 fresh_header = Some (rc, r', q)"
  using header_line_safe [OF fresh_header_ok(2,3), of "bs ''X-Y: z'' @ [LF]" 0 7] by blast

theorem header_line_parsed_witness:
  "\<exists>r' ns ne vs ve. ngx_http_parse_header_line (header_line (bs ''Host'') 1 (bs ''a b'') 0) 0 (length (header_line (bs ''Host'') 1 (bs ''a b'') 0)) fresh_header =
      Some (PARSE_OK, r', length (header_line (bs ''Host'') 1 (bs ''a b'') 0)) \<and>
    header_name_start r' = Some ns \<and> header_name_end r' = Some ne \<and>
    take (ne - ns) (drop ns (header_line (bs ''Host'') 1 (bs ''a b'') 0)) = bs ''Host'' \<and>
    header_start r' = Some vs \<and> header_end r' = Some ve \<and>
    take (ve - vs) (drop vs (header_line (bs ''Host'') 1 (bs ''a b'') 0)) = bs ''a b'' \<and>
    header_hash r' = ngx_hash_key (map low (bs ''Host''))"
proof -
  have low: "list_all (\<lambda>c. low c \<noteq> 0) (bs ''Host'')" by code_simp
  from header_line_parsed [OF _ low _ _ _ _ _ fresh_header_ok refl refl, of "bs ''a b''" "[]" 1 0 "[]"]
  show ?thesis by auto
qed

theorem header_line_resume_witness:
  "fst (the (ngx_http_parse_header_line (bs ''A:b'' @ [LF]) 1 4
      (fresh_header\<lparr>h_state := hs_name, header_hash := 97, lowcase_index := 1, header_name_start := Some 0,
         lowcase_header := 97 # replicate 31 0\<rparr>))) =
   fst (the (ngx_http_parse_header_line (bs ''A:b'' @ [LF]) 0 4 fresh_header))"
proof -
  let ?r1 = "fresh_header\<lparr>h_state := hs_name, header_hash := 97, lowcase_index := 1, header_name_start := Some 0,
         lowcase_header := 97 # replicate 31 0\<rparr>"
  have first: "ngx_http_parse_header_line (bs ''A'') 0 (length (bs ''A'')) fresh_header = Some (PARSE_AGAIN, ?r1, 1)"
    by code_simp
  have mem: "bs ''A:b'' @ [LF] = bs ''A'' @ bs '':b'' @ [LF]" "4 = length (bs ''A'' @ bs '':b'' @ [LF])" by simp_all
  have r1: "unat (lowcase_index ?r1) < NGX_HTTP_LC_HEADER_LEN" "length (lowcase_header ?r1) = NGX_HTTP_LC_HEADER_LEN"
    by (simp_all add: NGX_HTTP_LC_HEADER_LEN_def)
  obtain rc r2 p2 where a: "ngx_http_parse_header_line (bs ''A'' @ bs '':b'' @ [LF]) 1 (length (bs ''A'' @ bs '':b'' @ [LF])) ?r1 = Some (rc, r2, p2)"
    using header_line_safe_any [OF r1] by blast
  obtain rc' r2' p2' where b: "ngx_http_parse_header_line (bs ''A'' @ bs '':b'' @ [LF]) 0 (length (bs ''A'' @ bs '':b'' @ [LF])) fresh_header = Some (rc', r2', p2')"
    using header_line_safe_any [OF fresh_header_ok(2,3)] by blast
  have "rc = rc'" using header_line_resume [OF first _ a b] by simp
  then show ?thesis unfolding mem a b by simp
qed

end
