(* ===== verification/Http_Multi_Header.thy ===== *)
theory Http_Multi_Header
  imports Variables "HOL-Library.Sublist"
begin

text \<open>
  \<^verbatim>\<open>ngx_http_parse_multi_header_lines\<close> of \<^verbatim>\<open>src/http/ngx_http_parse.c\<close>: the search for a name in the values of
  all \<^verbatim>\<open>Cookie\<close> headers, or in the values of \<^verbatim>\<open>Cache-Control\<close> headers without a value.

  \<^verbatim>\<open>start\<close> is the rest of the header value. The header parser ends every value with a NUL byte, so the
  comparison at \<^verbatim>\<open>start\<close> may read that byte and stops there. A name is assumed to have no NUL byte of its own, so a
  match lies within the value.
\<close>

section \<open>The search\<close>

abbreviation space :: byte where "space \<equiv> cb (CHR '' '')"
abbreviation equals :: byte where "equals \<equiv> cb (CHR ''='')"
abbreviation semicolon :: byte where "semicolon \<equiv> cb (CHR '';'')"
abbreviation comma :: byte where "comma \<equiv> cb (CHR '','')"

definition skip_spaces :: "bytes \<Rightarrow> bytes" where
  "skip_spaces start = dropWhile (\<lambda>c. c = space) start"

definition skip_item :: "bytes \<Rightarrow> bytes" where
  "skip_item start = skip_spaces (drop 1 (dropWhile (\<lambda>c. \<not> (c = semicolon \<or> c = comma)) start))"

lemma length_skip_spaces: "length (skip_spaces s) \<le> length s"
  by (simp add: skip_spaces_def length_dropWhile_le)

lemma length_skip_item: "length (skip_item s) \<le> length s - 1"
proof -
  have "length (skip_item s) \<le> length (drop 1 (dropWhile (\<lambda>c. \<not> (c = semicolon \<or> c = comma)) s))"
    unfolding skip_item_def by (rule length_skip_spaces)
  also have "\<dots> \<le> length s - 1"
    using length_dropWhile_le [of "\<lambda>c. \<not> (c = semicolon \<or> c = comma)" s] by (simp only: length_drop diff_le_mono)
  finally show ?thesis .
qed

lemma skip_shorter:
  assumes "start \<noteq> []" and "length s \<le> length start"
  shows "length (skip_item s) < length start"
  using assms length_skip_item [of s] by (cases start) simp_all

lemma skip_match_shorter:
  "start \<noteq> [] \<Longrightarrow> length (skip_item (skip_spaces (drop n start))) < length start"
  "start \<noteq> [] \<Longrightarrow> length (skip_item (tl (skip_spaces (drop n start)))) < length start"
proof -
  assume "start \<noteq> []"
  moreover have "length (skip_spaces (drop n start)) \<le> length start"
    using length_skip_spaces [of "drop n start"] by simp
  ultimately show "length (skip_item (skip_spaces (drop n start))) < length start"
    and "length (skip_item (tl (skip_spaces (drop n start)))) < length start"
    by (auto intro!: skip_shorter)
qed

text \<open>
  The loop over one header value. \<open>None\<close>: not in this header. \<open>Some None\<close>: found, for a caller that wants no value.
  \<open>Some (Some v)\<close>: found with the value \<open>v\<close>.
\<close>

function header_loop :: "bytes \<Rightarrow> bool \<Rightarrow> bytes \<Rightarrow> bytes option option" where
  "header_loop name want start =
     (if start = [] then None
      else if ngx_strncasecmp (start @ [0]) name (length name) \<noteq> 0 then header_loop name want (skip_item start)
      else let s = skip_spaces (drop (length name) start) in
        if \<not> want then
          if s = [] \<or> hd s = comma then Some None else header_loop name want (skip_item s)
        else if s = [] then header_loop name want (skip_item s)
        else if hd s \<noteq> equals then header_loop name want (skip_item (tl s))
        else Some (Some (takeWhile (\<lambda>c. c \<noteq> semicolon) (skip_spaces (tl s)))))"
  by pat_completeness auto
termination by (relation "measure (\<lambda>(name, want, start). length start)") (auto simp: skip_shorter skip_match_shorter)

declare header_loop.simps [simp del]

fun multi_header_loop :: "nat \<Rightarrow> bytes list \<Rightarrow> bytes \<Rightarrow> bool \<Rightarrow> (nat \<times> bytes option) option" where
  "multi_header_loop i [] name want = None"
| "multi_header_loop i (h # headers) name want =
     (if length name > length h then multi_header_loop (i + 1) headers name want
      else case header_loop name want h of
             None \<Rightarrow> multi_header_loop (i + 1) headers name want
           | Some v \<Rightarrow> Some (i, v))"

text \<open>\<open>None\<close> is \<^verbatim>\<open>NGX_DECLINED\<close>; otherwise the index of the header, and the value when the caller wants it.\<close>

definition ngx_http_parse_multi_header_lines :: "bytes list \<Rightarrow> bytes \<Rightarrow> bool \<Rightarrow> (nat \<times> bytes option) option" where
  "ngx_http_parse_multi_header_lines headers name want = multi_header_loop 0 headers name want"

section \<open>Well-formed cookies\<close>

type_synonym cookie = "bytes \<times> bytes"

definition cookie_name_ok :: "bytes \<Rightarrow> bool" where
  "cookie_name_ok n \<longleftrightarrow> n \<noteq> [] \<and> set n \<inter> {0, space, equals, semicolon, comma} = {}"

definition cookie_ok :: "cookie \<Rightarrow> bool" where
  "cookie_ok p \<longleftrightarrow> cookie_name_ok (fst p) \<and> set (snd p) \<inter> {0, semicolon, comma} = {} \<and> (snd p \<noteq> [] \<longrightarrow> hd (snd p) \<noteq> space)"

fun cookie_text :: "cookie list \<Rightarrow> bytes" where
  "cookie_text [] = []"
| "cookie_text [(n, v)] = n @ equals # v"
| "cookie_text ((n, v) # p # ps) = n @ equals # v @ semicolon # space # cookie_text (p # ps)"

fun cookie_lookup :: "bytes \<Rightarrow> cookie list \<Rightarrow> bytes option" where
  "cookie_lookup name [] = None"
| "cookie_lookup name ((n, v) # ps) =
     (if map ngx_tolower n = map ngx_tolower name then Some v else cookie_lookup name ps)"

fun cookies_lookup :: "nat \<Rightarrow> bytes \<Rightarrow> cookie list list \<Rightarrow> (nat \<times> bytes option) option" where
  "cookies_lookup i name [] = None"
| "cookies_lookup i name (h # hs) =
     (case cookie_lookup name h of
        Some v \<Rightarrow> Some (i, Some v)
      | None \<Rightarrow> cookies_lookup (i + 1) name hs)"

subsection \<open>The comparison\<close>

lemma strncasecmp_prefix:
  "0 \<notin> set name \<Longrightarrow>
     ngx_strncasecmp (s @ [0]) name (length name) = 0 \<longleftrightarrow> prefix (map ngx_tolower name) (map ngx_tolower s)"
proof (induction name arbitrary: s)
  case (Cons x name)
  then show ?case
    using tolower_0 [of x] tolower_0 [of 0] uint_diff_0 [of "ngx_tolower (hd s)" "ngx_tolower x"]
      uint_diff_0 [of 0 "ngx_tolower x"]
    by (cases s) (auto simp: Let_def)
qed simp

lemma tolower_equals: "ngx_tolower c = equals \<longleftrightarrow> c = equals"
proof -
  have "c OR 0x20 = 0x3d \<Longrightarrow> c = 0x3d \<or> c = 0x1d" by (auto simp: byte_eq_bits bit_simps)
  then show ?thesis by (auto simp: ngx_tolower_def)
qed

text \<open>A name without an equals sign can only match inside the name of the first pair.\<close>

lemma prefix_before_equals:
  assumes "equals \<notin> set name" and "equals \<notin> set n"
  shows "prefix (map ngx_tolower name) (map ngx_tolower (n @ equals # r)) \<longleftrightarrow>
         prefix (map ngx_tolower name) (map ngx_tolower n)"
  using assms
proof (induction name arbitrary: n)
  case (Cons x name)
  then show ?case using tolower_equals [of x] tolower_equals [of equals]
    by (cases n) auto
qed simp

section \<open>The search finds the first cookie\<close>

definition cookie_rest :: "cookie list \<Rightarrow> bytes" where
  "cookie_rest ps = (if ps = [] then [] else semicolon # space # cookie_text ps)"

lemma cookie_text_Cons: "cookie_text ((n, v) # ps) = n @ equals # v @ cookie_rest ps"
  by (cases ps) (simp_all add: cookie_rest_def)

lemma skip_spaces_none: "s = [] \<or> hd s \<noteq> space \<Longrightarrow> skip_spaces s = s"
  by (cases s) (auto simp: skip_spaces_def)

lemma cookie_text_start: "list_all cookie_ok ps \<Longrightarrow> cookie_text ps = [] \<or> hd (cookie_text ps) \<noteq> space"
  by (cases ps) (auto simp: cookie_text_Cons cookie_ok_def cookie_name_ok_def hd_append split: if_splits dest: hd_in_set)

lemma skip_item_rest:
  assumes "set a \<inter> {semicolon, comma} = {}" and "list_all cookie_ok ps"
  shows "skip_item (a @ cookie_rest ps) = cookie_text ps"
proof -
  have "dropWhile (\<lambda>c. \<not> (c = semicolon \<or> c = comma)) (a @ cookie_rest ps) = cookie_rest ps"
  proof -
    have "\<forall>c \<in> set a. \<not> (c = semicolon \<or> c = comma)" using assms(1) by auto
    then show ?thesis by (simp add: dropWhile_append2 cookie_rest_def)
  qed
  moreover have "skip_spaces (drop 1 (cookie_rest ps)) = cookie_text ps"
    using cookie_text_start [OF assms(2)] skip_spaces_none [of "cookie_text ps"]
    by (cases "ps = []") (auto simp: cookie_rest_def skip_spaces_def)
  ultimately show ?thesis by (simp add: skip_item_def)
qed

lemma takeWhile_value:
  assumes "set v \<inter> {semicolon, comma} = {}"
  shows "takeWhile (\<lambda>c. c \<noteq> semicolon) (v @ cookie_rest ps) = v"
proof -
  have "\<forall>c \<in> set v. c \<noteq> semicolon" using assms by auto
  then show ?thesis by (simp add: takeWhile_append2 cookie_rest_def)
qed

lemma skip_value:
  assumes "v \<noteq> [] \<longrightarrow> hd v \<noteq> space"
  shows "skip_spaces (v @ cookie_rest ps) = v @ cookie_rest ps"
  using assms by (intro skip_spaces_none) (auto simp: cookie_rest_def hd_append)

lemma match_name:
  assumes "cookie_name_ok name" and "cookie_name_ok n"
  shows "ngx_strncasecmp ((n @ equals # r) @ [0]) name (length name) = 0 \<longleftrightarrow>
         prefix (map ngx_tolower name) (map ngx_tolower n)"
proof -
  from assms have "0 \<notin> set name" "equals \<notin> set name" "equals \<notin> set n" by (auto simp: cookie_name_ok_def)
  then show ?thesis using trans [OF strncasecmp_prefix prefix_before_equals, of name n r] by simp
qed

lemma header_loop_pair:
  assumes "cookie_name_ok name" and ok: "cookie_ok (n, v)" and ps: "list_all cookie_ok ps"
  shows "header_loop name True (cookie_text ((n, v) # ps)) =
     (if map ngx_tolower n = map ngx_tolower name then Some (Some v) else header_loop name True (cookie_text ps))"
proof -
  define r where "r = v @ cookie_rest ps"
  have n: "cookie_name_ok n" and v: "set v \<inter> {semicolon, comma} = {}" "v \<noteq> [] \<longrightarrow> hd v \<noteq> space"
    using ok by (auto simp: cookie_ok_def)
  have skip: "skip_item (a @ equals # r) = cookie_text ps" if "set a \<subseteq> set n" for a
    using skip_item_rest [of "a @ equals # v" ps] that v ps n by (auto simp: r_def cookie_name_ok_def)
  let ?match = "prefix (map ngx_tolower name) (map ngx_tolower n)"
  let ?s = "skip_spaces (drop (length name) (n @ equals # r))"
  have loop: "header_loop name True (n @ equals # r) =
      (if \<not> ?match then header_loop name True (cookie_text ps)
       else if ?s = [] then header_loop name True (skip_item ?s)
       else if hd ?s \<noteq> equals then header_loop name True (skip_item (tl ?s))
       else Some (Some (takeWhile (\<lambda>c. c \<noteq> semicolon) (skip_spaces (tl ?s)))))"
    by (subst header_loop.simps) (simp add: match_name [OF assms(1) n, simplified] skip [of n, simplified] Let_def)
  consider "\<not> ?match" | "map ngx_tolower n = map ngx_tolower name"
    | "?match" "length name < length n" "map ngx_tolower n \<noteq> map ngx_tolower name"
    by (metis length_map prefix_length_le le_neq_implies_less prefixE append_eq_conv_conj take_all_iff order_refl)
  then show ?thesis
  proof cases
    case 1
    then have "map ngx_tolower n \<noteq> map ngx_tolower name" by auto
    with 1 loop show ?thesis by (simp add: cookie_text_Cons r_def)
  next
    case 2
    then have "?match" by simp
    from 2 have "length n = length name" by (metis length_map)
    then have "?s = equals # r" using skip_spaces_none [of "equals # r"] by simp
    with loop \<open>?match\<close> have "header_loop name True (n @ equals # r) = Some (Some (takeWhile (\<lambda>c. c \<noteq> semicolon) (skip_spaces r)))"
      by simp
    with 2 v show ?thesis
      by (simp add: cookie_text_Cons r_def skip_value [simplified] takeWhile_value [simplified])
  next
    case 3
    then obtain x a where a: "drop (length name) n = x # a" by (metis drop_eq_Nil list.exhaust not_le)
    then have sub: "set (x # a) \<subseteq> set n" by (metis set_drop_subset)
    with n have "x \<noteq> space" "x \<noteq> equals" by (auto simp: cookie_name_ok_def)
    then have "?s = x # a @ equals # r" using a 3(2) skip_spaces_none [of "x # a @ equals # r"] by simp
    with loop 3 \<open>x \<noteq> equals\<close> sub skip [of a] have "header_loop name True (n @ equals # r) = header_loop name True (cookie_text ps)"
      by simp
    with 3 show ?thesis by (simp add: cookie_text_Cons r_def)
  qed
qed

lemma header_loop_cookie:
  "\<lbrakk>cookie_name_ok name; list_all cookie_ok ps\<rbrakk> \<Longrightarrow>
     header_loop name True (cookie_text ps) = map_option Some (cookie_lookup name ps)"
proof (induction ps)
  case Nil
  show ?case by (simp add: header_loop.simps)
next
  case (Cons p ps)
  then show ?case using header_loop_pair [of name "fst p" "snd p" ps] by (cases p) (simp del: cookie_text.simps)
qed

lemma cookie_lookup_length: "cookie_lookup name ps = Some v \<Longrightarrow> length name \<le> length (cookie_text ps)"
proof (induction ps)
  case (Cons p ps)
  obtain n w where "p = (n, w)" by fastforce
  with Cons show ?case
    by (cases "map ngx_tolower n = map ngx_tolower name") (auto simp: cookie_text_Cons cookie_rest_def dest: map_eq_imp_length_eq split: if_splits)
qed simp

text \<open>
  C36. For headers made of well-formed cookies, \<^verbatim>\<open>ngx_http_parse_multi_header_lines\<close> returns the value of the first
  cookie whose name is the given one up to case, with the index of its header, and \<^verbatim>\<open>NGX_DECLINED\<close>
  when there is none.
\<close>

theorem cookie_found:
  assumes "cookie_name_ok name" and "list_all (list_all cookie_ok) headers"
  shows "ngx_http_parse_multi_header_lines (map cookie_text headers) name True = cookies_lookup 0 name headers"
proof -
  have "multi_header_loop i (map cookie_text headers) name True = cookies_lookup i name headers" for i
    using assms(2)
  proof (induction headers arbitrary: i)
    case (Cons h headers)
    then show ?case
      using header_loop_cookie [OF assms(1), of h] cookie_lookup_length [of name h]
      by (cases "cookie_lookup name h") auto
  qed simp
  then show ?thesis by (simp add: ngx_http_parse_multi_header_lines_def)
qed

theorem cookie_found_witness:
  "ngx_http_parse_multi_header_lines [bs ''uidx=1'', bs ''a=b; UID=42; uid=7''] (bs ''uid'') True = Some (1, Some (bs ''42''))"
proof -
  let ?h = "[[(bs ''uidx'', bs ''1'')], [(bs ''a'', bs ''b''), (bs ''UID'', bs ''42''), (bs ''uid'', bs ''7'')]]"
  have "ngx_http_parse_multi_header_lines (map cookie_text ?h) (bs ''uid'') True = cookies_lookup 0 (bs ''uid'') ?h"
    by (rule cookie_found) (simp_all add: cookie_ok_def cookie_name_ok_def)
  then show ?thesis by (simp add: ngx_tolower_def)
qed

text \<open>
  The byte behind a name is consumed before it is compared with the equals sign. When it is the semicolon
  of an item without a value, the next cookie is skipped with it.
\<close>

lemma cookie_skipped: "ngx_http_parse_multi_header_lines [bs ''a;a=1''] (bs ''a'') True = None"
  by (simp add: ngx_http_parse_multi_header_lines_def header_loop.simps skip_spaces_def skip_item_def ngx_tolower_def Let_def)

end
