(* ===== verification/Rv2.thy ===== *)
theory Rv2
  imports Rewrite_Stack Ngx_Crc32
begin

text \<open>
  The module \<^verbatim>\<open>src/c/ngx_http_rv2_module\<close>: remote variables, kept in memcached servers. \<^verbatim>\<open>rv_dec\<close> declares one, \<^verbatim>\<open>rv_get\<close>,
  \<^verbatim>\<open>rv_set\<close>, \<^verbatim>\<open>rv_add\<close>, \<^verbatim>\<open>rv_incr\<close>, \<^verbatim>\<open>rv_decr\<close> and \<^verbatim>\<open>rv_delete\<close> are compiled into codes of the rewrite module. Also \<^verbatim>\<open>ngx_mcd_connect\<close> of
  \<^verbatim>\<open>ngx_util/ngx_memcached_util.h\<close>.

  The library libmemcached is a parameter: a record of its functions over a state of the servers. A connection is the address
  it was opened with, \<open>None\<close> as long as the pointer was not assigned. Undefined behaviour (such a pointer,
  memory that was not initialised, a remainder by zero) is \<open>None\<close>. A configuration that returned an error is not used, so the tables that come
  with an error message are those of the call.
\<close>

section \<open>The library\<close>

datatype memcached_return =
    MEMCACHED_SUCCESS
  | MEMCACHED_NOTFOUND
  | MEMCACHED_NOTSTORED
  | MEMCACHED_ERRNO bool
  | MEMCACHED_OTHER

text \<open>
  The argument of \<open>MEMCACHED_ERRNO\<close> says whether \<^verbatim>\<open>errno\<close> is \<^verbatim>\<open>ECONNREFUSED\<close>. The offset of the counters is an \<^verbatim>\<open>uint32_t\<close> in the interface of the
  library.
\<close>

record 's memcached =
  mc_server_add :: "bool \<Rightarrow> bytes \<Rightarrow> memcached_return"
  mc_get :: "bytes \<Rightarrow> bytes \<Rightarrow> 's \<Rightarrow> memcached_return \<times> bytes \<times> 's"
  mc_set :: "bytes \<Rightarrow> bytes \<Rightarrow> bytes \<Rightarrow> 's \<Rightarrow> memcached_return \<times> 's"
  mc_add :: "bytes \<Rightarrow> bytes \<Rightarrow> bytes \<Rightarrow> 's \<Rightarrow> memcached_return \<times> 's"
  mc_increment :: "bytes \<Rightarrow> bytes \<Rightarrow> u32 \<Rightarrow> 's \<Rightarrow> memcached_return \<times> ngx_uint \<times> 's"
  mc_decrement :: "bytes \<Rightarrow> bytes \<Rightarrow> u32 \<Rightarrow> 's \<Rightarrow> memcached_return \<times> ngx_uint \<times> 's"
  mc_delete :: "bytes \<Rightarrow> bytes \<Rightarrow> 's \<Rightarrow> memcached_return \<times> 's"

text \<open>\<^verbatim>\<open>ngx_mcd_connect\<close> with its buffer of 128 bytes; the first result is the status, the second what \<^verbatim>\<open>*mc\<close> is set to.\<close>

definition ngx_mcd_connect :: "'s memcached \<Rightarrow> bytes \<Rightarrow> bytes option \<Rightarrow> 's \<Rightarrow> (ngx_rc \<times> bytes option \<times> 's) option" where
  "ngx_mcd_connect mc addr conn s =
     (if addr = [] then Some (NGX_ERROR, conn, s)
      else if length addr \<ge> 128 then None
      else if mc_server_add mc (hd addr = cb (CHR ''/'')) addr \<noteq> MEMCACHED_SUCCESS then Some (NGX_ERROR, conn, s)
      else
        case mc_get mc addr (bs ''a'') s of (rc, _, s) \<Rightarrow>
          Some (if rc \<in> {MEMCACHED_NOTFOUND, MEMCACHED_SUCCESS} then NGX_OK else NGX_ERROR, Some addr, s))"

section \<open>Configuration data\<close>

datatype rv_op = RV_UNKNOWN | RV_GET | RV_SET | RV_INCR | RV_DECR | RV_ADD | RV_DELETE | RV_NULL

record rv2_mcd_node =
  mn_addr :: bytes
  mn_mc :: "bytes option"

record rv2_us_node =
  un_name :: bytes
  un_mcd_array :: "rv2_mcd_node list"

datatype hash_type = HASH_CRC32 | HASH_CRC32_SHORT

type_synonym rv2_eval = "lcode list \<times> vcode list"

record rv2 =
  r2_name :: bytes
  r2_key_idx :: nat
  r2_hash_type :: hash_type
  r2_hash_key_idx :: nat
  r2_us_name_e :: rv2_eval
  r2_default_val_e :: rv2_eval

text \<open>The data of a code; a field is \<open>None\<close> as long as nothing was assigned to it, an index also for \<^verbatim>\<open>NGX_CONF_UNSET\<close>.\<close>

record rv2_op_data =
  od_rv :: "rv2 option"
  od_optype :: rv_op
  od_vidx :: "nat option"
  od_rcidx :: "nat option"
  od_v2set_e :: "rv2_eval option"

datatype rv2_code = RvGetter rv2_op_data | RvSetter rv2_op_data

datatype rv2_rcs =
    rv2_err_success | rv2_err_notfound | rv2_err_notstored | rv2_err_error | rv2_err_connection | rv2_err_invalid_us
  | rv2_err_nosuch_us | rv2_err_internal | rv2_err_hashkey | rv2_err_key | rv2_err_invalid_val

fun rcs_text :: "rv2_rcs \<Rightarrow> bytes" where
  "rcs_text rv2_err_success = bs ''SUCCESS''"
| "rcs_text rv2_err_notfound = bs ''NOTFOUND''"
| "rcs_text rv2_err_notstored = bs ''NOTSTORED''"
| "rcs_text rv2_err_error = bs ''ERROR''"
| "rcs_text rv2_err_connection = bs ''CONNECTION''"
| "rcs_text rv2_err_invalid_us = bs ''INVALID_US''"
| "rcs_text rv2_err_nosuch_us = bs ''NOSUCH_US''"
| "rcs_text rv2_err_internal = bs ''INTERNAL''"
| "rcs_text rv2_err_hashkey = bs ''HASHKEY''"
| "rcs_text rv2_err_key = bs ''KEY''"
| "rcs_text rv2_err_invalid_val = bs ''INVALID_VAL''"

section \<open>The table of upstreams\<close>

record rv2_main_conf =
  r2_uss :: "rv2_us_node list"
  r2_us_hash :: hash_t

text \<open>
  \<^verbatim>\<open>ngx_http_rv2_post_conf\<close>: an upstream is its name and the addresses of its servers, \<open>None\<close> without a server list. The value of an
  entry is the position of the node. \<open>ok\<close> says whether the arrays are created, \<open>pa\<close> which of the blocks for the hash are allocated.
\<close>

definition rv2_us_nodes :: "(bytes \<times> bytes list option) list \<Rightarrow> rv2_us_node list" where
  "rv2_us_nodes upstreams =
     map (\<lambda>(name, servers). \<lparr>un_name = name, un_mcd_array = map (\<lambda>a. \<lparr>mn_addr = a, mn_mc = None\<rparr>) (the servers)\<rparr>)
       (filter (\<lambda>(name, servers). servers \<noteq> None) upstreams)"

fun rv2_fill_hash :: "(nat \<Rightarrow> bool) \<Rightarrow> rv2_us_node list \<Rightarrow> nat \<Rightarrow> hash_t \<Rightarrow> ngx_rc \<times> hash_t" where
  "rv2_fill_hash pa [] i h = (NGX_OK, h)"
| "rv2_fill_hash pa (us # uss) i h =
     (case hash_padd pa h (un_name us) (of_nat i) of
        (rc, h) \<Rightarrow> if rc \<noteq> NGX_OK then (NGX_ERROR, h) else rv2_fill_hash pa uss (i + 1) h)"

definition ngx_http_rv2_post_conf ::
    "bool \<Rightarrow> (nat \<Rightarrow> bool) \<Rightarrow> (bytes \<times> bytes list option) list \<Rightarrow> ngx_rc \<times> rv2_main_conf option" where
  "ngx_http_rv2_post_conf ok pa upstreams =
     (if \<not> ok then (NGX_ERROR, None)
      else
        let uss = rv2_us_nodes upstreams in
        case hash_create pa (length uss * 2) of
          None \<Rightarrow> (NGX_ERROR, None)
        | Some h \<Rightarrow>
            (case rv2_fill_hash pa uss 0 h of (rc, h) \<Rightarrow> (rc, Some \<lparr>r2_uss = uss, r2_us_hash = h\<rparr>)))"

text \<open>\<^verbatim>\<open>ngx_http_rv2_init_proc\<close>: every server is connected, failures are only logged.\<close>

fun rv2_connect_nodes :: "'s memcached \<Rightarrow> rv2_mcd_node list \<Rightarrow> 's \<Rightarrow> (rv2_mcd_node list \<times> 's) option" where
  "rv2_connect_nodes mc [] s = Some ([], s)"
| "rv2_connect_nodes mc (n # ns) s =
     Option.bind (ngx_mcd_connect mc (mn_addr n) (mn_mc n) s) (\<lambda>(_, conn, s).
     map_option (\<lambda>(ns, s). (n\<lparr>mn_mc := conn\<rparr> # ns, s)) (rv2_connect_nodes mc ns s))"

fun rv2_connect_uss :: "'s memcached \<Rightarrow> rv2_us_node list \<Rightarrow> 's \<Rightarrow> (rv2_us_node list \<times> 's) option" where
  "rv2_connect_uss mc [] s = Some ([], s)"
| "rv2_connect_uss mc (us # uss) s =
     Option.bind (rv2_connect_nodes mc (un_mcd_array us) s) (\<lambda>(ns, s).
     map_option (\<lambda>(uss, s). (us\<lparr>un_mcd_array := ns\<rparr> # uss, s)) (rv2_connect_uss mc uss s))"

definition ngx_http_rv2_init_proc :: "'s memcached \<Rightarrow> rv2_main_conf \<Rightarrow> 's \<Rightarrow> (ngx_rc \<times> rv2_main_conf \<times> 's) option" where
  "ngx_http_rv2_init_proc mc mcf s =
     map_option (\<lambda>(uss, s). (NGX_OK, mcf\<lparr>r2_uss := uss\<rparr>, s)) (rv2_connect_uss mc (r2_uss mcf) s)"

section \<open>Declaring remote variables\<close>

text \<open>A configuration step: undefined, an error message (\<^verbatim>\<open>NGX_CONF_ERROR\<close> is the empty one), or a result.\<close>

type_synonym 'a conf_step = "(string + 'a) option"

definition conf_bind :: "'a conf_step \<Rightarrow> ('a \<Rightarrow> 'b conf_step) \<Rightarrow> 'b conf_step" where
  "conf_bind r f = Option.bind r (\<lambda>r. case r of Inl msg \<Rightarrow> Some (Inl msg) | Inr x \<Rightarrow> f x)"

definition conf_ok :: "'a \<Rightarrow> 'a conf_step" where
  "conf_ok x = Some (Inr x)"

definition conf_fail :: "string \<Rightarrow> 'a conf_step" where
  "conf_fail msg = Some (Inl msg)"

text \<open>A null pointer, or no index, where the command then returns \<^verbatim>\<open>NGX_CONF_ERROR\<close>.\<close>

definition conf_some :: "'a option \<Rightarrow> 'a conf_step" where
  "conf_some x = (case x of None \<Rightarrow> conf_fail [] | Some y \<Rightarrow> conf_ok y)"

definition ngx_http_rv2_if_exists :: "rv2 list \<Rightarrow> bytes \<Rightarrow> bool" where
  "ngx_http_rv2_if_exists rvs name = list_ex (\<lambda>rv. ngx_str_eq name (r2_name rv)) rvs"

fun ngx_http_rv2_get_index :: "rv2 list \<Rightarrow> bytes \<Rightarrow> nat option" where
  "ngx_http_rv2_get_index [] name = None"
| "ngx_http_rv2_get_index (rv # rvs) name =
     (if ngx_str_eq name (r2_name rv) then Some 0 else map_option Suc (ngx_http_rv2_get_index rvs name))"

definition ngx_http_rv2_find :: "rv2 list \<Rightarrow> bytes \<Rightarrow> rv2 option" where
  "ngx_http_rv2_find rvs name = find (\<lambda>rv. ngx_str_eq name (r2_name rv)) rvs"

text \<open>
  The arguments of \<^verbatim>\<open>rv_dec\<close>. A default name is printed into 64 bytes; \<^verbatim>\<open>snprintf\<close> returns the length the text would have had, so using
  a longer one reads behind the buffer: \<open>None\<close>.
\<close>

record rv2_dec_args =
  da_usname :: "bytes option"
  da_keyname :: "bytes option"
  da_hash :: bytes
  da_hash_key :: "bytes option"
  da_hash_set :: bool
  da_default :: bytes

definition print_name :: "bytes \<Rightarrow> bytes \<Rightarrow> bytes option" where
  "print_name name sfx =
     (let t = takeWhile (\<lambda>c. c \<noteq> 0) name @ sfx in if length t < 64 then Some t else None)"

definition case_pre :: "string \<Rightarrow> bytes \<Rightarrow> bool" where
  "case_pre q v \<longleftrightarrow> take (length q) v = bs q"

definition rv2_dec_arg :: "bytes \<Rightarrow> rv2_dec_args \<Rightarrow> rv2_dec_args conf_step" where
  "rv2_dec_arg v da =
     (if case_pre ''upstream='' v then conf_ok (da\<lparr>da_usname := Some (drop 9 v)\<rparr>)
      else if case_pre ''key='' v then
        (case ngx_http_get_var_name_str (drop 4 v) of
           Inl res \<Rightarrow> conf_fail res | Inr n \<Rightarrow> conf_ok (da\<lparr>da_keyname := Some n\<rparr>))
      else if case_pre ''hash='' v then conf_ok (da\<lparr>da_hash := drop 5 v\<rparr>)
      else if case_pre ''hash_key='' v then
        (case ngx_http_get_var_name_str (drop 9 v) of
           Inl res \<Rightarrow> conf_fail res | Inr n \<Rightarrow> conf_ok (da\<lparr>da_hash_key := Some n, da_hash_set := True\<rparr>))
      else if case_pre ''default='' v then conf_ok (da\<lparr>da_default := drop 8 v\<rparr>)
      else conf_ok da)"

fun rv2_dec_args_loop :: "bytes list \<Rightarrow> rv2_dec_args \<Rightarrow> rv2_dec_args conf_step" where
  "rv2_dec_args_loop [] da = conf_ok da"
| "rv2_dec_args_loop (v # vs) da = conf_bind (rv2_dec_arg v da) (rv2_dec_args_loop vs)"

text \<open>
  Compiling one of the expressions. The arrays are taken from the structure that was pushed without clearing it; \<open>zeroed\<close> says whether its memory
  happens to be zero.
\<close>

definition rv2_compile ::
    "script_pool \<Rightarrow> bool \<Rightarrow> string \<Rightarrow> bytes \<Rightarrow> 'h var_conf \<Rightarrow> (rv2_eval \<times> 'h var_conf) conf_step" where
  "rv2_compile pl zeroed msg src vc =
     (if \<not> zeroed then None
      else Option.bind (ngx_http_script_compile pl src fresh_compile vc) (\<lambda>(rc, sc, vc).
        if rc \<noteq> NGX_OK then conf_fail msg
        else conf_ok ((the (sc_lengths sc), the (sc_values sc)), vc)))"

definition rv2_index :: "script_pool \<Rightarrow> string \<Rightarrow> bytes \<Rightarrow> 'h var_conf \<Rightarrow> (nat \<times> 'h var_conf) conf_step" where
  "rv2_index pl msg name vc =
     (case ngx_http_get_variable_index (sp_index pl name) vc name of
        (None, vc) \<Rightarrow> conf_fail msg | (Some i, vc) \<Rightarrow> conf_ok (i, vc))"

definition rv2_hash_func :: "bytes \<Rightarrow> hash_type conf_step" where
  "rv2_hash_func hash =
     (if ngx_str_eq hash (bs ''crc32'') then conf_ok HASH_CRC32
      else if ngx_str_eq hash (bs ''crc32_short'') then conf_ok HASH_CRC32_SHORT
      else conf_fail ''unsupported hash method'')"

text \<open>
  The rest of \<^verbatim>\<open>ngx_http_rv2_dec_command\<close>, when the arguments are read: the upstream name, the key, the hash method, the hash key and the
  default value, in this order.
\<close>

definition rv2_dec_finish ::
    "script_pool \<Rightarrow> bool \<Rightarrow> bytes \<Rightarrow> rv2_dec_args \<Rightarrow> 'h var_conf \<Rightarrow> (rv2 \<times> 'h var_conf) conf_step" where
  "rv2_dec_finish pl zeroed name da vc =
     Option.bind (da_usname da) (\<lambda>usname.
     conf_bind (rv2_compile pl zeroed ''parse upstream name expression failed'' usname vc) (\<lambda>(us_e, vc).
     Option.bind (da_keyname da) (\<lambda>keyname.
     conf_bind (rv2_index pl ''key name variable is not set'' keyname vc) (\<lambda>(key_idx, vc).
     conf_bind (rv2_hash_func (da_hash da)) (\<lambda>ht.
     Option.bind (da_hash_key da) (\<lambda>hash_key.
     conf_bind (rv2_index pl ''hash key variable is not set'' hash_key vc) (\<lambda>(hash_idx, vc).
     conf_bind (rv2_compile pl zeroed ''parsing default value expression failed'' (da_default da) vc) (\<lambda>(def_e, vc).
       conf_ok (\<lparr>r2_name = name, r2_key_idx = key_idx, r2_hash_type = ht, r2_hash_key_idx = hash_idx,
                 r2_us_name_e = us_e, r2_default_val_e = def_e\<rparr>, vc)))))))))"

text \<open>\<open>ok\<close>: whether the element and the buffers for the names are allocated; the third buffer is not tested.\<close>

definition ngx_http_rv2_dec_command ::
    "script_pool \<Rightarrow> bool \<Rightarrow> bool \<times> bool \<times> bool \<Rightarrow> bytes list \<Rightarrow> rv2 list \<Rightarrow> 'h var_conf \<Rightarrow> (rv2 list \<times> 'h var_conf) conf_step" where
  "ngx_http_rv2_dec_command pl zeroed ok vals rvs vc =
     (case ok of (ok_rv, ok_names, ok_hash_key) \<Rightarrow>
      if length vals < 2 then conf_fail ''require at least 1 argument''
      else
        case ngx_http_get_var_name_str (vals ! 1) of
          Inl res \<Rightarrow> conf_fail res
        | Inr name \<Rightarrow>
            if ngx_http_rv2_if_exists rvs name then conf_fail ''duplicate rv name declared''
            else if \<not> ok_rv then conf_fail ''allocating rv context failed''
            else if \<not> ok_names then conf_fail ''allocating buffers failed''
            else if \<not> ok_hash_key then None
            else
              let da = \<lparr>da_usname = print_name name (bs ''_us''), da_keyname = print_name name (bs ''_key''),
                        da_hash = bs ''crc32'', da_hash_key = print_name name (bs ''_key''), da_hash_set = False,
                        da_default = bs ''NULL''\<rparr>
              in conf_bind (rv2_dec_args_loop (drop 2 vals) da) (\<lambda>da.
                 let da = (if da_hash_set da then da else da\<lparr>da_hash_key := da_keyname da\<rparr>) in
                 conf_bind (rv2_dec_finish pl zeroed name da vc) (\<lambda>(rv, vc). conf_ok (rvs @ [rv], vc))))"

section \<open>Compiling the operations\<close>

definition cmd_map :: "(bytes \<times> rv_op) list" where
  "cmd_map =
     [(bs ''get'', RV_GET), (bs ''set'', RV_SET), (bs ''incr'', RV_INCR), (bs ''decr'', RV_DECR), (bs ''add'', RV_ADD),
      (bs ''delete'', RV_DELETE)]"

definition rv2_get_cmd_type :: "bytes \<Rightarrow> rv_op" where
  "rv2_get_cmd_type cmd =
     (if length cmd < 3 then RV_UNKNOWN
      else case find (\<lambda>(c, op). ngx_str_eq (drop 3 cmd) c) cmd_map of None \<Rightarrow> RV_UNKNOWN | Some (c, op) \<Rightarrow> op)"

text \<open>
  The variable of a name and its index. \<open>ok\<close> is the allocation of the variable, \<open>unreach\<close> the handler
  \<^verbatim>\<open>ngx_http_rv2_unreachable_get_handler\<close> with its data.
\<close>

definition ngx_http_rv2_add_var ::
    "script_pool \<Rightarrow> (nat \<Rightarrow> 'h) \<Rightarrow> bytes \<Rightarrow> 'h var_conf \<Rightarrow> (nat option \<times> nat option) \<times> 'h var_conf" where
  "ngx_http_rv2_add_var pl unreach name vc =
     (case ngx_http_add_variable True vc name True of
        (None, vc) \<Rightarrow> ((None, None), vc)
      | (Some v, vc) \<Rightarrow>
          (case ngx_http_get_variable_index (sp_index pl name) vc name of
             (idx, vc) \<Rightarrow>
               ((idx, Some v),
                if var_get_handler (vc_keys vc ! v) = None \<and> \<not> special_name name
                then var_set_get_handler v (unreach (case idx of None \<Rightarrow> unat NGX_ERROR_VAL | Some i \<Rightarrow> i)) vc else vc)))"

definition ngx_http_rv2_code_set_gen ::
    "script_pool \<Rightarrow> nat \<Rightarrow> ('h, 'x) rw_loc_conf \<Rightarrow> 'h var_conf \<Rightarrow> (('h, 'x) rw_loc_conf \<times> 'h var_conf) conf_step" where
  "ngx_http_rv2_code_set_gen pl v lcf vc =
     (case ngx_http_get_variable_index (sp_index pl (var_name (vc_keys vc ! v))) vc (var_name (vc_keys vc ! v)) of
        (idx, vc) \<Rightarrow>
          conf_bind
            (conf_some (ngx_http_script_start_code pl (set_code vc v (case idx of None \<Rightarrow> unat NGX_ERROR_VAL | Some i \<Rightarrow> i)) lcf))
            (\<lambda>lcf. conf_ok (lcf, vc)))"

text \<open>\<^verbatim>\<open>ngx_http_rv2_add_var\<close> where its failure ends the command.\<close>

definition rv2_var ::
    "script_pool \<Rightarrow> (nat \<Rightarrow> 'h) \<Rightarrow> bytes \<Rightarrow> 'h var_conf \<Rightarrow> (nat \<times> nat \<times> 'h var_conf) conf_step" where
  "rv2_var pl unreach name vc =
     (case ngx_http_rv2_add_var pl unreach name vc of
        ((Some i, Some v), vc) \<Rightarrow> conf_ok (i, v, vc) | (_, vc) \<Rightarrow> conf_fail [])"

definition rv2_var_name :: "bytes \<Rightarrow> bytes conf_step" where
  "rv2_var_name v = (case ngx_http_get_var_name_str v of Inl res \<Rightarrow> conf_fail res | Inr n \<Rightarrow> conf_ok n)"

definition put_code :: "nat \<Rightarrow> ('h, 'x) code \<Rightarrow> ('h, 'x) rw_loc_conf \<Rightarrow> ('h, 'x) rw_loc_conf" where
  "put_code k c lcf = lcf\<lparr>lc_codes := Some ((codes_of lcf)[k := c])\<rparr>"

definition blank_op :: "rv_op \<Rightarrow> rv2_op_data" where
  "blank_op op = \<lparr>od_rv = None, od_optype = op, od_vidx = None, od_rcidx = None, od_v2set_e = None\<rparr>"

text \<open>The variable for the status, when its name is given.\<close>

definition rv2_rc_var ::
    "script_pool \<Rightarrow> (nat \<Rightarrow> 'h) \<Rightarrow> bytes option \<Rightarrow> 'h var_conf \<Rightarrow> ((nat \<times> nat) option \<times> 'h var_conf) conf_step" where
  "rv2_rc_var pl unreach rcname vc =
     (case rcname of
        None \<Rightarrow> conf_ok (None, vc)
      | Some n \<Rightarrow> conf_bind (rv2_var pl unreach n vc) (\<lambda>(i, v, vc). conf_ok (Some (i, v), vc)))"

definition rv2_rc_set ::
    "script_pool \<Rightarrow> (nat \<times> nat) option \<Rightarrow> ('h, 'x) rw_loc_conf \<Rightarrow> 'h var_conf \<Rightarrow> (('h, 'x) rw_loc_conf \<times> 'h var_conf) conf_step" where
  "rv2_rc_set pl rc lcf vc =
     (case rc of None \<Rightarrow> conf_ok (lcf, vc) | Some (i, v) \<Rightarrow> ngx_http_rv2_code_set_gen pl v lcf vc)"

text \<open>
  \<^verbatim>\<open>rv_get $value $rv [$rc]\<close>. The name of the status variable is taken only from a command with exactly four words; an empty
  name counts as none.
\<close>

definition ngx_http_rv2_getter_command ::
    "script_pool \<Rightarrow> (nat \<Rightarrow> 'h) \<Rightarrow> rv2 list \<Rightarrow> bytes list \<Rightarrow> ('h, rv2_code) rw_loc_conf \<Rightarrow> 'h var_conf \<Rightarrow>
     (('h, rv2_code) rw_loc_conf \<times> 'h var_conf) conf_step" where
  "ngx_http_rv2_getter_command pl unreach rvs vals lcf vc =
     conf_bind (rv2_var_name (vals ! 1)) (\<lambda>val.
     conf_bind (rv2_var_name (vals ! 2)) (\<lambda>rvname.
     conf_bind (if length vals = 4 then rv2_var_name (vals ! 3) else conf_ok []) (\<lambda>rcname.
     conf_bind (rv2_var pl unreach val vc) (\<lambda>(valindex, v, vc).
     conf_bind (conf_some (ngx_http_script_start_code pl (CExt (RvGetter (blank_op RV_UNKNOWN))) lcf)) (\<lambda>lcf1.
     conf_bind (conf_some (ngx_http_rv2_find rvs rvname)) (\<lambda>rv.
     conf_bind (rv2_rc_var pl unreach (if rcname = [] then None else Some rcname) vc) (\<lambda>(rc, vc).
     conf_bind
       (ngx_http_rv2_code_set_gen pl v
         (put_code (length (codes_of lcf))
           (CExt (RvGetter ((blank_op RV_UNKNOWN)\<lparr>od_rv := Some rv, od_vidx := Some valindex, od_rcidx := map_option fst rc\<rparr>)))
           lcf1) vc) (\<lambda>(lcf, vc).
       rv2_rc_set pl rc lcf vc))))))))"

text \<open>
  The setters. \<open>moves n\<close> says whether pushing the code number \<open>n\<close> moves the array of codes; \<^verbatim>\<open>rvod\<close> then still points into the old block and
  what is assigned through it is lost. An argument behind the last one is read from whatever the array of words held before: \<open>None\<close>.
\<close>

definition rv2_arg :: "bytes list \<Rightarrow> nat \<Rightarrow> bytes conf_step" where
  "rv2_arg vals i = (if i < length vals then conf_ok (vals ! i) else None)"

definition rv2_new_value ::
    "script_pool \<Rightarrow> (nat \<Rightarrow> 'h) \<Rightarrow> rv_op \<Rightarrow> bytes list \<Rightarrow> ('h, rv2_code) rw_loc_conf \<Rightarrow> 'h var_conf \<Rightarrow>
     (nat option \<times> nat \<times> ('h, rv2_code) rw_loc_conf \<times> 'h var_conf) conf_step" where
  "rv2_new_value pl unreach op vals lcf vc =
     (if op = RV_INCR \<or> op = RV_DECR then
        conf_bind (rv2_arg vals 1) (\<lambda>w.
        conf_bind (rv2_var_name w) (\<lambda>name.
        conf_bind (rv2_var pl unreach name vc) (\<lambda>(i, v, vc).
        conf_bind (ngx_http_rv2_code_set_gen pl v lcf vc) (\<lambda>(lcf, vc). conf_ok (Some i, 2, lcf, vc)))))
      else conf_ok (None, 1, lcf, vc))"

definition rv2_value_to_set ::
    "script_pool \<Rightarrow> bool \<Rightarrow> rv_op \<Rightarrow> bytes list \<Rightarrow> nat \<Rightarrow> 'h var_conf \<Rightarrow> (rv2_eval option \<times> nat \<times> 'h var_conf) conf_step" where
  "rv2_value_to_set pl zeroed op vals ival vc =
     (if op = RV_DELETE then conf_ok (None, ival, vc)
      else
        conf_bind (rv2_arg vals ival) (\<lambda>w.
        conf_bind (rv2_compile pl zeroed ''parse value_to_set expression failed'' w vc) (\<lambda>(ev, vc).
          conf_ok (Some ev, ival + 1, vc))))"

text \<open>The data of the code at the end of the command; \<open>lost\<close> when the array moved after the first two fields were set.\<close>

definition setter_data :: "rv_op \<Rightarrow> bool \<Rightarrow> nat option \<Rightarrow> rv2 \<Rightarrow> rv2_eval option \<Rightarrow> (nat \<times> nat) option \<Rightarrow> rv2_op_data" where
  "setter_data op lost vidx rv v2set rc =
     (if lost then (blank_op op)\<lparr>od_vidx := vidx\<rparr>
      else (blank_op op)\<lparr>od_vidx := vidx, od_rv := Some rv, od_v2set_e := v2set, od_rcidx := map_option fst rc\<rparr>)"

definition rv2_rc_name :: "bytes list \<Rightarrow> nat \<Rightarrow> bytes option conf_step" where
  "rv2_rc_name vals ival =
     (if ival < length vals then conf_bind (rv2_var_name (vals ! ival)) (\<lambda>n. conf_ok (Some n)) else conf_ok None)"

definition ngx_http_rv2_setter_command ::
    "script_pool \<Rightarrow> (nat \<Rightarrow> bool) \<Rightarrow> bool \<Rightarrow> (nat \<Rightarrow> 'h) \<Rightarrow> rv2 list \<Rightarrow> bytes \<Rightarrow> bytes list \<Rightarrow> ('h, rv2_code) rw_loc_conf \<Rightarrow>
     'h var_conf \<Rightarrow> (('h, rv2_code) rw_loc_conf \<times> 'h var_conf) conf_step" where
  "ngx_http_rv2_setter_command pl moves zeroed unreach rvs name vals lcf vc =
     (let op = rv2_get_cmd_type name; k = length (codes_of lcf) in
      if op = RV_UNKNOWN then conf_fail ''illegal command name''
      else
        conf_bind (conf_some (ngx_http_script_start_code pl (CExt (RvSetter (blank_op op))) lcf)) (\<lambda>lcf.
        conf_bind (rv2_new_value pl unreach op vals lcf vc) (\<lambda>(vidx, ival, lcf, vc).
        conf_bind (rv2_arg vals ival) (\<lambda>w.
        conf_bind (rv2_var_name w) (\<lambda>rvname.
        conf_bind (conf_some (ngx_http_rv2_find rvs rvname)) (\<lambda>rv.
        conf_bind (rv2_value_to_set pl zeroed op vals (ival + 1) vc) (\<lambda>(v2set, ival, vc).
        conf_bind (rv2_rc_name vals ival) (\<lambda>rcname.
        conf_bind (rv2_rc_var pl unreach rcname vc) (\<lambda>(rc, vc).
          rv2_rc_set pl rc
            (put_code k (CExt (RvSetter (setter_data op (vidx \<noteq> None \<and> moves (k + 1)) vidx rv v2set rc))) lcf) vc)))))))))"

section \<open>Running the codes\<close>

text \<open>
  What a code needs: the handlers of the variables, which of the allocations succeed (for the upstream name, the default value, the value to
  set and the buffers of the result), the upstreams and the library.
\<close>

record 's rv2_env =
  ve_gh :: "nat \<Rightarrow> vvl \<Rightarrow> ngx_rc \<times> vvl"
  ve_nc :: "nat \<Rightarrow> bool"
  ve_ok_us :: bool
  ve_ok_default :: bool
  ve_ok_value :: bool
  ve_ok_buf :: bool
  ve_conf :: rv2_main_conf
  ve_mc :: "'s memcached"

definition variable_isok :: "vvl option \<Rightarrow> bool" where
  "variable_isok v \<longleftrightarrow> (case v of None \<Rightarrow> False | Some v \<Rightarrow> vl_valid v \<and> \<not> vl_not_found v \<and> vl_data v \<noteq> [])"

text \<open>An expression: \<open>None\<close> in the first place when the evaluation fails. A text shorter than its announced length would be read beyond what was written.\<close>

definition rv2_run_eval :: "bool \<Rightarrow> 's rv2_env \<Rightarrow> rv2_eval \<Rightarrow> vvl list \<Rightarrow> (bytes option \<times> vvl list) option" where
  "rv2_run_eval ok ev ex vars =
     Option.bind (ngx_http_script_run ok (ve_gh ev) (ve_gh ev) (ve_nc ev) vars (fst ex) 0 (snd ex)) (\<lambda>(r, vars).
       case r of None \<Rightarrow> Some (None, vars)
       | Some (t, n) \<Rightarrow> if length t = n then Some (Some t, vars) else None)"

definition rv2_get_us_node :: "'s rv2_env \<Rightarrow> rv2 \<Rightarrow> vvl list \<Rightarrow> ((rv2_rcs + rv2_us_node) \<times> vvl list) option" where
  "rv2_get_us_node ev rv vars =
     Option.bind (rv2_run_eval (ve_ok_us ev) ev (r2_us_name_e rv) vars) (\<lambda>(r, vars).
       case r of
         None \<Rightarrow> Some (Inl rv2_err_invalid_us, vars)
       | Some usname \<Rightarrow>
           if h_size (r2_us_hash (ve_conf ev)) = 0 then None
           else
             let us = hash_find (r2_us_hash (ve_conf ev)) usname in
             if us = HASH_VAL_UNSET then Some (Inl rv2_err_nosuch_us, vars)
             else Some (Inr (r2_uss (ve_conf ev) ! unat us), vars))"

fun rv2_hash :: "hash_type \<Rightarrow> bytes \<Rightarrow> u32" where
  "rv2_hash HASH_CRC32 s = ngx_crc32_long s"
| "rv2_hash HASH_CRC32_SHORT s = ngx_crc32_short s"

definition rv2_get_mcd_node ::
    "'s rv2_env \<Rightarrow> rv2 \<Rightarrow> rv2_us_node \<Rightarrow> vvl list \<Rightarrow> ((rv2_rcs + rv2_mcd_node) \<times> vvl list) option" where
  "rv2_get_mcd_node ev rv us vars =
     (case ngx_http_get_indexed_variable (ve_gh ev) (ve_nc ev) vars (r2_hash_key_idx rv) of
        (hvv, vars) \<Rightarrow>
          if \<not> variable_isok hvv then Some (Inl rv2_err_hashkey, vars)
          else if un_mcd_array us = [] then None
          else Some (Inr (un_mcd_array us ! (unat (rv2_hash (r2_hash_type rv) (vl_data (the hvv))) mod length (un_mcd_array us))), vars))"

text \<open>\<^verbatim>\<open>rv2_get_mcd\<close>, which the getter has in line.\<close>

definition rv2_get_mcd :: "'s rv2_env \<Rightarrow> rv2 \<Rightarrow> vvl list \<Rightarrow> ((rv2_rcs + bytes) \<times> vvl list) option" where
  "rv2_get_mcd ev rv vars =
     Option.bind (rv2_get_us_node ev rv vars) (\<lambda>(us, vars).
       case us of
         Inl rcs \<Rightarrow> Some (Inl rcs, vars)
       | Inr us \<Rightarrow>
           Option.bind (rv2_get_mcd_node ev rv us vars) (\<lambda>(n, vars).
             case n of
               Inl rcs \<Rightarrow> Some (Inl rcs, vars)
             | Inr n \<Rightarrow> map_option (\<lambda>mc. (Inr mc, vars)) (mn_mc n)))"

definition set_vars :: "vvl list \<Rightarrow> 's rengine \<Rightarrow> 's rengine" where
  "set_vars vars e = e\<lparr>rn_e := (rn_e e)\<lparr>en_vars := vars\<rparr>\<rparr>"

lemma set_vars_simps [simp]:
  "en_vars (rn_e (set_vars vars e)) = vars" "set_vars vars (set_vars vars' e) = set_vars vars e" "rn_ext (set_vars vars e) = rn_ext e"
  "rn_sp (set_vars vars e) = rn_sp e" "rn_stack (set_vars vars e) = rn_stack e"
  by (simp_all add: set_vars_def)

definition text_val :: "bytes \<Rightarrow> sval" where
  "text_val s = SVal (null_value\<lparr>vl_data := s\<rparr>)"

text \<open>The status, when there is a variable for it, and then the value.\<close>

definition rv2_push_rc :: "rv2_op_data \<Rightarrow> rv2_rcs \<Rightarrow> 's rengine \<Rightarrow> 's rengine option" where
  "rv2_push_rc od rcs e = (if od_rcidx od \<noteq> None then push (text_val (rcs_text rcs)) e else Some e)"

definition rv2_push_str :: "rv2_op_data \<Rightarrow> rv2_rcs \<Rightarrow> bytes \<Rightarrow> 's rengine \<Rightarrow> 's rengine option" where
  "rv2_push_str od rcs v e = Option.bind (rv2_push_rc od rcs e) (push (text_val v))"

text \<open>What a failed code gives as value: the default value after the status in \<open>dflt\<close>, else nothing. A failure of its evaluation is ignored and
  an uninitialised string is pushed: \<open>None\<close>.\<close>

definition rv2_push_failed :: "'s rv2_env \<Rightarrow> rv2 \<Rightarrow> rv2_rcs \<Rightarrow> rv2_rcs \<Rightarrow> 's rengine \<Rightarrow> 's rengine option" where
  "rv2_push_failed ev rv dflt rcs e =
     (if rcs = dflt then
        Option.bind (rv2_run_eval (ve_ok_default ev) ev (r2_default_val_e rv) (en_vars (rn_e e))) (\<lambda>(def, vars).
        Option.bind def (\<lambda>def. push (text_val def) (set_vars vars e)))
      else push (text_val []) e)"

definition rv2_getter_error :: "'s rv2_env \<Rightarrow> rv2 \<Rightarrow> rv2_op_data \<Rightarrow> rv2_rcs \<Rightarrow> 's rengine \<Rightarrow> 's rengine option" where
  "rv2_getter_error ev rv od rcs e =
     Option.bind (rv2_push_rc od rcs e) (rv2_push_failed ev rv rv2_err_notfound rcs)"

text \<open>The server and the key of an operation, or the status of the failure.\<close>

definition rv2_target :: "'s rv2_env \<Rightarrow> rv2 \<Rightarrow> vvl list \<Rightarrow> ((rv2_rcs + (bytes \<times> bytes)) \<times> vvl list) option" where
  "rv2_target ev rv vars =
     Option.bind (rv2_get_mcd ev rv vars) (\<lambda>(r, vars).
       case r of
         Inl rcs \<Rightarrow> Some (Inl rcs, vars)
       | Inr mcd \<Rightarrow>
           (case ngx_http_get_indexed_variable (ve_gh ev) (ve_nc ev) vars (r2_key_idx rv) of
              (kvv, vars) \<Rightarrow>
                Some (if variable_isok kvv then Inr (mcd, vl_data (the kvv)) else Inl rv2_err_key, vars)))"

text \<open>What the getter does with the answer of the library.\<close>

definition rv2_get_done ::
    "'s rv2_env \<Rightarrow> rv2 \<Rightarrow> rv2_op_data \<Rightarrow> memcached_return \<Rightarrow> bytes \<Rightarrow> 's rengine \<Rightarrow> 's rengine option" where
  "rv2_get_done ev rv od rc val e =
     (case rc of
        MEMCACHED_SUCCESS \<Rightarrow>
          if ve_ok_buf ev then rv2_push_str od rv2_err_success val e
          else rv2_getter_error ev rv od rv2_err_internal e
      | MEMCACHED_NOTFOUND \<Rightarrow> rv2_getter_error ev rv od rv2_err_notfound e
      | MEMCACHED_ERRNO refused \<Rightarrow>
          rv2_getter_error ev rv od (if refused then rv2_err_connection else rv2_err_error) e
      | _ \<Rightarrow> rv2_getter_error ev rv od rv2_err_error e)"

definition ngx_http_rv2_getter_code :: "'s rv2_env \<Rightarrow> rv2_op_data \<Rightarrow> 's rengine \<Rightarrow> 's rengine option" where
  "ngx_http_rv2_getter_code ev od e =
     Option.bind (od_rv od) (\<lambda>rv.
     Option.bind (rv2_target ev rv (en_vars (rn_e e))) (\<lambda>(r, vars).
       let e = set_vars vars e in
       case r of
         Inl rcs \<Rightarrow> rv2_getter_error ev rv od rcs e
       | Inr (mcd, key) \<Rightarrow>
           (case mc_get (ve_mc ev) mcd key (rn_ext e) of
              (rc, val, s) \<Rightarrow> rv2_get_done ev rv od rc val (e\<lparr>rn_ext := s\<rparr>))))"

text \<open>\<^verbatim>\<open>snprintf("%d")\<close> of a 64-bit number takes its low half.\<close>

definition print_int :: "ngx_int \<Rightarrow> bytes" where
  "print_int w =
     (let i = sint (ucast w :: u32) in if i < 0 then bs ''-'' @ dec_print (nat (- i)) else dec_print (nat i))"

definition rv2_push_i :: "'s rv2_env \<Rightarrow> rv2_op_data \<Rightarrow> ngx_int \<Rightarrow> rv2_rcs \<Rightarrow> 's rengine \<Rightarrow> (rv2_rcs + 's rengine) option" where
  "rv2_push_i ev od ival rcs e =
     (if ve_ok_buf ev then map_option Inr (rv2_push_str od rcs (print_int ival) e) else Some (Inl rv2_err_internal))"

text \<open>\<open>Inl\<close> is the status for the error return of the caller, which has the variables of the evaluation.\<close>

definition rv2_add_default_value ::
    "'s rv2_env \<Rightarrow> rv2 \<Rightarrow> rv2_op_data \<Rightarrow> bytes \<Rightarrow> bytes \<Rightarrow> ngx_int \<Rightarrow> 's rengine \<Rightarrow> ((rv2_rcs \<times> 's rengine) + 's rengine) option" where
  "rv2_add_default_value ev rv od mcd key d e =
     Option.bind (rv2_run_eval (ve_ok_default ev) ev (r2_default_val_e rv) (en_vars (rn_e e))) (\<lambda>(def, vars).
       let e = set_vars vars e in
       case def of
         None \<Rightarrow> Some (Inl (rv2_err_internal, e))
       | Some def \<Rightarrow>
           let iv = (if ngx_atoi def = NGX_ERROR_VAL then 0 else ngx_atoi def);
               iv = (if od_optype od = RV_INCR then iv + d else iv - d)
           in if \<not> ve_ok_buf ev then Some (Inl (rv2_err_internal, e))
              else
                case mc_add (ve_mc ev) mcd key (print_int iv) (rn_ext e) of
                  (rc, s) \<Rightarrow>
                    let e = e\<lparr>rn_ext := s\<rparr> in
                    map_option Inr
                      (case rc of
                         MEMCACHED_SUCCESS \<Rightarrow> rv2_push_str od rv2_err_success (print_int iv) e
                       | MEMCACHED_NOTSTORED \<Rightarrow> rv2_push_str od rv2_err_notstored def e
                       | _ \<Rightarrow> rv2_push_str od rv2_err_internal def e))"

definition rv2_setter_error :: "'s rv2_env \<Rightarrow> rv2 \<Rightarrow> rv2_op_data \<Rightarrow> rv2_rcs \<Rightarrow> 's rengine \<Rightarrow> 's rengine option" where
  "rv2_setter_error ev rv od rcs e =
     Option.bind (rv2_push_rc od rcs e) (\<lambda>e.
       if od_vidx od \<noteq> None then rv2_push_failed ev rv rv2_err_notstored rcs e else Some e)"

text \<open>The value to set, and the number for the counters; \<open>Inl\<close> is the status of a failure.\<close>

definition rv2_operand ::
    "'s rv2_env \<Rightarrow> rv2_op_data \<Rightarrow> vvl list \<Rightarrow> ((rv2_rcs + (bytes \<times> ngx_int)) \<times> vvl list) option" where
  "rv2_operand ev od vars =
     (if od_optype od = RV_DELETE then Some (Inr ([], 0), vars)
      else
        Option.bind (od_v2set_e od) (\<lambda>ex.
        map_option (\<lambda>(r, vars).
          (case r of
             None \<Rightarrow> Inl rv2_err_internal
           | Some v2set \<Rightarrow>
               if od_optype od = RV_INCR \<or> od_optype od = RV_DECR then
                 if ngx_atoi v2set = NGX_ERROR_VAL then Inl rv2_err_invalid_val else Inr (v2set, ngx_atoi v2set)
               else Inr (v2set, 0), vars))
          (rv2_run_eval (ve_ok_value ev) ev ex vars)))"

text \<open>The call of the library: its result, the new value of a counter and the state; \<open>None\<close> for an operation that is none of these.\<close>

definition rv2_call ::
    "'s memcached \<Rightarrow> rv_op \<Rightarrow> bytes \<Rightarrow> bytes \<Rightarrow> bytes \<Rightarrow> ngx_int \<Rightarrow> 's \<Rightarrow> (memcached_return \<times> ngx_uint \<times> 's) option" where
  "rv2_call mc op mcd key v2set d s =
     (case op of
        RV_SET \<Rightarrow> Some (case mc_set mc mcd key v2set s of (rc, s) \<Rightarrow> (rc, 0, s))
      | RV_INCR \<Rightarrow> Some (mc_increment mc mcd key (ucast d) s)
      | RV_DECR \<Rightarrow> Some (mc_decrement mc mcd key (ucast d) s)
      | RV_ADD \<Rightarrow> Some (case mc_add mc mcd key v2set s of (rc, s) \<Rightarrow> (rc, 0, s))
      | RV_DELETE \<Rightarrow> Some (case mc_delete mc mcd key s of (rc, s) \<Rightarrow> (rc, 0, s))
      | _ \<Rightarrow> None)"

text \<open>What follows the call.\<close>

definition rv2_counter_done ::
    "'s rv2_env \<Rightarrow> rv2 \<Rightarrow> rv2_op_data \<Rightarrow> bytes \<Rightarrow> bytes \<Rightarrow> ngx_int \<Rightarrow> memcached_return \<Rightarrow> ngx_uint \<Rightarrow> 's rengine \<Rightarrow>
     's rengine option" where
  "rv2_counter_done ev rv od mcd key d rc ival e =
     (case rc of
        MEMCACHED_SUCCESS \<Rightarrow>
          Option.bind (rv2_push_i ev od ival rv2_err_success e) (\<lambda>r.
            case r of Inl rcs \<Rightarrow> rv2_setter_error ev rv od rcs e | Inr e \<Rightarrow> Some e)
      | MEMCACHED_NOTFOUND \<Rightarrow>
          Option.bind (rv2_add_default_value ev rv od mcd key d e) (\<lambda>r.
            case r of Inl (rcs, e) \<Rightarrow> rv2_setter_error ev rv od rcs e | Inr e \<Rightarrow> Some e)
      | _ \<Rightarrow> rv2_setter_error ev rv od rv2_err_error e)"

definition rv2_store_done ::
    "'s rv2_env \<Rightarrow> rv2 \<Rightarrow> rv2_op_data \<Rightarrow> memcached_return \<Rightarrow> 's rengine \<Rightarrow> 's rengine option" where
  "rv2_store_done ev rv od rc e =
     (case rc of
        MEMCACHED_SUCCESS \<Rightarrow> rv2_push_rc od rv2_err_success e
      | MEMCACHED_NOTSTORED \<Rightarrow> rv2_setter_error ev rv od rv2_err_notstored e
      | _ \<Rightarrow> rv2_setter_error ev rv od rv2_err_error e)"

definition rv2_apply ::
    "'s rv2_env \<Rightarrow> rv2 \<Rightarrow> rv2_op_data \<Rightarrow> bytes \<Rightarrow> bytes \<Rightarrow> bytes \<Rightarrow> ngx_int \<Rightarrow> 's rengine \<Rightarrow> 's rengine option" where
  "rv2_apply ev rv od mcd key v2set d e =
     (case rv2_call (ve_mc ev) (od_optype od) mcd key v2set d (rn_ext e) of
        None \<Rightarrow> rv2_setter_error ev rv od rv2_err_internal e
      | Some (rc, ival, s) \<Rightarrow>
          let e = e\<lparr>rn_ext := s\<rparr> in
          if rc = MEMCACHED_ERRNO True then rv2_setter_error ev rv od rv2_err_connection e
          else if od_optype od = RV_INCR \<or> od_optype od = RV_DECR
          then rv2_counter_done ev rv od mcd key d rc ival e
          else rv2_store_done ev rv od rc e)"

definition ngx_http_rv2_setter_code :: "'s rv2_env \<Rightarrow> rv2_op_data \<Rightarrow> 's rengine \<Rightarrow> 's rengine option" where
  "ngx_http_rv2_setter_code ev od e =
     Option.bind (od_rv od) (\<lambda>rv.
     Option.bind (rv2_target ev rv (en_vars (rn_e e))) (\<lambda>(r, vars).
       let e = set_vars vars e in
       case r of
         Inl rcs \<Rightarrow> rv2_setter_error ev rv od rcs e
       | Inr (mcd, key) \<Rightarrow>
           Option.bind (rv2_operand ev od (en_vars (rn_e e))) (\<lambda>(x, vars).
             let e = set_vars vars e in
             case x of
               Inl rcs \<Rightarrow> rv2_setter_error ev rv od rcs e
             | Inr (v2set, d) \<Rightarrow> rv2_apply ev rv od mcd key v2set d e)))"

fun rv2_run :: "'s rv2_env \<Rightarrow> rv2_code \<Rightarrow> 's rengine \<Rightarrow> 's rengine option" where
  "rv2_run ev (RvGetter od) e = ngx_http_rv2_getter_code ev od e"
| "rv2_run ev (RvSetter od) e = ngx_http_rv2_setter_code ev od e"

section \<open>What the codes leave on the stack\<close>

fun rv2_effect :: "rv2_code \<Rightarrow> nat \<times> nat" where
  "rv2_effect (RvGetter od) = (0, (if od_rcidx od = None then 0 else 1) + 1)"
| "rv2_effect (RvSetter od) = (0, (if od_rcidx od = None then 0 else 1) + (if od_vidx od = None then 0 else 1))"

text \<open>The value variable is there exactly for the counters.\<close>

definition op_ok :: "rv2_op_data \<Rightarrow> bool" where
  "op_ok od \<longleftrightarrow> (od_vidx od \<noteq> None \<longleftrightarrow> od_optype od = RV_INCR \<or> od_optype od = RV_DECR)"

definition gives :: "nat \<Rightarrow> 's rengine \<Rightarrow> 's rengine \<Rightarrow> bool" where
  "gives k e e' \<longleftrightarrow> moved 0 k e e'"

definition n_rc :: "rv2_op_data \<Rightarrow> nat" where
  "n_rc od = (if od_rcidx od = None then 0 else 1)"

lemma gives_trans: "gives k a b \<Longrightarrow> gives j b c \<Longrightarrow> gives (k + j) a c"
  by (auto simp: gives_def moved_def)

lemma gives_updates [simp]:
  "gives k (set_vars vars e) e' = gives k e e'" "gives k (e\<lparr>rn_ext := s\<rparr>) e' = gives k e e'"
  by (simp_all add: gives_def moved_def set_vars_def)

lemma push_gives: "push v e = Some e' \<Longrightarrow> gives 1 e e'"
  using push_moved gives_def by blast

lemma push_rc_gives: "rv2_push_rc od rcs e = Some e' \<Longrightarrow> gives (n_rc od) e e'"
  by (auto simp: rv2_push_rc_def n_rc_def gives_def dest: push_moved split: if_splits)

lemma push_str_gives: "rv2_push_str od rcs v e = Some e' \<Longrightarrow> gives (n_rc od + 1) e e'"
  unfolding rv2_push_str_def Option.bind_eq_Some_conv using push_rc_gives push_gives gives_trans by blast

lemma push_failed_gives: "rv2_push_failed ev rv dflt rcs e = Some e' \<Longrightarrow> gives 1 e e'"
  by (auto simp: rv2_push_failed_def Option.bind_eq_Some_conv dest!: push_gives split: if_splits)

lemma getter_error_gives: "rv2_getter_error ev rv od rcs e = Some e' \<Longrightarrow> gives (n_rc od + 1) e e'"
  unfolding rv2_getter_error_def Option.bind_eq_Some_conv using push_rc_gives push_failed_gives gives_trans by blast

lemma get_done_gives: "rv2_get_done ev rv od rc val e = Some e' \<Longrightarrow> gives (n_rc od + 1) e e'"
  by (cases rc) (auto simp: rv2_get_done_def dest: push_str_gives getter_error_gives simp del: add.commute One_nat_def Suc_eq_plus1 add_Suc_right
      split: if_splits)

lemma getter_gives:
  assumes "ngx_http_rv2_getter_code ev od e = Some e'"
  shows "gives (n_rc od + 1) e e'"
proof -
  obtain rv r vars where r: "od_rv od = Some rv" "rv2_target ev rv (en_vars (rn_e e)) = Some (r, vars)"
    using assms by (auto simp: ngx_http_rv2_getter_code_def Option.bind_eq_Some_conv)
  show ?thesis
  proof (cases r)
    case (Inl rcs)
    with r assms getter_error_gives [of ev rv od rcs "set_vars vars e" e'] show ?thesis
      by (simp add: ngx_http_rv2_getter_code_def)
  next
    case (Inr mk)
    obtain mcd key where mk: "mk = (mcd, key)" by fastforce
    obtain rc val s where "mc_get (ve_mc ev) mcd key (rn_ext (set_vars vars e)) = (rc, val, s)" by (metis prod_cases3)
    with r assms Inr mk get_done_gives [of ev rv od rc val "(set_vars vars e)\<lparr>rn_ext := s\<rparr>" e'] show ?thesis
      by (simp add: ngx_http_rv2_getter_code_def Let_def)
  qed
qed

definition n_val :: "rv2_op_data \<Rightarrow> nat" where
  "n_val od = (if od_vidx od = None then 0 else 1)"

lemma setter_error_gives:
  assumes "rv2_setter_error ev rv od rcs e = Some e'"
  shows "gives (n_rc od + n_val od) e e'"
proof -
  from assms obtain e1 where e1: "rv2_push_rc od rcs e = Some e1"
    "(if od_vidx od \<noteq> None then rv2_push_failed ev rv rv2_err_notstored rcs e1 else Some e1) = Some e'"
    unfolding rv2_setter_error_def Option.bind_eq_Some_conv by blast
  have "gives (n_val od) e1 e'"
    using e1(2) push_failed_gives by (cases "od_vidx od") (auto simp: n_val_def gives_def)
  with push_rc_gives [OF e1(1)] gives_trans show ?thesis by blast
qed

lemma push_i_gives: "rv2_push_i ev od ival rcs e = Some (Inr e') \<Longrightarrow> gives (n_rc od + 1) e e'"
  using push_str_gives by (auto simp: rv2_push_i_def split: if_splits)

lemma add_default_gives:
  assumes "rv2_add_default_value ev rv od mcd key d e = Some r"
  shows "case r of Inl (rcs, e') \<Rightarrow> gives 0 e e' | Inr e' \<Rightarrow> gives (n_rc od + 1) e e'"
proof -
  obtain def vars where def: "rv2_run_eval (ve_ok_default ev) ev (r2_default_val_e rv) (en_vars (rn_e e)) = Some (def, vars)"
    using assms by (auto simp: rv2_add_default_value_def Option.bind_eq_Some_conv)
  show ?thesis
  proof (cases "def = None \<or> \<not> ve_ok_buf ev")
    case True
    with assms def have "r = Inl (rv2_err_internal, set_vars vars e)"
      by (cases "def") (auto simp: rv2_add_default_value_def)
    then show ?thesis by (simp add: gives_def moved_def set_vars_def)
  next
    case False
    then obtain t where t: "def = Some t" by (cases "def") auto
    define iv where "iv = (if od_optype od = RV_INCR then (if ngx_atoi t = NGX_ERROR_VAL then 0 else ngx_atoi t) + d
      else (if ngx_atoi t = NGX_ERROR_VAL then 0 else ngx_atoi t) - d)"
    obtain rc s where "mc_add (ve_mc ev) mcd key (print_int iv) (rn_ext (set_vars vars e)) = (rc, s)" by fastforce
    with assms def t False obtain e' rcs v where "r = Inr e'" "rv2_push_str od rcs v ((set_vars vars e)\<lparr>rn_ext := s\<rparr>) = Some e'"
      by (cases rc) (auto simp: rv2_add_default_value_def Let_def iv_def)
    with push_str_gives [OF this(2)] show ?thesis by simp
  qed
qed

lemma sum_bind:
  "Option.bind r f = Some z \<Longrightarrow> (\<exists>a. r = Some (Inl a) \<and> f (Inl a) = Some z) \<or> (\<exists>b. r = Some (Inr b) \<and> f (Inr b) = Some z)"
  by (cases r; cases "the r") auto

lemma counter_done_gives:
  assumes "rv2_counter_done ev rv od mcd key d rc ival e = Some e'" and "od_vidx od \<noteq> None"
  shows "gives (n_rc od + n_val od) e e'"
proof -
  have n: "n_val od = 1" using assms(2) by (simp add: n_val_def)
  consider (ok) "rv2_push_i ev od ival rv2_err_success e = Some (Inr e')"
    | (dflt) "rv2_add_default_value ev rv od mcd key d e = Some (Inr e')"
    | (dflt_err) rcs e1 where "rv2_add_default_value ev rv od mcd key d e = Some (Inl (rcs, e1))"
      "rv2_setter_error ev rv od rcs e1 = Some e'"
    | (err) rcs where "rv2_setter_error ev rv od rcs e = Some e'"
    using assms(1)
    by (cases rc) (auto simp: rv2_counter_done_def dest!: sum_bind)
  then show ?thesis
  proof cases
    case dflt_err
    with add_default_gives [OF this(1)] setter_error_gives [OF this(2)] gives_trans [of 0 e e1] show ?thesis by fastforce
  qed (use n push_i_gives add_default_gives setter_error_gives in fastforce)+
qed

lemma store_done_gives:
  assumes "rv2_store_done ev rv od rc e = Some e'" and "od_vidx od = None"
  shows "gives (n_rc od + n_val od) e e'"
proof -
  have "n_val od = 0" using assms(2) by (simp add: n_val_def)
  with assms(1) setter_error_gives [of ev rv od _ e e'] push_rc_gives [of od rv2_err_success e e'] show ?thesis
    by (cases rc) (auto simp: rv2_store_done_def)
qed

lemma apply_gives:
  assumes "rv2_apply ev rv od mcd key v2set d e = Some e'" and "op_ok od"
  shows "gives (n_rc od + n_val od) e e'"
proof (cases "rv2_call (ve_mc ev) (od_optype od) mcd key v2set d (rn_ext e)")
  case None
  with assms(1) setter_error_gives show ?thesis by (fastforce simp: rv2_apply_def)
next
  case (Some r)
  obtain rc ival s where r: "r = (rc, ival, s)" by (metis prod_cases3)
  let ?e = "e\<lparr>rn_ext := s\<rparr>"
  have "gives (n_rc od + n_val od) ?e e'"
    using assms Some r setter_error_gives [of ev rv od rv2_err_connection ?e e']
      counter_done_gives [of ev rv od mcd key d rc ival ?e e'] store_done_gives [of ev rv od rc ?e e']
    by (auto simp: rv2_apply_def op_ok_def Let_def split: if_splits)
  then show ?thesis by simp
qed

lemma setter_gives:
  assumes "ngx_http_rv2_setter_code ev od e = Some e'" and "op_ok od"
  shows "gives (n_rc od + n_val od) e e'"
proof -
  obtain rv r vars where r: "od_rv od = Some rv" "rv2_target ev rv (en_vars (rn_e e)) = Some (r, vars)"
    using assms by (auto simp: ngx_http_rv2_setter_code_def Option.bind_eq_Some_conv)
  show ?thesis
  proof (cases r)
    case (Inl rcs)
    with r assms(1) setter_error_gives [of ev rv od rcs "set_vars vars e" e'] show ?thesis
      by (simp add: ngx_http_rv2_setter_code_def)
  next
    case (Inr mk)
    obtain mcd key where mk: "mk = (mcd, key)" by fastforce
    with Inr r assms(1) obtain x vars' where x: "rv2_operand ev od vars = Some (x, vars')"
      and e': "(case x of Inl rcs \<Rightarrow> rv2_setter_error ev rv od rcs (set_vars vars' e)
        | Inr (v2set, d) \<Rightarrow> rv2_apply ev rv od mcd key v2set d (set_vars vars' e)) = Some e'"
      by (auto simp: ngx_http_rv2_setter_code_def Option.bind_eq_Some_conv Let_def)
    have "gives (n_rc od + n_val od) (set_vars vars' e) e'"
      using e' by (cases x) (auto dest: setter_error_gives apply_gives [OF _ assms(2)] split: prod.splits)
    then show ?thesis by simp
  qed
qed

text \<open>Counters from \<open>2 ^ 31\<close> on are printed wrongly.\<close>

lemma rv2_print_truncates: "print_int (2 ^ 31) = bs ''-2147483648''" "print_int (2 ^ 32 + 7) = bs ''7''"
  by (simp_all add: print_int_def Let_def dec_print.simps)

section \<open>The commands keep the stack balanced\<close>

definition rv2_fx :: "rv2_code \<Rightarrow> (nat \<times> nat) option" where
  "rv2_fx c =
     (case c of
        RvGetter od \<Rightarrow> Some (0, n_rc od + 1)
      | RvSetter od \<Rightarrow> if op_ok od then Some (0, n_rc od + n_val od) else None)"

lemma rv2_ext_effect: "ev_ext ev = rv2_run ve \<Longrightarrow> ext_effect rv2_fx ev"
  by (auto simp: ext_effect_def rv2_fx_def gives_def moved_def split: rv2_code.splits if_splits
      dest: getter_gives [unfolded gives_def moved_def] setter_gives [unfolded gives_def moved_def])

text \<open>A command of this module as a step of the configuration.\<close>

definition rv2_command ::
    "(('h, 'x) rw_loc_conf \<Rightarrow> 'h var_conf \<Rightarrow> (('h, 'x) rw_loc_conf \<times> 'h var_conf) conf_step) \<Rightarrow>
     ('h, 'x) rw_loc_conf \<Rightarrow> 'h var_conf \<Rightarrow> ('h, 'x) command_result" where
  "rv2_command f lcf vc =
     map_option (\<lambda>r. case r of Inl msg \<Rightarrow> (False, lcf, vc) | Inr (lcf, vc) \<Rightarrow> (True, lcf, vc)) (f lcf vc)"

lemma conf_bind_ok: "conf_bind r f = conf_ok y \<longleftrightarrow> (\<exists>x. r = conf_ok x \<and> f x = conf_ok y)"
  by (cases r; cases "the r") (auto simp: conf_bind_def conf_ok_def)

lemma conf_some_ok: "conf_some x = conf_ok y \<longleftrightarrow> x = Some y"
  by (cases x) (simp_all add: conf_some_def conf_ok_def conf_fail_def)

lemma conf_ok_inject [simp]: "conf_ok x = conf_ok y \<longleftrightarrow> x = y" "conf_fail m \<noteq> conf_ok x" "conf_ok x \<noteq> conf_fail m"
  "(None :: 'a conf_step) \<noteq> conf_ok x"
  by (simp_all add: conf_ok_def conf_fail_def)

lemma start_code_codes: "ngx_http_script_start_code pl c lcf = Some lcf' \<Longrightarrow> codes_of lcf' = codes_of lcf @ [c]"
  by (auto simp: ngx_http_script_start_code_def split: if_splits)

lemma code_set_gen_codes:
  assumes "ngx_http_rv2_code_set_gen pl v lcf vc = conf_ok (lcf', vc')"
  shows "\<exists>vc1 i. codes_of lcf' = codes_of lcf @ [set_code vc1 v i]"
  using assms by (auto simp: ngx_http_rv2_code_set_gen_def conf_bind_ok conf_some_ok dest!: start_code_codes split: prod.splits)

definition count :: "'a option \<Rightarrow> nat" where
  "count x = (case x of None \<Rightarrow> 0 | Some y \<Rightarrow> 1)"

lemma count_simps [simp]: "count None = 0" "count (Some y) = 1" "count (map_option f x) = count x" "count x \<le> 1"
  by (simp_all add: count_def split: option.split)

lemma n_count: "n_rc od = count (od_rcidx od)" "n_val od = count (od_vidx od)"
  by (simp_all add: n_rc_def n_val_def count_def split: option.split)

lemma rc_set_codes:
  assumes "rv2_rc_set pl rc lcf vc = conf_ok (lcf', vc')"
  shows "\<exists>seg. codes_of lcf' = codes_of lcf @ seg \<and> segment_ok fx lim seg (count rc) 0"
proof (cases rc)
  case (Some iv)
  obtain i v where "iv = (i, v)" by fastforce
  with Some assms obtain vc1 j where c: "codes_of lcf' = codes_of lcf @ [set_code vc1 v j]"
    using code_set_gen_codes [of pl v lcf vc lcf' vc'] by (auto simp: rv2_rc_set_def)
  moreover have "segment_ok fx lim [set_code vc1 v j] 1 0"
    using segment_code [of fx lim "set_code vc1 v j" 1] by (simp add: set_code_facts has_room_def depth_after_def)
  ultimately show ?thesis using Some by auto
qed (use assms in \<open>auto simp: rv2_rc_set_def segment_Nil\<close>)

lemma put_code_codes: "codes_of lcf = cs @ c # rest \<Longrightarrow> codes_of (put_code (length cs) c' lcf) = cs @ c' # rest"
  by (simp add: put_code_def)

text \<open>The codes of an operation: the operation, the assignment of its value, if it has one, and of its status.\<close>

lemma operation_segment:
  assumes "rv2_fx x = Some (0, m + length cs)" and "cs = [] \<or> (\<exists>vc v i. cs = [set_code vc v i])" and "m \<le> 1" and "2 \<le> lim"
    and "segment_ok rv2_fx lim seg m 0"
  shows "segment_ok rv2_fx lim (CExt x # cs @ seg) 0 0"
proof -
  have "segment_ok rv2_fx lim [set_code vc v i] (m + 1) m" for vc v i
    using segment_code [of rv2_fx lim "set_code vc v i" "m + 1"] assms(3,4)
    by (simp add: set_code_facts has_room_def depth_after_def)
  then have "segment_ok rv2_fx lim cs (m + length cs) m" using assms(2) by (auto simp: segment_Nil)
  from segment_append [OF this assms(5)] show ?thesis
    using assms(1-4) by (intro segment_Cons) (auto simp: has_room_def depth_after_def)
qed

lemma getter_emits:
  assumes "ngx_http_rv2_getter_command pl unreach rvs vals lcf vc = conf_ok (lcf', vc')" and "2 \<le> lim"
  shows "emits rv2_fx lim lcf lcf' 0 0"
proof -
  obtain lcf1 lcf2 vc1 vc2 rv rc v valindex where
    start: "ngx_http_script_start_code pl (CExt (RvGetter (blank_op RV_UNKNOWN))) lcf = Some lcf1"
    and gen: "ngx_http_rv2_code_set_gen pl v (put_code (length (codes_of lcf)) (CExt (RvGetter ((blank_op RV_UNKNOWN)
      \<lparr>od_rv := Some rv, od_vidx := Some valindex, od_rcidx := map_option fst rc\<rparr>))) lcf1) vc1 = conf_ok (lcf2, vc2)"
    and rc: "rv2_rc_set pl rc lcf2 vc2 = conf_ok (lcf', vc')"
    using assms(1) unfolding ngx_http_rv2_getter_command_def by (auto simp: conf_bind_ok conf_some_ok)
  let ?od = "(blank_op RV_UNKNOWN)\<lparr>od_rv := Some rv, od_vidx := Some valindex, od_rcidx := map_option fst rc\<rparr>"
  obtain seg where seg: "codes_of lcf' = codes_of lcf2 @ seg" "segment_ok rv2_fx lim seg (count rc) 0"
    using rc_set_codes [OF rc] by blast
  obtain vc3 i where "codes_of lcf2 = codes_of lcf @ CExt (RvGetter ?od) # [set_code vc3 v i]"
    using code_set_gen_codes [OF gen] put_code_codes [of lcf1 "codes_of lcf" _ "[]"] start_code_codes [OF start] by auto
  moreover have "rv2_fx (RvGetter ?od) = Some (0, count rc + length [set_code vc3 v i])"
    by (simp add: rv2_fx_def n_count)
  from operation_segment [OF this _ count_simps(4) assms(2) seg(2)]
  have "segment_ok rv2_fx lim (CExt (RvGetter ?od) # [set_code vc3 v i] @ seg) 0 0" by blast
  ultimately show ?thesis using seg(1) by (auto simp: emits_def)
qed

text \<open>A setter; for one with a new value, when the array of codes did not move under it.\<close>

lemma new_value_codes:
  assumes "rv2_new_value pl unreach op vals lcf vc = conf_ok (vidx, ival, lcf', vc')"
  obtains cs where "codes_of lcf' = codes_of lcf @ cs" and "cs = [] \<or> (\<exists>vc v i. cs = [set_code vc v i])" and "length cs = count vidx"
    and "vidx \<noteq> None \<longleftrightarrow> op = RV_INCR \<or> op = RV_DECR"
proof (cases "op = RV_INCR \<or> op = RV_DECR")
  case True
  with assms obtain v vc1 i where "ngx_http_rv2_code_set_gen pl v lcf vc1 = conf_ok (lcf', vc')" "vidx = Some i"
    by (auto simp: rv2_new_value_def conf_bind_ok)
  with code_set_gen_codes [OF this(1)] True that show ?thesis by fastforce
qed (use assms that [of "[]"] in \<open>auto simp: rv2_new_value_def\<close>)

lemma setter_emits:
  assumes "ngx_http_rv2_setter_command pl moves zeroed unreach rvs name vals lcf vc = conf_ok (lcf', vc')" and "2 \<le> lim"
    and "rv2_get_cmd_type name \<in> {RV_INCR, RV_DECR} \<longrightarrow> \<not> moves (length (codes_of lcf) + 1)"
  shows "emits rv2_fx lim lcf lcf' 0 0"
proof -
  let ?op = "rv2_get_cmd_type name" and ?k = "length (codes_of lcf)"
  obtain lcf1 vidx ival lcf2 vc2 rv v2set rc vc3 where
    start: "ngx_http_script_start_code pl (CExt (RvSetter (blank_op ?op))) lcf = Some lcf1"
    and val: "rv2_new_value pl unreach ?op vals lcf1 vc = conf_ok (vidx, ival, lcf2, vc2)"
    and rc0: "rv2_rc_set pl rc (put_code ?k (CExt (RvSetter (setter_data ?op (vidx \<noteq> None \<and> moves (?k + 1)) vidx rv v2set rc))) lcf2) vc3 = conf_ok (lcf', vc')"
    using assms(1) unfolding ngx_http_rv2_setter_command_def Let_def
    by (auto simp: conf_bind_ok conf_some_ok simp del: Let_def split: if_splits)
  let ?od = "setter_data ?op False vidx rv v2set rc"
  obtain cs where cs: "codes_of lcf2 = codes_of lcf1 @ cs" "cs = [] \<or> (\<exists>vc v i. cs = [set_code vc v i])" "length cs = count vidx"
    "vidx \<noteq> None \<longleftrightarrow> ?op = RV_INCR \<or> ?op = RV_DECR"
    using new_value_codes [OF val] .
  have kept: "(vidx \<noteq> None \<and> moves (?k + 1)) = False" using cs(4) assms(3) by auto
  have rc: "rv2_rc_set pl rc (put_code ?k (CExt (RvSetter ?od)) lcf2) vc3 = conf_ok (lcf', vc')"
    using rc0 unfolding kept .
  have "codes_of lcf2 = codes_of lcf @ CExt (RvSetter (blank_op ?op)) # cs"
    using cs(1) start_code_codes [OF start] by simp
  from put_code_codes [OF this, of "CExt (RvSetter ?od)"] obtain seg where
    seg: "codes_of lcf' = codes_of lcf @ CExt (RvSetter ?od) # cs @ seg" "segment_ok rv2_fx lim seg (count rc) 0"
    using rc_set_codes [OF rc, of rv2_fx lim] by auto
  have "op_ok ?od" using cs(4) by (simp add: op_ok_def setter_data_def blank_op_def)
  then have "rv2_fx (RvSetter ?od) = Some (0, count rc + length cs)"
    using cs(3) by (simp add: rv2_fx_def n_count setter_data_def blank_op_def)
  from operation_segment [OF this cs(2) count_simps(4) assms(2) seg(2)] seg(1) show ?thesis by (auto simp: emits_def)
qed

lemma rv2_command_ok: "rv2_command f lcf vc = Some (True, lcf', vc') \<longleftrightarrow> f lcf vc = conf_ok (lcf', vc')"
  by (cases "f lcf vc"; cases "the (f lcf vc)") (auto simp: rv2_command_def conf_ok_def)

lemma rv2_commands_ok:
  assumes "2 \<le> lim"
  shows "command_ok rv2_fx lim (rv2_command (ngx_http_rv2_getter_command pl unreach rvs vals))"
    and "(\<And>n. rv2_get_cmd_type name \<in> {RV_INCR, RV_DECR} \<longrightarrow> \<not> moves n) \<Longrightarrow>
      command_ok rv2_fx lim (rv2_command (ngx_http_rv2_setter_command pl moves zeroed unreach rvs name vals))"
  using getter_emits [OF _ assms] setter_emits [OF _ assms] unfolding command_ok_def rv2_command_ok by blast+

text \<open>
  The directives of a location that uses this module beside the rewrite module; \<open>rvs\<close> are the declared remote variables. The array of codes
  does not move while \<^verbatim>\<open>rv_incr\<close> or \<^verbatim>\<open>rv_decr\<close> is compiled, the two that push a code before they are done with the data of their own; under the other
  commands it may move.
\<close>

fun rv2_directive :: "script_pool \<Rightarrow> (nat \<Rightarrow> 'h) \<Rightarrow> rv2 list \<Rightarrow> ('h, rv2_code) directive \<Rightarrow> bool" where
  "rv2_directive pl unreach rvs (DIf ws loc_conf ds) = list_all (rv2_directive pl unreach rvs) ds"
| "rv2_directive pl unreach rvs (DCommand cmd) \<longleftrightarrow>
     (\<exists>vals. cmd = rv2_command (ngx_http_rv2_getter_command pl unreach rvs vals)) \<or>
     (\<exists>moves zeroed name vals. cmd = rv2_command (ngx_http_rv2_setter_command pl moves zeroed unreach rvs name vals) \<and>
        (rv2_get_cmd_type name \<in> {RV_INCR, RV_DECR} \<longrightarrow> (\<forall>n. \<not> moves n)))"
| "rv2_directive pl unreach rvs _ = True"

lemma rv2_directive_ok:
  assumes "2 \<le> lim"
  shows "rv2_directive pl unreach rvs d \<Longrightarrow> directive_ok rv2_fx lim d"
  by (induction pl unreach rvs d rule: rv2_directive.induct) (auto simp: list_all_iff intro!: rv2_commands_ok [OF assms])

section \<open>The server and the key of an operation\<close>

text \<open>
  What the declarations compile, and an environment in which nothing fails and no value is flushed: then the variables an operation reads keep
  their values.
\<close>

definition eval_prog :: "rv2_eval \<Rightarrow> vcode list \<Rightarrow> bool" where
  "eval_prog ex vs \<longleftrightarrow> ex = (map lcode_of vs @ [LNull], vs @ [VNull]) \<and> set vs \<inter> {VNull, VStartArgs} = {}"

definition ve_ok :: "'s rv2_env \<Rightarrow> bool" where
  "ve_ok ev \<longleftrightarrow>
     handlers_ok (ve_gh ev) \<and> caching_handlers (ve_gh ev) (ve_nc ev) \<and>
     ve_ok_us ev \<and> ve_ok_default ev \<and> ve_ok_value ev \<and> ve_ok_buf ev"

definition reads :: "vvl list \<Rightarrow> vvl list \<Rightarrow> bool" where
  "reads vars vars' \<longleftrightarrow> settles vars vars' \<and> cached vars'"

lemma reads_trans: "reads a b \<Longrightarrow> reads b c \<Longrightarrow> reads a c"
  using settles_trans by (auto simp: reads_def)

lemma run_eval_text:
  assumes "ve_ok ev" and "eval_prog ex vs" and "cached vars" and ok
  obtains vars' where "rv2_run_eval ok ev ex vars = Some (Some (concat (map (code_text vars') vs)), vars')"
    and "reads vars vars'" and "codes_settled vars' vs"
proof -
  have h: "handlers_ok (ve_gh ev)" "caching_handlers (ve_gh ev) (ve_nc ev)" using assms(1) by (simp_all add: ve_ok_def)
  have vs: "set vs \<inter> {VNull, VStartArgs} = {}" using assms(2) by (simp add: eval_prog_def)
  obtain vars' where "settles (map flush_value vars) vars'" "codes_settled vars' vs"
    "cached vars'"
    "ngx_http_script_run True (ve_gh ev) (ve_gh ev) (ve_nc ev) vars (map lcode_of vs @ [LNull]) 0 (vs @ [VNull]) =
      Some (Some (concat (map (code_text vars') vs), length (concat (map (code_text vars') vs))), vars')"
    using script_run_text [OF h(1) vs, where vars = vars and ghv = "ve_gh ev" and nc = "ve_nc ev"] assms(3) h(2) by blast
  with assms(2-4) that [of vars'] show ?thesis
    by (simp add: rv2_run_eval_def eval_prog_def reads_def cached_flush)
qed

lemma codes_text_reads:
  assumes "reads vars vars'" and "codes_settled vars vs"
  shows "map (code_text vars') vs = map (code_text vars) vs" and "codes_settled vars' vs"
proof -
  have "codes_settled vars [c]" if "c \<in> set vs" for c using assms(2) that by (auto simp: codes_settled_def)
  with code_text_settles [of vars vars'] assms(1) show "map (code_text vars') vs = map (code_text vars) vs"
    by (simp add: reads_def)
  show "codes_settled vars' vs" using assms settles_settled by (auto simp: codes_settled_def reads_def)
qed

text \<open>An expression that was evaluated once has the same value ever after.\<close>

lemma run_eval_again:
  assumes "ve_ok ev" and "eval_prog ex vs" and "reads vars1 vars2" and "codes_settled vars1 vs" and ok
  obtains vars3 where "rv2_run_eval ok ev ex vars2 = Some (Some (concat (map (code_text vars1) vs)), vars3)" and "reads vars2 vars3"
proof -
  have "cached vars2" using assms(3) by (simp add: reads_def)
  then obtain vars3 where v3: "rv2_run_eval ok ev ex vars2 = Some (Some (concat (map (code_text vars3) vs)), vars3)"
    "reads vars2 vars3" "codes_settled vars3 vs"
    using run_eval_text [OF assms(1,2) _ assms(5)] by metis
  have "map (code_text vars3) vs = map (code_text vars1) vs"
    using codes_text_reads(1) [OF reads_trans [OF assms(3) v3(2)] assms(4)] .
  with v3 that show ?thesis by simp
qed

lemma indexed_reads:
  assumes "ve_ok ev" and "cached vars" and "ngx_http_get_indexed_variable (ve_gh ev) (ve_nc ev) vars i = (v, vars')"
  shows "reads vars vars'"
  using assms indexed_settles [OF _ assms(3)] indexed_cached [OF _ _ assms(3)] by (auto simp: ve_ok_def reads_def)

lemma indexed_again:
  assumes "ngx_http_get_indexed_variable gh nc vars i = (v, vars1)" and "variable_isok v" and "reads vars1 vars2"
  shows "ngx_http_get_indexed_variable gh nc vars2 i = (v, vars2)"
proof -
  obtain w where w: "v = Some w" "vl_valid w" using assms(2) by (auto simp: variable_isok_def split: option.splits)
  have "i < length vars1 \<and> vars1 ! i = w"
    using assms(1) w by (auto simp: ngx_http_get_indexed_variable_def Let_def split: if_splits prod.splits)
  moreover from this w have "settled vars1 i" by (simp add: settled_def)
  ultimately have "i < length vars2" "vars2 ! i = w" using assms(3) by (auto simp: reads_def settles_def)
  with w show ?thesis by (simp add: ngx_http_get_indexed_variable_def)
qed

lemma target_again:
  assumes ev: "ve_ok ev" and us: "eval_prog (r2_us_name_e rv) vs" and vars: "cached vars"
    and run: "rv2_target ev rv vars = Some (Inr (mcd, key), vars1)"
  shows "reads vars vars1" and "reads vars1 vars2 \<Longrightarrow> \<exists>vars3. rv2_target ev rv vars2 = Some (Inr (mcd, key), vars3) \<and> reads vars2 vars3"
proof -
  have ok: "ve_ok_us ev" using ev by (simp add: ve_ok_def)
  obtain va where a: "rv2_run_eval (ve_ok_us ev) ev (r2_us_name_e rv) vars = Some (Some (concat (map (code_text va) vs)), va)"
    "reads vars va" "codes_settled va vs"
    using run_eval_text [OF ev us vars ok] .
  let ?us = "hash_find (r2_us_hash (ve_conf ev)) (concat (map (code_text va) vs))"
  obtain hvv vb where hv: "ngx_http_get_indexed_variable (ve_gh ev) (ve_nc ev) va (r2_hash_key_idx rv) = (hvv, vb)" by fastforce
  obtain kvv vc where kv: "ngx_http_get_indexed_variable (ve_gh ev) (ve_nc ev) vb (r2_key_idx rv) = (kvv, vc)" by fastforce
  have rb: "reads va vb" using indexed_reads [OF ev _ hv] a(2) by (simp add: reads_def)
  have rc: "reads vb vc" using indexed_reads [OF ev _ kv] rb by (simp add: reads_def)
  let ?node = "un_mcd_array (r2_uss (ve_conf ev) ! unat ?us) !
    (unat (rv2_hash (r2_hash_type rv) (vl_data (the hvv))) mod length (un_mcd_array (r2_uss (ve_conf ev) ! unat ?us)))"
  have facts: "h_size (r2_us_hash (ve_conf ev)) \<noteq> 0" "?us \<noteq> HASH_VAL_UNSET" "variable_isok hvv"
    "un_mcd_array (r2_uss (ve_conf ev) ! unat ?us) \<noteq> []" "mn_mc ?node = Some mcd" "variable_isok kvv" "key = vl_data (the kvv)" "vc = vars1"
    using run a(1) hv kv
    by (auto simp: rv2_target_def rv2_get_mcd_def rv2_get_us_node_def rv2_get_mcd_node_def Let_def Option.bind_eq_Some_conv
        split: if_splits)
  show "reads vars vars1" using reads_trans [OF a(2) reads_trans [OF rb rc]] facts(8) by simp
  assume r2: "reads vars1 vars2"
  have ra2: "reads va vars2" using reads_trans [OF reads_trans [OF rb rc]] r2 facts(8) by blast
  obtain v3 where v3: "rv2_run_eval (ve_ok_us ev) ev (r2_us_name_e rv) vars2 = Some (Some (concat (map (code_text va) vs)), v3)"
    "reads vars2 v3"
    using run_eval_again [OF ev us ra2 a(3) ok] .
  have b3: "reads vb v3" "reads vc v3" using reads_trans rc r2 v3(2) facts(8) by blast+
  from facts v3 indexed_again [OF hv facts(3) b3(1)] indexed_again [OF kv facts(6) b3(2)]
  show "\<exists>vars3. rv2_target ev rv vars2 = Some (Inr (mcd, key), vars3) \<and> reads vars2 vars3"
    by (auto simp: rv2_target_def rv2_get_mcd_def rv2_get_us_node_def rv2_get_mcd_node_def)
qed

section \<open>The choice of the server\<close>

fun numbered :: "nat \<Rightarrow> 'a list \<Rightarrow> ('a \<times> ngx_uint) list" where
  "numbered i [] = []"
| "numbered i (x # xs) = (x, of_nat i) # numbered (i + 1) xs"

lemma fill_hash_fill: "rv2_fill_hash (\<lambda>_. True) uss i h = (NGX_OK, hash_fill h (numbered i (map un_name uss)))"
  by (induction uss arbitrary: i h) (simp_all add: hash_fill_def hash_padd_def hash_add_def Let_def)

lemma numbered_find:
  "find (\<lambda>u. un_name u = k) uss = Some u \<Longrightarrow>
     \<exists>j < length uss. uss ! j = u \<and> map_of (numbered i (map un_name uss)) k = Some (of_nat (i + j))"
proof (induction uss arbitrary: i)
  case (Cons x uss)
  show ?case
  proof (cases "un_name x = k")
    case False
    with Cons obtain j where "j < length uss" "uss ! j = u" "map_of (numbered (i + 1) (map un_name uss)) k = Some (of_nat (i + 1 + j))"
      by fastforce
    with False show ?thesis by (intro exI [of _ "Suc j"]) simp
  qed (use Cons.prems in \<open>auto intro!: exI [of _ 0]\<close>)
qed simp

lemma numbered_keys: "set (numbered i xs) \<subseteq> set xs \<times> {of_nat j | j. j < i + length xs}"
proof (induction xs arbitrary: i)
  case (Cons x xs)
  from Cons [of "i + 1"] show ?case by fastforce
qed simp

text \<open>The servers of the first upstream with a name that has a server list.\<close>

definition upstream_servers :: "(bytes \<times> bytes list option) list \<Rightarrow> bytes \<Rightarrow> bytes list option" where
  "upstream_servers ups name = Option.bind (find (\<lambda>(n, servers). servers \<noteq> None \<and> n = name) ups) snd"

definition server_ok :: "'s memcached \<Rightarrow> bytes \<Rightarrow> bool" where
  "server_ok mc addr \<longleftrightarrow>
     addr \<noteq> [] \<and> length addr < 128 \<and> mc_server_add mc (hd addr = cb (CHR ''/'')) addr = MEMCACHED_SUCCESS"

definition upstreams_ok :: "'s memcached \<Rightarrow> (bytes \<times> bytes list option) list \<Rightarrow> bool" where
  "upstreams_ok mc ups \<longleftrightarrow>
     list_all (\<lambda>(name, servers). 0 \<notin> set name \<and> list_all (server_ok mc) (case servers of None \<Rightarrow> [] | Some as \<Rightarrow> as)) ups \<and>
     length ups < 2 ^ 63"

definition connected :: "rv2_us_node \<Rightarrow> rv2_us_node" where
  "connected us = us\<lparr>un_mcd_array := map (\<lambda>n. n\<lparr>mn_mc := Some (mn_addr n)\<rparr>) (un_mcd_array us)\<rparr>"

lemma connect_nodes:
  "list_all (\<lambda>n. server_ok mc (mn_addr n)) ns \<Longrightarrow>
     \<exists>s'. rv2_connect_nodes mc ns s = Some (map (\<lambda>n. n\<lparr>mn_mc := Some (mn_addr n)\<rparr>) ns, s')"
proof (induction ns arbitrary: s)
  case (Cons n ns)
  obtain rc v s1 where "mc_get mc (mn_addr n) (bs ''a'') s = (rc, v, s1)" by (metis prod_cases3)
  with Cons show ?case by (fastforce simp: ngx_mcd_connect_def server_ok_def)
qed simp

lemma connect_uss:
  "list_all (\<lambda>us. list_all (\<lambda>n. server_ok mc (mn_addr n)) (un_mcd_array us)) uss \<Longrightarrow>
     \<exists>s'. rv2_connect_uss mc uss s = Some (map connected uss, s')"
proof (induction uss arbitrary: s)
  case (Cons us uss)
  then obtain s1 where s1: "rv2_connect_nodes mc (un_mcd_array us) s = Some (map (\<lambda>n. n\<lparr>mn_mc := Some (mn_addr n)\<rparr>) (un_mcd_array us), s1)"
    using connect_nodes [of mc "un_mcd_array us" s] by auto
  from Cons.IH [of s1] Cons.prems s1 show ?case by (auto simp: connected_def)
qed simp

lemma index_word: "j < 2 ^ 63 \<Longrightarrow> unat (of_nat j :: ngx_uint) = j \<and> val_ok (of_nat j)"
proof -
  assume "j < 2 ^ 63"
  then have "unat (of_nat j :: ngx_uint) = j" by (simp add: unat_of_nat)
  moreover have "of_nat j \<noteq> (- 1 :: ngx_uint)"
  proof
    assume "of_nat j = (- 1 :: ngx_uint)"
    then have "of_nat (Suc j) = (0 :: ngx_uint)" by simp
    then have "2 ^ 64 dvd Suc j" by (simp only: word_of_nat_eq_0_iff) simp
    with \<open>j < 2 ^ 63\<close> show False by (auto dest: dvd_imp_le)
  qed
  ultimately show ?thesis by (simp add: val_ok_def HASH_VAL_UNSET_def)
qed

lemma us_nodes_ok:
  assumes "upstreams_ok mc ups"
  shows "list_all (\<lambda>us. list_all (\<lambda>n. server_ok mc (mn_addr n)) (un_mcd_array us)) (rv2_us_nodes ups)"
    and "list_all (\<lambda>us. name_ok (un_name us)) (rv2_us_nodes ups)"
proof -
  have "\<forall>(name, servers) \<in> set ups. name_ok name \<and> list_all (server_ok mc) (case servers of None \<Rightarrow> [] | Some as \<Rightarrow> as)"
    using assms by (auto simp: upstreams_ok_def list_all_iff name_ok_def)
  then show "list_all (\<lambda>us. list_all (\<lambda>n. server_ok mc (mn_addr n)) (un_mcd_array us)) (rv2_us_nodes ups)"
    "list_all (\<lambda>us. name_ok (un_name us)) (rv2_us_nodes ups)"
    by (fastforce simp: rv2_us_nodes_def list_all_iff)+
qed

lemma us_nodes_find:
  "upstream_servers ups name = Some addrs \<Longrightarrow>
     find (\<lambda>u. un_name u = name) (rv2_us_nodes ups) =
       Some \<lparr>un_name = name, un_mcd_array = map (\<lambda>a. \<lparr>mn_addr = a, mn_mc = None\<rparr>) addrs\<rparr>"
  by (induction ups) (auto simp: upstream_servers_def rv2_us_nodes_def split: if_splits prod.splits)

text \<open>The table after the start of the worker.\<close>

lemma started_conf:
  assumes "ngx_http_rv2_post_conf True (\<lambda>_. True) ups = (NGX_OK, Some mcf)" and "upstreams_ok mc ups"
    and "upstream_servers ups name = Some addrs" and "0 \<notin> set name"
  obtains mcf' s' where "ngx_http_rv2_init_proc mc mcf s = Some (NGX_OK, mcf', s')" and "h_size (r2_us_hash mcf') \<noteq> 0"
    and "hash_find (r2_us_hash mcf') name \<noteq> HASH_VAL_UNSET"
    and "un_mcd_array (r2_uss mcf' ! unat (hash_find (r2_us_hash mcf') name)) =
      map (\<lambda>a. \<lparr>mn_addr = a, mn_mc = Some a\<rparr>) addrs"
proof -
  let ?uss = "rv2_us_nodes ups" and ?u = "\<lparr>un_name = name, un_mcd_array = map (\<lambda>a. \<lparr>mn_addr = a, mn_mc = None\<rparr>) addrs\<rparr>"
  let ?kvs = "numbered 0 (map un_name ?uss)"
  obtain j where j: "j < length ?uss" "?uss ! j = ?u" "map_of ?kvs name = Some (of_nat j)"
    using numbered_find [OF us_nodes_find [OF assms(3)], of 0] by auto
  obtain h where h: "hash_create (\<lambda>_. True) (length ?uss * 2) = Some h" by (simp add: hash_create_def)
  have mcf: "mcf = \<lparr>r2_uss = ?uss, r2_us_hash = hash_fill h ?kvs\<rparr>"
    using assms(1) h by (simp add: ngx_http_rv2_post_conf_def fill_hash_fill Let_def)
  have small: "length ?uss < 2 ^ 63"
    using assms(2) le_less_trans [OF length_filter_le] by (auto simp: upstreams_ok_def rv2_us_nodes_def)
  have ok: "list_all (\<lambda>(k, v). name_ok k \<and> val_ok v) ?kvs"
    using numbered_keys [of 0 "map un_name ?uss"] us_nodes_ok(2) [OF assms(2)] small index_word
    by (fastforce simp: list_all_iff)
  have pos: "0 < length ?uss * 2" using j(1) by linarith
  have "hash_lookup (hash_fill h ?kvs) name = Some (of_nat j)"
    using hash_map.find_add_all [OF hash_create_inv(1) [OF h pos] ok, of name] hash_create_inv(2) [OF h pos, of name] j(3) assms(4)
    by (simp add: hash_fill_add_all name_ok_def)
  then have f: "hash_find (hash_fill h ?kvs) name = of_nat j" "hash_find (hash_fill h ?kvs) name \<noteq> HASH_VAL_UNSET"
    by (auto simp: hash_lookup_def split: if_splits)
  have inv: "hash_inv (hash_fill h ?kvs)"
    using hash_map.add_all_inv [OF hash_create_inv(1) [OF h pos] ok] by (simp add: hash_fill_add_all)
  obtain s' where s': "rv2_connect_uss mc ?uss s = Some (map connected ?uss, s')"
    using connect_uss [OF us_nodes_ok(1) [OF assms(2)]] by blast
  have "unat (of_nat j :: ngx_uint) = j" using index_word j(1) small by simp
  with f s' mcf j inv show ?thesis
    by (intro that [of "mcf\<lparr>r2_uss := map connected ?uss\<rparr>" s'])
      (simp_all add: ngx_http_rv2_init_proc_def connected_def hash_inv_def)
qed

lemma target_server:
  assumes "ngx_http_rv2_post_conf True (\<lambda>_. True) ups = (NGX_OK, Some mcf)" and "upstreams_ok (ve_mc ev) ups"
    and "ngx_http_rv2_init_proc (ve_mc ev) mcf s = Some (NGX_OK, ve_conf ev, s')" and "ve_ok ev"
    and "eval_prog (r2_us_name_e rv) vs" and "codes_settled vars vs" and "cached vars" and "name = concat (map (code_text vars) vs)"
    and "0 \<notin> set name" and "upstream_servers ups name = Some addrs" and "addrs \<noteq> []"
    and "r2_hash_key_idx rv < length vars" and "variable_isok (Some (vars ! r2_hash_key_idx rv))"
    and "r2_key_idx rv < length vars" and "variable_isok (Some (vars ! r2_key_idx rv))"
  shows "\<exists>vars'. rv2_target ev rv vars =
    Some (Inr (addrs ! (unat (crc32_reference (vl_data (vars ! r2_hash_key_idx rv))) mod length addrs), vl_data (vars ! r2_key_idx rv)),
      vars') \<and> reads vars vars'"
proof -
  obtain mcf' s2 where m: "ngx_http_rv2_init_proc (ve_mc ev) mcf s = Some (NGX_OK, mcf', s2)" "h_size (r2_us_hash mcf') \<noteq> 0"
    "hash_find (r2_us_hash mcf') name \<noteq> HASH_VAL_UNSET"
    "un_mcd_array (r2_uss mcf' ! unat (hash_find (r2_us_hash mcf') name)) = map (\<lambda>a. \<lparr>mn_addr = a, mn_mc = Some a\<rparr>) addrs"
    by (rule started_conf [OF assms(1,2,10,9), of s])
  then have conf: "mcf' = ve_conf ev" using assms(3) by simp
  have ok: "ve_ok_us ev" using assms(4) by (simp add: ve_ok_def)
  have refl: "reads vars vars" using assms(7) by (simp add: reads_def)
  obtain va where va: "rv2_run_eval (ve_ok_us ev) ev (r2_us_name_e rv) vars = Some (Some name, va)" "reads vars va"
    using run_eval_again [OF assms(4,5) refl assms(6) ok] assms(8) by metis
  have get: "ngx_http_get_indexed_variable (ve_gh ev) (ve_nc ev) va i = (Some (vars ! i), va)"
    if "i < length vars" "variable_isok (Some (vars ! i))" for i
    using that va(2) by (auto simp: ngx_http_get_indexed_variable_def variable_isok_def reads_def settles_def settled_def)
  have hash: "rv2_hash t x = crc32_reference x" for t x using crc32_loops by (cases t) simp_all
  have "unat w mod length addrs < length addrs" for w :: u32 using assms(11) by simp
  with m(2-4) va(1) get [OF assms(12,13)] get [OF assms(14,15)] assms(11,13,15) hash va(2) show ?thesis
    unfolding conf rv2_target_def rv2_get_mcd_def rv2_get_us_node_def rv2_get_mcd_node_def by simp
qed


section \<open>Set and get\<close>

lemma text_val_eq [simp]: "text_val s = text_val t \<longleftrightarrow> s = t"
proof -
  have "vl_data (null_value\<lparr>vl_data := s\<rparr>) = s" for s by simp
  then show ?thesis unfolding text_val_def by (metis sval.inject(1))
qed

lemma rcs_text_eq: "rcs_text r = bs ''SUCCESS'' \<longleftrightarrow> r = rv2_err_success"
  by (cases r) simp_all

lemma push_rc_sp: "rv2_push_rc od rcs e = Some e' \<Longrightarrow> od_rcidx od \<noteq> None \<Longrightarrow> e' = e\<lparr>rn_sp := text_val (rcs_text rcs) # rn_sp e\<rparr>"
  by (auto simp: rv2_push_rc_def push_def split: if_splits)

text \<open>A store that reports success was one.\<close>

lemma us_node_error: "rv2_get_us_node ev rv vars = Some (Inl rcs, vars') \<Longrightarrow> rcs \<noteq> rv2_err_success"
proof -
  assume a: "rv2_get_us_node ev rv vars = Some (Inl rcs, vars')"
  then obtain r vars1 where "rv2_run_eval (ve_ok_us ev) ev (r2_us_name_e rv) vars = Some (r, vars1)"
    by (auto simp: rv2_get_us_node_def Option.bind_eq_Some_conv)
  with a show ?thesis by (cases r) (auto simp: rv2_get_us_node_def Let_def split: if_splits)
qed

lemma mcd_node_error: "rv2_get_mcd_node ev rv us vars = Some (Inl rcs, vars') \<Longrightarrow> rcs \<noteq> rv2_err_success"
  by (auto simp: rv2_get_mcd_node_def split: if_splits prod.splits)

lemma mcd_error: "rv2_get_mcd ev rv vars = Some (Inl rcs, vars') \<Longrightarrow> rcs \<noteq> rv2_err_success"
proof -
  assume a: "rv2_get_mcd ev rv vars = Some (Inl rcs, vars')"
  then obtain us vars1 where us: "rv2_get_us_node ev rv vars = Some (us, vars1)"
    by (auto simp: rv2_get_mcd_def Option.bind_eq_Some_conv)
  show ?thesis
  proof (cases us)
    case (Inl rcs')
    with a us us_node_error [of ev rv vars rcs' vars1] show ?thesis by (simp add: rv2_get_mcd_def)
  next
    case (Inr u)
    with a us obtain n vars2 where n: "rv2_get_mcd_node ev rv u vars1 = Some (n, vars2)"
      by (auto simp: rv2_get_mcd_def Option.bind_eq_Some_conv)
    with a us Inr mcd_node_error [of ev rv u vars1 _ vars2] show ?thesis by (cases n) (auto simp: rv2_get_mcd_def)
  qed
qed

lemma target_error: "rv2_target ev rv vars = Some (Inl rcs, vars') \<Longrightarrow> rcs \<noteq> rv2_err_success"
proof -
  assume a: "rv2_target ev rv vars = Some (Inl rcs, vars')"
  then obtain r vars1 where r: "rv2_get_mcd ev rv vars = Some (r, vars1)"
    by (auto simp: rv2_target_def Option.bind_eq_Some_conv)
  with a mcd_error [of ev rv vars _ vars1] show ?thesis
    by (cases r) (auto simp: rv2_target_def split: prod.splits if_splits)
qed

lemma operand_error: "rv2_operand ev od vars = Some (Inl rcs, vars') \<Longrightarrow> rcs \<noteq> rv2_err_success"
  by (auto simp: rv2_operand_def Option.bind_eq_Some_conv split: if_splits option.splits)

lemma setter_success:
  assumes "ngx_http_rv2_setter_code ev od e = Some e1" and sp: "rn_sp e1 = text_val (bs ''SUCCESS'') # rn_sp e"
    and od: "od_rv od = Some rv" "od_optype od = RV_SET" "od_rcidx od \<noteq> None" "od_vidx od = None" "od_v2set_e od = Some ex"
  obtains mcd key vars1 v2set where "rv2_target ev rv (en_vars (rn_e e)) = Some (Inr (mcd, key), vars1)"
    and "rv2_run_eval (ve_ok_value ev) ev ex vars1 = Some (Some v2set, en_vars (rn_e e1))"
    and "mc_set (ve_mc ev) mcd key v2set (rn_ext e) = (MEMCACHED_SUCCESS, rn_ext e1)"
proof -
  have err: "\<not> (rv2_setter_error ev rv od rcs e2 = Some e1 \<and> rn_sp e2 = rn_sp e)" if "rcs \<noteq> rv2_err_success" for rcs e2
  proof
    assume a: "rv2_setter_error ev rv od rcs e2 = Some e1 \<and> rn_sp e2 = rn_sp e"
    then have "rv2_push_rc od rcs e2 = Some e1" using od(4) by (simp add: rv2_setter_error_def)
    from push_rc_sp [OF this od(3)] a have "rn_sp e1 = text_val (rcs_text rcs) # rn_sp e" by simp
    with sp have "rcs_text rcs = bs ''SUCCESS''" unfolding list.inject text_val_eq by simp
    with that show False unfolding rcs_text_eq by simp
  qed
  obtain r vars1 where r: "rv2_target ev rv (en_vars (rn_e e)) = Some (r, vars1)"
    using assms(1) od(1) by (auto simp: ngx_http_rv2_setter_code_def Option.bind_eq_Some_conv)
  obtain mcd key where mk: "r = Inr (mcd, key)"
    using assms(1) od(1) r err [OF target_error, of ev rv _ _ vars1 "set_vars vars1 e"]
    by (cases r) (auto simp: ngx_http_rv2_setter_code_def)
  obtain x vars2 where x: "rv2_operand ev od vars1 = Some (x, vars2)"
    using assms(1) od(1) r mk by (auto simp: ngx_http_rv2_setter_code_def Option.bind_eq_Some_conv)
  obtain v2set d where vd: "x = Inr (v2set, d)"
    using assms(1) od(1) r mk x err [OF operand_error, of ev od vars1 _ vars2 "set_vars vars2 e"]
    by (cases x) (auto simp: ngx_http_rv2_setter_code_def)
  have run: "rv2_run_eval (ve_ok_value ev) ev ex vars1 = Some (Some v2set, vars2)"
    using x vd od(2,5) by (auto simp: rv2_operand_def split: option.splits)
  obtain rc s where set: "mc_set (ve_mc ev) mcd key v2set (rn_ext e) = (rc, s)" by fastforce
  let ?e = "(set_vars vars2 e)\<lparr>rn_ext := s\<rparr>"
  have fin: "(if rc = MEMCACHED_ERRNO True then rv2_setter_error ev rv od rv2_err_connection ?e else rv2_store_done ev rv od rc ?e) = Some e1"
    using assms(1) od(1,2) r mk x vd set
    by (simp add: ngx_http_rv2_setter_code_def rv2_apply_def rv2_call_def Let_def split: if_splits)
  have "rc = MEMCACHED_SUCCESS"
    using fin err [of _ ?e] by (cases rc) (auto simp: rv2_store_done_def split: if_splits)
  moreover from this fin have "e1 = ?e\<lparr>rn_sp := text_val (rcs_text rv2_err_success) # rn_sp ?e\<rparr>"
    using push_rc_sp [of od rv2_err_success ?e e1] od(3) by (simp add: rv2_store_done_def)
  ultimately show ?thesis using that [of mcd key vars1 v2set] r mk run set by simp
qed

text \<open>A library over a map, and one upstream with one server.\<close>

type_synonym demo_servers = "bytes \<times> bytes \<Rightarrow> bytes option"

definition demo_mc :: "demo_servers memcached" where
  "demo_mc =
     \<lparr>mc_server_add = \<lambda>_ _. MEMCACHED_SUCCESS,
      mc_get = \<lambda>srv key s. (case s (srv, key) of None \<Rightarrow> (MEMCACHED_NOTFOUND, [], s) | Some v \<Rightarrow> (MEMCACHED_SUCCESS, v, s)),
      mc_set = \<lambda>srv key v s. (MEMCACHED_SUCCESS, s((srv, key) := Some v)),
      mc_add = \<lambda>srv key v s. if s (srv, key) = None then (MEMCACHED_SUCCESS, s((srv, key) := Some v)) else (MEMCACHED_NOTSTORED, s),
      mc_increment = \<lambda>srv key d s. (MEMCACHED_NOTFOUND, 0, s), mc_decrement = \<lambda>srv key d s. (MEMCACHED_NOTFOUND, 0, s),
      mc_delete = \<lambda>srv key s. (MEMCACHED_SUCCESS, s((srv, key) := None))\<rparr>"

definition demo_ups :: "(bytes \<times> bytes list option) list" where
  "demo_ups = [(bs ''u'', Some [bs ''s''])]"

definition demo_ve :: "rv2_main_conf \<Rightarrow> demo_servers rv2_env" where
  "demo_ve conf =
     \<lparr>ve_gh = demo_handler, ve_nc = \<lambda>_. False, ve_ok_us = True, ve_ok_default = True, ve_ok_value = True, ve_ok_buf = True,
      ve_conf = conf, ve_mc = demo_mc\<rparr>"

definition const_eval :: "bytes \<Rightarrow> rv2_eval" where
  "const_eval t = ([LCopy (length t), LNull], [VCopy t, VNull])"

definition demo_rv :: rv2 where
  "demo_rv =
     \<lparr>r2_name = bs ''v'', r2_key_idx = 0, r2_hash_type = HASH_CRC32, r2_hash_key_idx = 1, r2_us_name_e = const_eval (bs ''u''),
      r2_default_val_e = const_eval (bs ''NULL'')\<rparr>"

definition demo_set :: rv2_op_data where
  "demo_set = (blank_op RV_SET)\<lparr>od_rv := Some demo_rv, od_rcidx := Some 0, od_v2set_e := Some (const_eval (bs ''hello''))\<rparr>"

definition demo_get :: rv2_op_data where
  "demo_get = (blank_op RV_UNKNOWN)\<lparr>od_rv := Some demo_rv, od_rcidx := Some 0, od_vidx := Some 1\<rparr>"

definition demo_rv_engine :: "demo_servers rengine" where
  "demo_rv_engine =
     \<lparr>rn_e = blank_engine\<lparr>en_vars := demo_vars\<rparr>, rn_bufs = [], rn_sp = [], rn_stack = 10, rn_status = NGX_DECLINED,
      rn_req = demo_request [], rn_ext = \<lambda>_. None\<rparr>"

lemma const_prog: "eval_prog (const_eval t) [VCopy t]"
  by (simp add: eval_prog_def const_eval_def)

lemma demo_ve_ok: "ve_ok (demo_ve conf)" "upstreams_ok (ve_mc (demo_ve conf)) demo_ups"
  using demo_ok(2)
  by (auto simp: ve_ok_def demo_ve_def caching_handlers_def demo_handler_def demo_mc_def upstreams_ok_def demo_ups_def
      server_ok_def)

lemma demo_vars_ok: "cached demo_vars" "length demo_vars = 2" "i < 2 \<Longrightarrow> variable_isok (Some (demo_vars ! i))"
  by (auto simp: cached_def demo_vars_def variable_isok_def less_Suc_eq numeral_2_eq_2)

lemma demo_conf_started:
  obtains mcf conf s where "ngx_http_rv2_post_conf True (\<lambda>_. True) demo_ups = (NGX_OK, Some mcf)"
    and "ngx_http_rv2_init_proc demo_mc mcf (\<lambda>_. None) = Some (NGX_OK, conf, s)"
proof -
  obtain mcf where m: "ngx_http_rv2_post_conf True (\<lambda>_. True) demo_ups = (NGX_OK, Some mcf)"
    by (simp add: ngx_http_rv2_post_conf_def hash_create_def fill_hash_fill Let_def)
  have "upstreams_ok demo_mc demo_ups" using demo_ve_ok(2) by (simp add: demo_ve_def)
  then show ?thesis
    by (rule started_conf [OF m, of demo_mc "bs ''u''" "[bs ''s'']" "\<lambda>_. None"]) (auto simp: upstream_servers_def demo_ups_def intro: that m)
qed

text \<open>
  C16. The server of a remote variable: after the configuration and the start of a worker, an operation goes to the server of the
  named upstream whose position is the CRC-32 of the hash key modulo the number of servers, with both hash methods, and to the same
  key whatever the servers answer.
\<close>

theorem rv2_server_choice:
  assumes "ngx_http_rv2_post_conf True (\<lambda>_. True) ups = (NGX_OK, Some mcf)" and "upstreams_ok (ve_mc ev) ups"
    and "ngx_http_rv2_init_proc (ve_mc ev) mcf s = Some (NGX_OK, ve_conf ev, s')" and "ve_ok ev"
    and "eval_prog (r2_us_name_e rv) vs" and "codes_settled vars vs" and "cached vars" and "name = concat (map (code_text vars) vs)"
    and "0 \<notin> set name" and "upstream_servers ups name = Some addrs" and "addrs \<noteq> []"
    and "r2_hash_key_idx rv < length vars" and "variable_isok (Some (vars ! r2_hash_key_idx rv))"
    and "r2_key_idx rv < length vars" and "variable_isok (Some (vars ! r2_key_idx rv))"
  shows "\<exists>vars'. rv2_target ev rv vars =
    Some (Inr (addrs ! (unat (crc32_reference (vl_data (vars ! r2_hash_key_idx rv))) mod length addrs), vl_data (vars ! r2_key_idx rv)),
      vars') \<and> reads vars vars'"
  using assms by (rule target_server)

lemma demo_target_premises:
  "eval_prog (r2_us_name_e demo_rv) [VCopy (bs ''u'')]" "codes_settled demo_vars [VCopy (bs ''u'')]" "cached demo_vars"
  "bs ''u'' = concat (map (code_text demo_vars) [VCopy (bs ''u'')])" "0 \<notin> set (bs ''u'')"
  "upstream_servers demo_ups (bs ''u'') = Some [bs ''s'']" "[bs ''s''] \<noteq> []"
  "r2_hash_key_idx demo_rv < length demo_vars" "variable_isok (Some (demo_vars ! r2_hash_key_idx demo_rv))"
  "r2_key_idx demo_rv < length demo_vars" "variable_isok (Some (demo_vars ! r2_key_idx demo_rv))"
  using demo_vars_ok const_prog
  by (auto simp: demo_rv_def codes_settled_def upstream_servers_def demo_ups_def)

lemma demo_key: "vl_data (demo_vars ! r2_key_idx demo_rv) = bs ''joe''"
  by (simp add: demo_vars_def demo_rv_def)

theorem rv2_server_choice_witness:
  "\<exists>conf vars'. rv2_target (demo_ve conf) demo_rv demo_vars = Some (Inr (bs ''s'', bs ''joe''), vars')"
proof -
  obtain mcf conf s where c: "ngx_http_rv2_post_conf True (\<lambda>_. True) demo_ups = (NGX_OK, Some mcf)"
    "ngx_http_rv2_init_proc (ve_mc (demo_ve conf)) mcf (\<lambda>_. None) = Some (NGX_OK, ve_conf (demo_ve conf), s)"
    by (rule demo_conf_started) (simp add: demo_ve_def)
  show ?thesis
    using rv2_server_choice [OF c(1) demo_ve_ok(2) c(2) demo_ve_ok(1) demo_target_premises] unfolding demo_key by auto
qed

text \<open>
  C15. A value that \<^verbatim>\<open>rv_set\<close> reported as stored was stored under the server and key that a later \<^verbatim>\<open>rv_get\<close> reads: the text of the expression was sent to a server,
  which accepted it, and in any later state in which the variables that had values still have them, whatever happened to the servers meanwhile, \<^verbatim>\<open>rv_get\<close> asks the same
  server for the same key and, when the server has a value, pushes exactly that value and the status of success. So it is the text that was set if the server still
  has it. Nothing is assumed of the servers; the variables can be cached and the allocations succeed.
\<close>

theorem rv2_set_get:
  assumes "ve_ok ev" and "eval_prog (r2_us_name_e rv) us" and "eval_prog ex vs"
    and "cached (en_vars (rn_e e))"
    and "od_rv od = Some rv" and "od_optype od = RV_SET" and "od_rcidx od \<noteq> None" and "od_vidx od = None" and "od_v2set_e od = Some ex"
    and "ngx_http_rv2_setter_code ev od e = Some e1" and "rn_sp e1 = text_val (rcs_text rv2_err_success) # rn_sp e"
    and "od_rv od' = Some rv" and "od_rcidx od' \<noteq> None"
  shows "\<exists>mcd key.
    mc_set (ve_mc ev) mcd key (concat (map (code_text (en_vars (rn_e e1))) vs)) (rn_ext e) = (MEMCACHED_SUCCESS, rn_ext e1) \<and>
    (\<forall>e2 v s. reads (en_vars (rn_e e1)) (en_vars (rn_e e2)) \<and> length (rn_sp e2) + 2 \<le> rn_stack e2 \<and>
      mc_get (ve_mc ev) mcd key (rn_ext e2) = (MEMCACHED_SUCCESS, v, s) \<longrightarrow>
      (\<exists>e3. ngx_http_rv2_getter_code ev od' e2 = Some e3 \<and> rn_ext e3 = s \<and>
        rn_sp e3 = text_val v # text_val (rcs_text rv2_err_success) # rn_sp e2))"
proof -
  obtain mcd key vars1 v2set where t: "rv2_target ev rv (en_vars (rn_e e)) = Some (Inr (mcd, key), vars1)"
    and v: "rv2_run_eval (ve_ok_value ev) ev ex vars1 = Some (Some v2set, en_vars (rn_e e1))"
    and st: "mc_set (ve_mc ev) mcd key v2set (rn_ext e) = (MEMCACHED_SUCCESS, rn_ext e1)"
    using setter_success [OF assms(10) assms(11) [unfolded rcs_text.simps(1)] assms(5-9)] .
  have r1: "reads (en_vars (rn_e e)) vars1" using target_again(1) [OF assms(1,2,4) t] .
  have ok: "ve_ok_value ev" "ve_ok_buf ev" using assms(1) by (simp_all add: ve_ok_def)
  obtain va where va: "rv2_run_eval (ve_ok_value ev) ev ex vars1 = Some (Some (concat (map (code_text va) vs)), va)" "reads vars1 va"
    using run_eval_text [OF assms(1,3) _ ok(1)] r1 by (metis reads_def)
  with v have va1: "va = en_vars (rn_e e1)" "v2set = concat (map (code_text (en_vars (rn_e e1))) vs)" by auto
  have "\<exists>e3. ngx_http_rv2_getter_code ev od' e2 = Some e3 \<and> rn_ext e3 = s \<and>
      rn_sp e3 = text_val x # text_val (rcs_text rv2_err_success) # rn_sp e2"
    if e2: "reads (en_vars (rn_e e1)) (en_vars (rn_e e2))" "length (rn_sp e2) + 2 \<le> rn_stack e2"
      "mc_get (ve_mc ev) mcd key (rn_ext e2) = (MEMCACHED_SUCCESS, x, s)" for e2 x s
  proof -
    from target_again(2) [OF assms(1,2,4) t reads_trans [OF va(2)], of "en_vars (rn_e e2)"] e2(1) va1(1)
    obtain vars3 where "rv2_target ev rv (en_vars (rn_e e2)) = Some (Inr (mcd, key), vars3)" by auto
    with e2(2,3) assms(12,13) ok(2) show ?thesis
      by (auto simp: ngx_http_rv2_getter_code_def rv2_get_done_def rv2_push_str_def rv2_push_rc_def push_def Let_def)
  qed
  with st va1(2) show ?thesis by blast
qed

theorem rv2_set_get_witness:
  "\<exists>conf e1 e3. ngx_http_rv2_setter_code (demo_ve conf) demo_set demo_rv_engine = Some e1 \<and>
    ngx_http_rv2_getter_code (demo_ve conf) demo_get e1 = Some e3 \<and> hd (rn_sp e3) = text_val (bs ''hello'')"
proof -
  obtain mcf conf s where c: "ngx_http_rv2_post_conf True (\<lambda>_. True) demo_ups = (NGX_OK, Some mcf)"
    "ngx_http_rv2_init_proc (ve_mc (demo_ve conf)) mcf (\<lambda>_. None) = Some (NGX_OK, ve_conf (demo_ve conf), s)"
    by (rule demo_conf_started) (simp add: demo_ve_def)
  let ?ev = "demo_ve conf"
  obtain vars1 where t: "rv2_target ?ev demo_rv demo_vars = Some (Inr (bs ''s'', bs ''joe''), vars1)" "reads demo_vars vars1"
    using target_server [OF c(1) demo_ve_ok(2) c(2) demo_ve_ok(1) demo_target_premises] unfolding demo_key by auto
  obtain vars2 where v: "rv2_run_eval (ve_ok_value ?ev) ?ev (const_eval (bs ''hello'')) vars1 = Some (Some (bs ''hello''), vars2)"
    "reads vars1 vars2"
    by (rule run_eval_text [OF demo_ve_ok(1) const_prog [of "bs ''hello''"], of vars1 "ve_ok_value ?ev"])
      (use t(2) in \<open>auto simp: reads_def demo_ve_def\<close>)
  have e: "en_vars (rn_e demo_rv_engine) = demo_vars" by (simp add: demo_rv_engine_def)
  define e1 where "e1 = (set_vars vars2 demo_rv_engine)
    \<lparr>rn_ext := (\<lambda>_. None)((bs ''s'', bs ''joe'') := Some (bs ''hello'')), rn_sp := [text_val (bs ''SUCCESS'')]\<rparr>"
  have e1: "ngx_http_rv2_setter_code ?ev demo_set demo_rv_engine = Some e1"
    using t v
    by (simp add: ngx_http_rv2_setter_code_def e demo_set_def blank_op_def rv2_operand_def rv2_apply_def rv2_call_def rv2_store_done_def
        rv2_push_rc_def push_def e1_def demo_ve_def demo_mc_def demo_rv_engine_def set_vars_def)
  have od: "od_rv demo_set = Some demo_rv" "od_optype demo_set = RV_SET" "od_rcidx demo_set \<noteq> None" "od_vidx demo_set = None"
    "od_v2set_e demo_set = Some (const_eval (bs ''hello''))" "od_rv demo_get = Some demo_rv" "od_rcidx demo_get \<noteq> None"
    by (simp_all add: demo_set_def demo_get_def blank_op_def)
  have st: "cached (en_vars (rn_e demo_rv_engine))" "rn_sp e1 = text_val (bs ''SUCCESS'') # rn_sp demo_rv_engine"
    "reads (en_vars (rn_e e1)) (en_vars (rn_e e1))" "length (rn_sp e1) + 2 \<le> rn_stack e1"
    using demo_vars_ok(1) v(2) by (simp_all add: e e1_def reads_def demo_rv_engine_def)
  let ?ok = "text_val (rcs_text rv2_err_success)"
  have st1: "rn_sp e1 = ?ok # rn_sp demo_rv_engine" using st(2) by simp
  obtain mcd key where w: "mc_set (ve_mc ?ev) mcd key (concat (map (code_text (en_vars (rn_e e1))) [VCopy (bs ''hello'')])) (rn_ext demo_rv_engine) =
      (MEMCACHED_SUCCESS, rn_ext e1)"
    and get: "\<And>e2 v s. reads (en_vars (rn_e e1)) (en_vars (rn_e e2)) \<and> length (rn_sp e2) + 2 \<le> rn_stack e2 \<and>
      mc_get (ve_mc ?ev) mcd key (rn_ext e2) = (MEMCACHED_SUCCESS, v, s) \<Longrightarrow>
      \<exists>e3. ngx_http_rv2_getter_code ?ev demo_get e2 = Some e3 \<and> rn_ext e3 = s \<and> rn_sp e3 = text_val v # ?ok # rn_sp e2"
    using rv2_set_get [OF demo_ve_ok(1) demo_target_premises(1) const_prog [of "bs ''hello''"] st(1) od(1-5) e1 st1 od(6,7)] by blast
  have "mc_get (ve_mc ?ev) mcd key (rn_ext e1) = (MEMCACHED_SUCCESS, bs ''hello'', rn_ext e1)"
    using w by (simp add: demo_ve_def demo_mc_def) (metis fun_upd_same option.simps(5))
  with get [of e1] st(3,4) e1 show ?thesis by fastforce
qed

end
