(* ===== verification/Radix.thy ===== *)
theory Radix
  imports Prelude Simulation
begin

text \<open>
  The radix tree of \<^verbatim>\<open>core/ngx_radix_tree.c\<close>: a binary tree over the bits of 32-bit keys, whose nodes live in pages
  taken from a pool and in a free list. The memory is explicit: nodes are records at
  addresses, with the pointers of the C structure. The tree represents a map from bit prefixes to values; a lookup
  returns the value of the longest prefix of the key.
\<close>

section \<open>Nodes and memory\<close>

abbreviation NGX_RADIX_NO_VALUE :: ngx_uint where
  "NGX_RADIX_NO_VALUE \<equiv> - 1"

record radix_node =
  nd_right :: "nat option"
  nd_left :: "nat option"
  nd_parent :: "nat option"
  nd_value :: ngx_uint

text \<open>
  The pool: the size of a page, and which requests for a page succeed. The page of request number \<open>k\<close>
  begins at address \<open>k\<close> times the page size.
\<close>

record radix_pool =
  rp_pagesize :: nat
  rp_ok :: "nat \<Rightarrow> bool"

record radix_tree =
  rx_root :: nat
  rx_pool :: radix_pool
  rx_free :: "nat option"
  rx_start :: "nat option"
  rx_size :: nat
  rx_nodes :: "nat \<Rightarrow> radix_node option"
  rx_pages :: nat

definition sizeof_node :: nat where
  "sizeof_node = 32"

text \<open>The outer option is undefined behaviour: an access to memory that is no node, or a page too small for one.\<close>

definition ngx_radix_alloc :: "radix_tree \<Rightarrow> (nat option \<times> radix_tree) option" where
  "ngx_radix_alloc tree =
     (case rx_free tree of
        Some p \<Rightarrow> map_option (\<lambda>n. (Some p, tree\<lparr>rx_free := nd_right n\<rparr>)) (rx_nodes tree p)
      | None \<Rightarrow>
          let k = rx_pages tree;
              page = (rx_size tree < sizeof_node);
              tree = (if page then tree\<lparr>rx_pages := Suc k\<rparr> else tree)
          in if page \<and> \<not> rp_ok (rx_pool tree) k then Some (None, tree\<lparr>rx_start := None\<rparr>)
             else
               let tree = (if page then tree\<lparr>rx_start := Some (k * rp_pagesize (rx_pool tree)), rx_size := rp_pagesize (rx_pool tree)\<rparr> else tree)
               in case rx_start tree of
                    None \<Rightarrow> None
                  | Some p \<Rightarrow>
                      if rx_size tree < sizeof_node then None
                      else Some (Some p, tree\<lparr>rx_start := Some (p + sizeof_node), rx_size := rx_size tree - sizeof_node\<rparr>))"

section \<open>Insertion\<close>

definition child :: "bool \<Rightarrow> radix_node \<Rightarrow> nat option" where
  "child b n = (if b then nd_right n else nd_left n)"

definition set_child :: "bool \<Rightarrow> nat option \<Rightarrow> radix_node \<Rightarrow> radix_node" where
  "set_child b p n = (if b then n\<lparr>nd_right := p\<rparr> else n\<lparr>nd_left := p\<rparr>)"

definition write_node :: "nat \<Rightarrow> radix_node \<Rightarrow> radix_tree \<Rightarrow> radix_tree" where
  "write_node p n tree = tree\<lparr>rx_nodes := (rx_nodes tree)(p \<mapsto> n)\<rparr>"

lemma half_less: "(w :: u32) AND m \<noteq> 0 \<Longrightarrow> unat (drop_bit (Suc 0) w) < unat w"
proof -
  assume "w AND m \<noteq> 0"
  then have "0 < unat w" by (auto simp: unat_gt_0)
  then show ?thesis by (simp add: drop_bit_Suc unat_div)
qed

text \<open>The first loop, down the existing nodes: the bit, the node and \<^verbatim>\<open>next\<close> at its end.\<close>

function radix_walk :: "(nat \<Rightarrow> radix_node option) \<Rightarrow> u32 \<Rightarrow> u32 \<Rightarrow> u32 \<Rightarrow> nat \<Rightarrow> (u32 \<times> nat \<times> nat option) option" where
  "radix_walk h key msk b node =
     (if b AND msk = 0 then Some (b, node, Some node)
      else
        case h node of
          None \<Rightarrow> None
        | Some n \<Rightarrow>
            (case child (key AND b \<noteq> 0) n of
               None \<Rightarrow> Some (b, node, None)
             | Some nxt \<Rightarrow> radix_walk h key msk (drop_bit 1 b) nxt))"
  by auto
termination by (relation "measure (\<lambda>(h, key, msk, b, node). unat b)") (auto intro: half_less)

text \<open>The second loop, which adds nodes; without memory it ends with \<open>None\<close> for the node.\<close>

function radix_extend :: "u32 \<Rightarrow> u32 \<Rightarrow> u32 \<Rightarrow> nat \<Rightarrow> radix_tree \<Rightarrow> (nat option \<times> radix_tree) option" where
  "radix_extend key msk b node tree =
     (if b AND msk = 0 then Some (Some node, tree)
      else
        case ngx_radix_alloc tree of
          None \<Rightarrow> None
        | Some (None, tree) \<Rightarrow> Some (None, tree)
        | Some (Some nxt, tree) \<Rightarrow>
            (let tree = write_node nxt \<lparr>nd_right = None, nd_left = None, nd_parent = Some node, nd_value = NGX_RADIX_NO_VALUE\<rparr> tree
             in case rx_nodes tree node of
                  None \<Rightarrow> None
                | Some n \<Rightarrow>
                    radix_extend key msk (drop_bit 1 b) nxt (write_node node (set_child (key AND b \<noteq> 0) (Some nxt) n) tree)))"
  by pat_completeness auto
termination by (relation "measure (\<lambda>(key, msk, b, node, tree). unat b)") (auto intro: half_less)

declare radix_walk.simps [simp del] radix_extend.simps [simp del]

definition top_bit :: u32 where
  "top_bit = 0x80000000"

definition set_value :: "nat \<Rightarrow> ngx_uint \<Rightarrow> radix_tree \<Rightarrow> radix_tree option" where
  "set_value p v tree = map_option (\<lambda>n. write_node p (n\<lparr>nd_value := v\<rparr>) tree) (rx_nodes tree p)"

definition ngx_radix32tree_insert :: "radix_tree \<Rightarrow> u32 \<Rightarrow> u32 \<Rightarrow> ngx_uint \<Rightarrow> (ngx_rc \<times> radix_tree) option" where
  "ngx_radix32tree_insert tree key msk v =
     (case radix_walk (rx_nodes tree) key msk top_bit (rx_root tree) of
        None \<Rightarrow> None
      | Some (b, node, Some _) \<Rightarrow>
          Option.bind (rx_nodes tree node) (\<lambda>n.
            if nd_value n \<noteq> NGX_RADIX_NO_VALUE then Some (NGX_BUSY, tree)
            else map_option (Pair NGX_OK) (set_value node v tree))
      | Some (b, node, None) \<Rightarrow>
          Option.bind (radix_extend key msk b node tree) (\<lambda>(node, tree).
            case node of
              None \<Rightarrow> Some (NGX_ERROR, tree)
            | Some node \<Rightarrow> map_option (Pair NGX_OK) (set_value node v tree)))"

section \<open>Deletion\<close>

function radix_seek :: "(nat \<Rightarrow> radix_node option) \<Rightarrow> u32 \<Rightarrow> u32 \<Rightarrow> u32 \<Rightarrow> nat option \<Rightarrow> nat option option" where
  "radix_seek h key msk b p =
     (case p of
        None \<Rightarrow> Some None
      | Some node \<Rightarrow>
          if b AND msk = 0 then Some (Some node)
          else case h node of None \<Rightarrow> None | Some n \<Rightarrow> radix_seek h key msk (drop_bit 1 b) (child (key AND b \<noteq> 0) n))"
  by auto
termination by (relation "measure (\<lambda>(h, key, msk, b, p). unat b)") (auto intro: half_less)

declare radix_seek.simps [simp del]

definition has_child :: "radix_node \<Rightarrow> bool" where
  "has_child n \<longleftrightarrow> nd_right n \<noteq> None \<or> nd_left n \<noteq> None"

text \<open>
  One round of the loop that frees a node: it is taken from its parent and put on the free list. The second component is the parent.
\<close>

definition radix_unlink :: "nat \<Rightarrow> radix_tree \<Rightarrow> (nat \<times> radix_tree) option" where
  "radix_unlink node tree =
     Option.bind (rx_nodes tree node) (\<lambda>n.
     Option.bind (nd_parent n) (\<lambda>up.
     Option.bind (rx_nodes tree up) (\<lambda>u.
       let tree = write_node up (set_child (nd_right u = Some node) None u) tree
       in map_option (\<lambda>n. (up, (write_node node (n\<lparr>nd_right := rx_free tree\<rparr>) tree)\<lparr>rx_free := Some node\<rparr>)) (rx_nodes tree node))))"

partial_function (option) radix_free_up :: "nat \<Rightarrow> radix_tree \<Rightarrow> radix_tree option" where
  "radix_free_up node tree =
     Option.bind (radix_unlink node tree) (\<lambda>(node, tree).
     Option.bind (rx_nodes tree node) (\<lambda>n.
       if has_child n \<or> nd_value n \<noteq> NGX_RADIX_NO_VALUE \<or> nd_parent n = None then Some tree
       else radix_free_up node tree))"

declare radix_free_up.simps [code]

definition ngx_radix32tree_delete :: "radix_tree \<Rightarrow> u32 \<Rightarrow> u32 \<Rightarrow> (ngx_rc \<times> radix_tree) option" where
  "ngx_radix32tree_delete tree key msk =
     Option.bind (radix_seek (rx_nodes tree) key msk top_bit (Some (rx_root tree))) (\<lambda>p.
       case p of
         None \<Rightarrow> Some (NGX_ERROR, tree)
       | Some node \<Rightarrow>
           Option.bind (rx_nodes tree node) (\<lambda>n.
             if has_child n then
               if nd_value n \<noteq> NGX_RADIX_NO_VALUE
               then map_option (Pair NGX_OK) (set_value node NGX_RADIX_NO_VALUE tree)
               else Some (NGX_ERROR, tree)
             else map_option (Pair NGX_OK) (radix_free_up node tree)))"

section \<open>Lookup\<close>

partial_function (option) radix_find_loop ::
    "(nat \<Rightarrow> radix_node option) \<Rightarrow> u32 \<Rightarrow> u32 \<Rightarrow> nat option \<Rightarrow> ngx_uint \<Rightarrow> ngx_uint option" where
  "radix_find_loop h key b p v =
     (case p of
        None \<Rightarrow> Some v
      | Some node \<Rightarrow>
          Option.bind (h node) (\<lambda>n.
            radix_find_loop h key (drop_bit 1 b) (child (key AND b \<noteq> 0) n)
              (if nd_value n \<noteq> NGX_RADIX_NO_VALUE then nd_value n else v)))"

declare radix_find_loop.simps [code]

definition ngx_radix32tree_find :: "radix_tree \<Rightarrow> u32 \<Rightarrow> ngx_uint option" where
  "ngx_radix32tree_find tree key = radix_find_loop (rx_nodes tree) key top_bit (Some (rx_root tree)) NGX_RADIX_NO_VALUE"

section \<open>Creation\<close>

text \<open>
  The preallocation of the nodes of the first levels. \<^verbatim>\<open>ngx_pagesize\<close> is divided by the size of the tree structure, 40 bytes on
  a 64-bit platform. A result \<open>Some None\<close> is a null pointer.
\<close>

definition sizeof_tree :: nat where
  "sizeof_tree = 40"

definition default_preallocate :: "nat \<Rightarrow> nat" where
  "default_preallocate pagesize =
     (if pagesize div sizeof_tree = 128 then 6 else if pagesize div sizeof_tree = 256 then 7 else 8)"

partial_function (option) radix_level :: "u32 \<Rightarrow> u32 \<Rightarrow> u32 \<Rightarrow> radix_tree \<Rightarrow> radix_tree option option" where
  "radix_level key msk inc tree =
     Option.bind (ngx_radix32tree_insert tree key msk NGX_RADIX_NO_VALUE) (\<lambda>(rc, tree).
       if rc \<noteq> NGX_OK then Some None
       else if key + inc \<noteq> 0 then radix_level (key + inc) msk inc tree
       else Some (Some tree))"

declare radix_level.simps [code]

fun radix_levels :: "nat \<Rightarrow> u32 \<Rightarrow> u32 \<Rightarrow> radix_tree \<Rightarrow> radix_tree option option" where
  "radix_levels 0 msk inc tree = Some (Some tree)"
| "radix_levels (Suc k) msk inc tree =
     (let msk = drop_bit 1 msk OR top_bit in
      case radix_level 0 msk inc tree of
        Some (Some tree) \<Rightarrow> radix_levels k msk (drop_bit 1 inc) tree
      | r \<Rightarrow> r)"

text \<open>\<open>ok\<close> is the allocation of the tree structure; \<open>None\<close> for the number of levels is the argument -1.\<close>

definition ngx_radix_tree_create :: "bool \<Rightarrow> radix_pool \<Rightarrow> nat option \<Rightarrow> radix_tree option option" where
  "ngx_radix_tree_create ok pool preallocate =
     (if \<not> ok then Some None
      else
        case ngx_radix_alloc \<lparr>rx_root = 0, rx_pool = pool, rx_free = None, rx_start = None, rx_size = 0, rx_nodes = Map.empty, rx_pages = 0\<rparr> of
          None \<Rightarrow> None
        | Some (None, tree) \<Rightarrow> Some None
        | Some (Some p, tree) \<Rightarrow>
            radix_levels (case preallocate of None \<Rightarrow> default_preallocate (rp_pagesize pool) | Some k \<Rightarrow> k) 0 top_bit
              (write_node p \<lparr>nd_right = None, nd_left = None, nd_parent = None, nd_value = NGX_RADIX_NO_VALUE\<rparr> (tree\<lparr>rx_root := p\<rparr>)))"

section \<open>Keys as lists of bits\<close>

definition key_bits :: "u32 \<Rightarrow> bool list" where
  "key_bits key = map (\<lambda>i. bit key (31 - i)) [0..<32]"

text \<open>The bits of the key under the leading ones of the mask: the prefix that a key and a mask stand for.\<close>

definition prefix_path :: "u32 \<Rightarrow> u32 \<Rightarrow> bool list" where
  "prefix_path key msk = map fst (takeWhile snd (zip (key_bits key) (key_bits msk)))"

lemma length_key_bits [simp]: "length (key_bits key) = 32"
  by (simp add: key_bits_def)

lemma bit_top_bit: "bit top_bit n \<longleftrightarrow> n = 31"
proof -
  have "top_bit = push_bit 31 1" by (simp add: top_bit_def push_bit_eq_mult)
  moreover have "bit (push_bit 31 1 :: u32) n \<longleftrightarrow> n = 31" by (subst bit_push_bit_iff) (auto simp: bit_1_iff)
  ultimately show ?thesis by (simp only:)
qed

lemma and_bit_at: "(w AND drop_bit k top_bit \<noteq> 0) \<longleftrightarrow> k < 32 \<and> bit w (31 - k)"
proof -
  have "(x \<noteq> 0) \<longleftrightarrow> (\<exists>n. bit x n)" for x :: u32
    using bit_imp_le_length [of x] by (auto simp: bit_eq_iff [of x])
  then have "(w AND drop_bit k top_bit \<noteq> 0) \<longleftrightarrow> (\<exists>n. bit w n \<and> k + n = 31)"
    by (simp add: bit_and_iff bit_drop_bit_eq bit_top_bit)
  also have "\<dots> \<longleftrightarrow> k < 32 \<and> bit w (31 - k)"
  proof
    assume "\<exists>n. bit w n \<and> k + n = 31"
    then obtain n where "bit w n" "k + n = 31" by blast
    moreover from this(2) have "31 - k = n" "k < 32" by linarith+
    ultimately show "k < 32 \<and> bit w (31 - k)" by simp
  qed (auto intro!: exI [of _ "31 - k"])
  finally show ?thesis .
qed

lemma length_prefix_path: "length (prefix_path key msk) \<le> 32"
  using length_takeWhile_le [of snd "zip (key_bits key) (key_bits msk)"] by (simp add: prefix_path_def)

lemma takeWhile_next: "k \<le> length (takeWhile P xs) \<Longrightarrow> k < length (takeWhile P xs) \<longleftrightarrow> k < length xs \<and> P (xs ! k)"
  by (metis le_neq_implies_less length_takeWhile_le less_le_trans nth_length_takeWhile nth_mem set_takeWhileD takeWhile_nth)

lemma prefix_path_next:
  assumes "k \<le> length (prefix_path key msk)"
  shows "drop_bit k top_bit AND msk \<noteq> 0 \<longleftrightarrow> k < length (prefix_path key msk)"
    and "k < length (prefix_path key msk) \<Longrightarrow> (key AND drop_bit k top_bit \<noteq> 0) = prefix_path key msk ! k"
proof -
  let ?z = "zip (key_bits key) (key_bits msk)"
  have len: "length (prefix_path key msk) = length (takeWhile snd ?z)" by (simp add: prefix_path_def)
  have z: "?z ! k = (bit key (31 - k), bit msk (31 - k))" if "k < 32" using that by (simp add: key_bits_def)
  show "drop_bit k top_bit AND msk \<noteq> 0 \<longleftrightarrow> k < length (prefix_path key msk)"
    using takeWhile_next [of k snd ?z] assms z and_bit_at [of msk k] by (auto simp: len and.commute)
  assume k: "k < length (prefix_path key msk)"
  then have "k < 32" using length_prefix_path [of key msk] by linarith
  moreover have "prefix_path key msk ! k = fst (?z ! k)"
    using k by (simp add: prefix_path_def takeWhile_nth)
  ultimately show "(key AND drop_bit k top_bit \<noteq> 0) = prefix_path key msk ! k" using z and_bit_at [of key k] by simp
qed

lemma drop_bit_next: "drop_bit (Suc 0) (drop_bit k w) = drop_bit (Suc k) (w :: u32)"
  by (simp add: drop_bit_drop_bit)

section \<open>Trees in memory\<close>

text \<open>
  The shape of a tree, with the addresses of the nodes, and what it means for the memory to hold it below a given parent.
\<close>

datatype rtree = Tip | Nd nat rtree ngx_uint rtree

fun root_of :: "rtree \<Rightarrow> nat option" where
  "root_of Tip = None"
| "root_of (Nd a l v r) = Some a"

fun nodes :: "rtree \<Rightarrow> nat set" where
  "nodes Tip = {}"
| "nodes (Nd a l v r) = {a} \<union> nodes l \<union> nodes r"

fun repr :: "(nat \<Rightarrow> radix_node option) \<Rightarrow> nat option \<Rightarrow> rtree \<Rightarrow> bool" where
  "repr h par Tip \<longleftrightarrow> True"
| "repr h par (Nd a l v r) \<longleftrightarrow>
     h a = Some \<lparr>nd_right = root_of r, nd_left = root_of l, nd_parent = par, nd_value = v\<rparr> \<and>
     repr h (Some a) l \<and> repr h (Some a) r \<and> a \<notin> nodes l \<union> nodes r \<and> nodes l \<inter> nodes r = {}"

fun look :: "rtree \<Rightarrow> bool list \<Rightarrow> ngx_uint" where
  "look Tip p = NGX_RADIX_NO_VALUE"
| "look (Nd a l v r) [] = v"
| "look (Nd a l v r) (b # p) = look (if b then r else l) p"

lemma repr_cong: "(\<And>a. a \<in> nodes t \<Longrightarrow> h a = h' a) \<Longrightarrow> repr h par t \<Longrightarrow> repr h' par t"
  by (induction t arbitrary: par) auto

text \<open>A place in a tree: the way from the node up to the root, with what hangs beside it.\<close>

type_synonym frame = "bool \<times> nat \<times> rtree \<times> ngx_uint"

definition fill :: "frame \<Rightarrow> rtree \<Rightarrow> rtree" where
  "fill f t = (case f of (b, a, s, v) \<Rightarrow> if b then Nd a s v t else Nd a t v s)"

fun plug :: "frame list \<Rightarrow> rtree \<Rightarrow> rtree" where
  "plug [] t = t"
| "plug (f # c) t = plug c (fill f t)"

definition up :: "frame list \<Rightarrow> nat option" where
  "up c = (case c of [] \<Rightarrow> None | (b, a, s, v) # c \<Rightarrow> Some a)"

definition way :: "frame list \<Rightarrow> bool list" where
  "way c = rev (map fst c)"

fun around :: "frame list \<Rightarrow> nat set" where
  "around [] = {}"
| "around ((b, a, s, v) # c) = {a} \<union> nodes s \<union> around c"

text \<open>The memory holds the surroundings of a place whose node is at \<open>q\<close>.\<close>

fun place :: "(nat \<Rightarrow> radix_node option) \<Rightarrow> nat option \<Rightarrow> frame list \<Rightarrow> bool" where
  "place h q [] \<longleftrightarrow> True"
| "place h q ((b, a, s, v) # c) \<longleftrightarrow>
     h a = Some \<lparr>nd_right = (if b then q else root_of s), nd_left = (if b then root_of s else q), nd_parent = up c, nd_value = v\<rparr> \<and>
     repr h (Some a) s \<and> place h (Some a) c \<and> a \<notin> nodes s \<and> a \<notin> around c \<and> nodes s \<inter> around c = {}"

lemma root_of_fill [simp]: "root_of (fill (b, a, s, v) t) = Some a"
  by (simp add: fill_def)

lemma nodes_fill [simp]: "nodes (fill (b, a, s, v) t) = {a} \<union> nodes s \<union> nodes t"
  by (auto simp: fill_def)

lemma nodes_plug: "nodes (plug c t) = nodes t \<union> around c"
  by (induction c arbitrary: t rule: around.induct) auto

lemma repr_plug: "repr h None (plug c t) \<longleftrightarrow> repr h (up c) t \<and> place h (root_of t) c \<and> nodes t \<inter> around c = {}"
proof (induction c arbitrary: t rule: around.induct)
  case 1
  then show ?case by (simp add: up_def)
next
  case (2 b a s v c)
  have "up ((b, a, s, v) # c) = Some a" by (simp add: up_def)
  moreover have "repr h (up c) (fill (b, a, s, v) t) \<longleftrightarrow>
      h a = Some \<lparr>nd_right = (if b then root_of t else root_of s), nd_left = (if b then root_of s else root_of t), nd_parent = up c, nd_value = v\<rparr> \<and>
      repr h (Some a) t \<and> repr h (Some a) s \<and> a \<notin> nodes s \<union> nodes t \<and> nodes s \<inter> nodes t = {}"
    by (auto simp: fill_def)
  ultimately show ?case using 2 [of "fill (b, a, s, v) t"] by (simp only: plug.simps place.simps around.simps root_of_fill nodes_fill) blast
qed

lemma root_of_plug: "c \<noteq> [] \<Longrightarrow> root_of (plug c t) = root_of (plug c t')"
proof (induction c arbitrary: t t' rule: around.induct)
  case (2 b a s v c)
  from 2(1) [of "fill (b, a, s, v) t" "fill (b, a, s, v) t'"] show ?case by (cases "c = []") simp_all
qed simp

lemma way_Cons: "way ((b, a, s, v) # c) = way c @ [b]"
  by (simp add: way_def)

lemma look_fill: "look (fill (b, a, s, v) t) (b' # p) = look (if b' = b then t else s) p" "look (fill (b, a, s, v) t) [] = v"
  by (auto simp: fill_def)

lemma look_plug: "look (plug c t) (way c @ p) = look t p"
proof (induction c arbitrary: t p rule: around.induct)
  case (2 b a s v c)
  from 2 [of "fill (b, a, s, v) t" "b # p"] show ?case by (simp add: way_Cons look_fill)
qed (simp add: way_def)

lemma look_plug_other:
  assumes "\<And>p. q = way c @ p \<Longrightarrow> look t p = look t' p"
  shows "look (plug c t) q = look (plug c t') q"
  using assms
proof (induction c arbitrary: t t' rule: around.induct)
  case (2 b a s v c)
  have "look (fill (b, a, s, v) t) p = look (fill (b, a, s, v) t') p" if "q = way c @ p" for p
    using that 2(2) by (cases p) (auto simp: look_fill way_Cons)
  from 2(1) [OF this] show ?case by simp
qed (simp add: way_def)

section \<open>The state of a tree\<close>

fun free_chain :: "(nat \<Rightarrow> radix_node option) \<Rightarrow> nat option \<Rightarrow> nat list \<Rightarrow> bool" where
  "free_chain h p [] \<longleftrightarrow> p = None"
| "free_chain h p (a # fl) \<longleftrightarrow> p = Some a \<and> (\<exists>n. h a = Some n \<and> free_chain h (nd_right n) fl)"

text \<open>The end of the memory that was handed out.\<close>

definition bump :: "radix_tree \<Rightarrow> nat" where
  "bump t = (case rx_start t of Some s \<Rightarrow> s | None \<Rightarrow> rx_pages t * rp_pagesize (rx_pool t))"

definition arena :: "radix_tree \<Rightarrow> nat set \<Rightarrow> bool" where
  "arena t used \<longleftrightarrow>
     (\<forall>a \<in> used. a < bump t) \<and> sizeof_node \<le> rp_pagesize (rx_pool t) \<and>
     (case rx_start t of None \<Rightarrow> rx_size t < sizeof_node | Some s \<Rightarrow> s + rx_size t \<le> rx_pages t * rp_pagesize (rx_pool t))"

text \<open>The state holds the tree \<open>tr\<close> and the free nodes \<open>fl\<close>.\<close>

definition radix_rep :: "radix_tree \<Rightarrow> rtree \<Rightarrow> nat list \<Rightarrow> bool" where
  "radix_rep t tr fl \<longleftrightarrow>
     root_of tr = Some (rx_root t) \<and> repr (rx_nodes t) None tr \<and> free_chain (rx_nodes t) (rx_free t) fl \<and> distinct fl \<and>
     set fl \<inter> nodes tr = {} \<and> arena t (nodes tr \<union> set fl)"

definition memory_ok :: "radix_tree \<Rightarrow> bool" where
  "memory_ok t \<longleftrightarrow> (\<forall>k \<ge> rx_pages t. rp_ok (rx_pool t) k)"

lemma free_chain_cong: "(\<And>a. a \<in> set fl \<Longrightarrow> h a = h' a) \<Longrightarrow> free_chain h p fl \<Longrightarrow> free_chain h' p fl"
  by (induction fl arbitrary: p) auto

lemma place_cong: "(\<And>a. a \<in> around c \<Longrightarrow> h a = h' a) \<Longrightarrow> place h q c \<Longrightarrow> place h' q c"
proof (induction c arbitrary: q rule: around.induct)
  case (2 b a s v c)
  then show ?case using repr_cong [of s h h' "Some a"] by auto
qed simp

lemma arena_nodes [simp]: "arena (t\<lparr>rx_nodes := h\<rparr>) u = arena t u" "arena (t\<lparr>rx_free := f\<rparr>) u = arena t u"
  "memory_ok (t\<lparr>rx_nodes := h\<rparr>) = memory_ok t" "memory_ok (t\<lparr>rx_free := f\<rparr>) = memory_ok t"
  "bump (t\<lparr>rx_nodes := h\<rparr>) = bump t" "bump (t\<lparr>rx_free := f\<rparr>) = bump t"
  by (cases "rx_start t"; simp add: arena_def bump_def memory_ok_def)+

lemma arena_insert: "arena t (insert a u) \<longleftrightarrow> a < bump t \<and> arena t u"
  by (auto simp: arena_def)

lemma arena_mono: "arena t u \<Longrightarrow> v \<subseteq> u \<Longrightarrow> arena t v"
  by (auto simp: arena_def)

lemma alloc_ok:
  assumes "radix_rep t tr fl"
  obtains r t' fl' where "ngx_radix_alloc t = Some (r, t')" and "radix_rep t' tr fl'" and "rx_nodes t' = rx_nodes t"
    and "r = None \<Longrightarrow> \<not> memory_ok t" and "memory_ok t \<Longrightarrow> memory_ok t'"
    and "\<And>p. r = Some p \<Longrightarrow> p \<notin> nodes tr \<union> set fl' \<and> p < bump t'"
proof (cases fl)
  case Nil
  let ?k = "rx_pages t" and ?ps = "rp_pagesize (rx_pool t)"
  let ?t0 = "t\<lparr>rx_pages := Suc ?k, rx_start := Some (?k * ?ps + sizeof_node), rx_size := ?ps - sizeof_node\<rparr>"
  let ?t1 = "t\<lparr>rx_pages := Suc ?k, rx_start := None\<rparr>"
  have r: "rx_free t = None" "sizeof_node \<le> ?ps" "arena t (nodes tr)" using assms Nil by (simp_all add: radix_rep_def arena_def)
  consider (page) "rx_size t < sizeof_node" "rp_ok (rx_pool t) ?k" | (fail) "rx_size t < sizeof_node" "\<not> rp_ok (rx_pool t) ?k"
    | (room) "\<not> rx_size t < sizeof_node"
    by blast
  then show ?thesis
  proof cases
    case page
    have below: "a < ?k * ?ps" if "a \<in> nodes tr" for a
      using r(3) that by (fastforce simp: arena_def bump_def split: option.splits)
    have "arena ?t0 (nodes tr)" "?k * ?ps \<notin> nodes tr" using below r(2) by (fastforce simp: arena_def bump_def)+
    then show ?thesis using page r assms Nil
      by (intro that [of "Some (?k * ?ps)" ?t0 "[]"]) (auto simp: ngx_radix_alloc_def radix_rep_def memory_ok_def bump_def sizeof_node_def Let_def)
  next
    case fail
    have "arena ?t1 (nodes tr)" using r(3) fail by (fastforce simp: arena_def bump_def split: option.splits)
    then show ?thesis using fail r assms Nil
      by (intro that [of None ?t1 "[]"]) (auto simp: ngx_radix_alloc_def radix_rep_def memory_ok_def Let_def)
  next
    case room
    then obtain s where s: "rx_start t = Some s" using r(3) by (auto simp: arena_def split: option.splits)
    let ?t2 = "t\<lparr>rx_start := Some (s + sizeof_node), rx_size := rx_size t - sizeof_node\<rparr>"
    have "arena ?t2 (nodes tr)" "s \<notin> nodes tr" using r(3) s room by (fastforce simp: arena_def bump_def)+
    then show ?thesis using room s r assms Nil
      by (intro that [of "Some s" ?t2 "[]"]) (auto simp: ngx_radix_alloc_def radix_rep_def memory_ok_def bump_def sizeof_node_def Let_def)
  qed
next
  case (Cons a fl')
  then obtain n where "rx_free t = Some a" "rx_nodes t a = Some n" "free_chain (rx_nodes t) (nd_right n) fl'"
    using assms by (auto simp: radix_rep_def)
  with Cons assms show ?thesis
    by (intro that [of "Some a" "t\<lparr>rx_free := nd_right n\<rparr>" fl'])
      (auto simp: ngx_radix_alloc_def radix_rep_def arena_insert)
qed

text \<open>Changing the subtree at a place.\<close>

lemma rep_update:
  assumes "radix_rep t (plug c s) fl" and "root_of s' = root_of s" and "repr h' (up c) s'"
    and "\<And>a. a \<in> around c \<union> set fl \<Longrightarrow> h' a = rx_nodes t a"
    and "nodes s' \<inter> (around c \<union> set fl) = {}" and "\<And>a. a \<in> nodes s' \<Longrightarrow> a < bump t"
  shows "radix_rep (t\<lparr>rx_nodes := h'\<rparr>) (plug c s') fl"
proof -
  note r = assms(1) [unfolded radix_rep_def repr_plug nodes_plug]
  have "root_of (plug c s') = root_of (plug c s)" using assms(2) root_of_plug [of c s' s] by (cases "c = []") auto
  moreover have "place h' (root_of s') c" using place_cong [of c "rx_nodes t" h'] r assms(2,4) by auto
  moreover have "free_chain h' (rx_free t) fl" using free_chain_cong [of fl "rx_nodes t" h'] r assms(4) by auto
  moreover have "arena t (nodes s' \<union> around c \<union> set fl)" using r assms(6) by (auto simp: arena_def)
  ultimately show ?thesis using r assms(3,5) unfolding radix_rep_def repr_plug nodes_plug by auto
qed

lemma rep_free:
  assumes "radix_rep t tr fl" and "a \<notin> nodes tr \<union> set fl" and "a < bump t"
  shows "radix_rep (t\<lparr>rx_nodes := (rx_nodes t)(a \<mapsto> n\<lparr>nd_right := rx_free t\<rparr>), rx_free := Some a\<rparr>) tr (a # fl)"
proof -
  let ?h = "(rx_nodes t)(a \<mapsto> n\<lparr>nd_right := rx_free t\<rparr>)"
  have "repr ?h None tr" by (rule repr_cong [of tr "rx_nodes t"]) (use assms in \<open>auto simp: radix_rep_def\<close>)
  moreover have "free_chain ?h (rx_free t) fl" by (rule free_chain_cong [of fl "rx_nodes t"]) (use assms in \<open>auto simp: radix_rep_def\<close>)
  ultimately show ?thesis using assms by (auto simp: radix_rep_def arena_insert)
qed

section \<open>Walking down\<close>

text \<open>What the memory holds for a prefix, read from a node.\<close>

fun value_at :: "(nat \<Rightarrow> radix_node option) \<Rightarrow> nat option \<Rightarrow> bool list \<Rightarrow> ngx_uint" where
  "value_at h None p = NGX_RADIX_NO_VALUE"
| "value_at h (Some a) p =
     (case h a of
        None \<Rightarrow> NGX_RADIX_NO_VALUE
      | Some n \<Rightarrow> (case p of [] \<Rightarrow> nd_value n | b # p \<Rightarrow> value_at h (child b n) p))"

definition radix_value :: "radix_tree \<Rightarrow> bool list \<Rightarrow> ngx_uint" where
  "radix_value t = value_at (rx_nodes t) (Some (rx_root t))"

lemma value_at_look: "repr h par t \<Longrightarrow> value_at h (root_of t) p = look t p"
proof (induction t p arbitrary: par rule: look.induct)
  case (3 a l v r b p)
  then show ?case by (cases b) (auto simp: child_def)
qed auto

lemma radix_value_look: "radix_rep t tr fl \<Longrightarrow> radix_value t = look tr"
  using value_at_look [of "rx_nodes t" None tr] by (auto simp: radix_rep_def radix_value_def)

fun descend :: "frame list \<Rightarrow> rtree \<Rightarrow> bool list \<Rightarrow> frame list \<times> rtree \<times> bool list" where
  "descend c t [] = (c, t, [])"
| "descend c Tip ds = (c, Tip, ds)"
| "descend c (Nd a l v r) (b # ds) =
     (if (if b then r else l) = Tip then (c, Nd a l v r, b # ds)
      else descend ((b, a, if b then l else r, v) # c) (if b then r else l) ds)"

lemma descend_plug:
  "descend c t ds = (c', t', rest) \<Longrightarrow> plug c' t' = plug c t \<and> way c' @ rest = way c @ ds \<and> (t \<noteq> Tip \<longrightarrow> t' \<noteq> Tip) \<and> length rest \<le> length ds"
  by (induction c t ds rule: descend.induct) (auto simp: fill_def way_Cons split: if_splits)

text \<open>The way stops at a node without the next child.\<close>

lemma descend_stop: "descend c t ds = (c', Nd a l v r, b # rest) \<Longrightarrow> (if b then r else l) = Tip"
  by (induction c t ds rule: descend.induct) (auto split: if_splits)

lemma walk_descend:
  assumes "k \<le> length (prefix_path key msk)" and "repr h par t" and "root_of t = Some node"
    and "descend c t (drop k (prefix_path key msk)) = (c', t', rest)"
  shows "\<exists>a. root_of t' = Some a \<and> radix_walk h key msk (drop_bit k top_bit) node =
    Some (drop_bit (length (prefix_path key msk) - length rest) top_bit, a, if rest = [] then Some a else None)"
  using assms
proof (induction "length (prefix_path key msk) - k" arbitrary: k par t node c)
  case 0
  then have "drop k (prefix_path key msk) = []" "k = length (prefix_path key msk)" by simp_all
  with 0 prefix_path_next(1) [of k key msk] show ?case by (subst radix_walk.simps) auto
next
  case (Suc n)
  let ?P = "prefix_path key msk"
  from Suc.hyps(2) have k: "k < length ?P" by linarith
  then have d: "drop k ?P = ?P ! k # drop (Suc k) ?P" by (simp add: Cons_nth_drop_Suc)
  note nxt = prefix_path_next [OF Suc.prems(1)]
  obtain l v r where t: "t = Nd node l v r" using Suc.prems(3) by (cases t) auto
  let ?s = "if ?P ! k then r else l"
  have h: "h node = Some \<lparr>nd_right = root_of r, nd_left = root_of l, nd_parent = par, nd_value = v\<rparr>" "repr h (Some node) ?s"
    using Suc.prems(2) t by auto
  show ?case
  proof (cases "?s = Tip")
    case True
    then have "c' = c" "t' = t" "rest = drop k ?P" using Suc.prems(4) d t by auto
    then show ?thesis using True k nxt h t by (subst radix_walk.simps) (auto simp: child_def)
  next
    case False
    then obtain a where a: "root_of ?s = Some a" by (cases ?s) auto
    have "descend ((?P ! k, node, if ?P ! k then l else r, v) # c) ?s (drop (Suc k) ?P) = (c', t', rest)"
      using Suc.prems(4) False d t by (simp split: if_splits)
    moreover have "radix_walk h key msk (drop_bit k top_bit) node = radix_walk h key msk (drop_bit (Suc k) top_bit) a"
      using k nxt h a by (subst radix_walk.simps) (auto simp: child_def drop_bit_next)
    moreover have "n = length ?P - Suc k" "Suc k \<le> length ?P" using k Suc.hyps(2) by linarith+
    ultimately show ?thesis using Suc.hyps(1) [OF _ _ h(2) a, of "Suc k"] by metis
  qed
qed

fun height :: "rtree \<Rightarrow> nat" where
  "height Tip = 0"
| "height (Nd a l v r) = Suc (max (height l) (height r))"

lemma height_fill: "height (fill (b, a, s, v) t) = Suc (max (height s) (height t))"
  by (simp add: fill_def max.commute)

lemma height_place: "length c + height t \<le> height (plug c t)"
proof (induction c arbitrary: t rule: around.induct)
  case (2 b a s v c)
  from 2 [of "fill (b, a, s, v) t"] show ?case by (simp add: height_fill)
qed simp

lemma height_plug: "\<lbrakk>height (plug c t) \<le> m; length c + height t' \<le> m\<rbrakk> \<Longrightarrow> height (plug c t') \<le> m"
proof (induction c arbitrary: t t' rule: around.induct)
  case (2 b a s v c)
  have "length c + height (fill (b, a, s, v) t') \<le> m"
    using height_place [of c "fill (b, a, s, v) t"] 2(2,3) by (simp add: height_fill)
  from 2(1) [OF _ this, of "fill (b, a, s, v) t"] 2(2) show ?case by simp
qed simp

definition radix_ok :: "radix_tree \<Rightarrow> bool" where
  "radix_ok t \<longleftrightarrow> (\<exists>tr fl. radix_rep t tr fl \<and> height tr \<le> 33)"

section \<open>Insertion is correct\<close>

lemma set_value_rep:
  assumes "radix_rep t (plug c (Nd a l v0 r)) fl"
  shows "\<exists>t'. set_value a v t = Some t' \<and> radix_rep t' (plug c (Nd a l v r)) fl \<and> memory_ok t' = memory_ok t"
    and "look (plug c (Nd a l v r)) = (look (plug c (Nd a l v0 r)))(way c := v)"
proof -
  have h: "rx_nodes t a = Some \<lparr>nd_right = root_of r, nd_left = root_of l, nd_parent = up c, nd_value = v0\<rparr>"
    and r: "repr (rx_nodes t) (up c) (Nd a l v0 r)" "nodes (Nd a l v0 r) \<inter> (around c \<union> set fl) = {}" "arena t (nodes (Nd a l v0 r))"
    using assms by (auto simp: radix_rep_def repr_plug nodes_plug intro: arena_mono)
  let ?h = "(rx_nodes t)(a \<mapsto> \<lparr>nd_right = root_of r, nd_left = root_of l, nd_parent = up c, nd_value = v\<rparr>)"
  have "repr ?h (Some a) l" "repr ?h (Some a) r"
    using r(1) repr_cong [of l "rx_nodes t" ?h "Some a"] repr_cong [of r "rx_nodes t" ?h "Some a"] by fastforce+
  then have "radix_rep (t\<lparr>rx_nodes := ?h\<rparr>) (plug c (Nd a l v r)) fl"
    using r by (intro rep_update [OF assms]) (auto simp: arena_def)
  then show "\<exists>t'. set_value a v t = Some t' \<and> radix_rep t' (plug c (Nd a l v r)) fl \<and> memory_ok t' = memory_ok t"
    using h by (simp add: set_value_def write_node_def)
  have "look (plug c (Nd a l v r)) q = look (plug c (Nd a l v0 r)) q" if "q \<noteq> way c" for q
    by (rule look_plug_other) (use that in \<open>case_tac p; auto\<close>)
  moreover have "look (plug c (Nd a l v r)) (way c) = v" using look_plug [of c _ "[]"] by simp
  ultimately show "look (plug c (Nd a l v r)) = (look (plug c (Nd a l v0 r)))(way c := v)" by auto
qed

text \<open>A new empty node changes nothing of what the tree stands for.\<close>

lemma look_empty [simp]: "look (Nd p Tip NGX_RADIX_NO_VALUE Tip) q = NGX_RADIX_NO_VALUE"
  by (cases q) auto

lemma link_rep:
  assumes "radix_rep t (plug c (Nd a l v r)) fl" and "(if b then r else l) = Tip"
    and "p \<notin> nodes (plug c (Nd a l v r)) \<union> set fl" and "p < bump t"
  defines "s \<equiv> if b then l else r"
    and "t1 \<equiv> write_node p \<lparr>nd_right = None, nd_left = None, nd_parent = Some a, nd_value = NGX_RADIX_NO_VALUE\<rparr> t"
  obtains n where "rx_nodes t1 a = Some n"
    and "radix_rep (write_node a (set_child b (Some p) n) t1) (plug ((b, a, s, v) # c) (Nd p Tip NGX_RADIX_NO_VALUE Tip)) fl"
    and "look (plug ((b, a, s, v) # c) (Nd p Tip NGX_RADIX_NO_VALUE Tip)) = look (plug c (Nd a l v r))"
    and "memory_ok (write_node a (set_child b (Some p) n) t1) = memory_ok t"
proof -
  let ?n = "\<lparr>nd_right = root_of r, nd_left = root_of l, nd_parent = up c, nd_value = v\<rparr>"
  have r: "repr (rx_nodes t) (up c) (Nd a l v r)" "nodes (Nd a l v r) \<inter> (around c \<union> set fl) = {}" "arena t (nodes (Nd a l v r))"
    using assms(1) by (auto simp: radix_rep_def repr_plug nodes_plug intro: arena_mono)
  have p: "p \<noteq> a" "p \<notin> nodes l" "p \<notin> nodes r" "p \<notin> around c" "p \<notin> set fl" using assms(3) by (auto simp: nodes_plug)
  have n: "rx_nodes t1 a = Some ?n" using r(1) p(1) by (simp add: t1_def write_node_def)
  let ?t2 = "write_node a (set_child b (Some p) ?n) t1"
  have s: "repr (rx_nodes ?t2) (Some a) s"
    by (rule repr_cong [of s "rx_nodes t"]) (use r(1) p in \<open>auto simp: s_def t1_def write_node_def split: if_splits\<close>)
  then have f: "repr (rx_nodes ?t2) (up c) (fill (b, a, s, v) (Nd p Tip NGX_RADIX_NO_VALUE Tip))"
    using r(1) p assms(2) by (auto simp: fill_def s_def t1_def write_node_def set_child_def split: if_splits)
  have "radix_rep (t\<lparr>rx_nodes := rx_nodes ?t2\<rparr>) (plug c (fill (b, a, s, v) (Nd p Tip NGX_RADIX_NO_VALUE Tip))) fl"
    by (rule rep_update [OF assms(1) _ f])
      (use r p assms(4) in \<open>auto simp: s_def t1_def write_node_def arena_def split: if_splits\<close>)
  moreover have "look (fill (b, a, s, v) (Nd p Tip NGX_RADIX_NO_VALUE Tip)) q = look (Nd a l v r) q" for q
    using assms(2) by (cases q) (auto simp: fill_def s_def split: if_splits)
  then have "look (plug c (fill (b, a, s, v) (Nd p Tip NGX_RADIX_NO_VALUE Tip))) q = look (plug c (Nd a l v r)) q" for q
    by (rule look_plug_other)
  moreover have "t\<lparr>rx_nodes := rx_nodes ?t2\<rparr> = ?t2" by (simp add: t1_def write_node_def)
  ultimately show ?thesis using n by (intro that [of ?n]) (auto simp: t1_def write_node_def)
qed

definition extended :: "bool \<Rightarrow> nat option \<Rightarrow> radix_tree \<Rightarrow> (bool list \<Rightarrow> ngx_uint) \<Rightarrow> bool list \<Rightarrow> bool" where
  "extended mem res t m p \<longleftrightarrow>
     (mem \<longrightarrow> res \<noteq> None \<and> memory_ok t) \<and>
     (case res of
        None \<Rightarrow> \<exists>tr fl. radix_rep t tr fl \<and> height tr \<le> 33 \<and> look tr = m
      | Some a \<Rightarrow> \<exists>c l v r fl. radix_rep t (plug c (Nd a l v r)) fl \<and> height (plug c (Nd a l v r)) \<le> 33 \<and>
          look (plug c (Nd a l v r)) = m \<and> way c = p)"

lemma extended_mono: "extended mem res t m p \<Longrightarrow> (mem' \<Longrightarrow> mem) \<Longrightarrow> extended mem' res t m p"
  by (auto simp: extended_def)

lemma extend_rep:
  assumes "radix_rep t (plug c (Nd a l v r)) fl" and "height (plug c (Nd a l v r)) \<le> 33" and "k \<le> length (prefix_path key msk)"
    and "k < length (prefix_path key msk) \<Longrightarrow> (if prefix_path key msk ! k then r else l) = Tip" and "length c = k"
  shows "\<exists>res t'. radix_extend key msk (drop_bit k top_bit) a t = Some (res, t') \<and>
    extended (memory_ok t) res t' (look (plug c (Nd a l v r))) (way c @ drop k (prefix_path key msk))"
  using assms
proof (induction "length (prefix_path key msk) - k" arbitrary: k t c a l v r fl)
  case 0
  then have "k = length (prefix_path key msk)" by simp
  moreover have "extended (memory_ok t) (Some a) t (look (plug c (Nd a l v r))) (way c)"
    using 0 unfolding extended_def by fastforce
  ultimately show ?case using 0 prefix_path_next(1) [of k key msk] by (subst radix_extend.simps) auto
next
  case (Suc n)
  let ?P = "prefix_path key msk" and ?e = "\<lparr>nd_right = None, nd_left = None, nd_parent = Some a, nd_value = NGX_RADIX_NO_VALUE\<rparr>"
    and ?s = "if prefix_path key msk ! k then l else r"
  have k: "k < length ?P" "n = length ?P - Suc k" using Suc.hyps(2) by linarith+
  have b: "drop_bit k top_bit AND msk \<noteq> 0" "(key AND drop_bit k top_bit \<noteq> 0) = ?P ! k"
    using prefix_path_next [OF Suc.prems(3)] k by simp_all
  have d: "drop k ?P = ?P ! k # drop (Suc k) ?P" using k by (simp add: Cons_nth_drop_Suc)
  obtain q t1 fl1 where t1: "ngx_radix_alloc t = Some (q, t1)" "radix_rep t1 (plug c (Nd a l v r)) fl1" "q = None \<Longrightarrow> \<not> memory_ok t"
    "memory_ok t \<Longrightarrow> memory_ok t1" "\<And>p. q = Some p \<Longrightarrow> p \<notin> nodes (plug c (Nd a l v r)) \<union> set fl1 \<and> p < bump t1"
    using alloc_ok [OF Suc.prems(1)] by metis
  show ?case
  proof (cases q)
    case None
    then show ?thesis using t1 b Suc.prems(2) by (subst radix_extend.simps) (auto simp: extended_def)
  next
    case (Some p)
    obtain n1 where n1: "rx_nodes (write_node p ?e t1) a = Some n1"
      "radix_rep (write_node a (set_child (?P ! k) (Some p) n1) (write_node p ?e t1))
        (plug ((?P ! k, a, ?s, v) # c) (Nd p Tip NGX_RADIX_NO_VALUE Tip)) fl1"
      "look (plug ((?P ! k, a, ?s, v) # c) (Nd p Tip NGX_RADIX_NO_VALUE Tip)) = look (plug c (Nd a l v r))"
      "memory_ok (write_node a (set_child (?P ! k) (Some p) n1) (write_node p ?e t1)) = memory_ok t1"
      using link_rep [OF t1(2) Suc.prems(4) [OF k(1)], of p] t1(5) [OF Some] by blast
    let ?t2 = "write_node a (set_child (?P ! k) (Some p) n1) (write_node p ?e t1)"
    have step: "radix_extend key msk (drop_bit k top_bit) a t = radix_extend key msk (drop_bit (Suc k) top_bit) p ?t2"
      using b t1(1) Some n1(1) by (subst radix_extend.simps) (simp add: Let_def drop_bit_next)
    have "length ((?P ! k, a, ?s, v) # c) + height (Nd p Tip NGX_RADIX_NO_VALUE Tip) \<le> 33"
      using k(1) length_prefix_path [of key msk] Suc.prems(5) by simp
    then have h: "height (plug ((?P ! k, a, ?s, v) # c) (Nd p Tip NGX_RADIX_NO_VALUE Tip)) \<le> 33"
      using height_plug [of c "Nd a l v r" 33] Suc.prems(2) height_place [of c "Nd a l v r"] by (simp add: height_fill)
    have "\<exists>res t'. radix_extend key msk (drop_bit (Suc k) top_bit) p ?t2 = Some (res, t') \<and>
        extended (memory_ok ?t2) res t' (look (plug ((?P ! k, a, ?s, v) # c) (Nd p Tip NGX_RADIX_NO_VALUE Tip)))
          (way ((?P ! k, a, ?s, v) # c) @ drop (Suc k) ?P)"
      by (rule Suc.hyps(1) [OF k(2) n1(2) h]) (use k Suc.prems(5) in auto)
    then show ?thesis
      using extended_mono [of _ _ _ _ _ "memory_ok t"] t1(4) unfolding step d n1(3,4) way_Cons by (metis append.assoc append_Cons append_Nil)
  qed
qed

text \<open>The root has a child.\<close>

definition branched :: "radix_tree \<Rightarrow> bool" where
  "branched t \<longleftrightarrow> (\<exists>n. rx_nodes t (rx_root t) = Some n \<and> has_child n)"

lemma branched_plug:
  assumes "radix_rep t (plug c (Nd a l v r)) fl"
  shows "branched t \<longleftrightarrow> c \<noteq> [] \<or> l \<noteq> Tip \<or> r \<noteq> Tip"
proof -
  have root: "root_of s = None \<longleftrightarrow> s = Tip" for s by (cases s) auto
  have b: "branched t \<longleftrightarrow> (\<exists>a l v r. plug c (Nd a' l' v' r') = Nd a l v r \<and> (l \<noteq> Tip \<or> r \<noteq> Tip))"
    if "radix_rep t (plug c (Nd a' l' v' r')) fl" for c a' l' v' r'
    using that root by (cases "plug c (Nd a' l' v' r')") (auto simp: radix_rep_def branched_def has_child_def)
  have "\<exists>a l v r. plug c t = Nd a l v r \<and> (l \<noteq> Tip \<or> r \<noteq> Tip)" if "c \<noteq> []" "t \<noteq> Tip" for c t
    using that by (induction c arbitrary: t rule: around.induct) (auto simp: fill_def, (metis list.distinct(1) plug.simps(1) rtree.distinct(1))+)
  then show ?thesis using b [OF assms] by (cases "c = []") auto
qed

definition inserted :: "bool list \<Rightarrow> ngx_uint \<Rightarrow> radix_tree \<Rightarrow> ngx_rc \<Rightarrow> radix_tree \<Rightarrow> bool" where
  "inserted p v t rc t' \<longleftrightarrow>
     radix_ok t' \<and> (memory_ok t \<longrightarrow> memory_ok t' \<and> rc \<noteq> NGX_ERROR) \<and> (rc = NGX_OK \<and> (branched t \<or> p \<noteq> []) \<longrightarrow> branched t') \<and>
     (if radix_value t p \<noteq> NGX_RADIX_NO_VALUE then rc = NGX_BUSY \<and> t' = t
      else rc = NGX_OK \<and> radix_value t' = (radix_value t)(p := v) \<or> rc = NGX_ERROR \<and> radix_value t' = radix_value t)"

lemma insert_ok:
  assumes "radix_ok t"
  shows "\<exists>rc t'. ngx_radix32tree_insert t key msk v = Some (rc, t') \<and> inserted (prefix_path key msk) v t rc t'"
proof -
  let ?P = "prefix_path key msk"
  obtain tr fl where tr: "radix_rep t tr fl" "height tr \<le> 33" using assms by (auto simp: radix_ok_def)
  have val: "radix_value t = look tr" using radix_value_look [OF tr(1)] .
  obtain c s rest where d: "descend [] tr (drop 0 ?P) = (c, s, rest)" by (cases "descend [] tr (drop 0 ?P)")
  have r: "repr (rx_nodes t) None tr" "root_of tr = Some (rx_root t)" using tr(1) by (simp_all add: radix_rep_def)
  note dp = descend_plug [OF d]
  have dp': "plug c s = tr" "way c @ rest = ?P" "length c + length rest = length ?P"
    using dp by (simp_all add: way_def) (metis length_append length_map length_rev)
  obtain a where a: "root_of s = Some a" "radix_walk (rx_nodes t) key msk top_bit (rx_root t) =
      Some (drop_bit (length ?P - length rest) top_bit, a, if rest = [] then Some a else None)"
    using walk_descend [OF _ r d] by auto
  obtain l v0 r where s: "s = Nd a l v0 r" using a(1) by (cases s) auto
  have rep: "radix_rep t (plug c (Nd a l v0 r)) fl" using tr(1) dp'(1) s by simp
  show ?thesis
  proof (cases rest)
    case Nil
    then have w: "way c = ?P" "look tr ?P = v0" using dp'(1,2) look_plug [of c s "[]"] s by auto
    obtain t' where t': "set_value a v t = Some t'" "radix_rep t' (plug c (Nd a l v r)) fl" "memory_ok t' = memory_ok t"
      using set_value_rep(1) [OF rep] by blast
    have "height (plug c (Nd a l v r)) \<le> 33" using height_plug [of c s 33 "Nd a l v r"] height_place [of c s] tr(2) dp'(1) s by simp
    moreover have "rx_nodes t a = Some \<lparr>nd_right = root_of r, nd_left = root_of l, nd_parent = up c, nd_value = v0\<rparr>"
      using rep by (simp add: radix_rep_def repr_plug)
    moreover have "radix_value t' = (radix_value t)(?P := v)"
      using radix_value_look [OF t'(2)] set_value_rep(2) [OF rep, of v] dp'(1) s val w(1) by simp
    moreover have "branched t \<or> ?P \<noteq> [] \<Longrightarrow> branched t'"
      using branched_plug [OF rep] branched_plug [OF t'(2)] w(1) by (auto simp: way_def)
    ultimately show ?thesis
      using a(2) Nil t' w assms val by (auto simp: ngx_radix32tree_insert_def inserted_def radix_ok_def)
  next
    case (Cons b ds)
    have k: "length c < length ?P" "length ?P - length rest = length c" "?P ! length c = b"
      using dp'(2,3) Cons nth_append_length [of "way c" b ds] by (auto simp: way_def)
    have tip: "(if b then r else l) = Tip" using descend_stop d Cons s by simp
    obtain res t1 where e: "radix_extend key msk (drop_bit (length c) top_bit) a t = Some (res, t1)"
      "extended (memory_ok t) res t1 (look (plug c (Nd a l v0 r))) (way c @ drop (length c) ?P)"
      using extend_rep [OF rep _ _ _ refl, of key msk] k tip tr(2) dp'(1) s by auto
    have p: "way c @ drop (length c) ?P = ?P" using dp'(2) by (metis append_eq_conv_conj length_map length_rev way_def)
    have none: "look tr ?P = NGX_RADIX_NO_VALUE"
      using look_plug [of c s rest] dp'(1,2) s Cons tip by (cases b) auto
    show ?thesis
    proof (cases res)
      case None
      then show ?thesis using a(2) Cons k e none val
        by (auto simp: ngx_radix32tree_insert_def inserted_def extended_def radix_ok_def dp'(1) s [symmetric] dest: radix_value_look)
    next
      case (Some q)
      then obtain c1 l1 v1 r1 fl1 where x: "radix_rep t1 (plug c1 (Nd q l1 v1 r1)) fl1" "height (plug c1 (Nd q l1 v1 r1)) \<le> 33"
        "look (plug c1 (Nd q l1 v1 r1)) = look tr" "way c1 = ?P" "memory_ok t \<Longrightarrow> memory_ok t1"
        using e(2) dp'(1) s p unfolding extended_def by auto
      obtain t' where t': "set_value q v t1 = Some t'" "radix_rep t' (plug c1 (Nd q l1 v r1)) fl1" "memory_ok t' = memory_ok t1"
        using set_value_rep(1) [OF x(1)] by blast
      have "height (plug c1 (Nd q l1 v r1)) \<le> 33"
        using height_plug [OF x(2), of "Nd q l1 v r1"] height_place [of c1 "Nd q l1 v1 r1"] x(2) by simp
      moreover have "radix_value t' = (radix_value t)(?P := v)"
        using radix_value_look [OF t'(2)] set_value_rep(2) [OF x(1), of v] x(3,4) val by simp
      moreover have "branched t'" using branched_plug [OF t'(2)] x(4) k(1) by (auto simp: way_def)
      ultimately show ?thesis using a(2) Cons k e(1) Some t' x none val
        by (auto simp: ngx_radix32tree_insert_def inserted_def radix_ok_def)
    qed
  qed
qed

section \<open>Deletion is correct\<close>

lemma seek_walk: "radix_seek h key msk b (Some node) = map_option (\<lambda>(b, a, nxt). nxt) (radix_walk h key msk b node)"
proof (induction h key msk b node rule: radix_walk.induct)
  case (1 h key msk b node)
  show ?case
  proof (cases "b AND msk = 0")
    case False
    then show ?thesis using 1
      by (subst radix_seek.simps, subst radix_walk.simps) (auto simp: radix_seek.simps [of _ _ _ _ None] split: option.splits)
  qed (simp add: radix_seek.simps radix_walk.simps)
qed

lemma unlink_rep:
  assumes "radix_rep t (plug ((b, u, s, w) # c) (Nd a Tip v Tip)) fl"
  shows "\<exists>t'. radix_unlink a t = Some (u, t') \<and> radix_rep t' (plug c (fill (b, u, s, w) Tip)) (a # fl) \<and> memory_ok t' = memory_ok t"
proof -
  let ?leaf = "Nd a Tip v Tip" and ?f = "fill (b, u, s, w)"
  have r: "repr (rx_nodes t) (up c) (?f ?leaf)" "nodes (?f ?leaf) \<inter> (around c \<union> set fl) = {}" "arena t (nodes (?f ?leaf))"
    and rep: "radix_rep t (plug c (?f ?leaf)) fl"
    using assms by (auto simp: radix_rep_def repr_plug nodes_plug intro: arena_mono)
  let ?n = "\<lparr>nd_right = None, nd_left = None, nd_parent = Some u, nd_value = v\<rparr>"
    and ?u = "\<lparr>nd_right = (if b then Some a else root_of s), nd_left = (if b then root_of s else Some a), nd_parent = up c, nd_value = w\<rparr>"
  have a: "a \<noteq> u" "a \<notin> nodes s" "u \<notin> nodes s" "rx_nodes t a = Some ?n" "rx_nodes t u = Some ?u" "repr (rx_nodes t) (Some u) s"
    using r(1) by (auto simp: fill_def split: if_splits)
  have "root_of s \<noteq> Some a" using a(2) by (cases s) auto
  then have right: "(nd_right ?u = Some a) = b" by simp
  let ?h = "(rx_nodes t)(u \<mapsto> set_child b None ?u)"
  have "repr ?h (Some u) s" by (rule repr_cong [OF _ a(6)]) (use a(3) in auto)
  then have f: "repr ?h (up c) (?f Tip)" using a(1-3) by (auto simp: fill_def set_child_def)
  have one: "radix_rep (t\<lparr>rx_nodes := ?h\<rparr>) (plug c (?f Tip)) fl"
    by (rule rep_update [OF rep _ f]) (use r in \<open>auto simp: arena_def\<close>)
  have "a \<notin> nodes (plug c (?f Tip)) \<union> set fl" "a < bump (t\<lparr>rx_nodes := ?h\<rparr>)"
    using r(2,3) a(1,2) by (auto simp: nodes_plug arena_def)
  from rep_free [OF one this, of ?n] a(1,4,5) right show ?thesis
    by (simp add: radix_unlink_def write_node_def Let_def)
qed

lemma free_up_rep:
  assumes "radix_rep t (plug c (Nd a Tip v Tip)) fl" and "c \<noteq> []" and "height (plug c (Nd a Tip v Tip)) \<le> 33"
  shows "\<exists>t' tr fl'. radix_free_up a t = Some t' \<and> radix_rep t' tr fl' \<and> height tr \<le> 33 \<and> look tr = look (plug c Tip) \<and>
    memory_ok t' = memory_ok t"
  using assms
proof (induction c arbitrary: a v t fl rule: around.induct)
  case (2 b u s w c)
  obtain t1 where t1: "radix_unlink a t = Some (u, t1)" "radix_rep t1 (plug c (fill (b, u, s, w) Tip)) (a # fl)" "memory_ok t1 = memory_ok t"
    using unlink_rep [OF 2(2)] by blast
  have h: "height (plug c (fill (b, u, s, w) Tip)) \<le> 33"
    using height_plug [of c "fill (b, u, s, w) (Nd a Tip v Tip)" 33 "fill (b, u, s, w) Tip"] 2(4)
      height_place [of c "fill (b, u, s, w) (Nd a Tip v Tip)"] by (simp add: height_fill)
  have root: "root_of s = None \<longleftrightarrow> s = Tip" by (cases s) auto
  have n: "rx_nodes t1 u = Some \<lparr>nd_right = (if b then None else root_of s), nd_left = (if b then root_of s else None), nd_parent = up c, nd_value = w\<rparr>"
    using t1(2) by (auto simp: radix_rep_def repr_plug fill_def split: if_splits)
  show ?case
  proof (cases "s = Tip \<and> w = NGX_RADIX_NO_VALUE \<and> c \<noteq> []")
    case True
    then have leaf: "fill (b, u, s, w) Tip = Nd u Tip w Tip" by (simp add: fill_def)
    have go: "radix_free_up a t = radix_free_up u t1"
      using t1(1) n True by (subst radix_free_up.simps) (cases c; auto simp: has_child_def up_def)
    have "look (plug c (Nd u Tip w Tip)) q = look (plug c Tip) q" for q by (rule look_plug_other) (use True in simp)
    then have "look (plug ((b, u, s, w) # c) Tip) = look (plug c Tip)" using leaf by auto
    with 2(1) [OF t1(2) [unfolded leaf]] True h t1(3) leaf go show ?thesis by auto
  next
    case False
    then have "has_child (the (rx_nodes t1 u)) \<or> nd_value (the (rx_nodes t1 u)) \<noteq> NGX_RADIX_NO_VALUE \<or> nd_parent (the (rx_nodes t1 u)) = None"
      using n root by (auto simp: has_child_def up_def)
    then have "radix_free_up a t = Some t1" using t1(1) n by (subst radix_free_up.simps) simp
    then show ?thesis using t1 h by auto
  qed
qed simp

definition deleted :: "bool list \<Rightarrow> radix_tree \<Rightarrow> ngx_rc \<Rightarrow> radix_tree \<Rightarrow> bool" where
  "deleted p t rc t' \<longleftrightarrow>
     radix_ok t' \<and> memory_ok t' = memory_ok t \<and> (p = [] \<and> branched t \<longrightarrow> branched t') \<and>
     (rc = NGX_OK \<and> radix_value t' = (radix_value t)(p := NGX_RADIX_NO_VALUE) \<or>
      rc = NGX_ERROR \<and> t' = t \<and> radix_value t p = NGX_RADIX_NO_VALUE)"

lemma look_remove: "look (plug c Tip) = (look (plug c (Nd a Tip v Tip)))(way c := NGX_RADIX_NO_VALUE)"
proof
  fix q
  show "look (plug c Tip) q = ((look (plug c (Nd a Tip v Tip)))(way c := NGX_RADIX_NO_VALUE)) q"
  proof (cases "q = way c")
    case True
    then show ?thesis using look_plug [of c Tip "[]"] by simp
  next
    case False
    have "look (plug c Tip) q = look (plug c (Nd a Tip v Tip)) q"
      by (rule look_plug_other) (use False in \<open>case_tac p; auto\<close>)
    with False show ?thesis by simp
  qed
qed

lemma delete_ok:
  assumes "radix_ok t" and "prefix_path key msk \<noteq> [] \<or> branched t"
  shows "\<exists>rc t'. ngx_radix32tree_delete t key msk = Some (rc, t') \<and> deleted (prefix_path key msk) t rc t'"
proof -
  let ?P = "prefix_path key msk"
  obtain tr fl where tr: "radix_rep t tr fl" "height tr \<le> 33" using assms(1) by (auto simp: radix_ok_def)
  have val: "radix_value t = look tr" using radix_value_look [OF tr(1)] .
  obtain c s rest where d: "descend [] tr (drop 0 ?P) = (c, s, rest)" by (cases "descend [] tr (drop 0 ?P)")
  have r: "repr (rx_nodes t) None tr" "root_of tr = Some (rx_root t)" using tr(1) by (simp_all add: radix_rep_def)
  have dp: "plug c s = tr" "way c @ rest = ?P" using descend_plug [OF d] by (simp_all add: way_def)
  obtain a where a: "root_of s = Some a" "radix_seek (rx_nodes t) key msk top_bit (Some (rx_root t)) = Some (if rest = [] then Some a else None)"
    using walk_descend [OF _ r d] by (auto simp: seek_walk)
  obtain l v r where s: "s = Nd a l v r" using a(1) by (cases s) auto
  have rep: "radix_rep t (plug c (Nd a l v r)) fl" using tr(1) dp(1) s by simp
  have n: "rx_nodes t a = Some \<lparr>nd_right = root_of r, nd_left = root_of l, nd_parent = up c, nd_value = v\<rparr>"
    using rep by (simp add: radix_rep_def repr_plug)
  have root: "root_of x = None \<longleftrightarrow> x = Tip" for x by (cases x) auto
  consider (absent) "rest \<noteq> []" | (inner) "rest = []" "l \<noteq> Tip \<or> r \<noteq> Tip" | (leaf) "rest = []" "l = Tip" "r = Tip" by blast
  then show ?thesis
  proof cases
    case absent
    then obtain b ds where bd: "rest = b # ds" by (cases rest) auto
    have "look tr ?P = NGX_RADIX_NO_VALUE"
      using descend_stop [of "[]" tr "drop 0 ?P" c a l v r b ds] d s bd look_plug [of c s rest] dp by auto
    then show ?thesis using absent a(2) assms(1) val by (auto simp: ngx_radix32tree_delete_def deleted_def)
  next
    case inner
    have w: "way c = ?P" "look tr ?P = v" using dp look_plug [of c s "[]"] s inner(1) by auto
    obtain t' where t': "set_value a NGX_RADIX_NO_VALUE t = Some t'" "radix_rep t' (plug c (Nd a l NGX_RADIX_NO_VALUE r)) fl" "memory_ok t' = memory_ok t"
      using set_value_rep(1) [OF rep] by blast
    have "height (plug c (Nd a l NGX_RADIX_NO_VALUE r)) \<le> 33"
      using height_plug [of c s 33 "Nd a l NGX_RADIX_NO_VALUE r"] height_place [of c s] tr(2) dp(1) s by simp
    moreover have "radix_value t' = (radix_value t)(?P := NGX_RADIX_NO_VALUE)"
      using radix_value_look [OF t'(2)] set_value_rep(2) [OF rep, of NGX_RADIX_NO_VALUE] dp(1) s val w(1) by simp
    moreover have "branched t'" using inner(2) branched_plug [OF t'(2)] by simp
    ultimately show ?thesis using inner a(2) n root t' w val assms(1)
      by (auto simp: ngx_radix32tree_delete_def deleted_def has_child_def radix_ok_def)
  next
    case leaf
    have w: "way c = ?P" using dp leaf(1) by simp
    have rl: "radix_rep t (plug c (Nd a Tip v Tip)) fl" using rep leaf by simp
    then have "c \<noteq> []" using assms(2) branched_plug [OF rl] w by (auto simp: way_def)
    then have "?P \<noteq> []" using w by (auto simp: way_def)
    from \<open>c \<noteq> []\<close> obtain t' tr' fl' where t': "radix_free_up a t = Some t'" "radix_rep t' tr' fl'" "height tr' \<le> 33" "look tr' = look (plug c Tip)"
      "memory_ok t' = memory_ok t"
      using free_up_rep [OF rl] tr(2) dp(1) s leaf by auto
    have "radix_value t' = (radix_value t)(?P := NGX_RADIX_NO_VALUE)"
      using radix_value_look [OF t'(2)] t'(4) look_remove [of c a v] w dp(1) s leaf val by simp
    then show ?thesis using leaf a(2) n t' \<open>?P \<noteq> []\<close> by (auto simp: ngx_radix32tree_delete_def deleted_def has_child_def radix_ok_def)
  qed
qed

text \<open>Deleting the empty prefix from a tree of the root alone uses the null parent pointer of the root.\<close>

lemma delete_root_only:
  assumes "radix_ok t" and "prefix_path key msk = []" and "\<not> branched t"
  shows "ngx_radix32tree_delete t key msk = None"
proof -
  obtain tr fl where tr: "radix_rep t tr fl" using assms(1) by (auto simp: radix_ok_def)
  then obtain l v r where t: "tr = Nd (rx_root t) l v r" by (cases tr) (auto simp: radix_rep_def)
  have n: "rx_nodes t (rx_root t) = Some \<lparr>nd_right = root_of r, nd_left = root_of l, nd_parent = None, nd_value = v\<rparr>"
    using tr t by (simp add: radix_rep_def)
  have "top_bit AND msk = 0" using prefix_path_next(1) [of 0 key msk] assms(2) by simp
  then have "radix_seek (rx_nodes t) key msk top_bit (Some (rx_root t)) = Some (Some (rx_root t))" by (simp add: radix_seek.simps)
  moreover have "radix_unlink (rx_root t) t = None" using n by (simp add: radix_unlink_def)
  then have "radix_free_up (rx_root t) t = None" by (simp add: radix_free_up.simps)
  ultimately show ?thesis using n assms(3) by (simp add: ngx_radix32tree_delete_def branched_def)
qed

section \<open>Lookup is correct\<close>

text \<open>The value of the longest prefix of a list of bits that has one.\<close>

fun longest_match :: "(bool list \<Rightarrow> ngx_uint) \<Rightarrow> bool list \<Rightarrow> ngx_uint" where
  "longest_match m [] = m []"
| "longest_match m (b # ds) =
     (let w = longest_match (\<lambda>p. m (b # p)) ds in if w = NGX_RADIX_NO_VALUE then m [] else w)"

lemma longest_match_none [simp]: "longest_match (\<lambda>p. NGX_RADIX_NO_VALUE) ds = NGX_RADIX_NO_VALUE"
  by (induction ds) simp_all

lemma longest_match_value: "longest_match m ds \<noteq> NGX_RADIX_NO_VALUE \<Longrightarrow> \<exists>p. longest_match m ds = m p"
proof (induction ds arbitrary: m)
  case (Cons b ds)
  then show ?case using Cons.IH [of "\<lambda>p. m (b # p)"] by (auto simp: Let_def split: if_splits)
qed auto

lemma longest_match_prefix: "m (take k ds) \<noteq> NGX_RADIX_NO_VALUE \<Longrightarrow> longest_match m ds \<noteq> NGX_RADIX_NO_VALUE"
proof (induction ds arbitrary: m k)
  case (Cons b ds)
  then show ?case using Cons.IH [of "\<lambda>p. m (b # p)" "k - 1"] by (cases k) (auto simp: Let_def)
qed simp

lemma find_loop_rep:
  assumes "repr h par tr" and "height tr + k \<le> 33"
  shows "radix_find_loop h key (drop_bit k top_bit) (root_of tr) v =
    Some (let w = longest_match (look tr) (drop k (key_bits key)) in if w = NGX_RADIX_NO_VALUE then v else w)"
  using assms
proof (induction tr arbitrary: k par v)
  case Tip
  have "look Tip = (\<lambda>p. NGX_RADIX_NO_VALUE)" by auto
  then show ?case by (simp add: radix_find_loop.simps)
next
  case (Nd a l x r)
  let ?b = "key AND drop_bit k top_bit \<noteq> 0" and ?v = "if x \<noteq> NGX_RADIX_NO_VALUE then x else v"
  have h: "radix_find_loop h key (drop_bit k top_bit) (root_of (Nd a l x r)) v =
      radix_find_loop h key (drop_bit (Suc k) top_bit) (root_of (if ?b then r else l)) ?v"
    using Nd.prems(1) by (subst radix_find_loop.simps) (simp add: child_def drop_bit_next)
  show ?case
  proof (cases "k < 32")
    case True
    have b: "drop k (key_bits key) = ?b # drop (Suc k) (key_bits key)"
      using True and_bit_at [of key k] Cons_nth_drop_Suc [of k "key_bits key"] by (simp add: key_bits_def)
    have ih: "radix_find_loop h key (drop_bit (Suc k) top_bit) (root_of s) ?v =
        Some (let w = longest_match (look s) (drop (Suc k) (key_bits key)) in if w = NGX_RADIX_NO_VALUE then ?v else w)"
      if "s = (if ?b then r else l)" for s
      using Nd.IH(1) [of "Some a" "Suc k" ?v] Nd.IH(2) [of "Some a" "Suc k" ?v] Nd.prems that by (auto split: if_splits)
    have eta: "(\<lambda>p. look s p) = look s" for s by simp
    show ?thesis unfolding h b ih [OF refl] by (simp add: Let_def)
  next
    case False
    then have "l = Tip" "r = Tip" using Nd.prems(2) by (cases l; cases r; simp)+
    then show ?thesis using False unfolding h by (simp add: radix_find_loop.simps [of _ _ _ None] Let_def)
  qed
qed

lemma find_ok: "radix_ok t \<Longrightarrow> ngx_radix32tree_find t key = Some (longest_match (radix_value t) (key_bits key))"
  using find_loop_rep [of "rx_nodes t" None _ 0 key NGX_RADIX_NO_VALUE] radix_value_look [of t]
  by (fastforce simp: radix_ok_def radix_rep_def ngx_radix32tree_find_def Let_def)

section \<open>Creation is correct\<close>

text \<open>A tree without values.\<close>

definition blank_tree :: "radix_tree \<Rightarrow> bool" where
  "blank_tree t \<longleftrightarrow> radix_ok t \<and> radix_value t = (\<lambda>_. NGX_RADIX_NO_VALUE)"

definition created :: "bool \<Rightarrow> bool \<Rightarrow> radix_tree option \<Rightarrow> bool" where
  "created mem kids r \<longleftrightarrow> (mem \<longrightarrow> r \<noteq> None) \<and> (\<forall>t. r = Some t \<longrightarrow> blank_tree t \<and> (mem \<longrightarrow> memory_ok t) \<and> (kids \<longrightarrow> branched t))"

lemma unat_inc: "j < 32 \<Longrightarrow> unat (drop_bit j top_bit) = 2 ^ (31 - j)"
proof -
  assume "j < 32"
  moreover have "unat top_bit = 2 ^ 31" by (simp add: top_bit_def)
  ultimately have "unat (drop_bit j top_bit) = 2 ^ 31 div 2 ^ j" unfolding unat_drop_bit_eq by (simp add: drop_bit_eq_div)
  with \<open>j < 32\<close> show ?thesis using power_diff [of "2 :: nat" j 31] by simp
qed

lemma level_ok:
  assumes "blank_tree t" and "j < 32" and "unat key + Suc n * 2 ^ (31 - j) = 2 ^ 32" and "top_bit AND msk \<noteq> 0"
  shows "\<exists>r. radix_level key msk (drop_bit j top_bit) t = Some r \<and> created (memory_ok t) True r"
  using assms(1,3)
proof (induction n arbitrary: key t)
  case (0 key t)
  let ?P = "prefix_path key msk"
  have P: "?P \<noteq> []" using prefix_path_next(1) [of 0 key msk] assms(4) by auto
  obtain rc t' where i: "ngx_radix32tree_insert t key msk NGX_RADIX_NO_VALUE = Some (rc, t')" "inserted ?P NGX_RADIX_NO_VALUE t rc t'"
    using insert_ok 0(1) by (metis blank_tree_def)
  have "key + drop_bit j top_bit = 0"
    using 0(2) unat_inc [OF assms(2)] by (simp add: unat_eq_0 [symmetric] unat_word_ariths)
  then show ?case using i P 0(1)
    by (subst radix_level.simps) (auto simp: created_def blank_tree_def inserted_def fun_upd_def)
next
  case (Suc n)
  let ?P = "prefix_path key msk" and ?key = "key + drop_bit j top_bit"
  obtain rc t' where i: "ngx_radix32tree_insert t key msk NGX_RADIX_NO_VALUE = Some (rc, t')" "inserted ?P NGX_RADIX_NO_VALUE t rc t'"
    using insert_ok Suc.prems(1) by (metis blank_tree_def)
  obtain i :: nat where i2: "2 ^ (31 - j) = Suc i" using not0_implies_Suc [of "2 ^ (31 - j)"] by auto
  have "unat key + 2 ^ (31 - j) < 2 ^ 32" using Suc.prems(2) unfolding i2 by simp
  then have k: "unat ?key = unat key + 2 ^ (31 - j)"
    using unat_inc [OF assms(2)] by (simp add: unat_word_ariths)
  then have "?key \<noteq> 0" by (auto simp: unat_eq_0 [symmetric])
  then have step: "radix_level key msk (drop_bit j top_bit) t = (if rc \<noteq> NGX_OK then Some None else radix_level ?key msk (drop_bit j top_bit) t')"
    using i(1) by (subst radix_level.simps) simp
  show ?case
  proof (cases "rc = NGX_OK")
    case True
    then have t': "blank_tree t'" "memory_ok t \<Longrightarrow> memory_ok t'" using i(2) Suc.prems(1) by (auto simp: inserted_def blank_tree_def)
    have "unat ?key + Suc n * 2 ^ (31 - j) = 2 ^ 32" using Suc.prems(2) k by simp
    from Suc.IH [OF t'(1) this] True step t'(2) show ?thesis by (auto simp: created_def)
  next
    case False
    then show ?thesis using i(2) Suc.prems(1) step by (auto simp: created_def inserted_def blank_tree_def)
  qed
qed

lemma levels_ok:
  assumes "blank_tree t" and "j + k \<le> 32" and "j = 0 \<or> branched t"
  shows "\<exists>r. radix_levels k msk (drop_bit j top_bit) t = Some r \<and> created (memory_ok t) (0 < j + k) r"
  using assms
proof (induction k arbitrary: j msk t)
  case 0
  then show ?case by (auto simp: created_def)
next
  case (Suc k)
  let ?m = "drop_bit 1 msk OR top_bit"
  have top: "top_bit AND ?m \<noteq> 0" using and_bit_at [of ?m 0] by (simp add: bit_or_iff bit_top_bit and.commute)
  have "unat (0 :: u32) + Suc (2 ^ (j + 1) - 1) * 2 ^ (31 - j) = 2 ^ 32"
    using Suc.prems(2) by (simp add: power_add [symmetric])
  from level_ok [OF Suc.prems(1) _ this top] Suc.prems(2)
  obtain r where r: "radix_level 0 ?m (drop_bit j top_bit) t = Some r" "created (memory_ok t) True r" by auto
  show ?case
  proof (cases r)
    case None
    then show ?thesis using r by (auto simp: created_def Let_def)
  next
    case (Some t1)
    then have t1: "blank_tree t1" "branched t1" "memory_ok t \<Longrightarrow> memory_ok t1" using r(2) by (auto simp: created_def)
    from Suc.IH [OF t1(1), of "Suc j" ?m] Suc.prems(2) t1(2,3) show ?thesis
      using r(1) Some by (auto simp: created_def Let_def drop_bit_next)
  qed
qed

lemma create_ok:
  assumes "sizeof_node \<le> rp_pagesize pool" and "levels = (case pre of None \<Rightarrow> default_preallocate (rp_pagesize pool) | Some k \<Rightarrow> k)"
    and "levels \<le> 32"
  shows "\<exists>r. ngx_radix_tree_create ok pool pre = Some r \<and> created (ok \<and> (\<forall>k. rp_ok pool k)) (0 < levels) r"
proof (cases "ok \<and> rp_ok pool 0")
  case True
  let ?ps = "rp_pagesize pool" and ?n = "\<lparr>nd_right = None, nd_left = None, nd_parent = None, nd_value = NGX_RADIX_NO_VALUE\<rparr>"
  let ?t = "\<lparr>rx_root = 0, rx_pool = pool, rx_free = None, rx_start = Some sizeof_node, rx_size = ?ps - sizeof_node, rx_nodes = [0 \<mapsto> ?n], rx_pages = 1\<rparr>"
  have c: "ngx_radix_tree_create ok pool pre = radix_levels levels 0 (drop_bit 0 top_bit) ?t"
    using True assms(1,2) by (simp add: ngx_radix_tree_create_def ngx_radix_alloc_def write_node_def sizeof_node_def Let_def)
  have rep: "radix_rep ?t (Nd 0 Tip NGX_RADIX_NO_VALUE Tip) []"
    using assms(1) by (simp add: radix_rep_def arena_def bump_def sizeof_node_def)
  then have "blank_tree ?t" using radix_value_look [OF rep] by (auto simp: blank_tree_def radix_ok_def intro!: exI [of _ "Nd 0 Tip NGX_RADIX_NO_VALUE Tip"])
  from levels_ok [OF this, of 0 levels 0] assms(3) show ?thesis
    unfolding c by (auto simp: created_def memory_ok_def)
next
  case False
  then have "ngx_radix_tree_create ok pool pre = Some None"
    by (auto simp: ngx_radix_tree_create_def ngx_radix_alloc_def sizeof_node_def Let_def)
  with False show ?thesis by (auto simp: created_def)
qed

text \<open>With pages of 4096 bytes the quotient is 102, so eight levels are preallocated where the comment says six.\<close>

lemma default_preallocate_amd64: "default_preallocate 4096 = 8"
  by (simp add: default_preallocate_def sizeof_tree_def)

section \<open>The tree is a map of prefixes\<close>

datatype radix_op = RInsert u32 u32 ngx_uint | RDelete u32 u32 | RFind u32

datatype radix_out = RStatus ngx_rc | RValue ngx_uint

fun radix_step :: "radix_op \<Rightarrow> radix_tree \<Rightarrow> (radix_out \<times> radix_tree) option" where
  "radix_step (RInsert key msk v) t = map_option (apfst RStatus) (ngx_radix32tree_insert t key msk v)"
| "radix_step (RDelete key msk) t = map_option (apfst RStatus) (ngx_radix32tree_delete t key msk)"
| "radix_step (RFind key) t = map_option (\<lambda>v. (RValue v, t)) (ngx_radix32tree_find t key)"

text \<open>
  The map: an insertion is refused when the prefix has a value, a lookup takes the longest prefix. Deleting a prefix without a value
  may be reported as success or as failure.
\<close>

fun prefix_spec :: "radix_op \<Rightarrow> (bool list \<Rightarrow> ngx_uint) \<Rightarrow> radix_out \<Rightarrow> (bool list \<Rightarrow> ngx_uint) \<Rightarrow> bool" where
  "prefix_spec (RInsert key msk v) m out m' \<longleftrightarrow>
     (if m (prefix_path key msk) \<noteq> NGX_RADIX_NO_VALUE then out = RStatus NGX_BUSY \<and> m' = m
      else out = RStatus NGX_OK \<and> m' = m(prefix_path key msk := v))"
| "prefix_spec (RDelete key msk) m out m' \<longleftrightarrow>
     m' = m(prefix_path key msk := NGX_RADIX_NO_VALUE) \<and>
     (out = RStatus NGX_OK \<or> out = RStatus NGX_ERROR \<and> m (prefix_path key msk) = NGX_RADIX_NO_VALUE)"
| "prefix_spec (RFind key) m out m' \<longleftrightarrow> out = RValue (longest_match m (key_bits key)) \<and> m' = m"

fun deletes_prefix :: "radix_op \<Rightarrow> bool" where
  "deletes_prefix (RDelete key msk) \<longleftrightarrow> prefix_path key msk \<noteq> []"
| "deletes_prefix _ \<longleftrightarrow> True"

interpretation radix: simulation radix_step prefix_spec radix_value "\<lambda>t. radix_ok t \<and> memory_ok t" deletes_prefix
proof
  fix t op
  assume t: "radix_ok t \<and> memory_ok t" and op: "deletes_prefix op"
  show "\<exists>out t'. radix_step op t = Some (out, t') \<and> (radix_ok t' \<and> memory_ok t') \<and> prefix_spec op (radix_value t) out (radix_value t')"
  proof (cases op)
    case (RInsert key msk v)
    with insert_ok [of t key msk v] t show ?thesis by (auto simp: inserted_def split: if_splits)
  next
    case (RDelete key msk)
    with delete_ok [of t key msk] t op show ?thesis by (auto simp: deleted_def fun_upd_idem)
  next
    case (RFind key)
    with find_ok [of t key] t show ?thesis by simp
  qed
qed

text \<open>
  C3. A new radix tree (with at most 32 levels made in advance) behaves as a map from bit prefixes to values under every sequence of
  insertions, lookups and deletions of prefixes of at least one bit, while the pool has memory. The deletion of the empty prefix is
  left out: in a tree of the root alone it uses a null pointer (\<open>delete_root_only\<close>). No operation reads or writes outside the nodes or runs forever, a lookup
  gives the value of the longest prefix of its key, and the status says whether the prefix had a value.
\<close>

theorem radix_refines_prefix_map:
  assumes "sizeof_node \<le> rp_pagesize pool" and "\<And>k. rp_ok pool k"
    and "(case pre of None \<Rightarrow> default_preallocate (rp_pagesize pool) | Some k \<Rightarrow> k) \<le> 32" and "list_all deletes_prefix ops"
  shows "\<exists>t outs t'. ngx_radix_tree_create True pool pre = Some (Some t) \<and> run_steps radix_step ops t = Some (outs, t') \<and>
    run_rel prefix_spec ops (\<lambda>_. NGX_RADIX_NO_VALUE) outs (radix_value t')"
proof -
  obtain t where t: "ngx_radix_tree_create True pool pre = Some (Some t)" "blank_tree t" "memory_ok t"
    using create_ok [OF assms(1) refl assms(3), of True] assms(2) by (auto simp: created_def)
  with radix.run_simulates [of t ops] assms(4) show ?thesis by (auto simp: blank_tree_def)
qed

theorem radix_refines_prefix_map_witness:
  "\<exists>t t'. ngx_radix_tree_create True \<lparr>rp_pagesize = 4096, rp_ok = \<lambda>_. True\<rparr> None = Some (Some t) \<and>
    run_steps radix_step [RInsert 0x0a000000 0xff000000 7, RFind 0x0a010203] t = Some ([RStatus NGX_OK, RValue 7], t')"
proof -
  have "default_preallocate 4096 \<le> 32" by (simp add: default_preallocate_def)
  then obtain t outs t' where "ngx_radix_tree_create True \<lparr>rp_pagesize = 4096, rp_ok = \<lambda>_. True\<rparr> None = Some (Some t)"
    and run: "run_steps radix_step [RInsert 0x0a000000 0xff000000 7, RFind 0x0a010203] t = Some (outs, t')"
    "run_rel prefix_spec [RInsert 0x0a000000 0xff000000 7, RFind 0x0a010203] (\<lambda>_. NGX_RADIX_NO_VALUE) outs (radix_value t')"
    using radix_refines_prefix_map [of "\<lparr>rp_pagesize = 4096, rp_ok = \<lambda>_. True\<rparr>" None "[RInsert 0x0a000000 0xff000000 7, RFind 0x0a010203]"]
    by (auto simp: sizeof_node_def)
  moreover have "prefix_path 0x0a000000 0xff000000 = [False, False, False, False, True, False, True, False]" by code_simp
  moreover have "key_bits 0x0a010203 = [False, False, False, False, True, False, True, False] @ drop 8 (key_bits 0x0a010203)" by code_simp
  moreover have "longest_match ((\<lambda>_. NGX_RADIX_NO_VALUE)([False, False, False, False, True, False, True, False] := 7)) (key_bits 0x0a010203) = 7"
    by code_simp
  ultimately show ?thesis by (cases outs; cases "tl outs"; cases "tl (tl outs)") auto
qed

end
