(* ===== verification/Inet.thy ===== *)
theory Inet
  imports Ngx_Number Variables
begin

text \<open>
  Internet addresses (\<^verbatim>\<open>core/ngx_inet.c\<close>): reading and writing dotted addresses, networks in CIDR notation, and the parts and
  addresses of a URL. An \<^verbatim>\<open>in_addr_t\<close> is a word whose bytes in memory are the four numbers of the address; the
  platform is little endian. The C library functions \<^verbatim>\<open>inet_addr\<close> and \<^verbatim>\<open>gethostbyname\<close> are arguments.
\<close>

section \<open>Byte order\<close>

definition le_bytes :: "u32 \<Rightarrow> bytes" where
  "le_bytes w = map (\<lambda>i. ucast (drop_bit (8 * i) w)) [0..<4]"

fun of_le :: "bytes \<Rightarrow> u32" where
  "of_le [] = 0"
| "of_le (b # ds) = ucast b OR push_bit 8 (of_le ds)"

definition htonl :: "u32 \<Rightarrow> u32" where
  "htonl w = of_le (rev (le_bytes w))"

abbreviation ntohl :: "u32 \<Rightarrow> u32" where
  "ntohl \<equiv> htonl"

abbreviation INADDR_NONE :: u32 where
  "INADDR_NONE \<equiv> 0xffffffff"

section \<open>Dotted addresses\<close>

text \<open>The loop of \<^verbatim>\<open>ngx_inet_addr\<close>; \<open>None\<close> is the return inside it.\<close>

fun inet_addr_loop :: "bytes \<Rightarrow> u32 \<Rightarrow> ngx_uint \<Rightarrow> nat \<Rightarrow> (u32 \<times> ngx_uint \<times> nat) option" where
  "inet_addr_loop [] addr octet n = Some (addr, octet, n)"
| "inet_addr_loop (c # cs) addr octet n =
     (if 48 \<le> c \<and> c \<le> 57 then inet_addr_loop cs addr (octet * 10 + ucast (c - 48)) n
      else if c = cb (CHR ''.'') \<and> octet < 256 then inet_addr_loop cs (push_bit 8 addr + ucast octet) 0 (n + 1)
      else None)"

definition ngx_inet_addr :: "bytes \<Rightarrow> u32" where
  "ngx_inet_addr line =
     (case inet_addr_loop line 0 0 0 of
        None \<Rightarrow> INADDR_NONE
      | Some (addr, octet, n) \<Rightarrow>
          if n \<noteq> 3 then INADDR_NONE else if octet < 256 then htonl (push_bit 8 addr + ucast octet) else INADDR_NONE)"

text \<open>What \<^verbatim>\<open>ngx_sprint_uchar\<close> writes into \<open>len\<close> bytes.\<close>

definition ngx_sprint_uchar :: "byte \<Rightarrow> nat \<Rightarrow> bytes" where
  "ngx_sprint_uchar c len =
     (if len = 0 then []
      else
        let c1 = c div 100;
            t1 = (if c1 \<noteq> 0 then [c1 + 48] else [])
        in if c1 \<noteq> 0 \<and> len = length t1 then t1
           else
             let c2 = (c mod 100) div 10;
                 t2 = (if c1 \<noteq> 0 \<or> c2 \<noteq> 0 then t1 @ [c2 + 48] else t1)
             in if (c1 \<noteq> 0 \<or> c2 \<noteq> 0) \<and> len = length t2 then t2 else t2 @ [c mod 10 + 48])"

text \<open>
  The loop over the other three bytes; \<open>out\<close> is what was written. The first component is the early return, whose last
  byte was overwritten with a zero.
\<close>

fun ntop_loop :: "nat \<Rightarrow> bytes \<Rightarrow> bytes \<Rightarrow> bool \<times> bytes" where
  "ntop_loop len [] out = (False, out)"
| "ntop_loop len (c # cs) out =
     (if len = length out then (True, butlast out @ [0])
      else
        let out = out @ [cb (CHR ''.'')]
        in if len = length out then (True, butlast out @ [0])
           else ntop_loop len cs (out @ ngx_sprint_uchar c (len - length out)))"

abbreviation (input) INET_ADDRSTRLEN :: nat where
  "INET_ADDRSTRLEN \<equiv> 16"

text \<open>
  \<^verbatim>\<open>ngx_sock_ntop\<close> and \<^verbatim>\<open>ngx_inet_ntop\<close>, which has the same body: the length and the bytes written. \<open>size\<close> is the size of the buffer; a write
  behind it is undefined.
\<close>

definition ngx_inet_ntop :: "bool \<Rightarrow> u32 \<Rightarrow> nat \<Rightarrow> (nat \<times> bytes) option" where
  "ngx_inet_ntop af_inet addr bufsize =
     (if bufsize = 0 \<or> \<not> af_inet then Some (0, [])
      else
        let len = min bufsize INET_ADDRSTRLEN; p = le_bytes addr
        in case ntop_loop len (tl p) (ngx_sprint_uchar (hd p) len) of
             (True, out) \<Rightarrow> Some (length out, out)
           | (False, out) \<Rightarrow> if length out < bufsize then Some (length out, out @ [0]) else None)"

abbreviation ngx_sock_ntop :: "bool \<Rightarrow> u32 \<Rightarrow> nat \<Rightarrow> (nat \<times> bytes) option" where
  "ngx_sock_ntop \<equiv> ngx_inet_ntop"

section \<open>Networks\<close>

record inet_cidr =
  ci_addr :: u32
  ci_mask :: u32

text \<open>
  \<open>inet\<close> is \<^verbatim>\<open>inet_addr\<close> of the C library. A prefix length above 32 shifts by a negative number. The terminating zero that is written over the
  slash is taken back.
\<close>

definition ngx_ptocidr :: "(bytes \<Rightarrow> u32) \<Rightarrow> bytes \<Rightarrow> inet_cidr \<Rightarrow> (ngx_rc \<times> inet_cidr) option" where
  "ngx_ptocidr inet s cidr =
     (let i = length (takeWhile (\<lambda>c. c \<noteq> cb (CHR ''/'')) s) in
      if i = length s then Some (NGX_ERROR, cidr)
      else
        let cidr = cidr\<lparr>ci_addr := inet (take i s)\<rparr> in
        if ci_addr cidr = INADDR_NONE then Some (NGX_ERROR, cidr)
        else
          let m = ngx_atoi (drop (i + 1) s) in
          if m = NGX_ERROR_VAL then Some (NGX_ERROR, cidr)
          else if m = 0 then Some (NGX_OK, cidr\<lparr>ci_mask := 0\<rparr>)
          else if 32 < unat m then None
          else
            let cidr = cidr\<lparr>ci_mask := htonl (- (2 ^ (32 - unat m)))\<rparr> in
            if ci_addr cidr = (ci_addr cidr AND ci_mask cidr) then Some (NGX_OK, cidr)
            else Some (NGX_DONE, cidr\<lparr>ci_addr := ci_addr cidr AND ci_mask cidr\<rparr>))"

section \<open>Addresses are read back\<close>

lemma bit_of_le: "bit (of_le [a, b, c, d]) i \<longleftrightarrow>
    i < 8 \<and> bit a i \<or> 8 \<le> i \<and> i < 16 \<and> bit b (i - 8) \<or> 16 \<le> i \<and> i < 24 \<and> bit c (i - 16) \<or> 24 \<le> i \<and> i < 32 \<and> bit d (i - 24)"
proof -
  obtain j k where ik: "i = 8 * j + k" "k < 8" by (metis mod_less_divisor mult_div_mod_eq zero_less_numeral)
  then consider "j = 0" | "j = 1" | "j = 2" | "j = 3" | "4 \<le> j" by linarith
  then show ?thesis using ik by cases (auto simp: bit_simps)
qed

lemma le_bytes_eq: "le_bytes w = [ucast w, ucast (drop_bit 8 w), ucast (drop_bit 16 w), ucast (drop_bit 24 w)]"
  by (simp add: le_bytes_def upt_rec)

lemma le_bytes_of_le: "le_bytes (of_le [a, b, c, d]) = [a, b, c, d]"
  unfolding le_bytes_eq by (auto intro!: bit_word_eqI simp: bit_simps)

lemma of_le_bytes: "of_le (le_bytes w) = w"
proof (rule bit_word_eqI)
  fix i
  assume "i < LENGTH(32)"
  then have "i < 8 \<or> 8 \<le> i \<and> i < 16 \<or> 16 \<le> i \<and> i < 24 \<or> 24 \<le> i \<and> i < 32" by auto
  then show "bit (of_le (le_bytes w)) i = bit w i" unfolding le_bytes_eq bit_of_le by (auto simp: bit_simps)
qed

lemma htonl_of_le: "htonl (of_le [a, b, c, d]) = of_le [d, c, b, a]"
  by (simp add: htonl_def le_bytes_of_le del: of_le.simps)

lemma htonl_htonl [simp]: "htonl (htonl w) = w"
  using htonl_of_le of_le_bytes [of w] unfolding le_bytes_eq by metis

lemma htonl_and: "htonl (v AND w) = htonl v AND htonl w"
  unfolding htonl_def le_bytes_eq by (rule bit_word_eqI) (auto simp: bit_of_le bit_simps simp del: of_le.simps)

lemma inet_digits:
  "list_all is_dec s \<Longrightarrow> inet_addr_loop (s @ t) addr (of_nat v) n = inet_addr_loop t addr (of_nat (dec_from v s)) n"
proof (induction s arbitrary: v)
  case (Cons c s)
  then have c: "48 \<le> c" "c \<le> 57" by (simp_all add: is_dec_def)
  then have "of_nat v * 10 + ucast (c - 48) = (of_nat (v * 10 + (unat c - 48)) :: 64 word)" by (simp add: ucast_digit del: of_nat_diff)
  with Cons.IH [of "v * 10 + (unat c - 48)"] Cons.prems c show ?case by (simp del: of_nat_add of_nat_mult of_nat_diff)
qed simp

lemma inet_number: "inet_addr_loop (dec_print n @ t) addr 0 k = inet_addr_loop t addr (of_nat n) k"
  using inet_digits [of "dec_print n" t addr 0 k] dec_print_ok [of n] by simp

lemma sprint_uchar_dec: "3 \<le> len \<Longrightarrow> ngx_sprint_uchar c len = dec_print (unat c)"
proof -
  assume len: "3 \<le> len"
  let ?n = "unat c"
  have w: "x + 48 = of_nat (48 + unat x)" for x :: byte by simp
  have n: "unat (c div 100) = ?n div 100" "unat (c mod 100 div 10) = ?n mod 100 div 10" "unat (c mod 10) = ?n mod 10"
    by (simp_all add: unat_div unat_mod)
  then have z: "c div 100 = 0 \<longleftrightarrow> ?n < 100" "c mod 100 div 10 = 0 \<longleftrightarrow> ?n mod 100 < 10"
    by (simp_all add: unat_eq_0 [symmetric] div_eq_0_iff)
  have m: "?n div 10 mod 10 = ?n mod 100 div 10" "?n div 10 div 10 = ?n div 100"
    using mod_mult2_eq [of ?n 10 10] by (simp_all add: div_mult2_eq [symmetric])
  have "?n < 256" by simp
  then have "?n div 100 < 10" by linarith
  then have h: "dec_print (?n div 100) = [of_nat (48 + ?n div 100)]" by (subst dec_print.simps) simp
  then have t: "dec_print (?n div 10) = (if 100 \<le> ?n then [of_nat (48 + ?n div 100)] else []) @ [of_nat (48 + ?n mod 100 div 10)]"
    by (subst dec_print.simps) (auto simp: m)
  have d: "dec_print ?n = (if 100 \<le> ?n then [of_nat (48 + ?n div 100)] else []) @
      (if 10 \<le> ?n then [of_nat (48 + ?n mod 100 div 10)] else []) @ [of_nat (48 + ?n mod 10)]"
    by (subst dec_print.simps) (auto simp: t)
  show ?thesis using len z n unfolding d ngx_sprint_uchar_def Let_def w by (auto simp: not_less)
qed

lemma byte_digits: "length (dec_print (unat (c :: byte))) \<le> 3"
  using dec_print_length [of 3 "unat c"] by (simp add: less_trans [OF unat_byte_less])

definition dotted :: "bytes \<Rightarrow> bytes" where
  "dotted cs = concat (map (\<lambda>c. cb (CHR ''.'') # dec_print (unat c)) cs)"

lemma ntop_loop_dotted: "length out + 4 * length cs \<le> 15 \<Longrightarrow> ntop_loop 16 cs out = (False, out @ dotted cs)"
proof (induction cs arbitrary: out)
  case (Cons c cs)
  then have "ngx_sprint_uchar c (16 - length (out @ [46])) = dec_print (unat c)" by (intro sprint_uchar_dec) simp
  with Cons.IH [of "out @ 46 # dec_print (unat c)"] Cons.prems byte_digits [of c] show ?case by (simp add: dotted_def Let_def)
qed (simp add: dotted_def)

lemma byte_64: "ucast (b :: byte) < (256 :: ngx_uint)"
proof -
  have "unat (of_nat (unat b) :: ngx_uint) = unat b" using unat_byte_less [of b] by (intro unat_of_nat64) (simp add: less_trans [of _ 256] del: unat_byte_less)
  with unat_byte_less [of b] show ?thesis unfolding word_less_nat_alt ucast_of_byte by simp
qed

lemma shift_byte: "push_bit 8 w + ucast (ucast b :: ngx_uint) = (ucast (b :: byte) OR push_bit 8 w :: u32)"
proof -
  have "ucast (ucast b :: ngx_uint) = (ucast b :: u32)" by (rule bit_word_eqI) (auto simp: bit_simps)
  moreover have "push_bit 8 w AND (ucast b :: u32) = 0" by (rule bit_word_eqI) (auto simp: bit_simps)
  ultimately show ?thesis by (simp add: disjunctive_add_eq_or or.commute)
qed

lemma inet_octet:
  "inet_addr_loop (dec_print (unat b) @ 46 # t) w 0 k = inet_addr_loop t (ucast (b :: byte) OR push_bit 8 w) 0 (k + 1)"
  using byte_64 [of b] by (simp add: inet_number shift_byte)

lemma inet_last: "inet_addr_loop (dec_print (unat b)) w 0 k = Some (w, ucast (b :: byte), k)"
  using inet_number [of "unat b" "[]" w k] by simp

lemma inet_addr_ntop_any:
  assumes "16 \<le> bufsize"
  shows "\<exists>s. ngx_inet_ntop True addr bufsize = Some (length s, s @ [0]) \<and> length s \<le> 15 \<and> ngx_inet_addr s = addr"
proof -
  obtain a b c d where p: "le_bytes addr = [a, b, c, d]" by (simp add: le_bytes_eq)
  let ?s = "dec_print (unat a) @ dotted [b, c, d]"
  have "ntop_loop 16 [b, c, d] (ngx_sprint_uchar a 16) = (False, ?s)"
    using ntop_loop_dotted [of "dec_print (unat a)" "[b, c, d]"] byte_digits [of a] by (simp add: sprint_uchar_dec)
  moreover have len: "length ?s \<le> 15" using byte_digits [of a] byte_digits [of b] byte_digits [of c] byte_digits [of d] by (simp add: dotted_def)
  moreover have "inet_addr_loop ?s 0 0 0 = Some (of_le [c, b, a], ucast d, 3)" by (simp add: dotted_def inet_octet inet_last)
  then have "ngx_inet_addr ?s = htonl (push_bit 8 (of_le [c, b, a]) + ucast (ucast d :: ngx_uint))"
    by (simp add: ngx_inet_addr_def byte_64 del: of_le.simps)
  then have "ngx_inet_addr ?s = htonl (of_le [d, c, b, a])" unfolding shift_byte of_le.simps(2) .
  then have "ngx_inet_addr ?s = addr" using of_le_bytes [of addr] by (simp add: htonl_of_le p del: of_le.simps)
  ultimately show ?thesis using assms by (intro exI [of _ ?s]) (auto simp: ngx_inet_ntop_def p Let_def)
qed

text \<open>
  C40. An address that \<^verbatim>\<open>ngx_inet_ntop\<close> writes into a buffer of at least 16 bytes takes at most 15 of them and a
  terminating zero, and \<^verbatim>\<open>ngx_inet_addr\<close> reads it back.
\<close>

theorem inet_addr_ntop:
  assumes "16 \<le> bufsize"
  shows "\<exists>s. ngx_inet_ntop True addr bufsize = Some (length s, s @ [0]) \<and> length s \<le> 15 \<and> ngx_inet_addr s = addr"
  using assms by (rule inet_addr_ntop_any)

theorem inet_addr_ntop_witness:
  "\<exists>s. ngx_inet_ntop True 0x0100007f 16 = Some (length s, s @ [0]) \<and> ngx_inet_addr s = 0x0100007f"
  using inet_addr_ntop [of 16 "0x0100007f"] by auto

text \<open>With a buffer that the text fills exactly, the terminating zero is written behind it.\<close>

lemma inet_ntop_overrun: "ngx_inet_ntop True 0x01010101 7 = None"
  by (simp add: ngx_inet_ntop_def le_bytes_eq ngx_sprint_uchar_def Let_def)

text \<open>Missing numbers count as zero, and a number that wraps around is accepted.\<close>

lemma inet_addr_lenient: "ngx_inet_addr (bs ''...'') = 0" "ngx_inet_addr (bs ''18446744073709551617.0.0.0'') = 1"
  by (simp_all add: ngx_inet_addr_def htonl_def le_bytes_eq)

end
