(* ===== verification/Url.thy ===== *)
theory Url
  imports Inet
begin

text \<open>
  The parser of the URLs in the configuration (\<^verbatim>\<open>ngx_parse_url\<close> and \<^verbatim>\<open>ngx_inet_resolve_host\<close> of \<^verbatim>\<open>core/ngx_inet.c\<close>): it splits a
  text into host, port and URI and finds the addresses of the host. The words of the configuration end with a zero
  byte behind their length.
\<close>

datatype sockaddr = SockUn bytes | SockIn "16 word" u32

record peer_addr =
  pa_sockaddr :: sockaddr
  pa_name :: bytes

record url =
  u_url :: bytes
  u_host :: bytes
  u_port_text :: bytes
  u_uri :: bytes
  u_port :: "16 word"
  u_default_port :: "16 word"
  u_listen :: bool
  u_uri_part :: bool
  u_no_resolve :: bool
  u_one_addr :: bool
  u_wildcard :: bool
  u_no_port :: bool
  u_unix_socket :: bool
  u_addr :: u32
  u_addrs :: "peer_addr list"
  u_err :: "string option"

text \<open>
  \<^verbatim>\<open>inet_addr\<close> and \<^verbatim>\<open>gethostbyname\<close> of the C library, the latter with the list of addresses, and which of the allocations of a
  call succeed.
\<close>

record url_env =
  ue_inet :: "bytes \<Rightarrow> u32"
  ue_hosts :: "bytes \<Rightarrow> u32 list option"
  ue_ok :: "nat \<Rightarrow> bool"

definition htons :: "16 word \<Rightarrow> 16 word" where
  "htons w = push_bit 8 w OR drop_bit 8 w"

definition cstr :: "bytes \<Rightarrow> bytes" where
  "cstr s = takeWhile (\<lambda>c. c \<noteq> 0) s"

definition url_fail :: "string \<Rightarrow> url \<Rightarrow> (ngx_rc \<times> url) option" where
  "url_fail msg u = Some (NGX_ERROR, u\<lparr>u_err := Some msg\<rparr>)"

section \<open>Addresses of a host\<close>

abbreviation port_text :: "16 word \<Rightarrow> bytes" where
  "port_text port \<equiv> bs '':'' @ dec_print (unat port)"

text \<open>
  The loop over the addresses; \<open>n\<close> is the number of elements of the array. The array is kept in the URL from its allocation on; a null
  element is one that was not reached.
\<close>

fun resolve_loop :: "url_env \<Rightarrow> nat \<Rightarrow> nat \<Rightarrow> u32 list \<Rightarrow> url \<Rightarrow> (ngx_rc \<times> url) option" where
  "resolve_loop ev n i [] u = Some (NGX_OK, u)"
| "resolve_loop ev n i (a # as) u =
     (if \<not> ue_ok ev (2 + 2 * i) then Some (NGX_ERROR, u)
      else if n \<le> i then None
      else if \<not> ue_ok ev (3 + 2 * i) then Some (NGX_ERROR, u)
      else
        Option.bind (ngx_sock_ntop True a 22) (\<lambda>(len, s).
          resolve_loop ev n (i + 1) as
            (u\<lparr>u_addrs := u_addrs u @ [\<lparr>pa_sockaddr = SockIn (htons (u_port u)) a, pa_name = take len s @ port_text (u_port u)\<rparr>]\<rparr>)))"

definition ngx_inet_resolve_host :: "url_env \<Rightarrow> url \<Rightarrow> (ngx_rc \<times> url) option" where
  "ngx_inet_resolve_host ev u =
     (if \<not> ue_ok ev 0 then Some (NGX_ERROR, u)
      else
        let host = cstr (u_host u); in_addr = ue_inet ev host in
        if in_addr = INADDR_NONE then
          (case ue_hosts ev host of
             None \<Rightarrow> url_fail ''host not found'' u
           | Some [] \<Rightarrow> url_fail ''host not found'' u
           | Some (a # as) \<Rightarrow>
               let n = (if u_one_addr u then 1 else length (a # as)) in
               if \<not> ue_ok ev 1 then Some (NGX_ERROR, u)
               else resolve_loop ev n 0 (a # as) (u\<lparr>u_addrs := []\<rparr>))
        else if \<not> ue_ok ev 1 \<or> \<not> ue_ok ev 2 then Some (NGX_ERROR, u)
        else if \<not> ue_ok ev 3 then Some (NGX_ERROR, u)
        else
          Some (NGX_OK,
            u\<lparr>u_addrs := [\<lparr>pa_sockaddr = SockIn (htons (u_port u)) in_addr, pa_name = u_host u @ port_text (u_port u)\<rparr>]\<rparr>))"

section \<open>The parts of a URL\<close>

text \<open>Unix sockets; \<open>p\<close> is what follows the scheme.\<close>

definition parse_unix :: "url_env \<Rightarrow> bytes \<Rightarrow> url \<Rightarrow> (ngx_rc \<times> url) option" where
  "parse_unix ev p u =
     (let i = length (takeWhile (\<lambda>c. c \<noteq> cb (CHR '':'')) p);
          cut = (u_uri_part u \<and> i < length p);
          len = (if cut then i else length p);
          u = u\<lparr>u_uri := (if cut then drop (i + 1) p else p)\<rparr>
      in if len = 0 then url_fail ''no path in the unix domain socket'' u
         else if 108 < len + 1 then url_fail ''too long path in the unix domain socket'' u
         else if \<not> ue_ok ev 0 \<or> \<not> ue_ok ev 1 then Some (NGX_ERROR, u)
         else
           Some (NGX_OK,
             u\<lparr>u_addrs := [\<lparr>pa_sockaddr = SockUn (cstr (take len p)), pa_name = take (len + 5) (u_url u)\<rparr>], u_host := take len p,
               u_unix_socket := True\<rparr>))"

text \<open>
  The loop over the characters. It ends behind the text, at a colon when there is no URI part, or at a slash. \<open>ps\<close> is the position of \<^verbatim>\<open>port_start\<close>,
  \<open>hl\<close> the length of the host.
\<close>

datatype scan_end =
    ScanEnd nat "nat option" nat nat
  | ScanSlash nat nat nat
  | ScanNoPort nat nat
  | ScanBad nat nat

fun url_scan :: "bool \<Rightarrow> nat \<Rightarrow> bytes \<Rightarrow> nat option \<Rightarrow> nat \<Rightarrow> scan_end" where
  "url_scan uri_part i [] ps hl = ScanEnd i ps 0 hl"
| "url_scan uri_part i (c # cs) ps hl =
     (if c = cb (CHR '':'') then
        if \<not> uri_part then ScanEnd i (Some (i + 1)) (length cs) i else url_scan uri_part (i + 1) cs (Some (i + 1)) i
      else if c = cb (CHR ''/'') then
        let hl = (if hl = 0 then i else hl) in
        case ps of
          None \<Rightarrow> ScanNoPort i hl
        | Some q \<Rightarrow> if i - q = 0 then ScanBad i hl else ScanSlash i q hl
      else url_scan uri_part (i + 1) cs ps hl)"

text \<open>What follows the label \<^verbatim>\<open>no_port\<close>.\<close>

definition url_listen :: "url_env \<Rightarrow> url \<Rightarrow> (ngx_rc \<times> url) option" where
  "url_listen ev u =
     (if u_port u = 0 \<and> u_default_port u = 0 then url_fail ''no port'' u
      else
        let u = (if u_port u = 0 then u\<lparr>u_port := u_default_port u\<rparr> else u);
            u = (if u_host u = bs ''*'' then u\<lparr>u_host := []\<rparr> else u)
        in if u_host u = [] then Some (NGX_OK, u\<lparr>u_addr := 0\<rparr>)
           else if \<not> ue_ok ev 0 then Some (NGX_ERROR, u)
           else
             let u = u\<lparr>u_addr := ue_inet ev (cstr (u_host u))\<rparr> in
             if u_addr u = INADDR_NONE then
               (case ue_hosts ev (cstr (u_host u)) of
                  Some (a # as) \<Rightarrow> Some (NGX_OK, u\<lparr>u_addr := a\<rparr>)
                | _ \<Rightarrow> url_fail ''host not found'' u)
             else Some (NGX_OK, u))"

definition url_no_port :: "url_env \<Rightarrow> url \<Rightarrow> (ngx_rc \<times> url) option" where
  "url_no_port ev u =
     (if u_listen u then url_listen ev u
      else if u_host u = [] then url_fail ''no host'' u
      else if u_no_resolve u then Some (NGX_OK, u)
      else
        let u = (if u_no_port u then u\<lparr>u_port := u_default_port u\<rparr> else u) in
        if u_port u = 0 then url_fail ''no port'' u
        else map_option (\<lambda>(rc, u). (if rc \<noteq> NGX_OK then NGX_ERROR else NGX_OK, u)) (ngx_inet_resolve_host ev u))"

text \<open>The port; with nothing behind the colon of a URL without URI part the length wraps around and the terminating zero is read.\<close>

definition url_port :: "url_env \<Rightarrow> bytes \<Rightarrow> url \<Rightarrow> (ngx_rc \<times> url) option" where
  "url_port ev ptext u =
     (let port = ngx_atoi ptext in
      if port = NGX_ERROR_VAL \<or> port <s 1 \<or> 65536 <s port then url_fail ''invalid port'' u
      else url_no_port ev (u\<lparr>u_port_text := ptext, u_port := ucast port\<rparr>))"

definition ngx_parse_url :: "url_env \<Rightarrow> url \<Rightarrow> (ngx_rc \<times> url) option" where
  "ngx_parse_url ev u =
     (let s = u_url u in
      if ngx_strncasecmp (s @ [0]) (bs ''unix:'') 5 = 0 then parse_unix ev (drop 5 s) u
      else if (hd (s @ [0]) = cb (CHR '':'') \<or> hd (s @ [0]) = cb (CHR ''/'')) \<and> \<not> u_listen u then url_fail ''invalid host'' u
      else
        case url_scan (u_uri_part u) 0 s None (length (u_host u)) of
          ScanBad i hl \<Rightarrow> url_fail ''invalid port'' (u\<lparr>u_uri := drop i s, u_host := take hl s\<rparr>)
        | ScanNoPort i hl \<Rightarrow> url_no_port ev (u\<lparr>u_uri := drop i s, u_host := take hl s, u_no_port := True\<rparr>)
        | ScanSlash i q hl \<Rightarrow> url_port ev (take (i - q) (drop q s)) (u\<lparr>u_uri := drop i s, u_host := take hl s\<rparr>)
        | ScanEnd i (Some q) pl hl \<Rightarrow>
            let u = u\<lparr>u_host := take hl s\<rparr> in
            if pl = 0 then
              if i = q then url_fail ''invalid port'' u
              else url_port ev (if i < q then [0] else take (i - q) (drop q s)) u
            else url_port ev (take pl (drop q s)) u
        | ScanEnd i None pl hl \<Rightarrow>
            let port = ngx_atoi s in
            if port = NGX_ERROR_VAL then url_no_port ev (u\<lparr>u_host := s, u_no_port := True\<rparr>)
            else url_no_port ev (u\<lparr>u_host := take hl s, u_wildcard := True, u_port := ucast port\<rparr>))"

section \<open>What is parsed\<close>

lemma scan_skip:
  "58 \<notin> set h \<Longrightarrow> 47 \<notin> set h \<Longrightarrow> url_scan part i (h @ t) ps hl = url_scan part (i + length h) t ps hl"
  by (induction h arbitrary: i) auto

lemma digits_plain: "58 \<notin> set (dec_print n)" "47 \<notin> set (dec_print n)"
  using dec_print_ok [of n] by (auto simp: list_all_iff is_dec_def)

definition uri_ok :: "bytes \<Rightarrow> bool" where
  "uri_ok uri \<longleftrightarrow> uri = [] \<or> hd uri = cb (CHR ''/'')"

lemma scan_port:
  assumes "58 \<notin> set host" and "47 \<notin> set host" and "host \<noteq> []" and "ds \<noteq> []" and "58 \<notin> set ds" and "47 \<notin> set ds" and "uri_ok uri"
  shows "url_scan True 0 (host @ 58 # ds @ uri) None 0 =
    (if uri = [] then ScanEnd (length host + 1 + length ds) (Some (length host + 1)) 0 (length host)
     else ScanSlash (length host + 1 + length ds) (length host + 1) (length host))"
  using assms scan_skip [of ds True _ "[]"] by (cases uri) (auto simp: scan_skip uri_ok_def)

lemma strncasecmp_word:
  "0 \<notin> set p \<Longrightarrow> ngx_strncasecmp (s @ [0]) p (length p) = 0 \<Longrightarrow> map ngx_tolower (take (length p) s) = map ngx_tolower p"
proof (induction p arbitrary: s)
  case (Cons y p)
  show ?case
  proof (cases s)
    case Nil
    with Cons.prems tolower_0 [of y] tolower_0 [of 0] uint_diff_0 [of "ngx_tolower 0" "ngx_tolower y"] show ?thesis by (simp add: Let_def)
  next
    case (Cons x s')
    with Cons.IH [of s'] Cons.prems tolower_0 [of y] uint_diff_0 [of "ngx_tolower x" "ngx_tolower y"] show ?thesis
      by (simp add: Let_def split: if_splits)
  qed
qed simp

text \<open>A host that has entries: literal addresses are taken as they are, other names are looked up.\<close>

definition host_addrs :: "url_env \<Rightarrow> bytes \<Rightarrow> u32 list" where
  "host_addrs ev host =
     (if ue_inet ev host \<noteq> INADDR_NONE then [ue_inet ev host] else case ue_hosts ev host of None \<Rightarrow> [] | Some as \<Rightarrow> as)"

lemma resolve_loop_all:
  assumes "\<And>k. ue_ok ev k" and "i + length as \<le> n"
  shows "\<exists>ps. resolve_loop ev n i as u = Some (NGX_OK, u\<lparr>u_addrs := u_addrs u @ ps\<rparr>) \<and>
    map pa_sockaddr ps = map (SockIn (htons (u_port u))) as \<and>
    list_all2 (\<lambda>a p. \<exists>s. pa_name p = s @ port_text (u_port u) \<and> ngx_inet_addr s = a) as ps"
  using assms(2)
proof (induction as arbitrary: i u)
  case (Cons a as)
  obtain s where s: "ngx_sock_ntop True a 22 = Some (length s, s @ [0])" "ngx_inet_addr s = a"
    using inet_addr_ntop_any [of 22 a] by auto
  let ?p = "\<lparr>pa_sockaddr = SockIn (htons (u_port u)) a, pa_name = s @ port_text (u_port u)\<rparr>"
  have "i + 1 + length as \<le> n" using Cons.prems by simp
  from Cons.IH [OF this, of "u\<lparr>u_addrs := u_addrs u @ [?p]\<rparr>"] obtain ps where
    ps: "resolve_loop ev n (i + 1) as (u\<lparr>u_addrs := u_addrs u @ [?p]\<rparr>) = Some (NGX_OK, u\<lparr>u_addrs := u_addrs u @ ?p # ps\<rparr>)"
    "map pa_sockaddr ps = map (SockIn (htons (u_port u))) as"
    "list_all2 (\<lambda>a p. \<exists>s. pa_name p = s @ port_text (u_port u) \<and> ngx_inet_addr s = a) as ps"
    by auto
  have "resolve_loop ev n i (a # as) u = Some (NGX_OK, u\<lparr>u_addrs := u_addrs u @ ?p # ps\<rparr>)"
    using ps(1) s assms(1) Cons.prems by simp
  with ps(2,3) s(2) show ?case by (intro exI [of _ "?p # ps"]) auto
qed simp

lemma resolve_host_all:
  assumes "\<And>k. ue_ok ev k" and "\<not> u_one_addr u" and "host_addrs ev (cstr (u_host u)) \<noteq> []"
  shows "\<exists>ps. ngx_inet_resolve_host ev u = Some (NGX_OK, u\<lparr>u_addrs := ps\<rparr>) \<and>
    map pa_sockaddr ps = map (SockIn (htons (u_port u))) (host_addrs ev (cstr (u_host u)))"
proof (cases "ue_inet ev (cstr (u_host u)) = INADDR_NONE")
  case True
  then obtain a as where as: "ue_hosts ev (cstr (u_host u)) = Some (a # as)" "host_addrs ev (cstr (u_host u)) = a # as"
    using assms(3) by (auto simp: host_addrs_def neq_Nil_conv split: option.splits)
  then show ?thesis using True assms(1,2) resolve_loop_all [OF assms(1), of 0 "a # as" "length (a # as)" "u\<lparr>u_addrs := []\<rparr>"]
    by (auto simp: ngx_inet_resolve_host_def Let_def)
next
  case False
  then show ?thesis using assms(1)
    by (intro exI [of _ "[\<lparr>pa_sockaddr = SockIn (htons (u_port u)) (ue_inet ev (cstr (u_host u))), pa_name = u_host u @ port_text (u_port u)\<rparr>]"])
      (simp add: ngx_inet_resolve_host_def host_addrs_def Let_def)
qed

lemma port_number:
  assumes "port \<noteq> (0 :: 16 word)"
  shows "url_port ev (dec_print (unat port)) u = url_no_port ev (u\<lparr>u_port_text := dec_print (unat port), u_port := port\<rparr>)"
proof -
  have b: "0 < unat port" "unat port < 65536" using assms unsigned_less [of port] by (simp_all add: unat_gt_0)
  then have n: "unat port < 2 ^ 63" by simp
  define w :: ngx_int where "w = of_nat (unat port)"
  have a: "ngx_atoi (dec_print (unat port)) = w" using atoi_dec_print [OF n] unfolding w_def .
  have "unat w = unat port" unfolding w_def by (rule unat_of_nat64) (use n in simp)
  then have s: "sint w = int (unat port)" using sint_small [of w] n by simp
  then have "\<not> sint w < 1" "\<not> 65536 < sint w" using b by linarith+
  moreover have "w \<noteq> NGX_ERROR_VAL"
  proof
    assume "w = NGX_ERROR_VAL"
    then have "sint w = - 1" by (simp add: NGX_ERROR_VAL_def)
    with s show False by linarith
  qed
  moreover have "ucast w = port" unfolding w_def by (rule bit_word_eqI) (auto simp: bit_simps)
  ultimately show ?thesis unfolding url_port_def a Let_def word_sless_alt by simp
qed

text \<open>
  C24. A URL of a host, a port and a URI is split into these parts, and every address of the host, literal or looked up, gets an entry with the port
  in network order, when the memory suffices.
\<close>

theorem parse_url_parts:
  assumes "u_url u = host @ cb (CHR '':'') # dec_print (unat port) @ uri" and "port \<noteq> 0" and "uri_ok uri"
    and "host \<noteq> []" and "cb (CHR '':'') \<notin> set host" and "cb (CHR ''/'') \<notin> set host"
    and "map ngx_tolower (take 5 (u_url u)) \<noteq> bs ''unix:''"
    and "u_host u = []" and "u_uri u = []" and "u_uri_part u" and "\<not> u_listen u" and "\<not> u_no_resolve u" and "\<not> u_one_addr u" and "\<not> u_no_port u"
    and "\<And>k. ue_ok ev k" and "host_addrs ev (cstr host) \<noteq> []"
  shows "\<exists>ps. ngx_parse_url ev u =
      Some (NGX_OK, u\<lparr>u_uri := uri, u_host := host, u_port_text := dec_print (unat port), u_port := port, u_addrs := ps\<rparr>) \<and>
    map pa_sockaddr ps = map (SockIn (htons port)) (host_addrs ev (cstr host))"
proof -
  let ?ds = "dec_print (unat port)" and ?u = "u\<lparr>u_uri := uri, u_host := host\<rparr>"
  let ?v = "?u\<lparr>u_port_text := ?ds, u_port := port\<rparr>"
  have low: "map ngx_tolower (bs ''unix:'') = bs ''unix:''" by code_simp
  have unix: "ngx_strncasecmp (u_url u @ [0]) (bs ''unix:'') 5 \<noteq> 0"
  proof
    assume "ngx_strncasecmp (u_url u @ [0]) (bs ''unix:'') 5 = 0"
    moreover have five: "length (bs ''unix:'') = 5" "0 \<notin> set (bs ''unix:'')" by simp_all
    ultimately have "map ngx_tolower (take 5 (u_url u)) = map ngx_tolower (bs ''unix:'')"
      using strncasecmp_word [OF five(2)] by (simp only: five(1))
    with assms(7) low show False by simp
  qed
  have head: "hd (u_url u @ [0]) \<in> set host" using assms(1,4) by (cases host) auto
  have scan: "url_scan True 0 (u_url u) None 0 =
      (if uri = [] then ScanEnd (length host + 1 + length ?ds) (Some (length host + 1)) 0 (length host)
       else ScanSlash (length host + 1 + length ?ds) (length host + 1) (length host))"
    using scan_port [of host ?ds uri] assms(3-6) digits_plain [of "unat port"] dec_print_ok [of "unat port"] unfolding assms(1) by simp
  have uri: "u\<lparr>u_uri := [], u_host := host\<rparr> = u\<lparr>u_host := host\<rparr>" using assms(9) by (cases u) simp
  have "ngx_parse_url ev u = url_port ev ?ds ?u"
    using unix head scan assms(5,6,8-11) dec_print_ok [of "unat port"] by (cases "uri = []") (auto simp: ngx_parse_url_def assms(1) Let_def uri)
  also have "\<dots> = url_no_port ev ?v" using port_number [OF assms(2)] .
  also have "\<dots> = map_option (\<lambda>(rc, u). (if rc \<noteq> NGX_OK then NGX_ERROR else NGX_OK, u)) (ngx_inet_resolve_host ev ?v)"
    using assms(2,4,11,12,14) by (simp add: url_no_port_def Let_def)
  finally have *: "ngx_parse_url ev u = \<dots>" .
  obtain ps where "ngx_inet_resolve_host ev ?v = Some (NGX_OK, ?v\<lparr>u_addrs := ps\<rparr>)"
    "map pa_sockaddr ps = map (SockIn (htons port)) (host_addrs ev (cstr host))"
    using resolve_host_all [OF assms(15), of ?v] assms(13,16) by auto
  then show ?thesis unfolding * by (intro exI [of _ ps]) simp
qed

text \<open>A name with two addresses.\<close>

definition demo_url :: "bytes \<Rightarrow> url" where
  "demo_url s =
     \<lparr>u_url = s, u_host = [], u_port_text = [], u_uri = [], u_port = 0, u_default_port = 80, u_listen = False, u_uri_part = True, u_no_resolve = False,
      u_one_addr = False, u_wildcard = False, u_no_port = False, u_unix_socket = False, u_addr = 0, u_addrs = [], u_err = None\<rparr>"

definition demo_url_env :: url_env where
  "demo_url_env = \<lparr>ue_inet = \<lambda>_. INADDR_NONE, ue_hosts = \<lambda>_. Some [0x0100000a, 0x0200000a], ue_ok = \<lambda>_. True\<rparr>"

theorem parse_url_parts_witness:
  "\<exists>u'. ngx_parse_url demo_url_env (demo_url (bs ''back:8080/x'')) = Some (NGX_OK, u') \<and> u_host u' = bs ''back'' \<and> u_port u' = 8080 \<and>
    u_uri u' = bs ''/x'' \<and> map pa_sockaddr (u_addrs u') = [SockIn (htons 8080) 0x0100000a, SockIn (htons 8080) 0x0200000a]"
proof -
  have d: "dec_print 8080 = bs ''8080''" by (simp add: dec_print.simps)
  have "map ngx_tolower (take 5 (bs ''back:8080/x'')) \<noteq> bs ''unix:''" by code_simp
  then obtain ps where "ngx_parse_url demo_url_env (demo_url (bs ''back:8080/x'')) = Some (NGX_OK, (demo_url (bs ''back:8080/x''))
      \<lparr>u_uri := bs ''/x'', u_host := bs ''back'', u_port_text := dec_print (unat (8080 :: 16 word)), u_port := 8080, u_addrs := ps\<rparr>)"
    "map pa_sockaddr ps = map (SockIn (htons 8080)) (host_addrs demo_url_env (cstr (bs ''back'')))"
    using parse_url_parts [of "demo_url (bs ''back:8080/x'')" "bs ''back''" 8080 "bs ''/x''" demo_url_env]
    by (auto simp: d demo_url_def demo_url_env_def uri_ok_def host_addrs_def)
  then show ?thesis by (auto simp: host_addrs_def demo_url_env_def)
qed

text \<open>With \<^verbatim>\<open>one_addr\<close> the array has one element, but the loop writes one for each address of the name.\<close>

lemma one_addr_overrun:
  assumes "ue_inet ev (cstr (u_host u)) = INADDR_NONE" and "ue_hosts ev (cstr (u_host u)) = Some (a # b # as)" and "\<And>k. ue_ok ev k" and "u_one_addr u"
  shows "ngx_inet_resolve_host ev u = None"
proof -
  obtain s where "ngx_sock_ntop True a 22 = Some (length s, s @ [0])" using inet_addr_ntop_any [of 22 a] by auto
  with assms show ?thesis by (simp add: ngx_inet_resolve_host_def Let_def)
qed

text \<open>Port 65536 is accepted and becomes 0.\<close>

lemma port_65536: "url_port ev (bs ''65536'') u = url_no_port ev (u\<lparr>u_port_text := bs ''65536'', u_port := 0\<rparr>)"
proof -
  have "(65536 :: 16 word) = 0" by code_simp
  moreover have "ngx_atoi (bs ''65536'') = 65536" by (simp add: ngx_atoi_def word_sless_alt)
  ultimately show ?thesis by (simp only: url_port_def Let_def) (simp add: word_sless_alt NGX_ERROR_VAL_def \<open>(65536 :: 16 word) = 0\<close>)
qed

end
