(* ===== verification/Geo.thy ===== *)
theory Geo
  imports Radix Url
begin

text \<open>
  The geo module (\<^verbatim>\<open>http/modules/ngx_http_geo_module.c\<close>): a variable whose value depends on the address of the client. The block of the
  configuration fills a radix tree with networks; the handler looks the client up.
\<close>

section \<open>The module\<close>

text \<open>
  The tree holds pointers to values. A pointer is an index into the values that exist: 0 is \<^verbatim>\<open>ngx_http_variable_null_value\<close>, the values of
  the block follow in the order in which they were allocated.
\<close>

record geo_ctx =
  gx_tree :: radix_tree
  gx_values :: "bytes list"

text \<open>\<^verbatim>\<open>inet_addr\<close>, the lines of the files that can be included, and which values can be allocated.\<close>

record geo_env =
  ge_inet :: "bytes \<Rightarrow> u32"
  ge_file :: "bytes \<Rightarrow> bytes list list option"
  ge_ok :: "nat \<Rightarrow> bool"

definition deref :: "bytes list \<Rightarrow> ngx_uint \<Rightarrow> bytes option" where
  "deref vs p = (if p = 0 then Some [] else if unat p \<le> length vs then Some (vs ! (unat p - 1)) else None)"

text \<open>The search among the values that were seen, by length and \<^verbatim>\<open>ngx_strncmp\<close>.\<close>

fun geo_search :: "bytes \<Rightarrow> bytes list \<Rightarrow> nat \<Rightarrow> nat option" where
  "geo_search v [] i = None"
| "geo_search v (w # ws) i = (if length w = length v \<and> cstr w = cstr v then Some i else geo_search v ws (i + 1))"

definition geo_value :: "geo_env \<Rightarrow> bytes \<Rightarrow> geo_ctx \<Rightarrow> (nat \<times> geo_ctx) option" where
  "geo_value ev v ctx =
     (case geo_search v (gx_values ctx) 0 of
        Some i \<Rightarrow> Some (i, ctx)
      | None \<Rightarrow>
          if ge_ok ev (length (gx_values ctx)) then Some (length (gx_values ctx), ctx\<lparr>gx_values := gx_values ctx @ [v]\<rparr>)
          else None)"

text \<open>
  The loop that inserts a network, at most twice; the value found before the deletion is printed in a warning. The first component
  is whether the command succeeds.
\<close>

fun geo_insert :: "nat \<Rightarrow> inet_cidr \<Rightarrow> ngx_uint \<Rightarrow> geo_ctx \<Rightarrow> (bool \<times> geo_ctx) option" where
  "geo_insert 0 cidr p ctx = Some (False, ctx)"
| "geo_insert (Suc i) cidr p ctx =
     Option.bind (ngx_radix32tree_insert (gx_tree ctx) (ci_addr cidr) (ci_mask cidr) p) (\<lambda>(rc, tree).
       let ctx = ctx\<lparr>gx_tree := tree\<rparr> in
       if rc = NGX_OK then Some (True, ctx)
       else if rc = NGX_ERROR then Some (False, ctx)
       else
         Option.bind (ngx_radix32tree_find tree (ci_addr cidr AND ci_mask cidr)) (\<lambda>old.
         Option.bind (deref (gx_values ctx) old) (\<lambda>_.
         Option.bind (ngx_radix32tree_delete tree (ci_addr cidr) (ci_mask cidr)) (\<lambda>(rc, tree).
           let ctx = ctx\<lparr>gx_tree := tree\<rparr> in
           if rc = NGX_ERROR then Some (False, ctx) else geo_insert i cidr p ctx))))"

text \<open>The network of a line, in host order; the inner \<open>None\<close> is an invalid one.\<close>

definition geo_cidr :: "geo_env \<Rightarrow> bytes \<Rightarrow> inet_cidr option option" where
  "geo_cidr ev net =
     (if cstr net = bs ''default'' then Some (Some \<lparr>ci_addr = 0, ci_mask = 0\<rparr>)
      else
        map_option (\<lambda>(rc, c). if rc = NGX_ERROR then None else Some \<lparr>ci_addr = ntohl (ci_addr c), ci_mask = ntohl (ci_mask c)\<rparr>)
          (ngx_ptocidr (ge_inet ev) net \<lparr>ci_addr = 0, ci_mask = 0\<rparr>))"

definition geo_line :: "geo_env \<Rightarrow> bytes \<Rightarrow> bytes \<Rightarrow> geo_ctx \<Rightarrow> (bool \<times> geo_ctx) option" where
  "geo_line ev net v ctx =
     Option.bind (geo_cidr ev net) (\<lambda>c.
       case c of
         None \<Rightarrow> Some (False, ctx)
       | Some cidr \<Rightarrow>
           (case geo_value ev v ctx of
              None \<Rightarrow> Some (False, ctx)
            | Some (i, ctx) \<Rightarrow> geo_insert 2 cidr (of_nat (i + 1)) ctx))"

text \<open>
  \<^verbatim>\<open>ngx_http_geo\<close> for the lines of the block, in order, until one fails. \<open>n\<close> bounds the nesting of included files; beyond it there is no
  result.
\<close>

function ngx_http_geo :: "geo_env \<Rightarrow> nat \<Rightarrow> bytes list list \<Rightarrow> geo_ctx \<Rightarrow> (bool \<times> geo_ctx) option" where
  "ngx_http_geo ev n [] ctx = Some (True, ctx)"
| "ngx_http_geo ev n (args # ls) ctx =
     Option.bind
       (if length args \<noteq> 2 then Some (False, ctx)
        else if cstr (args ! 0) = bs ''include'' then
          (case ge_file ev (args ! 1) of
             None \<Rightarrow> Some (False, ctx)
           | Some ls' \<Rightarrow> if n = 0 then None else ngx_http_geo ev (n - 1) ls' ctx)
        else geo_line ev (args ! 0) (args ! 1) ctx)
       (\<lambda>(ok, ctx). if ok then ngx_http_geo ev n ls ctx else Some (False, ctx))"
  by pat_completeness auto
termination by (relation "measures [\<lambda>(ev, n, ls, ctx). n, \<lambda>(ev, n, ls, ctx). length ls]") auto

text \<open>
  The block. The tree and the pools are created (\<open>ok\<close> for the structures other than the tree); a name without a dollar sign only gives a
  warning. \<open>h\<close> is the handler of this module with the tree that is returned.
\<close>

definition ngx_http_geo_block ::
    "bool \<Rightarrow> geo_env \<Rightarrow> radix_pool \<Rightarrow> 'h \<Rightarrow> nat \<Rightarrow> bytes \<Rightarrow> bytes list list \<Rightarrow> 'h var_conf \<Rightarrow> (bool \<times> geo_ctx option \<times> 'h var_conf) option" where
  "ngx_http_geo_block ok ev pool h n name ls vc =
     (case ngx_http_add_variable True vc (if hd (name @ [0]) = cb (CHR ''$'') then tl name else name) True of
        (None, vc) \<Rightarrow> Some (False, None, vc)
      | (Some v, vc) \<Rightarrow>
          Option.bind (ngx_radix_tree_create True pool None) (\<lambda>tree.
            case tree of
              None \<Rightarrow> Some (False, None, vc)
            | Some tree \<Rightarrow>
                let vc = var_set_get_handler v h vc in
                if \<not> ok then Some (False, None, vc)
                else
                  Option.bind (ngx_http_geo ev n ls \<lparr>gx_tree = tree, gx_values = []\<rparr>) (\<lambda>(rv, ctx).
                  Option.bind (ngx_radix32tree_find (gx_tree ctx) 0) (\<lambda>p.
                    if p \<noteq> NGX_RADIX_NO_VALUE then Some (rv, Some ctx, vc)
                    else
                      Option.bind (ngx_radix32tree_insert (gx_tree ctx) 0 0 0) (\<lambda>(rc, tree).
                        Some (if rc = NGX_ERROR then False else rv, Some (ctx\<lparr>gx_tree := tree\<rparr>), vc))))))"

text \<open>The handler; \<open>None\<close> when the pointer that was found is none to a value.\<close>

definition ngx_http_geo_variable :: "geo_ctx \<Rightarrow> u32 \<Rightarrow> bytes option" where
  "ngx_http_geo_variable ctx s_addr =
     Option.bind (ngx_radix32tree_find (gx_tree ctx) (ntohl s_addr)) (deref (gx_values ctx))"

section \<open>Networks as prefixes\<close>

lemma unat_no_value: "unat NGX_RADIX_NO_VALUE = 2 ^ 64 - 1"
  by (simp add: unsigned_minus_1_eq_mask mask_eq_exp_minus_1)

lemma prefix_path_mask:
  assumes "m \<le> 32" and "\<And>i. i < 32 \<Longrightarrow> bit msk i \<longleftrightarrow> 32 - m \<le> i"
  shows "prefix_path key msk = take m (key_bits key)"
proof -
  have len: "length (prefix_path key msk) = m"
  proof -
    have "k < length (prefix_path key msk) \<longleftrightarrow> k < m" if "k \<le> length (prefix_path key msk)" for k
      using prefix_path_next(1) [OF that] and_bit_at [of msk k] assms(2) [of "31 - k"] assms(1) by (auto simp: and.commute)
    then show ?thesis using length_prefix_path [of key msk] by (metis le_refl less_irrefl linorder_neqE_nat order_less_imp_le)
  qed
  have "prefix_path key msk ! k = key_bits key ! k" if "k < m" for k
    using prefix_path_next(2) [of k key msk] and_bit_at [of key k] that len assms(1) by (simp add: key_bits_def)
  with len show ?thesis using assms(1) by (intro nth_equalityI) auto
qed

lemma key_bits_and: "(\<And>i. i < 32 \<Longrightarrow> bit msk i \<longleftrightarrow> 32 - m \<le> i) \<Longrightarrow> m \<le> 32 \<Longrightarrow> take m (key_bits (key AND msk)) = take m (key_bits key)"
  by (rule nth_equalityI) (auto simp: key_bits_def bit_and_iff)

lemma bit_net_mask: "m \<le> 32 \<Longrightarrow> i < 32 \<Longrightarrow> bit (- (2 ^ (32 - m)) :: u32) i \<longleftrightarrow> 32 - m \<le> i"
  by (simp add: bit_minus_exp_iff)

text \<open>The text of a network, \<open>None\<close> for the default, and the prefix it stands for.\<close>

fun net_text :: "(bytes \<times> nat) option \<Rightarrow> bytes" where
  "net_text None = bs ''default''"
| "net_text (Some (a, m)) = a @ cb (CHR ''/'') # dec_print m"

fun net_path :: "geo_env \<Rightarrow> (bytes \<times> nat) option \<Rightarrow> bool list" where
  "net_path ev None = []"
| "net_path ev (Some (a, m)) = take m (key_bits (ntohl (ge_inet ev a)))"

fun net_ok :: "geo_env \<Rightarrow> (bytes \<times> nat) option \<Rightarrow> bool" where
  "net_ok ev None \<longleftrightarrow> True"
| "net_ok ev (Some (a, m)) \<longleftrightarrow>
     cb (CHR ''/'') \<notin> set a \<and> ge_inet ev a \<noteq> INADDR_NONE \<and> m \<le> 32 \<and> cstr (net_text (Some (a, m))) \<noteq> bs ''default''"

lemma ptocidr_net:
  assumes "47 \<notin> set a" and "inet a \<noteq> INADDR_NONE" and "m \<le> 32"
  shows "\<exists>rc c'. ngx_ptocidr inet (a @ 47 # dec_print m) c = Some (rc, c') \<and> rc \<noteq> NGX_ERROR \<and>
    prefix_path (ntohl (ci_addr c')) (ntohl (ci_mask c')) = take m (key_bits (ntohl (inet a)))"
proof -
  have i: "length (takeWhile (\<lambda>c. c \<noteq> 47) (a @ 47 # dec_print m)) = length a"
    using assms(1) by (subst takeWhile_append2) auto
  have n: "ngx_atoi (dec_print m) = of_nat m" "unat (of_nat m :: ngx_int) = m"
    using atoi_dec_print [of m] unat_of_nat64 [of m] assms(3) by auto
  have ne: "of_nat m \<noteq> NGX_ERROR_VAL"
  proof
    assume "of_nat m = NGX_ERROR_VAL"
    then have "unat (of_nat m :: ngx_int) = 2 ^ 64 - 1" by (simp only: NGX_ERROR_VAL_def unat_no_value)
    with n(2) assms(3) show False by simp
  qed
  have zero: "of_nat m = (0 :: ngx_int) \<longleftrightarrow> m = 0" by (simp only: unat_eq_0 [symmetric] n(2))
  show ?thesis
  proof (cases "m = 0")
    case True
    have "htonl 0 = 0" by (simp add: htonl_def le_bytes_eq)
    then have "prefix_path k (ntohl 0) = []" for k using prefix_path_next(1) [of 0 k 0] by auto
    with True show ?thesis using i n ne zero assms(2) by (simp add: ngx_ptocidr_def Let_def)
  next
    case False
    let ?m = "- (2 ^ (32 - m)) :: u32"
    have "ntohl (inet a AND htonl ?m) = ntohl (inet a) AND ?m" by (simp add: htonl_and)
    then have p: "prefix_path (ntohl w) ?m = take m (key_bits (ntohl (inet a)))" if "w = inet a \<or> w = inet a AND htonl ?m" for w
      using prefix_path_mask [OF assms(3), of ?m] key_bits_and [of ?m m] bit_net_mask [OF assms(3)] assms(3) that by auto
    show ?thesis using False i n ne zero assms(2,3) p by (simp add: ngx_ptocidr_def Let_def)
  qed
qed

lemma geo_cidr_net:
  assumes "net_ok ev net"
  shows "\<exists>c. geo_cidr ev (net_text net) = Some (Some c) \<and> prefix_path (ci_addr c) (ci_mask c) = net_path ev net"
proof (cases net)
  case None
  have "prefix_path 0 0 = []" using prefix_path_next(1) [of 0 0 0] by auto
  then show ?thesis using None by (simp add: geo_cidr_def cstr_def)
next
  case (Some am)
  then obtain a m where net: "net = Some (a, m)" by (cases am) auto
  then obtain rc c' where "ngx_ptocidr (ge_inet ev) (net_text net) \<lparr>ci_addr = 0, ci_mask = 0\<rparr> = Some (rc, c')" "rc \<noteq> NGX_ERROR"
    "prefix_path (ntohl (ci_addr c')) (ntohl (ci_mask c')) = net_path ev net"
    using assms ptocidr_net [of a "ge_inet ev" m "\<lparr>ci_addr = 0, ci_mask = 0\<rparr>"] by auto
  then show ?thesis using assms net
    by (intro exI [of _ "\<lparr>ci_addr = ntohl (ci_addr c'), ci_mask = ntohl (ci_mask c')\<rparr>"]) (simp add: geo_cidr_def)
qed

section \<open>What the tree of a block stands for\<close>

definition geo_map :: "geo_ctx \<Rightarrow> bool list \<Rightarrow> bytes option" where
  "geo_map ctx p = deref (gx_values ctx) (radix_value (gx_tree ctx) p)"

text \<open>Every pointer in the tree is one to a value.\<close>

definition geo_ok :: "geo_ctx \<Rightarrow> bool" where
  "geo_ok ctx \<longleftrightarrow>
     radix_ok (gx_tree ctx) \<and> memory_ok (gx_tree ctx) \<and> branched (gx_tree ctx) \<and> length (gx_values ctx) < 2 ^ 63 \<and>
     (\<forall>p. radix_value (gx_tree ctx) p \<noteq> NGX_RADIX_NO_VALUE \<longrightarrow> deref (gx_values ctx) (radix_value (gx_tree ctx) p) \<noteq> None)"

lemma deref_no_value: "length vs < 2 ^ 63 \<Longrightarrow> deref vs NGX_RADIX_NO_VALUE = None"
  unfolding deref_def unat_no_value by simp

lemma deref_append: "deref vs p = Some v \<Longrightarrow> deref (vs @ [w]) p = Some v"
proof (cases "p = 0")
  case False
  moreover assume "deref vs p = Some v"
  moreover have "0 < unat p" using False by (simp add: unat_gt_0)
  ultimately show ?thesis by (auto simp: deref_def nth_append split: if_splits)
qed (simp add: deref_def)

lemma deref_index:
  assumes "i < length vs" and "length vs < 2 ^ 63"
  shows "deref vs (of_nat (i + 1)) = Some (vs ! i)" and "of_nat (i + 1) \<noteq> NGX_RADIX_NO_VALUE"
proof -
  have u: "unat (of_nat (i + 1) :: ngx_uint) = i + 1" using assms by (intro unat_of_nat64) simp
  then have "of_nat (i + 1) \<noteq> (0 :: ngx_uint)" unfolding unat_eq_0 [symmetric] by simp
  then show "deref vs (of_nat (i + 1)) = Some (vs ! i)" using assms(1) unfolding deref_def u by simp
  show "of_nat (i + 1) \<noteq> NGX_RADIX_NO_VALUE"
  proof
    assume "of_nat (i + 1) = NGX_RADIX_NO_VALUE"
    with u have "i + 1 = 2 ^ 64 - 1" by (simp only: unat_no_value)
    with assms show False by simp
  qed
qed

lemma geo_search_found: "geo_search v ws i = Some j \<Longrightarrow> 0 \<notin> set v \<Longrightarrow> i \<le> j \<and> j < i + length ws \<and> ws ! (j - i) = v"
proof (induction v ws i rule: geo_search.induct)
  case (2 v w ws i)
  have full: "w = v" if "length w = length v" "cstr w = cstr v"
  proof -
    have "cstr v = v" using 2(3) by (auto simp: cstr_def takeWhile_eq_all_conv)
    with that(2) have "takeWhile (\<lambda>c. c \<noteq> 0) w = v" unfolding cstr_def by simp
    with that(1) show ?thesis by (metis takeWhile_eq_take take_all_iff order_refl)
  qed
  show ?case
  proof (cases "length w = length v \<and> cstr w = cstr v")
    case True
    with 2(2) full show ?thesis by auto
  next
    case False
    with 2(1) [OF False] 2(2,3) have *: "i + 1 \<le> j" "j < i + 1 + length ws" "ws ! (j - (i + 1)) = v" by (auto split: if_splits)
    then have "j - i = Suc (j - (i + 1))" by linarith
    with * show ?thesis by simp
  qed
qed simp

lemma geo_value_ok:
  assumes "geo_ok ctx" and "0 \<notin> set v" and "\<And>k. ge_ok ev k" and "length (gx_values ctx) + 1 < 2 ^ 63"
  shows "\<exists>i ctx'. geo_value ev v ctx = Some (i, ctx') \<and> geo_ok ctx' \<and> geo_map ctx' = geo_map ctx \<and>
    i < length (gx_values ctx') \<and> gx_values ctx' ! i = v \<and> length (gx_values ctx') \<le> length (gx_values ctx) + 1"
proof (cases "geo_search v (gx_values ctx) 0")
  case None
  let ?c = "ctx\<lparr>gx_values := gx_values ctx @ [v]\<rparr>" and ?r = "radix_value (gx_tree ctx)"
  have "deref (gx_values ctx @ [v]) (?r p) = deref (gx_values ctx) (?r p)" for p
  proof (cases "?r p = NGX_RADIX_NO_VALUE")
    case True
    with deref_no_value [of "gx_values ctx @ [v]"] deref_no_value [of "gx_values ctx"] assms(1,4) show ?thesis by (simp add: geo_ok_def)
  next
    case False
    with assms(1) obtain w where "deref (gx_values ctx) (?r p) = Some w" by (auto simp: geo_ok_def)
    with deref_append [OF this, of v] show ?thesis by simp
  qed
  with None assms show ?thesis by (intro exI [of _ "length (gx_values ctx)"] exI [of _ ?c]) (auto simp: geo_value_def geo_ok_def geo_map_def)
next
  case (Some i)
  with geo_search_found [OF Some assms(2)] assms(1) show ?thesis by (auto simp: geo_value_def)
qed

lemma prefix_key_bits: "prefix_path key msk = take (length (prefix_path key msk)) (key_bits (key AND msk))"
proof (rule nth_equalityI)
  show "length (prefix_path key msk) = length (take (length (prefix_path key msk)) (key_bits (key AND msk)))"
    using length_prefix_path [of key msk] by simp
next
  fix k
  assume k: "k < length (prefix_path key msk)"
  then have "k < 32" using length_prefix_path [of key msk] by linarith
  moreover have "bit msk (31 - k)" using prefix_path_next(1) [of k key msk] k and_bit_at [of msk k] by (simp add: and.commute)
  ultimately show "prefix_path key msk ! k = take (length (prefix_path key msk)) (key_bits (key AND msk)) ! k"
    using prefix_path_next(2) [of k key msk] k and_bit_at [of key k] by (simp add: key_bits_def bit_and_iff)
qed

lemma geo_insert_ok:
  assumes "geo_ok ctx" and "i < length (gx_values ctx)"
  shows "\<exists>ctx'. geo_insert 2 c (of_nat (i + 1)) ctx = Some (True, ctx') \<and> geo_ok ctx' \<and> gx_values ctx' = gx_values ctx \<and>
    geo_map ctx' = (geo_map ctx)(prefix_path (ci_addr c) (ci_mask c) \<mapsto> gx_values ctx ! i)"
proof -
  let ?P = "prefix_path (ci_addr c) (ci_mask c)" and ?t = "gx_tree ctx" and ?p = "of_nat (i + 1) :: ngx_uint" and ?vs = "gx_values ctx"
  have ok: "radix_ok ?t" "memory_ok ?t" "branched ?t" "length ?vs < 2 ^ 63"
    "\<And>q. radix_value ?t q \<noteq> NGX_RADIX_NO_VALUE \<Longrightarrow> deref ?vs (radix_value ?t q) \<noteq> None"
    using assms(1) by (simp_all add: geo_ok_def)
  note d = deref_index [OF assms(2) ok(4)]
  have ready: "geo_ok (ctx\<lparr>gx_tree := t\<rparr>) \<and> geo_map (ctx\<lparr>gx_tree := t\<rparr>) = (geo_map ctx)(?P \<mapsto> ?vs ! i)"
    if "radix_ok t" "memory_ok t" "branched t" "radix_value t = (radix_value ?t)(?P := ?p)" for t
    using that ok(4,5) d(1) by (auto simp: geo_ok_def geo_map_def)
  obtain rc t1 where t1: "ngx_radix32tree_insert ?t (ci_addr c) (ci_mask c) ?p = Some (rc, t1)" "inserted ?P ?p ?t rc t1"
    using insert_ok [OF ok(1)] by blast
  show ?thesis
  proof (cases "radix_value ?t ?P = NGX_RADIX_NO_VALUE")
    case True
    then have "rc = NGX_OK" "radix_ok t1" "memory_ok t1" "branched t1" "radix_value t1 = (radix_value ?t)(?P := ?p)"
      using t1(2) ok(2,3) by (auto simp: inserted_def)
    with ready [of t1] t1(1) show ?thesis by (auto simp: numeral_2_eq_2)
  next
    case False
    then have busy: "rc = NGX_BUSY" "t1 = ?t" using t1(2) by (simp_all add: inserted_def)
    obtain old where old: "ngx_radix32tree_find ?t (ci_addr c AND ci_mask c) = Some old" "deref ?vs old \<noteq> None"
      using find_ok [OF ok(1), of "ci_addr c AND ci_mask c"] longest_match_value [of "radix_value ?t"] ok(5)
        longest_match_prefix [of "radix_value ?t" "length ?P" "key_bits (ci_addr c AND ci_mask c)"] False prefix_key_bits [of "ci_addr c" "ci_mask c"]
      by (metis (no_types, lifting))
    obtain rc2 t2 where t2: "ngx_radix32tree_delete ?t (ci_addr c) (ci_mask c) = Some (rc2, t2)" "deleted ?P ?t rc2 t2"
      using delete_ok [OF ok(1), of "ci_addr c" "ci_mask c"] ok(3) by blast
    then have t2': "rc2 = NGX_OK" "radix_ok t2" "memory_ok t2" "?P = [] \<Longrightarrow> branched t2"
      "radix_value t2 = (radix_value ?t)(?P := NGX_RADIX_NO_VALUE)"
      using False ok(2,3) by (auto simp: deleted_def)
    obtain rc3 t3 where t3: "ngx_radix32tree_insert t2 (ci_addr c) (ci_mask c) ?p = Some (rc3, t3)" "inserted ?P ?p t2 rc3 t3"
      using insert_ok [OF t2'(2)] by blast
    then have "rc3 = NGX_OK" "radix_ok t3" "memory_ok t3" "branched t3" "radix_value t3 = (radix_value ?t)(?P := ?p)"
      using t2' by (auto simp: inserted_def)
    moreover have "geo_insert 2 c ?p ctx = (if rc3 = NGX_OK then Some (True, ctx\<lparr>gx_tree := t3\<rparr>) else geo_insert 2 c ?p ctx)"
      using t1(1) busy old t2(1) t2'(1) t3(1) by (auto simp: numeral_2_eq_2)
    ultimately show ?thesis using ready [of t3] by auto
  qed
qed

lemma geo_line_ok:
  assumes "geo_ok ctx" and "net_ok ev net" and "0 \<notin> set v" and "\<And>k. ge_ok ev k" and "length (gx_values ctx) + 1 < 2 ^ 63"
  shows "\<exists>ctx'. geo_line ev (net_text net) v ctx = Some (True, ctx') \<and> geo_ok ctx' \<and> geo_map ctx' = (geo_map ctx)(net_path ev net \<mapsto> v) \<and>
    length (gx_values ctx') \<le> length (gx_values ctx) + 1"
proof -
  obtain c where c: "geo_cidr ev (net_text net) = Some (Some c)" "prefix_path (ci_addr c) (ci_mask c) = net_path ev net"
    using geo_cidr_net [OF assms(2)] by blast
  obtain i ctx1 where 1: "geo_value ev v ctx = Some (i, ctx1)" "geo_ok ctx1" "geo_map ctx1 = geo_map ctx" "i < length (gx_values ctx1)"
    "gx_values ctx1 ! i = v" "length (gx_values ctx1) \<le> length (gx_values ctx) + 1"
    using geo_value_ok [OF assms(1,3-5)] by blast
  from geo_insert_ok [OF 1(2,4), of c] c 1 show ?thesis by (auto simp: geo_line_def)
qed

text \<open>The lines of a block with the included files in their places.\<close>

function geo_lines :: "geo_env \<Rightarrow> nat \<Rightarrow> bytes list list \<Rightarrow> (bytes \<times> bytes) list option" where
  "geo_lines ev n [] = Some []"
| "geo_lines ev n (args # ls) =
     (if length args \<noteq> 2 then None
      else
        Option.bind
          (if cstr (args ! 0) = bs ''include''
           then Option.bind (ge_file ev (args ! 1)) (\<lambda>ls'. if n = 0 then None else geo_lines ev (n - 1) ls')
           else Some [(args ! 0, args ! 1)])
          (\<lambda>xs. map_option ((@) xs) (geo_lines ev n ls)))"
  by pat_completeness auto
termination by (relation "measures [\<lambda>(ev, n, ls). n, \<lambda>(ev, n, ls). length ls]") auto

fun geo_all :: "geo_env \<Rightarrow> (bytes \<times> bytes) list \<Rightarrow> geo_ctx \<Rightarrow> (bool \<times> geo_ctx) option" where
  "geo_all ev [] ctx = Some (True, ctx)"
| "geo_all ev ((net, v) # xs) ctx =
     Option.bind (geo_line ev net v ctx) (\<lambda>(ok, ctx). if ok then geo_all ev xs ctx else Some (False, ctx))"

lemma geo_all_append:
  "geo_all ev (xs @ ys) ctx = Option.bind (geo_all ev xs ctx) (\<lambda>(ok, ctx). if ok then geo_all ev ys ctx else Some (False, ctx))"
proof (induction ev xs ctx rule: geo_all.induct)
  case (2 ev net v xs ctx)
  then show ?case by (cases "geo_line ev net v ctx") (auto split: prod.splits)
qed simp

lemma geo_expand: "geo_lines ev n ls = Some xs \<Longrightarrow> ngx_http_geo ev n ls ctx = geo_all ev xs ctx"
proof (induction ev n ls arbitrary: xs ctx rule: geo_lines.induct)
  case (2 ev n args ls)
  show ?case
  proof (cases "cstr (args ! 0) = bs ''include''")
    case True
    then obtain ls' ys zs where y: "length args = 2" "ge_file ev (args ! 1) = Some ls'" "n \<noteq> 0" "geo_lines ev (n - 1) ls' = Some ys"
      "geo_lines ev n ls = Some zs" "xs = ys @ zs"
      using 2(3) by (auto simp: bind_eq_Some_conv split: if_splits)
    have "ngx_http_geo ev (n - 1) ls' ctx = geo_all ev ys ctx" using 2(1) [OF _ True y(2,3,4)] y(1) by simp
    moreover have "ngx_http_geo ev n ls = geo_all ev zs" using 2(2) [OF _ _ y(5), of ys] y(1,2,3,4) True by (intro ext) simp
    ultimately show ?thesis using y True by (cases "geo_all ev ys ctx") (auto simp: geo_all_append)
  next
    case False
    then obtain zs where z: "length args = 2" "geo_lines ev n ls = Some zs" "xs = (args ! 0, args ! 1) # zs"
      using 2(3) by (auto split: if_splits)
    have "ngx_http_geo ev n ls = geo_all ev zs" using 2(2) [OF _ _ z(2), of "[(args ! 0, args ! 1)]"] z(1) False by (intro ext) simp
    with z False show ?thesis by (cases "geo_line ev (args ! 0) (args ! 1) ctx") auto
  qed
qed simp

text \<open>The last line for a network counts.\<close>

definition networks :: "geo_env \<Rightarrow> ((bytes \<times> nat) option \<times> bytes) list \<Rightarrow> bool list \<Rightarrow> bytes option" where
  "networks ev ps = map_of (rev (map (\<lambda>(net, v). (net_path ev net, v)) ps))"

lemma geo_all_ok:
  assumes "geo_ok ctx" and "list_all (\<lambda>(net, v). net_ok ev net \<and> 0 \<notin> set v) ps" and "\<And>k. ge_ok ev k"
    and "length (gx_values ctx) + length ps < 2 ^ 63"
  shows "\<exists>ctx'. geo_all ev (map (\<lambda>(net, v). (net_text net, v)) ps) ctx = Some (True, ctx') \<and> geo_ok ctx' \<and>
    geo_map ctx' = geo_map ctx ++ networks ev ps"
  using assms(1,2,4)
proof (induction ps arbitrary: ctx)
  case (Cons p ps)
  obtain net v where p: "p = (net, v)" by (cases p)
  obtain c1 where c1: "geo_line ev (net_text net) v ctx = Some (True, c1)" "geo_ok c1" "geo_map c1 = (geo_map ctx)(net_path ev net \<mapsto> v)"
    "length (gx_values c1) \<le> length (gx_values ctx) + 1"
    using geo_line_ok [OF Cons.prems(1), of ev net v] Cons.prems(2,3) assms(3) p by auto
  obtain c2 where "geo_all ev (map (\<lambda>(net, v). (net_text net, v)) ps) c1 = Some (True, c2)" "geo_ok c2"
    "geo_map c2 = geo_map c1 ++ networks ev ps"
    using Cons.IH [OF c1(2)] Cons.prems(2,3) c1(4) by auto
  moreover have "geo_map ctx ++ networks ev (p # ps) = geo_map c1 ++ networks ev ps" unfolding c1(3) by (simp add: networks_def p)
  ultimately show ?case using c1(1) p by simp
qed (simp add: networks_def)

section \<open>The most specific network\<close>

fun geo_best :: "(bool list \<Rightarrow> bytes option) \<Rightarrow> bool list \<Rightarrow> bytes option" where
  "geo_best m [] = m []"
| "geo_best m (b # ds) = (case geo_best (\<lambda>p. m (b # p)) ds of None \<Rightarrow> m [] | Some v \<Rightarrow> Some v)"

lemma geo_best_default: "m [] = None \<Longrightarrow> geo_best (m([] \<mapsto> v)) ds = (case geo_best m ds of None \<Rightarrow> Some v | Some w \<Rightarrow> Some w)"
  by (cases ds) (auto split: option.splits)

lemma geo_best_root: "geo_best m ds = None \<Longrightarrow> m [] = None"
  by (cases ds) (auto split: option.splits)

lemma deref_longest_match:
  assumes "length vs < 2 ^ 63" and "\<And>p. m p \<noteq> NGX_RADIX_NO_VALUE \<Longrightarrow> deref vs (m p) \<noteq> None"
  shows "deref vs (longest_match m ds) = geo_best (\<lambda>p. deref vs (m p)) ds"
  using assms(2)
proof (induction ds arbitrary: m)
  case (Cons b ds)
  let ?w = "longest_match (\<lambda>p. m (b # p)) ds"
  have "?w = NGX_RADIX_NO_VALUE \<longleftrightarrow> deref vs ?w = None"
    using deref_no_value [OF assms(1)] longest_match_value [of "\<lambda>p. m (b # p)" ds] Cons.prems by fastforce
  moreover have "deref vs ?w = geo_best (\<lambda>p. deref vs (m (b # p))) ds" using Cons.IH [of "\<lambda>p. m (b # p)"] Cons.prems by simp
  ultimately show ?case by (auto simp: Let_def split: option.splits)
qed simp

lemma geo_variable_best: "geo_ok ctx \<Longrightarrow> ngx_http_geo_variable ctx a = geo_best (geo_map ctx) (key_bits (ntohl a))"
  using deref_longest_match [of "gx_values ctx" "radix_value (gx_tree ctx)" "key_bits (ntohl a)"] find_ok [of "gx_tree ctx" "ntohl a"]
  by (simp add: geo_ok_def geo_map_def [abs_def] ngx_http_geo_variable_def)

lemma geo_find_best:
  assumes "geo_ok ctx"
  shows "\<exists>p. ngx_radix32tree_find (gx_tree ctx) a = Some p \<and> (p = NGX_RADIX_NO_VALUE \<longleftrightarrow> geo_best (geo_map ctx) (key_bits a) = None)"
proof -
  let ?m = "radix_value (gx_tree ctx)"
  have "deref (gx_values ctx) (longest_match ?m (key_bits a)) = geo_best (geo_map ctx) (key_bits a)"
    using deref_longest_match [of "gx_values ctx" ?m] assms by (simp add: geo_ok_def geo_map_def [abs_def])
  moreover have "longest_match ?m (key_bits a) = NGX_RADIX_NO_VALUE \<longleftrightarrow> deref (gx_values ctx) (longest_match ?m (key_bits a)) = None"
    using deref_no_value [of "gx_values ctx"] longest_match_value [of ?m "key_bits a"] assms by (fastforce simp: geo_ok_def)
  ultimately show ?thesis using find_ok [of "gx_tree ctx" a] assms by (auto simp: geo_ok_def)
qed

lemma key_bits_0: "key_bits 0 = replicate 32 False"
  by (rule nth_equalityI) (simp_all add: key_bits_def)

text \<open>The tree of a block: its networks, and the empty value for everything else when nothing was found for 0.0.0.0.\<close>

lemma geo_block_tree:
  assumes pool: "sizeof_node \<le> rp_pagesize pool" "default_preallocate (rp_pagesize pool) \<in> {1..32}" "\<And>k. rp_ok pool k"
    and lines: "geo_lines ev n ls = Some (map (\<lambda>(net, v). (net_text net, v)) ps)" "list_all (\<lambda>(net, v). net_ok ev net \<and> 0 \<notin> set v) ps"
      "length ps < 2 ^ 63" "\<And>k. ge_ok ev k"
    and var: "fst (ngx_http_add_variable True vc (if hd (name @ [0]) = cb (CHR ''$'') then tl name else name) True) \<noteq> None"
  shows "\<exists>ctx vc'. ngx_http_geo_block True ev pool h n name ls vc = Some (True, Some ctx, vc') \<and> geo_ok ctx \<and>
    geo_map ctx = (if geo_best (networks ev ps) (replicate 32 False) = None then (networks ev ps)([] \<mapsto> []) else networks ev ps)"
proof -
  obtain i vc1 where v: "ngx_http_add_variable True vc (if hd (name @ [0]) = cb (CHR ''$'') then tl name else name) True = (Some i, vc1)"
    using var by (cases "ngx_http_add_variable True vc (if hd (name @ [0]) = cb (CHR ''$'') then tl name else name) True") auto
  obtain t where t: "ngx_radix_tree_create True pool None = Some (Some t)" "blank_tree t" "memory_ok t" "branched t"
    using create_ok [OF pool(1), of _ None True] pool(2,3) by (auto simp: created_def)
  have "geo_ok \<lparr>gx_tree = t, gx_values = []\<rparr>" using t by (simp add: geo_ok_def blank_tree_def)
  moreover have "geo_map \<lparr>gx_tree = t, gx_values = []\<rparr> = Map.empty"
    using t deref_no_value [of "[]"] by (auto simp: geo_map_def blank_tree_def)
  ultimately obtain ctx where ctx: "ngx_http_geo ev n ls \<lparr>gx_tree = t, gx_values = []\<rparr> = Some (True, ctx)" "geo_ok ctx" "geo_map ctx = networks ev ps"
    using geo_all_ok [of "\<lparr>gx_tree = t, gx_values = []\<rparr>" ev ps] lines geo_expand [OF lines(1)] by auto
  obtain p where p: "ngx_radix32tree_find (gx_tree ctx) 0 = Some p" "p = NGX_RADIX_NO_VALUE \<longleftrightarrow> geo_best (networks ev ps) (replicate 32 False) = None"
    using geo_find_best [OF ctx(2), of 0] ctx(3) key_bits_0 by auto
  note run = v t(1) ctx(1) p(1)
  show ?thesis
  proof (cases "p = NGX_RADIX_NO_VALUE")
    case False
    with run p(2) ctx(2,3) show ?thesis by (auto simp: ngx_http_geo_block_def Let_def)
  next
    case True
    have "geo_map ctx [] = None" using geo_best_root p(2) True ctx(3) by auto
    then have free: "radix_value (gx_tree ctx) [] = NGX_RADIX_NO_VALUE" using ctx(2) by (auto simp: geo_ok_def geo_map_def)
    have "prefix_path 0 0 = []" using prefix_path_next(1) [of 0 0 0] by auto
    then obtain rc t' where ins: "ngx_radix32tree_insert (gx_tree ctx) 0 0 0 = Some (rc, t')" "inserted [] 0 (gx_tree ctx) rc t'"
      using insert_ok [of "gx_tree ctx" 0 0 0] ctx(2) by (auto simp: geo_ok_def)
    moreover have "deref vs 0 = Some []" for vs by (simp add: deref_def)
    ultimately have "rc = NGX_OK" "geo_ok (ctx\<lparr>gx_tree := t'\<rparr>)" "geo_map (ctx\<lparr>gx_tree := t'\<rparr>) = (geo_map ctx)([] \<mapsto> [])"
      using free ctx(2) by (auto simp: inserted_def geo_ok_def geo_map_def)
    with run ins(1) True p(2) ctx(3) show ?thesis by (simp add: ngx_http_geo_block_def Let_def)
  qed
qed

text \<open>
  C10. For every geo block with a default or without a network that contains 0.0.0.0, whatever files it includes, the variable has
  the value of the most specific network that contains the address of the client, from the last line of the block for that
  network, or the empty value when no network contains it. A block without a default but with a network that contains 0.0.0.0 is
  left out: an address in no network is then looked up as a pointer of -1 (\<open>geo_missing_default\<close>). The lines are well-formed and every
  allocation succeeds.
\<close>

theorem geo_most_specific:
  assumes "sizeof_node \<le> rp_pagesize pool" and "default_preallocate (rp_pagesize pool) \<in> {1..32}" and "\<And>k. rp_ok pool k"
    and "geo_lines ev n ls = Some (map (\<lambda>(net, v). (net_text net, v)) ps)" and "list_all (\<lambda>(net, v). net_ok ev net \<and> 0 \<notin> set v) ps"
    and "length ps < 2 ^ 63" and "\<And>k. ge_ok ev k"
    and "fst (ngx_http_add_variable True vc (if hd (name @ [0]) = cb (CHR ''$'') then tl name else name) True) \<noteq> None"
    and "networks ev ps [] \<noteq> None \<or> geo_best (networks ev ps) (replicate 32 False) = None"
  shows "\<exists>ctx vc'. ngx_http_geo_block True ev pool h n name ls vc = Some (True, Some ctx, vc') \<and>
    (\<forall>a. ngx_http_geo_variable ctx a =
       Some (case geo_best (networks ev ps) (key_bits (ntohl a)) of None \<Rightarrow> [] | Some v \<Rightarrow> v))"
proof -
  obtain ctx vc' where c: "ngx_http_geo_block True ev pool h n name ls vc = Some (True, Some ctx, vc')" "geo_ok ctx"
    "geo_map ctx = (if geo_best (networks ev ps) (replicate 32 False) = None then (networks ev ps)([] \<mapsto> []) else networks ev ps)"
    using geo_block_tree [OF assms(1-8)] by blast
  have "geo_best (geo_map ctx) ds = Some (case geo_best (networks ev ps) ds of None \<Rightarrow> [] | Some v \<Rightarrow> v)" for ds
  proof (cases "geo_best (networks ev ps) (replicate 32 False) = None")
    case True
    then show ?thesis using geo_best_default [of "networks ev ps" "[]" ds] geo_best_root [OF True] c(3) by (simp split: option.splits)
  next
    case False
    then have "geo_best (networks ev ps) ds \<noteq> None" using assms(9) geo_best_root [of "networks ev ps" ds] by metis
    then show ?thesis using False c(3) by auto
  qed
  with c(1,2) geo_variable_best show ?thesis by auto
qed

text \<open>
  Without a default, a network that contains 0.0.0.0 keeps the block from adding the empty value: for a client in no network the handler
  reads through the pointer \<^verbatim>\<open>NGX_RADIX_NO_VALUE\<close>.
\<close>

lemma geo_missing_default:
  assumes "sizeof_node \<le> rp_pagesize pool" and "default_preallocate (rp_pagesize pool) \<in> {1..32}" and "\<And>k. rp_ok pool k"
    and "geo_lines ev n ls = Some (map (\<lambda>(net, v). (net_text net, v)) ps)" and "list_all (\<lambda>(net, v). net_ok ev net \<and> 0 \<notin> set v) ps"
    and "length ps < 2 ^ 63" and "\<And>k. ge_ok ev k"
    and "fst (ngx_http_add_variable True vc (if hd (name @ [0]) = cb (CHR ''$'') then tl name else name) True) \<noteq> None"
    and "geo_best (networks ev ps) (replicate 32 False) \<noteq> None" and "geo_best (networks ev ps) (key_bits (ntohl a)) = None"
  shows "\<exists>ctx vc'. ngx_http_geo_block True ev pool h n name ls vc = Some (True, Some ctx, vc') \<and> ngx_http_geo_variable ctx a = None"
  using geo_block_tree [OF assms(1-8)] geo_variable_best assms(9,10) by (metis (no_types, lifting))

definition example_env :: geo_env where
  "example_env = \<lparr>ge_inet = (\<lambda>a. if a = bs ''10.0.0.0'' then 10 else if a = bs ''10.1.0.0'' then 266 else INADDR_NONE), ge_file = (\<lambda>_. None), ge_ok = (\<lambda>_. True)\<rparr>"


theorem geo_most_specific_witness:
  "\<exists>ctx vc'. ngx_http_geo_block True example_env \<lparr>rp_pagesize = 4096, rp_ok = \<lambda>_. True\<rparr> () 0 (bs ''$geo'')
      [[bs ''default'', bs ''x''], [bs ''10.0.0.0/8'', bs ''y''], [bs ''10.1.0.0/16'', bs ''z'']] \<lparr>vc_keys = [], vc_indexed = []\<rparr> =
      Some (True, Some ctx, vc') \<and> ngx_http_geo_variable ctx (htonl 0x0a010203) = Some (bs ''z'') \<and>
    ngx_http_geo_variable ctx (htonl 0x0a020203) = Some (bs ''y'') \<and> ngx_http_geo_variable ctx (htonl 0x0b010203) = Some (bs ''x'')"
proof -
  let ?pool = "\<lparr>rp_pagesize = 4096, rp_ok = \<lambda>_. True\<rparr>"
  let ?ps = "[(None, bs ''x''), (Some (bs ''10.0.0.0'', 8), bs ''y''), (Some (bs ''10.1.0.0'', 16), bs ''z'')]"
  let ?ls = "[[bs ''default'', bs ''x''], [bs ''10.0.0.0/8'', bs ''y''], [bs ''10.1.0.0/16'', bs ''z'']]"
  let ?vc = "\<lparr>vc_keys = [] :: unit http_variable list, vc_indexed = []\<rparr>"
  have "\<exists>ctx vc'. ngx_http_geo_block True example_env ?pool () 0 (bs ''$geo'') ?ls ?vc = Some (True, Some ctx, vc') \<and>
    (\<forall>a. ngx_http_geo_variable ctx a = Some (case geo_best (networks example_env ?ps) (key_bits (ntohl a)) of None \<Rightarrow> [] | Some v \<Rightarrow> v))"
  proof (rule geo_most_specific)
    show "geo_lines example_env 0 ?ls = Some (map (\<lambda>(net, v). (net_text net, v)) ?ps)" by code_simp
    show "list_all (\<lambda>(net, v). net_ok example_env net \<and> 0 \<notin> set v) ?ps" by code_simp
    show "default_preallocate (rp_pagesize ?pool) \<in> {1..32}" by (simp add: default_preallocate_def)
    show "networks example_env ?ps [] \<noteq> None \<or> geo_best (networks example_env ?ps) (replicate 32 False) = None" by (simp add: networks_def)
  qed (simp_all add: sizeof_node_def example_env_def ngx_http_add_variable_def)
  moreover have "geo_best (networks example_env ?ps) (key_bits (ntohl (htonl 0x0a010203))) = Some (bs ''z'')" by code_simp
  moreover have "geo_best (networks example_env ?ps) (key_bits (ntohl (htonl 0x0a020203))) = Some (bs ''y'')" by code_simp
  moreover have "geo_best (networks example_env ?ps) (key_bits (ntohl (htonl 0x0b010203))) = Some (bs ''x'')" by code_simp
  ultimately show ?thesis by auto
qed

end
