(* ===== verification/Spec2Isabelle.thy ===== *)
theory Spec2Isabelle
  imports Arrayv_Command Httpcheck Rv Small_Modules Mc_Protocal Upstream_Hash Repl Rand List_Item Http_Header_Line Http_Uri Http_Multi_Header Rv2 Geo
begin

text \<open>
  \<^bold>\<open>Verification of ngxmp\<close>

  ngxmp is nginx 0.6.34 (\<^verbatim>\<open>src/c/nginx-0.6.34\<close>) with a set of modules (\<^verbatim>\<open>src/c/ngx_http_*_module\<close>,
  \<^verbatim>\<open>src/c/nginx_upstream_hash-0.2\<close>) and a library of headers they share (\<^verbatim>\<open>src/c/ngx_util\<close>). A module adds
  configuration commands and variables; a request is read by the HTTP parser of nginx, the variables
  are evaluated by handlers the modules registered, and content handlers and upstream modules produce
  the response. This development models the parsers, the string and number routines below them and the modules
  in the terms of the C code, and proves what each of them computes, that its memory accesses
  are in bounds, and where it ends.

  \<^bold>\<open>How C is represented\<close> (\<open>Prelude\<close>): fixed-width integers are words, byte strings are lists of bytes, a cursor into a
  buffer is an offset or the rest of the buffer. A status is a value of \<open>ngx_rc\<close> or \<open>http_parse_rc\<close>. Undefined behaviour
  (an access outside an object, a division by zero, the use of a null pointer) is \<open>None\<close> or an outcome
  of its own, so that a theorem that gives a defined result also excludes it. What the
  environment decides (success of an allocation, the value of \<^verbatim>\<open>random()\<close>, the byte behind a buffer) is an
  argument. Loops whose end is not structural are functions with a measure; loops that may run
  forever, or whose end depends on the shape of the memory, are partial functions with value \<open>None\<close> when they do not return.

  \<^bold>\<open>Theories and sources\<close>
  \<^item> \<open>Ngx_Number\<close>: \<^verbatim>\<open>core/ngx_string.c\<close> (\<^verbatim>\<open>ngx_atoi\<close> and its variants, \<^verbatim>\<open>ngx_hextoi\<close>, \<^verbatim>\<open>ngx_hex_dump\<close>) and
    \<^verbatim>\<open>core/ngx_parse.c\<close>. The exact value modulo the word width, the error cases, round trips.
  \<^item> \<open>Ngx_Codec\<close>: base64, URI and HTML escaping and the UTF-8 reader of \<^verbatim>\<open>core/ngx_string.c\<close>. Round trips,
    the sizes announced to callers, injectivity.
  \<^item> \<open>Ngx_Crc32\<close>: \<^verbatim>\<open>core/ngx_crc32.c\<close> and \<^verbatim>\<open>.h\<close>. Both table driven loops equal the bitwise definition.
  \<^item> \<open>Ngx_Util\<close>: \<^verbatim>\<open>ngx_util/ngx_util.h\<close>. Joining, splitting and unescaping, with the buffer sizes the functions
    compute for themselves.
  \<^item> \<open>Simulation\<close>: the locale \<open>simulation\<close>, an implementation with undefined steps that simulates an abstract
    machine that may choose, and its sublocale \<open>refinement\<close> for a machine that does not; sequences of operations are refined once and for all.
  \<^item> \<open>Arrayv\<close>: \<^verbatim>\<open>ngx_http_arrayv_module\<close>. An array variable is a deque in two growing arrays; it refines a
    list under the operations that keep its invariant (two interpretations of \<open>refinement\<close>). Printing and the format reader.
  \<^item> \<open>Arrayv_Command\<close>: the commands of that module, which add codes to the rewrite programs: what the compiled commands do to an
    array and to a variable, and what they leave as it was.
  \<^item> \<open>Memcached_More\<close>: \<^verbatim>\<open>ngx_http_memcached_more_module\<close>, with the reads of the upstream engine. A reply whose first line has arrived is relayed
    between prefix and suffix, in whatever pieces the rest arrives.
  \<^item> \<open>Httpcheck\<close>: \<^verbatim>\<open>ngx_http_httpcheck_module\<close>, which reads a whole reply in the buffer of the upstream engine. What is found in replies with
    a length, in pieces, and in chunked ones.
  \<^item> \<open>Small_Modules\<close>: the modules \<^verbatim>\<open>vwrite\<close>, \<^verbatim>\<open>time\<close> and \<^verbatim>\<open>empty\<close>: the page that is the value of a variable, the
    variable that is the time (formatted by an argument), and the empty page with the headers against caching.
  \<^item> \<open>Mc_Protocal\<close>: \<^verbatim>\<open>ngx_util/mc_protocal.h\<close>, the memcached parser, as tables of states and a step loop.
  \<^item> \<open>Hash_Util\<close>: \<^verbatim>\<open>ngx_util/ngx_hash_util.h\<close> behind the locale \<open>first_wins_map\<close>, and its client
    \<^verbatim>\<open>ngx_http_usset_module\<close>.
  \<^item> \<open>Variables\<close>: declaration, indexing and cached evaluation of variables (\<^verbatim>\<open>http/ngx_http_variables.c\<close>) behind the
    locale \<open>interning\<close>, interpreted for the two tables of names.
  \<^item> \<open>Upstream_Hash\<close>: \<^verbatim>\<open>nginx_upstream_hash-0.2\<close>. Choice of a peer by hash, the bit vector of failed peers and the
    rehash loop, with the invariant of a request over any number of failures.
  \<^item> \<open>Repl\<close>, \<open>Rand\<close>, \<open>List_Item\<close>: the modules \<^verbatim>\<open>ngx_http_repl_module\<close>, \<^verbatim>\<open>ngx_http_rand_module\<close> and
    \<^verbatim>\<open>ngx_http_list_module\<close>: commands, variable handlers and the content handler, and what they write.
  \<^item> \<open>Http_Request_Line\<close>, \<open>Http_Header_Line\<close>, \<open>Http_Uri\<close>, \<open>Http_Multi_Header\<close>: the five functions of
    \<^verbatim>\<open>http/ngx_http_parse.c\<close>. The state machines are step functions over one byte; the theorems say what a well-formed input gives,
    that a message cut anywhere gives the result of the whole, that no write leaves the buffers, and that
    the URI machine computes the normal form of the decoded path, with the inputs on which it does not named.
  \<^item> \<open>Script\<close>: \<^verbatim>\<open>http/ngx_http_script.c\<close>, the compiler of texts with variables, captures and arguments into a program of
    lengths and a program of values, and their evaluator. What a template expands to, and that the values are as long as the
    lengths program counted.
  \<^item> \<open>Rewrite\<close>: the stack codes of \<^verbatim>\<open>ngx_http_script.c\<close> and \<^verbatim>\<open>http/modules/ngx_http_rewrite_module.c\<close>: all commands, the
    code they produce and the handler that runs it.
  \<^item> \<open>Rewrite_Stack\<close>: a static discipline for the stack of these programs. Every code has an effect on the depth,
    \<open>reaches\<close> is the step relation of the machine, and the programs of all commands keep the stack within its bounds.
  \<^item> \<open>Rv2\<close>: \<^verbatim>\<open>ngx_http_rv2_module\<close>, variables kept on memcached servers, as codes of the rewrite programs. The library of
    the servers is a record of functions. Which server an operation goes to, and that \<^verbatim>\<open>rv_get\<close> asks where
    \<^verbatim>\<open>rv_set\<close> stored.
  \<^item> \<open>Rv\<close>: \<^verbatim>\<open>ngx_http_rv_module\<close>, the first version of remote variables, as handlers of variables over a record of the functions of
    the older library. Reading asks the connection where the value was set; how counters start.
  \<^item> \<open>Radix\<close>: \<^verbatim>\<open>core/ngx_radix_tree.c\<close> on explicit memory, with pages, parent pointers and the free list. Through an interpretation of
    \<open>simulation\<close>, a tree behaves as a map from bit prefixes with lookup by longest match.
  \<^item> \<open>Inet\<close>, \<open>Url\<close>: \<^verbatim>\<open>core/ngx_inet.c\<close>: dotted addresses (round trip), networks, and the parser of URLs with the resolution of
    the host. \<^verbatim>\<open>inet_addr\<close> and \<^verbatim>\<open>gethostbyname\<close> are arguments.
  \<^item> \<open>Geo\<close>: \<^verbatim>\<open>http/modules/ngx_http_geo_module.c\<close>, a client of the three: the variable is the value of the most specific
    network that contains the client. The nesting of included files is bounded by an argument, and deeper ones have no result.

  \<^bold>\<open>Not modelled.\<close> The event loop, the processes, the file and socket calls, OpenSSL and the memory pools are input and output
  or calls into the operating system. The reader of the configuration file, the request phases, the upstream and proxy machinery,
  SSI, mail and the remaining HTTP modules of nginx are not modelled. Log messages are left out
  everywhere. The branches for Windows are not compiled. A get handler of a variable is a function of that variable alone, the slots of the array
  variables are kept apart from the texts of the other variables, and lengths of texts in memory are natural numbers where the code adds
  them up in signed words.
\<close>

section \<open>Locations with remote variables\<close>

text \<open>
  C7. Remote variables and the rewrite module share one stack: a location that mixes their commands in any order and nesting, with a
  stack of at least two values, never takes a value from an empty stack, pushes on a full one or runs past its
  last code, whatever the memcached servers answer and however an operation fails. This is when the array of codes did not move
  while an \<^verbatim>\<open>rv_incr\<close> or \<^verbatim>\<open>rv_decr\<close> was compiled: these two go on to fill their code after they have pushed another one, and when
  that moves the array, the data they fill is the old copy and the program is not balanced (\<open>rv2_directive\<close>).
\<close>

theorem rv2_location_stack_safe:
  assumes "compile_directives pl rx rv ds \<lparr>lc_codes = None, lc_captures = 0\<rparr> vc = Some (True, lcf, vc')" and "pool_ok pl"
    and "list_all (rv2_directive pl unreach rvs) ds"
    and "ngx_http_rewrite_merge_loc_conf True False None stack_size lcf = Some (lcf', n)" and "2 \<le> n"
    and "ev_ext ev = rv2_run ve"
    and "lc_codes lcf' = Some codes" and "rn_sp e0 = []" and "rn_stack e0 = n" and "reaches ev codes e0 ip e"
  shows "\<exists>c ip'. ip = c # ip' \<and> fst (effect rv2_fx c) \<le> length (rn_sp e) \<and>
    length (rn_sp e) - fst (effect rv2_fx c) + snd (effect rv2_fx c) \<le> rn_stack e"
proof -
  have "list_all (directive_ok rv2_fx n) ds"
    using assms(3) rv2_directive_ok [OF assms(5), of pl unreach rvs] unfolding list_all_iff by blast
  then show ?thesis
    using compiled_stack_safe [OF assms(1,2,4,5) _ rv2_ext_effect [OF assms(6)] assms(7-10)] by blast
qed

text \<open>\<^verbatim>\<open>rv_get $b $v;\<close>, after the getter has pushed the value.\<close>

definition demo_rv_dirs :: "(unit, rv2_code) directive list" where
  "demo_rv_dirs = [DCommand (rv2_command (ngx_http_rv2_getter_command demo_pool (\<lambda>_. ()) [demo_rv] [bs ''rv_get'', bs ''$b'', bs ''$v'']))]"

definition demo_rv_codes :: "(unit, rv2_code) code list" where
  "demo_rv_codes =
     [CExt (RvGetter ((blank_op RV_UNKNOWN)\<lparr>od_rv := Some demo_rv, od_vidx := Some 0\<rparr>)), CSetVar 0, CNull]"

definition demo_rv_env :: "rv2_main_conf \<Rightarrow> (unit, rv2_code, demo_servers) rw_env" where
  "demo_rv_env conf =
     \<lparr>ev_gh = demo_handler, ev_nc = \<lambda>_. False, ev_set = \<lambda>_ _ vars. vars, ev_regex = \<lambda>_ _. RNoMatch, ev_file = \<lambda>_. None,
      ev_palloc = \<lambda>_. True, ev_list_push = True, ev_stale = \<lambda>_. null_value, ev_ext = rv2_run (demo_ve conf)\<rparr>"

theorem rv2_location_stack_safe_witness:
  "\<exists>conf e1. reaches (demo_rv_env conf) demo_rv_codes (demo_rv_engine\<lparr>rn_ext := \<lambda>_. Some (bs ''hello'')\<rparr>) (drop 1 demo_rv_codes) e1 \<and>
    rn_sp e1 = [text_val (bs ''hello'')] \<and> 1 \<le> length (rn_sp e1)"
proof -
  let ?e0 = "demo_rv_engine\<lparr>rn_ext := \<lambda>_. Some (bs ''hello'')\<rparr>"
    and ?lcf = "\<lparr>lc_codes = Some (butlast demo_rv_codes), lc_captures = 0\<rparr>"
  obtain mcf conf s where c: "ngx_http_rv2_post_conf True (\<lambda>_. True) demo_ups = (NGX_OK, Some mcf)"
    "ngx_http_rv2_init_proc (ve_mc (demo_ve conf)) mcf (\<lambda>_. None) = Some (NGX_OK, ve_conf (demo_ve conf), s)"
    by (rule demo_conf_started) (simp add: demo_ve_def)
  obtain vars1 where t: "rv2_target (demo_ve conf) demo_rv demo_vars = Some (Inr (bs ''s'', bs ''joe''), vars1)"
    using target_server [OF c(1) demo_ve_ok(2) c(2) demo_ve_ok(1) demo_target_premises] unfolding demo_key by auto
  define e1 where "e1 = (set_vars vars1 ?e0)\<lparr>rn_sp := [text_val (bs ''hello'')]\<rparr>"
  have "code_step (demo_rv_env conf) (hd demo_rv_codes) ?e0 = Some (Skip 0, e1)"
    using t
    by (simp add: demo_rv_codes_def demo_rv_env_def continue_with_def ngx_http_rv2_getter_code_def blank_op_def demo_rv_engine_def
        rv2_get_done_def rv2_push_str_def rv2_push_rc_def push_def demo_ve_def demo_mc_def e1_def set_vars_def Let_def)
  from reaches_next [OF reaches.start this, of "tl demo_rv_codes"]
  have r: "reaches (demo_rv_env conf) demo_rv_codes ?e0 (drop 1 demo_rv_codes) e1"
    by (simp add: demo_rv_codes_def del: code_step.simps)
  have d: "compile_directives demo_pool (\<lambda>_ _. None) (\<lambda>_. ()) demo_rv_dirs \<lparr>lc_codes = None, lc_captures = 0\<rparr> demo_conf =
      Some (True, ?lcf, \<lparr>vc_keys = [\<lparr>var_name = bs ''b'', var_set_handler = None, var_get_handler = Some (), var_changeable = True\<rparr>],
        vc_indexed = [bs ''b'']\<rparr>)"
    by code_simp
  have m: "ngx_http_rewrite_merge_loc_conf True False None None ?lcf = Some (?lcf\<lparr>lc_codes := Some demo_rv_codes\<rparr>, 10)"
    by (simp add: ngx_http_rewrite_merge_loc_conf_def demo_rv_codes_def)
  have p: "list_all (rv2_directive demo_pool (\<lambda>_. ()) [demo_rv]) demo_rv_dirs" "ev_ext (demo_rv_env conf) = rv2_run (demo_ve conf)"
    "rn_sp ?e0 = []" "rn_stack ?e0 = 10"
    by (auto simp: demo_rv_dirs_def demo_rv_env_def demo_rv_engine_def)
  have "1 \<le> length (rn_sp e1)"
    using rv2_location_stack_safe [OF d demo_ok(1) p(1) m _ p(2) _ p(3,4) r] by (simp add: demo_rv_codes_def)
  moreover have "rn_sp e1 = [text_val (bs ''hello'')]" by (simp add: e1_def)
  ultimately show ?thesis using r by blast
qed

end
